(* ===== verification/Prelude.thy ===== *)
theory Prelude
  imports Main "HOL-Library.AList" "HOL-Library.Multiset"
begin

text \<open>
  Vocabulary and automation shared by the component theories.

  \<^item> \<open>('k, 'v) js_map\<close>: a JavaScript \<open>Map\<close>, an association list in insertion order; \<open>set\<close>
    overwrites in place or appends, \<open>delete\<close> removes, iteration follows the list
    (\<open>AList.update\<close>, \<open>AList.delete\<close> and \<open>map_of\<close> of the library);
  \<^item> \<open>instant\<close> and \<open>millis\<close>: \<open>Date.now()\<close> and durations, in milliseconds; every operation
    that reads the clock takes the reading as an argument;
  \<^item> \<open>reach\<close> and the locale \<open>inductive_invariant\<close>: reachable states of a step relation and
    the invariant rule, interpreted by each stateful component;
  \<^item> the collections \<open>js_simps\<close> (container laws) and \<open>wf_intros\<close> (preservation lemmas).
\<close>

named_theorems js_simps "laws of the JavaScript containers"
named_theorems wf_intros "well-formedness preservation, one lemma per operation"

type_synonym ('k, 'v) js_map = "('k \<times> 'v) list"
type_synonym instant = int
type_synonym millis = int
type_synonym ('e, 'a) result = "'e + 'a"

section \<open>JavaScript maps\<close>

abbreviation js_get :: "('k, 'v) js_map \<Rightarrow> 'k \<Rightarrow> 'v option" where
  "js_get \<equiv> map_of"

abbreviation js_set :: "'k \<Rightarrow> 'v \<Rightarrow> ('k, 'v) js_map \<Rightarrow> ('k, 'v) js_map" where
  "js_set \<equiv> AList.update"

abbreviation js_delete :: "'k \<Rightarrow> ('k, 'v) js_map \<Rightarrow> ('k, 'v) js_map" where
  "js_delete \<equiv> AList.delete"

abbreviation js_keys :: "('k, 'v) js_map \<Rightarrow> 'k list" where
  "js_keys m \<equiv> map fst m"

abbreviation js_distinct :: "('k, 'v) js_map \<Rightarrow> bool" where
  "js_distinct m \<equiv> distinct (map fst m)"

lemma js_get_set [js_simps, simp]:
  "js_get (js_set k v m) k' = (if k' = k then Some v else js_get m k')"
  by (simp add: update_conv')

lemma js_get_delete [js_simps, simp]:
  "js_get (js_delete k m) k' = (if k' = k then None else js_get m k')"
  by (simp add: delete_conv')

lemma js_distinct_set [wf_intros, simp]: "js_distinct m \<Longrightarrow> js_distinct (js_set k v m)"
  by (rule distinct_update)

lemma js_distinct_delete [wf_intros, simp]: "js_distinct m \<Longrightarrow> js_distinct (js_delete k m)"
  by (rule distinct_delete)

lemma js_keys_set: "js_keys (js_set k v m) = (if k \<in> set (js_keys m) then js_keys m else js_keys m @ [k])"
  by (induction m) auto

lemma set_js_keys_set [js_simps, simp]: "fst ` set (js_set k v m) = insert k (fst ` set m)"
  using arg_cong [OF js_keys_set, of set k v m] by (auto split: if_splits)

lemma js_keys_delete: "js_keys (js_delete k m) = filter (\<lambda>x. x \<noteq> k) (js_keys m)"
  by (induction m) (auto simp: AList.delete_eq)

lemma set_js_keys_delete [js_simps, simp]: "fst ` set (js_delete k m) = fst ` set m - {k}"
  using arg_cong [OF js_keys_delete, of set k m] by auto

lemma length_js_set:
  "length (js_set k v m) = (if js_get m k = None then Suc (length m) else length m)"
  by (induction m) auto

lemma length_js_delete: "length (js_delete k m) \<le> length m"
  by (simp add: AList.delete_eq)

lemma length_js_delete_mem:
  "js_distinct m \<Longrightarrow> js_get m k \<noteq> None \<Longrightarrow> Suc (length (js_delete k m)) = length m"
proof (induction m)
  case (Cons p m)
  then show ?case
    by (cases "fst p = k") (auto simp: delete_id [of k m])
qed simp

lemma js_get_None_iff: "js_get m k = None \<longleftrightarrow> k \<notin> set (js_keys m)"
  by (simp add: map_of_eq_None_iff)

lemma js_get_Some_mem: "js_distinct m \<Longrightarrow> (k, v) \<in> set m \<Longrightarrow> js_get m k = Some v"
  by simp

lemma js_set_same_length: "js_get m k \<noteq> None \<Longrightarrow> length (js_set k v m) = length m"
  by (simp add: length_js_set)

text \<open>The store interface the clients of a \<open>Map\<close> use, and its interpretation by the list model.\<close>

locale keyed_store =
  fixes get :: "'m \<Rightarrow> 'k \<Rightarrow> 'v option"
    and put :: "'k \<Rightarrow> 'v \<Rightarrow> 'm \<Rightarrow> 'm"
    and remove :: "'k \<Rightarrow> 'm \<Rightarrow> 'm"
    and invar :: "'m \<Rightarrow> bool"
  assumes get_put: "get (put k v m) k' = (if k' = k then Some v else get m k')"
    and get_remove: "get (remove k m) k' = (if k' = k then None else get m k')"
    and invar_put: "invar m \<Longrightarrow> invar (put k v m)"
    and invar_remove: "invar m \<Longrightarrow> invar (remove k m)"
begin

lemma put_frame: "k' \<noteq> k \<Longrightarrow> get (put k v m) k' = get m k'"
  by (simp add: get_put)

lemma remove_absent: "get (remove k m) k = None"
  by (simp add: get_remove)

lemma all_values_put:
  assumes "\<forall>k v. get m k = Some v \<longrightarrow> P k v" and "P k v"
  shows "\<forall>k' v'. get (put k v m) k' = Some v' \<longrightarrow> P k' v'"
  using assms by (auto simp: get_put)

lemma all_values_remove:
  assumes "\<forall>k v. get m k = Some v \<longrightarrow> P k v"
  shows "\<forall>k' v'. get (remove k m) k' = Some v' \<longrightarrow> P k' v'"
  using assms by (auto simp: get_remove)

end

interpretation js_store: keyed_store js_get js_set js_delete js_distinct
  by unfold_locales (auto simp: distinct_update)

section \<open>Reachable states and invariants\<close>

inductive reach :: "('s \<Rightarrow> bool) \<Rightarrow> ('s \<Rightarrow> 's \<Rightarrow> bool) \<Rightarrow> 's \<Rightarrow> bool"
  for initial :: "'s \<Rightarrow> bool" and next_state :: "'s \<Rightarrow> 's \<Rightarrow> bool" where
  reach_initial: "initial s \<Longrightarrow> reach initial next_state s"
| reach_step: "reach initial next_state s \<Longrightarrow> next_state s t \<Longrightarrow> reach initial next_state t"

locale inductive_invariant =
  fixes initial :: "'s \<Rightarrow> bool"
    and next_state :: "'s \<Rightarrow> 's \<Rightarrow> bool"
    and invar :: "'s \<Rightarrow> bool"
  assumes invar_initial: "initial s \<Longrightarrow> invar s"
    and invar_step: "next_state s t \<Longrightarrow> invar s \<Longrightarrow> invar t"
begin

lemma invar_reach: "reach initial next_state s \<Longrightarrow> invar s"
  by (induction rule: reach.induct) (auto intro: invar_initial invar_step)

end

section \<open>Strings\<close>

text \<open>
  A string is a list of characters up to code point 255. \<open>js_trim\<close> is \<open>String.prototype.trim\<close>
  on that range: tab, line feed, vertical tab, form feed, carriage return, space and the
  no-break space are white space.
\<close>

definition is_js_space :: "char \<Rightarrow> bool" where
  "is_js_space c \<longleftrightarrow> of_char c \<in> {9, 10, 11, 12, 13, 32, 160 :: nat}"

definition js_trim :: "string \<Rightarrow> string" where
  "js_trim s = rev (dropWhile is_js_space (rev (dropWhile is_js_space s)))"

fun string_of_nat :: "nat \<Rightarrow> string" where
  "string_of_nat n =
     (if n < 10 then [char_of (48 + n)] else string_of_nat (n div 10) @ [char_of (48 + n mod 10)])"

declare string_of_nat.simps [simp del]

definition string_of_int :: "int \<Rightarrow> string" where
  "string_of_int i = (if i < 0 then ''-'' @ string_of_nat (nat (- i)) else string_of_nat (nat i))"

fun starts_with :: "'a list \<Rightarrow> 'a list \<Rightarrow> bool" where
  "starts_with xs [] = True"
| "starts_with [] (p # ps) = False"
| "starts_with (x # xs) (p # ps) = (x = p \<and> starts_with xs ps)"

definition NUL :: char where
  "NUL = CHR 0x00"

definition lower_char :: "char \<Rightarrow> char" where
  "lower_char c = (let n = (of_char c :: nat) in
     if (n \<ge> 65 \<and> n \<le> 90) \<or> (n \<ge> 192 \<and> n \<le> 222 \<and> n \<noteq> 215) then char_of (n + 32) else c)"

definition js_lower :: "string \<Rightarrow> string" where
  "js_lower = map lower_char"

fun js_includes :: "string \<Rightarrow> string \<Rightarrow> bool" where
  "js_includes [] p = (p = [])"
| "js_includes (x # xs) p = (starts_with (x # xs) p \<or> js_includes xs p)"

lemma starts_with_append [simp]: "starts_with (p @ s) p"
  by (induction p) auto

lemma starts_with_iff: "starts_with xs p \<longleftrightarrow> (\<exists>s. xs = p @ s)"
  by (induction xs p rule: starts_with.induct) auto

text \<open>A separator that occurs in neither component splits a joined string in one way only.\<close>

lemma append_sep_unique:
  "c \<notin> set xs \<Longrightarrow> c \<notin> set ys \<Longrightarrow> xs @ c # zs = ys @ c # ws \<Longrightarrow> xs = ys \<and> zs = ws"
proof (induction xs arbitrary: ys)
  case Nil
  then show ?case by (cases ys) auto
next
  case (Cons x xs)
  then show ?case by (cases ys) auto
qed

text \<open>\<open>String.prototype.split\<close> and \<open>Array.prototype.join\<close> with a one-character separator.\<close>

fun js_split :: "'a \<Rightarrow> 'a list \<Rightarrow> 'a list list" where
  "js_split c [] = [[]]"
| "js_split c (x # xs) =
     (if x = c then [] # js_split c xs
      else case js_split c xs of [] \<Rightarrow> [[x]] | p # ps \<Rightarrow> (x # p) # ps)"

fun js_join :: "'a \<Rightarrow> 'a list list \<Rightarrow> 'a list" where
  "js_join c [] = []"
| "js_join c [p] = p"
| "js_join c (p # q # ps) = p @ c # js_join c (q # ps)"

text \<open>Joining with a longer separator.\<close>

fun join_text :: "string \<Rightarrow> string list \<Rightarrow> string" where
  "join_text sep [] = []"
| "join_text sep [p] = p"
| "join_text sep (p # q # ps) = p @ sep @ join_text sep (q # ps)"

lemma js_split_not_Nil [simp]: "js_split c xs \<noteq> []"
  by (cases xs) (auto split: list.splits)

lemma js_split_piece: "c \<notin> set p \<Longrightarrow> js_split c (p @ c # xs) = p # js_split c xs"
  by (induction p) auto

lemma js_split_last: "c \<notin> set p \<Longrightarrow> js_split c p = [p]"
  by (induction p) auto

lemma js_join_Cons_head: "js_join c ((x # p) # ps) = x # js_join c (p # ps)"
  by (cases ps) auto

lemma js_join_Nil_head: "ps \<noteq> [] \<Longrightarrow> js_join c ([] # ps) = c # js_join c ps"
  by (cases ps) auto

lemma js_join_split [simp]: "js_join c (js_split c xs) = xs"
proof (induction xs)
  case (Cons x xs)
  then show ?case by (cases "js_split c xs") (auto simp: js_join_Cons_head js_join_Nil_head)
qed simp

lemma js_split_pieces: "p \<in> set (js_split c xs) \<Longrightarrow> c \<notin> set p"
  by (induction xs arbitrary: p) (auto split: if_splits list.splits)

lemma js_split_join_append:
  "ss \<noteq> [] \<Longrightarrow> \<forall>s\<in>set ss. c \<notin> set s \<Longrightarrow> js_split c (js_join c ss @ c # xs) = ss @ js_split c xs"
  by (induction c ss rule: js_join.induct) (auto simp: js_split_piece)

lemma js_split_join:
  "ss \<noteq> [] \<Longrightarrow> \<forall>s\<in>set ss. c \<notin> set s \<Longrightarrow> js_split c (js_join c ss) = ss"
  by (induction c ss rule: js_join.induct) (auto simp: js_split_piece js_split_last)

lemma js_join_append:
  "ss \<noteq> [] \<Longrightarrow> ts \<noteq> [] \<Longrightarrow> js_join c (ss @ ts) = js_join c ss @ c # js_join c ts"
  by (induction c ss rule: js_join.induct) (auto simp: neq_Nil_conv)

lemma js_split_append: "js_split c (xs @ c # ys) = js_split c xs @ js_split c ys"
  using js_split_join_append [of "js_split c xs" c ys] js_split_pieces by fastforce

text \<open>A text extends another at a separator exactly when its pieces extend the other's.\<close>

lemma starts_with_split:
  "starts_with (js_split c r) (js_split c b) \<longleftrightarrow> r = b \<or> starts_with r (b @ [c])"
proof
  assume "starts_with (js_split c r) (js_split c b)"
  then obtain t where t: "js_split c r = js_split c b @ t" by (auto simp: starts_with_iff)
  have "r = js_join c (js_split c b @ t)" using t by (metis js_join_split)
  then show "r = b \<or> starts_with r (b @ [c])"
    by (cases "t = []") (auto simp: js_join_append starts_with_iff)
next
  assume "r = b \<or> starts_with r (b @ [c])"
  then show "starts_with (js_split c r) (js_split c b)"
    by (auto simp: starts_with_iff js_split_append)
qed

section \<open>JSON values\<close>

text \<open>
  A value of type \<open>unknown\<close>: a number is an integer or some other number that is never inspected;
  an object lists its own properties. Reading a property of anything but an object gives nothing.
\<close>

datatype json =
    JNull
  | JBool bool
  | JInt int
  | JFrac string
  | JStr string
  | JArr "json list"
  | JObj "(string \<times> json) list"

fun json_field :: "json \<Rightarrow> string \<Rightarrow> json option" where
  "json_field (JObj fs) k = map_of fs k"
| "json_field _ k = None"

text \<open>\<open>String(v)\<close> of a JSON value.\<close>

fun js_string_of :: "json \<Rightarrow> string" where
  "js_string_of JNull = ''null''"
| "js_string_of (JBool b) = (if b then ''true'' else ''false'')"
| "js_string_of (JInt n) = string_of_int n"
| "js_string_of (JFrac s) = s"
| "js_string_of (JStr s) = s"
| "js_string_of (JArr vs) = js_join CHR '','' (map (\<lambda>v. if v = JNull then [] else js_string_of v) vs)"
| "js_string_of (JObj _) = ''[object Object]''"

text \<open>Digits and the numbers they write.\<close>

definition is_digit :: "char \<Rightarrow> bool" where
  "is_digit c \<longleftrightarrow> of_char c \<ge> (48 :: nat) \<and> of_char c \<le> (57 :: nat)"

definition digit_value :: "char \<Rightarrow> int" where
  "digit_value c = (let n = (of_char c :: nat) in
     if n \<le> 57 then int n - 48 else if n \<le> 90 then int n - 55 else int n - 87)"

definition digits_value :: "int \<Rightarrow> string \<Rightarrow> int" where
  "digits_value b ds = foldl (\<lambda>n c. n * b + digit_value c) 0 ds"

text \<open>The uuid pattern of the services, in either case.\<close>

definition is_hex :: "char \<Rightarrow> bool" where
  "is_hex c \<longleftrightarrow> is_digit c \<or> (of_char c :: nat) \<in> {65..70} \<or> (of_char c :: nat) \<in> {97..102}"

definition is_uuid :: "string \<Rightarrow> bool" where
  "is_uuid s \<longleftrightarrow> (let ps = js_split CHR ''-'' s in map length ps = [8, 4, 4, 4, 12] \<and> (\<forall>p\<in>set ps. list_all is_hex p))"

lemma js_lower_length [simp]: "length (js_lower s) = length s"
  by (simp add: js_lower_def)

lemma js_lower_idem [simp]: "js_lower (js_lower s) = js_lower s"
proof -
  have "lower_char (lower_char c) = lower_char c" for c
  proof -
    have "(of_char (char_of (n + 32) :: char) :: nat) = n + 32" if "n \<le> 222" for n using that by (simp add: of_char_of)
    then show ?thesis by (auto simp: lower_char_def Let_def)
  qed
  then show ?thesis by (simp add: js_lower_def)
qed

lemma js_split_map:
  "\<forall>x\<in>set s. f x = c \<longleftrightarrow> x = c \<Longrightarrow> js_split c (map f s) = map (map f) (js_split c s)"
  by (induction s) (auto split: list.splits)

lemma lower_char_facts: "lower_char x = CHR ''-'' \<longleftrightarrow> x = CHR ''-''" "is_hex x \<Longrightarrow> is_hex (lower_char x)"
proof -
  let ?n = "of_char x :: nat"
  have up: "(of_char (char_of (?n + 32) :: char) :: nat) = ?n + 32" if "?n \<le> 222" using that by (simp add: of_char_of)
  have "char_of (?n + 32) \<noteq> CHR ''-''" if "65 \<le> ?n" "?n \<le> 222"
  proof
    assume "char_of (?n + 32) = CHR ''-''"
    then have "?n + 32 = of_char (CHR ''-'')" using up that(2) by metis
    then show False using that(1) by simp
  qed
  then show "lower_char x = CHR ''-'' \<longleftrightarrow> x = CHR ''-''" by (auto simp: lower_char_def Let_def)
  show "is_hex x \<Longrightarrow> is_hex (lower_char x)"
    using up by (auto simp: is_hex_def is_digit_def lower_char_def Let_def)
qed

lemma js_lower_uuid: "is_uuid s \<Longrightarrow> is_uuid (js_lower s)"
proof -
  assume u: "is_uuid s"
  have split: "js_split CHR ''-'' (js_lower s) = map (map lower_char) (js_split CHR ''-'' s)"
    unfolding js_lower_def by (rule js_split_map) (simp add: lower_char_facts(1))
  show "is_uuid (js_lower s)"
    using u unfolding is_uuid_def Let_def split by (auto simp: list_all_iff comp_def lower_char_facts(2))
qed

lemma of_char_digit: "n < 10 \<Longrightarrow> (of_char (char_of (48 + n) :: char) :: nat) = 48 + n"
  by (simp add: of_char_of)

lemma digit_value_of: "n < 10 \<Longrightarrow> digit_value (char_of (48 + n)) = int n"
  by (simp add: digit_value_def of_char_digit)

lemma string_of_nat_digits: "list_all is_digit (string_of_nat n) \<and> string_of_nat n \<noteq> []"
proof (induction n rule: string_of_nat.induct)
  case (1 n)
  have "is_digit (char_of (48 + n mod 10))" by (simp add: is_digit_def of_char_digit)
  moreover have "n < 10 \<Longrightarrow> is_digit (char_of (48 + n))" by (simp add: is_digit_def of_char_digit)
  ultimately show ?case using 1 by (simp add: string_of_nat.simps [of n])
qed

lemma string_of_nat_value: "digits_value 10 (string_of_nat n) = int n"
proof (induction n rule: string_of_nat.induct)
  case (1 n)
  then show ?case
    by (cases "n < 10") (simp_all add: string_of_nat.simps [of n] digits_value_def digit_value_of zdiv_int zmod_int)
qed

lemma string_of_int_of_nat: "string_of_int (int n) = string_of_nat n"
  by (simp add: string_of_int_def)

lemma string_of_nat_inj: "string_of_nat n = string_of_nat m \<longleftrightarrow> n = m"
  by (metis string_of_nat_value of_nat_eq_iff)

section \<open>Lists and options\<close>

text \<open>The first complaint of a check along a list.\<close>

fun first_error :: "('a \<Rightarrow> 'e option) \<Rightarrow> 'a list \<Rightarrow> 'e option" where
  "first_error f [] = None"
| "first_error f (x # xs) = (case f x of Some e \<Rightarrow> Some e | None \<Rightarrow> first_error f xs)"

lemma first_error_None: "first_error f xs = None \<longleftrightarrow> (\<forall>x\<in>set xs. f x = None)"
  by (induction xs) (auto split: option.splits)

lemma fold_invariant_on:
  assumes "P s" and "\<And>x s. x \<in> set xs \<Longrightarrow> P s \<Longrightarrow> P (f x s)"
  shows "P (fold f xs s)"
  using assms by (induction xs arbitrary: s) auto

lemma find_Some_filter: "find P xs = (case filter P xs of [] \<Rightarrow> None | x # _ \<Rightarrow> Some x)"
  by (induction xs) auto

lemma find_SomeD: "find P xs = Some x \<Longrightarrow> x \<in> set xs \<and> P x"
  by (induction xs) (auto split: if_splits)

text \<open>Removing an entry from a list of pairs with distinct keys removes exactly its key.\<close>

lemma distinct_keys_remove1: "distinct (map fst xs) \<Longrightarrow> distinct (map fst (remove1 r xs))"
proof (induction xs)
  case (Cons x xs)
  then show ?case using set_remove1_subset [of r xs] by (auto simp: image_iff)
qed simp

lemma keys_remove1:
  "distinct (map fst xs) \<Longrightarrow> (k, v) \<in> set xs \<Longrightarrow> fst ` set (remove1 (k, v) xs) = fst ` set xs - {k}"
  by (induction xs) (auto simp: image_iff)

lemma mset_insort_key [simp]: "mset (insort_key f x xs) = add_mset x (mset xs)"
  by (induction xs) auto

end
