(* ===== verification/TaskTypes.thy ===== *)
theory TaskTypes
  imports Prelude
begin

text \<open>
  Data of the task pipeline: \<open>mcp-host/src/queue/types.ts\<close>, \<open>mcp-host/src/lifecycle/types.ts\<close>
  and the fields of \<open>IncomingMessage\<close>, \<open>Attachment\<close> and \<open>BudgetVerdict\<close> the pipeline reads.
  Optional fields are options; \<open>Date\<close> is an \<open>instant\<close>. A response callback is a function value
  that the pipeline only carries, so the task record leaves it out.
\<close>

section \<open>Messages and tasks\<close>

datatype task_status = Pending | Processing | WaitingApproval | Completed | Failed | Cancelled

datatype task_priority = Low | Normal | High | Urgent

datatype task_source = FromChannel | FromCron | FromInternal

record task_error =
  te_code :: string
  te_message :: string
  te_retryable :: bool
  te_provider :: string
  te_httpStatus :: "int option"
  te_providerCode :: "string option"

record attachment =
  att_id :: string
  att_mimeType :: string
  att_dataBase64 :: string

record trace_context =
  tc_runId :: string
  tc_sessionId :: "string option"
  tc_origin :: string
  tc_correlationRefs :: "string list"

record incoming_message =
  im_content :: string
  im_channelType :: string
  im_channelId :: string
  im_sender :: string
  im_timestamp :: instant
  im_messageId :: string
  im_hostRef :: string
  im_threadId :: "string option"
  im_attachments :: "attachment list option"
  im_fileReferenceIds :: "string list option"
  im_traceContext :: "trace_context option"

datatype message_role = SystemRole | UserRole | AssistantRole | ToolRole

record conversation_message =
  cm_role :: message_role
  cm_content :: string
  cm_timestamp :: instant

record budget_verdict =
  bv_allowed :: bool
  bv_reason :: "string option"
  bv_maxTaskTokens :: "int option"
  bv_maxTaskCost :: "int option"
  bv_unpriced :: "(string \<times> string) list"

record task =
  tk_id :: string
  tk_source :: task_source
  tk_sourceMessage :: "incoming_message option"
  tk_traceContext :: "trace_context option"
  tk_priority :: task_priority
  tk_status :: task_status
  tk_conversationHistory :: "conversation_message list"
  tk_createdAt :: instant
  tk_startedAt :: "instant option"
  tk_completedAt :: "instant option"
  tk_response :: "string option"
  tk_error :: "task_error option"
  tk_cronJobId :: "string option"
  tk_budgetVerdict :: "budget_verdict option"

section \<open>Transitions\<close>

datatype canonical_reason =
    Created | Dispatched | UserRequested | SystemShutdown | ApprovalTimeout | Natural
  | DeniedByUser | ErrorReason string

definition is_terminal :: "task_status \<Rightarrow> bool" where
  "is_terminal s \<longleftrightarrow> s \<in> {Completed, Failed, Cancelled}"

fun legal_transitions :: "task_status \<Rightarrow> task_status set" where
  "legal_transitions Pending = {Processing, Cancelled}"
| "legal_transitions Processing = {WaitingApproval, Completed, Failed, Cancelled}"
| "legal_transitions WaitingApproval = {Processing, Completed, Cancelled}"
| "legal_transitions Completed = {}"
| "legal_transitions Failed = {}"
| "legal_transitions Cancelled = {}"

record transition =
  tr_from :: "task_status option"
  tr_to :: task_status
  tr_reason :: canonical_reason
  tr_at :: instant

record task_record =
  rec_id :: string
  rec_status :: task_status
  rec_reason :: "canonical_reason option"
  rec_history :: "transition list"
  rec_submittedBy :: "string option"
  rec_submittedChannelType :: "string option"
  rec_submittedChannelId :: "string option"
  rec_acceptedAttachmentIds :: "string list"
  rec_acceptedFileReferenceIds :: "string list"
  rec_traceContext :: "trace_context option"
  rec_createdAt :: instant
  rec_dispatchedAt :: "instant option"
  rec_terminalAt :: "instant option"
  rec_error :: "task_error option"
  rec_response :: "string option"
  rec_attachments :: "attachment list option"

definition MAX_HISTORY_PER_TASK :: nat where
  "MAX_HISTORY_PER_TASK = 20"

datatype transition_outcome =
    Applied "task_status option" task_status canonical_reason
  | AlreadyTerminal task_status
  | Illegal task_status task_status
  | NotFound

record transition_payload =
  tp_error :: "task_error option"
  tp_response :: "string option"
  tp_attachments :: "attachment list option"

record transition_event =
  ev_taskId :: string
  ev_from :: "task_status option"
  ev_to :: task_status
  ev_reason :: canonical_reason
  ev_at :: instant
  ev_payload :: transition_payload

record lifecycle_stats =
  ls_pending :: nat
  ls_processing :: nat
  ls_completed :: nat
  ls_failed :: nat
  ls_cancelled :: nat
  ls_total :: nat

definition no_payload :: transition_payload where
  "no_payload = \<lparr>tp_error = None, tp_response = None, tp_attachments = None\<rparr>"

lemma is_terminal_simps [simp]:
  "\<not> is_terminal Pending" "\<not> is_terminal Processing" "\<not> is_terminal WaitingApproval"
  "is_terminal Completed" "is_terminal Failed" "is_terminal Cancelled"
  by (simp_all add: is_terminal_def)

lemma legal_from_terminal [simp]: "is_terminal s \<Longrightarrow> legal_transitions s = {}"
  by (cases s) auto

lemma cancel_is_legal [simp]: "\<not> is_terminal s \<Longrightarrow> Cancelled \<in> legal_transitions s"
  by (cases s) auto

lemma legal_not_pending: "t \<in> legal_transitions s \<Longrightarrow> t \<noteq> Pending"
  by (cases s) auto

lemma legal_irreflexive [simp]: "s \<notin> legal_transitions s"
  by (cases s) auto

end
