(* ===== verification/TaskLifecycle.thy ===== *)
theory TaskLifecycle
  imports TaskTypes
begin

text \<open>
  \<open>mcp-host/src/lifecycle/taskLifecycle.ts\<close>: the single writer of task states. Every method
  takes the clock reading it makes and returns the new state with the events it emits, in order:
  transition events as a list, evictions as the list of evicted ids.
\<close>

record lifecycle =
  lc_records :: "(string, task_record) js_map"
  lc_lastCleanupAt :: instant

definition TERMINAL_RECORD_TTL_MS :: millis where
  "TERMINAL_RECORD_TTL_MS = 5 * 60 * 1000"

definition CLEANUP_DEBOUNCE_MS :: millis where
  "CLEANUP_DEBOUNCE_MS = 30000"

definition empty_lifecycle :: lifecycle where
  "empty_lifecycle = \<lparr>lc_records = [], lc_lastCleanupAt = 0\<rparr>"

section \<open>Operations\<close>

definition new_record :: "task \<Rightarrow> instant \<Rightarrow> task_record" where
  "new_record task now = \<lparr>
     rec_id = tk_id task,
     rec_status = Pending,
     rec_reason = None,
     rec_history = [\<lparr>tr_from = None, tr_to = Pending, tr_reason = Created, tr_at = now\<rparr>],
     rec_submittedBy = map_option im_sender (tk_sourceMessage task),
     rec_submittedChannelType = map_option im_channelType (tk_sourceMessage task),
     rec_submittedChannelId = map_option im_channelId (tk_sourceMessage task),
     rec_acceptedAttachmentIds =
       (case Option.bind (tk_sourceMessage task) im_attachments of
          None \<Rightarrow> [] | Some as \<Rightarrow> map att_id as),
     rec_acceptedFileReferenceIds =
       (case Option.bind (tk_sourceMessage task) im_fileReferenceIds of
          None \<Rightarrow> [] | Some rs \<Rightarrow> rs),
     rec_traceContext = tk_traceContext task,
     rec_createdAt = now,
     rec_dispatchedAt = None,
     rec_terminalAt = None,
     rec_error = None,
     rec_response = None,
     rec_attachments = None\<rparr>"

definition register :: "task \<Rightarrow> instant \<Rightarrow> lifecycle \<Rightarrow> lifecycle \<times> transition_event list" where
  "register task now l =
     (case js_get (lc_records l) (tk_id task) of
        Some _ \<Rightarrow> (l, [])
      | None \<Rightarrow>
          (l\<lparr>lc_records := js_set (tk_id task) (new_record task now) (lc_records l)\<rparr>,
           [\<lparr>ev_taskId = tk_id task, ev_from = None, ev_to = Pending, ev_reason = Created,
             ev_at = now, ev_payload = no_payload\<rparr>]))"

text \<open>The history is appended, then shifted once when it exceeds the cap.\<close>

definition push_history :: "transition \<Rightarrow> transition list \<Rightarrow> transition list" where
  "push_history t h =
     (let h' = h @ [t] in if length h' > MAX_HISTORY_PER_TASK then tl h' else h')"

definition apply_transition ::
  "task_status \<Rightarrow> canonical_reason \<Rightarrow> transition_payload \<Rightarrow> instant \<Rightarrow> task_record \<Rightarrow> task_record" where
  "apply_transition to reason payload now r = r\<lparr>
     rec_status := to,
     rec_reason := Some reason,
     rec_dispatchedAt :=
       (if to = Processing \<and> rec_dispatchedAt r = None then Some now else rec_dispatchedAt r),
     rec_terminalAt := (if is_terminal to then Some now else rec_terminalAt r),
     rec_error := (case tp_error payload of None \<Rightarrow> rec_error r | Some e \<Rightarrow> Some e),
     rec_response := (case tp_response payload of None \<Rightarrow> rec_response r | Some x \<Rightarrow> Some x),
     rec_attachments :=
       (case tp_attachments payload of None \<Rightarrow> rec_attachments r | Some x \<Rightarrow> Some x),
     rec_history :=
       push_history \<lparr>tr_from = Some (rec_status r), tr_to = to, tr_reason = reason, tr_at = now\<rparr>
         (rec_history r)\<rparr>"

definition transition_task ::
  "string \<Rightarrow> task_status \<Rightarrow> canonical_reason \<Rightarrow> transition_payload \<Rightarrow> instant \<Rightarrow> lifecycle \<Rightarrow>
   lifecycle \<times> transition_outcome \<times> transition_event list" where
  "transition_task taskId to reason payload now l =
     (case js_get (lc_records l) taskId of
        None \<Rightarrow> (l, NotFound, [])
      | Some r \<Rightarrow>
          (let from = rec_status r in
           if is_terminal from then (l, AlreadyTerminal from, [])
           else if to \<notin> legal_transitions from then (l, Illegal from to, [])
           else (l\<lparr>lc_records := js_set taskId (apply_transition to reason payload now r) (lc_records l)\<rparr>,
                 Applied (Some from) to reason,
                 [\<lparr>ev_taskId = taskId, ev_from = Some from, ev_to = to, ev_reason = reason,
                   ev_at = now, ev_payload = payload\<rparr>])))"

text \<open>
  \<open>drainNonTerminal\<close> walks the map in insertion order. A transition overwrites a value in place,
  so the walk visits the keys the map had at the start.
\<close>

fun drain_keys ::
  "string list \<Rightarrow> instant \<Rightarrow> lifecycle \<Rightarrow> lifecycle \<times> nat \<times> transition_event list" where
  "drain_keys [] now l = (l, 0, [])"
| "drain_keys (k # ks) now l =
     (case js_get (lc_records l) k of
        None \<Rightarrow> drain_keys ks now l
      | Some r \<Rightarrow>
          if is_terminal (rec_status r) then drain_keys ks now l
          else
            (let (l', outcome, evs) = transition_task (rec_id r) Cancelled SystemShutdown no_payload now l;
                 (l'', n, evs') = drain_keys ks now l'
             in (l'', (case outcome of Applied _ _ _ \<Rightarrow> Suc n | _ \<Rightarrow> n), evs @ evs')))"

definition drain_non_terminal :: "instant \<Rightarrow> lifecycle \<Rightarrow> lifecycle \<times> nat \<times> transition_event list" where
  "drain_non_terminal now l = drain_keys (js_keys (lc_records l)) now l"

definition is_stale :: "instant \<Rightarrow> task_record \<Rightarrow> bool" where
  "is_stale now r =
     (case rec_terminalAt r of None \<Rightarrow> False | Some t \<Rightarrow> now - t > TERMINAL_RECORD_TTL_MS)"

definition cleanup_stale_records :: "instant \<Rightarrow> lifecycle \<Rightarrow> lifecycle \<times> string list" where
  "cleanup_stale_records now l =
     (if now - lc_lastCleanupAt l < CLEANUP_DEBOUNCE_MS then (l, [])
      else (l\<lparr>lc_lastCleanupAt := now,
              lc_records := filter (\<lambda>(_, r). \<not> is_stale now r) (lc_records l)\<rparr>,
            map fst (filter (\<lambda>(_, r). is_stale now r) (lc_records l))))"

definition get_record :: "string \<Rightarrow> instant \<Rightarrow> lifecycle \<Rightarrow> lifecycle \<times> task_record option \<times> string list" where
  "get_record taskId now l =
     (let (l', evicted) = cleanup_stale_records now l
      in (l', js_get (lc_records l') taskId, evicted))"

definition is_terminal_task :: "string \<Rightarrow> instant \<Rightarrow> lifecycle \<Rightarrow> lifecycle \<times> bool \<times> string list" where
  "is_terminal_task taskId now l =
     (let (l', evicted) = cleanup_stale_records now l
      in (l', (case js_get (lc_records l') taskId of None \<Rightarrow> False | Some r \<Rightarrow> is_terminal (rec_status r)),
          evicted))"

definition get_status :: "string \<Rightarrow> instant \<Rightarrow> lifecycle \<Rightarrow> lifecycle \<times> task_status option \<times> string list" where
  "get_status taskId now l =
     (let (l', evicted) = cleanup_stale_records now l
      in (l', map_option rec_status (js_get (lc_records l') taskId), evicted))"

definition count_record :: "lifecycle_stats \<Rightarrow> task_record \<Rightarrow> lifecycle_stats" where
  "count_record s r =
     (let s1 = s\<lparr>ls_total := ls_total s + 1\<rparr>
      in case rec_status r of
           Pending \<Rightarrow> s1\<lparr>ls_pending := ls_pending s1 + 1\<rparr>
         | Processing \<Rightarrow> s1\<lparr>ls_processing := ls_processing s1 + 1\<rparr>
         | WaitingApproval \<Rightarrow> s1\<lparr>ls_processing := ls_processing s1 + 1\<rparr>
         | Completed \<Rightarrow> s1\<lparr>ls_completed := ls_completed s1 + 1\<rparr>
         | Failed \<Rightarrow> s1\<lparr>ls_failed := ls_failed s1 + 1\<rparr>
         | Cancelled \<Rightarrow> s1\<lparr>ls_cancelled := ls_cancelled s1 + 1\<rparr>)"

definition get_stats :: "instant \<Rightarrow> lifecycle \<Rightarrow> lifecycle \<times> lifecycle_stats \<times> string list" where
  "get_stats now l =
     (let (l', evicted) = cleanup_stale_records now l
      in (l', foldl count_record
                \<lparr>ls_pending = 0, ls_processing = 0, ls_completed = 0, ls_failed = 0,
                 ls_cancelled = 0, ls_total = 0\<rparr> (map snd (lc_records l')),
          evicted))"

section \<open>Well-formed records\<close>

text \<open>
  A record is well formed when its history is a chain of legal transitions that ends in its
  status and never exceeds the cap, its terminal time is set exactly in terminal states, and a
  task that has run was dispatched.
\<close>

fun legal_chain :: "transition list \<Rightarrow> bool" where
  "legal_chain [] = True"
| "legal_chain [t] = True"
| "legal_chain (t # u # h) =
     (tr_from u = Some (tr_to t) \<and> tr_to u \<in> legal_transitions (tr_to t) \<and> legal_chain (u # h))"

definition record_wf :: "task_record \<Rightarrow> bool" where
  "record_wf r \<longleftrightarrow>
     rec_history r \<noteq> [] \<and> length (rec_history r) \<le> MAX_HISTORY_PER_TASK \<and>
     legal_chain (rec_history r) \<and> tr_to (last (rec_history r)) = rec_status r \<and>
     (rec_terminalAt r \<noteq> None) = is_terminal (rec_status r) \<and>
     (rec_status r \<in> {Processing, WaitingApproval, Completed, Failed} \<longrightarrow> rec_dispatchedAt r \<noteq> None)"

definition lc_wf :: "lifecycle \<Rightarrow> bool" where
  "lc_wf l \<longleftrightarrow> js_distinct (lc_records l) \<and>
     (\<forall>k r. js_get (lc_records l) k = Some r \<longrightarrow> rec_id r = k \<and> record_wf r)"

lemma legal_chain_snoc:
  "h \<noteq> [] \<Longrightarrow> legal_chain (h @ [t]) =
     (legal_chain h \<and> tr_from t = Some (tr_to (last h)) \<and> tr_to t \<in> legal_transitions (tr_to (last h)))"
  by (induction h rule: legal_chain.induct) auto

lemma legal_chain_tl: "legal_chain h \<Longrightarrow> legal_chain (tl h)"
  by (cases h rule: legal_chain.cases) auto

lemma push_history_nonempty [simp]: "push_history t h \<noteq> []"
proof (cases h)
  case (Cons x xs)
  then show ?thesis by (simp add: push_history_def Let_def)
qed (simp add: push_history_def Let_def MAX_HISTORY_PER_TASK_def)

lemma push_history_last [simp]: "last (push_history t h) = t"
  by (cases h) (auto simp: push_history_def Let_def MAX_HISTORY_PER_TASK_def)

lemma push_history_length:
  "length h \<le> MAX_HISTORY_PER_TASK \<Longrightarrow> length (push_history t h) \<le> MAX_HISTORY_PER_TASK"
  by (simp add: push_history_def Let_def)

lemma push_history_chain:
  assumes "h \<noteq> []" and "legal_chain h"
    and "tr_from t = Some (tr_to (last h))" and "tr_to t \<in> legal_transitions (tr_to (last h))"
  shows "legal_chain (push_history t h)"
  using assms legal_chain_tl [of "h @ [t]"] by (simp add: push_history_def Let_def legal_chain_snoc)

lemma new_record_wf: "record_wf (new_record task now)"
  by (simp add: record_wf_def new_record_def MAX_HISTORY_PER_TASK_def)

lemma apply_transition_wf:
  assumes "record_wf r" and "to \<in> legal_transitions (rec_status r)"
  shows "record_wf (apply_transition to reason payload now r)"
proof -
  have nt: "\<not> is_terminal (rec_status r)" using assms(2) by auto
  then have ta: "rec_terminalAt r = None" using assms(1) by (simp add: record_wf_def)
  have d: "to \<in> {WaitingApproval, Completed, Failed} \<Longrightarrow> rec_dispatchedAt r \<noteq> None"
    using assms by (cases "rec_status r") (auto simp: record_wf_def)
  show ?thesis
    using assms ta d
    by (auto simp: record_wf_def apply_transition_def push_history_length intro!: push_history_chain)
qed

lemma apply_transition_sel [simp]:
  "rec_id (apply_transition to reason payload now r) = rec_id r"
  "rec_status (apply_transition to reason payload now r) = to"
  by (simp_all add: apply_transition_def)

lemma new_record_sel [simp]:
  "rec_id (new_record task now) = tk_id task" "rec_status (new_record task now) = Pending"
  by (simp_all add: new_record_def)

lemma lc_wfD:
  assumes "lc_wf l" and "js_get (lc_records l) k = Some r"
  shows "rec_id r = k" and "record_wf r"
  using assms by (auto simp: lc_wf_def)

lemma lc_wf_put:
  assumes "lc_wf l" and "record_wf r" and "rec_id r = k"
  shows "lc_wf (l\<lparr>lc_records := js_set k r (lc_records l)\<rparr>)"
  using assms by (auto simp: lc_wf_def split: if_splits)

lemma empty_lifecycle_wf [simp]: "lc_wf empty_lifecycle"
  by (simp add: lc_wf_def empty_lifecycle_def)

lemma register_wf [wf_intros]: "lc_wf l \<Longrightarrow> lc_wf (fst (register task now l))"
  by (auto simp: register_def new_record_wf intro!: lc_wf_put split: option.splits)

lemma transition_task_wf [wf_intros]:
  "lc_wf l \<Longrightarrow> lc_wf (fst (transition_task k to reason payload now l))"
  by (auto simp: transition_task_def Let_def intro!: lc_wf_put apply_transition_wf
      dest: lc_wfD split: option.splits)

lemma drain_keys_wf: "lc_wf l \<Longrightarrow> lc_wf (fst (drain_keys ks now l))"
proof (induction ks now l rule: drain_keys.induct)
  case (2 k ks now l)
  show ?case
  proof (cases "js_get (lc_records l) k")
    case (Some r)
    with "2.IH"(2) [OF Some] "2.IH"(3) [OF Some] "2.prems" show ?thesis
      using transition_task_wf [OF "2.prems", of "rec_id r" Cancelled SystemShutdown no_payload now]
      by (auto simp: Let_def split: prod.splits)
  qed (use "2.IH"(1) "2.prems" in auto)
qed auto

lemma js_get_filter_values:
  "js_distinct m \<Longrightarrow> js_get (filter (\<lambda>(_, r). P r) m) k =
     (case js_get m k of None \<Rightarrow> None | Some r \<Rightarrow> if P r then Some r else None)"
  by (induction m) (auto split: option.splits simp: map_of_eq_None_iff image_iff)

lemma js_distinct_filter: "js_distinct m \<Longrightarrow> js_distinct (filter P m)"
  by (rule distinct_map_filter)

lemma cleanup_wf [wf_intros]: "lc_wf l \<Longrightarrow> lc_wf (fst (cleanup_stale_records now l))"
  by (auto simp: cleanup_stale_records_def lc_wf_def js_get_filter_values js_distinct_filter
      split: option.splits if_splits)

section \<open>Runs of the lifecycle and their event log\<close>

text \<open>
  One call of the service, and a run of calls. The log interleaves the transition events with
  the evictions in the order the listeners receive them.
\<close>

datatype lifecycle_call =
    RegisterCall task
  | TransitionCall string task_status canonical_reason transition_payload
  | DrainCall
  | ReadCall

datatype log_entry = Emitted transition_event | Evicted string

fun lifecycle_step :: "lifecycle_call \<times> instant \<Rightarrow> lifecycle \<Rightarrow> lifecycle \<times> log_entry list" where
  "lifecycle_step (RegisterCall t, now) l =
     (fst (register t now l), map Emitted (snd (register t now l)))"
| "lifecycle_step (TransitionCall k to reason payload, now) l =
     (fst (transition_task k to reason payload now l),
      map Emitted (snd (snd (transition_task k to reason payload now l))))"
| "lifecycle_step (DrainCall, now) l =
     (fst (drain_non_terminal now l), map Emitted (snd (snd (drain_non_terminal now l))))"
| "lifecycle_step (ReadCall, now) l =
     (fst (cleanup_stale_records now l), map Evicted (snd (cleanup_stale_records now l)))"

fun lifecycle_run :: "(lifecycle_call \<times> instant) list \<Rightarrow> lifecycle \<Rightarrow> lifecycle \<times> log_entry list" where
  "lifecycle_run [] l = (l, [])"
| "lifecycle_run (c # cs) l =
     (let (l', log) = lifecycle_step c l; (l'', log') = lifecycle_run cs l' in (l'', log @ log'))"

text \<open>
  The contract, per task id: not registered, or in one of the six states; registration creates,
  a transition follows the legal table, an eviction forgets a terminal task.
\<close>

fun phase_step :: "log_entry \<Rightarrow> (string \<rightharpoonup> task_status) \<Rightarrow> (string \<rightharpoonup> task_status) option" where
  "phase_step (Emitted e) m =
     (case ev_from e of
        None \<Rightarrow> if m (ev_taskId e) = None \<and> ev_to e = Pending
                then Some (m(ev_taskId e \<mapsto> Pending)) else None
      | Some s \<Rightarrow> if m (ev_taskId e) = Some s \<and> ev_to e \<in> legal_transitions s
                  then Some (m(ev_taskId e \<mapsto> ev_to e)) else None)"
| "phase_step (Evicted k) m =
     (case m k of
        Some s \<Rightarrow> if is_terminal s then Some (m(k := None)) else None
      | None \<Rightarrow> None)"

fun phase_run :: "log_entry list \<Rightarrow> (string \<rightharpoonup> task_status) \<Rightarrow> (string \<rightharpoonup> task_status) option" where
  "phase_run [] m = Some m"
| "phase_run (e # es) m = Option.bind (phase_step e m) (phase_run es)"

definition phases :: "lifecycle \<Rightarrow> (string \<rightharpoonup> task_status)" where
  "phases l = (\<lambda>k. map_option rec_status (js_get (lc_records l) k))"

lemma phase_run_append: "phase_run (xs @ ys) m = Option.bind (phase_run xs m) (phase_run ys)"
proof (induction xs arbitrary: m)
  case (Cons e xs)
  then show ?case by (cases "phase_step e m") auto
qed simp

lemma phases_empty [simp]: "phases empty_lifecycle = Map.empty"
  by (simp add: phases_def empty_lifecycle_def)

lemma phases_put [simp]:
  "phases (l\<lparr>lc_records := js_set k r (lc_records l)\<rparr>) = (phases l)(k \<mapsto> rec_status r)"
  by (auto simp: phases_def)

lemma register_refines:
  "phase_run (map Emitted (snd (register t now l))) (phases l) = Some (phases (fst (register t now l)))"
  by (auto simp: register_def phases_def split: option.splits)

lemma transition_refines:
  "phase_run (map Emitted (snd (snd (transition_task k to reason payload now l)))) (phases l) =
     Some (phases (fst (transition_task k to reason payload now l)))"
  by (auto simp: transition_task_def Let_def phases_def split: option.splits)

lemma drain_keys_refines:
  "lc_wf l \<Longrightarrow>
   phase_run (map Emitted (snd (snd (drain_keys ks now l)))) (phases l) =
     Some (phases (fst (drain_keys ks now l)))"
proof (induction ks now l rule: drain_keys.induct)
  case (2 k ks now l)
  show ?case
  proof (cases "js_get (lc_records l) k")
    case None
    with "2.IH"(1) "2.prems" show ?thesis by simp
  next
    case (Some r)
    obtain l' oc evs where t: "transition_task (rec_id r) Cancelled SystemShutdown no_payload now l = (l', oc, evs)"
      by (metis prod_cases3)
    have wf': "lc_wf l'" using transition_task_wf [OF "2.prems"] t by (metis fst_conv)
    have r': "phase_run (map Emitted evs) (phases l) = Some (phases l')"
      using transition_refines [of "rec_id r" Cancelled SystemShutdown no_payload now l] t by simp
    show ?thesis
      using Some t r' "2.IH"(2) [OF Some _ "2.prems"] "2.IH"(3) [OF Some] wf'
      by (auto simp: Let_def phase_run_append split: prod.splits)
  qed
qed simp

lemma phase_run_evict:
  "distinct ks \<Longrightarrow> (\<And>k. k \<in> set ks \<Longrightarrow> \<exists>s. m k = Some s \<and> is_terminal s) \<Longrightarrow>
   phase_run (map Evicted ks) m = Some (m |` (- set ks))"
proof (induction ks arbitrary: m)
  case (Cons k ks)
  obtain s where s: "m k = Some s" "is_terminal s" using Cons.prems(2) by auto
  have "phase_run (map Evicted ks) (m(k := None)) = Some ((m(k := None)) |` (- set ks))"
    using Cons.prems by (intro Cons.IH) auto
  moreover have "(m(k := None)) |` (- set ks) = m |` (- set (k # ks))"
    by (auto simp: restrict_map_def)
  ultimately show ?case using s by simp
qed (simp add: restrict_map_def)

lemma cleanup_evicted_iff:
  assumes "lc_wf l" and "\<not> now - lc_lastCleanupAt l < CLEANUP_DEBOUNCE_MS"
  shows "k \<in> set (snd (cleanup_stale_records now l)) \<longleftrightarrow>
     (\<exists>r. js_get (lc_records l) k = Some r \<and> is_stale now r)"
  using assms by (force simp: cleanup_stale_records_def lc_wf_def image_iff)

lemma cleanup_phases:
  assumes "lc_wf l"
  shows "phases (fst (cleanup_stale_records now l)) = phases l |` (- set (snd (cleanup_stale_records now l)))"
proof (cases "now - lc_lastCleanupAt l < CLEANUP_DEBOUNCE_MS")
  case False
  have d: "js_distinct (lc_records l)" using assms by (simp add: lc_wf_def)
  have "phases (fst (cleanup_stale_records now l)) k =
      (phases l |` (- set (snd (cleanup_stale_records now l)))) k" for k
    using cleanup_evicted_iff [OF assms False, of k] False d
    by (cases "js_get (lc_records l) k")
      (auto simp: restrict_map_def phases_def cleanup_stale_records_def js_get_filter_values
        simp del: map_of_eq_Some_iff)
  then show ?thesis by (rule ext)
qed (simp add: cleanup_stale_records_def restrict_map_def)

lemma cleanup_terminal:
  assumes "lc_wf l" and "k \<in> set (snd (cleanup_stale_records now l))"
  shows "\<exists>s. phases l k = Some s \<and> is_terminal s"
proof -
  have "\<not> now - lc_lastCleanupAt l < CLEANUP_DEBOUNCE_MS"
    using assms(2) by (auto simp: cleanup_stale_records_def)
  then obtain r where r: "js_get (lc_records l) k = Some r" "is_stale now r"
    using cleanup_evicted_iff [OF assms(1)] assms(2) by blast
  then show ?thesis
    using lc_wfD(2) [OF assms(1) r(1)]
    by (auto simp: phases_def record_wf_def is_stale_def split: option.splits)
qed

lemma cleanup_refines:
  assumes "lc_wf l"
  shows "phase_run (map Evicted (snd (cleanup_stale_records now l))) (phases l) =
     Some (phases (fst (cleanup_stale_records now l)))"
  unfolding cleanup_phases [OF assms]
proof (rule phase_run_evict)
  show "distinct (snd (cleanup_stale_records now l))"
    using assms by (auto simp: cleanup_stale_records_def lc_wf_def intro: distinct_map_filter)
qed (rule cleanup_terminal [OF assms])

lemma lifecycle_step_wf [wf_intros]: "lc_wf l \<Longrightarrow> lc_wf (fst (lifecycle_step c l))"
  by (cases "(c, l)" rule: lifecycle_step.cases)
    (simp_all add: register_wf transition_task_wf cleanup_wf drain_non_terminal_def drain_keys_wf)

lemma lifecycle_step_refines:
  "lc_wf l \<Longrightarrow>
   phase_run (snd (lifecycle_step c l)) (phases l) = Some (phases (fst (lifecycle_step c l)))"
  by (cases "(c, l)" rule: lifecycle_step.cases)
    (simp_all add: register_refines transition_refines cleanup_refines drain_non_terminal_def
      drain_keys_refines)

lemma lifecycle_run_refines:
  "lc_wf l \<Longrightarrow> phase_run (snd (lifecycle_run cs l)) (phases l) = Some (phases (fst (lifecycle_run cs l)))
     \<and> lc_wf (fst (lifecycle_run cs l))"
proof (induction cs arbitrary: l)
  case (Cons c cs)
  then show ?case
    using lifecycle_step_refines [OF Cons.prems, of c] Cons.IH [OF lifecycle_step_wf [OF Cons.prems, of c]]
    by (simp add: case_prod_beta Let_def phase_run_append)
qed simp

definition terminal_entry :: "string \<Rightarrow> log_entry \<Rightarrow> bool" where
  "terminal_entry k e =
     (case e of Emitted ev \<Rightarrow> ev_taskId ev = k \<and> is_terminal (ev_to ev) | Evicted _ \<Rightarrow> False)"

lemma phase_run_terminal_stays:
  "phase_run log m = Some m' \<Longrightarrow> Evicted k \<notin> set log \<Longrightarrow> m k = Some s \<Longrightarrow> is_terminal s \<Longrightarrow>
   filter (terminal_entry k) log = []"
proof (induction log arbitrary: m)
  case (Cons e log)
  obtain m1 where m1: "phase_step e m = Some m1" "phase_run log m1 = Some m'"
    using Cons.prems(1) by (auto simp: bind_eq_Some_conv)
  have "m1 k = Some s \<and> \<not> terminal_entry k e"
    using m1(1) Cons.prems(2-4)
    by (cases e) (auto simp: terminal_entry_def split: option.splits if_splits)
  with Cons.IH [OF m1(2)] Cons.prems show ?case by auto
qed simp

lemma phase_run_one_terminal:
  "phase_run log m = Some m' \<Longrightarrow> Evicted k \<notin> set log \<Longrightarrow> length (filter (terminal_entry k) log) \<le> 1"
proof (induction log arbitrary: m)
  case (Cons e log)
  obtain m1 where m1: "phase_step e m = Some m1" "phase_run log m1 = Some m'"
    using Cons.prems(1) by (auto simp: bind_eq_Some_conv)
  show ?case
  proof (cases "terminal_entry k e")
    case True
    then have "\<exists>s. m1 k = Some s \<and> is_terminal s"
      using m1(1) by (cases e) (auto simp: terminal_entry_def split: option.splits if_splits)
    with phase_run_terminal_stays [OF m1(2)] Cons.prems(2) True show ?thesis by fastforce
  qed (use Cons.IH [OF m1(2)] Cons.prems in auto)
qed simp

section \<open>Draining and counting\<close>

definition live_keys :: "lifecycle \<Rightarrow> string list" where
  "live_keys l = map fst (filter (\<lambda>p. \<not> is_terminal (rec_status (snd p))) (lc_records l))"

lemma cancel_live:
  assumes "lc_wf l" and "js_get (lc_records l) k = Some r" and "\<not> is_terminal (rec_status r)"
  shows "transition_task (rec_id r) Cancelled SystemShutdown no_payload now l =
    (l\<lparr>lc_records := js_set k (apply_transition Cancelled SystemShutdown no_payload now r) (lc_records l)\<rparr>,
     Applied (Some (rec_status r)) Cancelled SystemShutdown,
     [\<lparr>ev_taskId = k, ev_from = Some (rec_status r), ev_to = Cancelled, ev_reason = SystemShutdown,
       ev_at = now, ev_payload = no_payload\<rparr>])"
  using assms lc_wfD(1) [OF assms(1,2)] by (simp add: transition_task_def Let_def)

text \<open>
  Draining a list of distinct keys: each key's live record is cancelled, nothing else changes,
  and the count is the number of live keys visited, one event each.
\<close>

lemma drain_keys_spec:
  assumes "lc_wf l" and "distinct ks"
  shows "(\<forall>k. phases (fst (drain_keys ks now l)) k =
            (if k \<in> set ks \<and> (\<exists>s. phases l k = Some s \<and> \<not> is_terminal s) then Some Cancelled
             else phases l k)) \<and>
         fst (snd (drain_keys ks now l)) =
            length (filter (\<lambda>k. \<exists>s. phases l k = Some s \<and> \<not> is_terminal s) ks) \<and>
         length (snd (snd (drain_keys ks now l))) = fst (snd (drain_keys ks now l))"
  using assms
proof (induction ks arbitrary: l)
  case (Cons k ks)
  show ?case
  proof (cases "\<exists>r. js_get (lc_records l) k = Some r \<and> \<not> is_terminal (rec_status r)")
    case True
    then obtain r where r: "js_get (lc_records l) k = Some r" "\<not> is_terminal (rec_status r)" by auto
    let ?r' = "apply_transition Cancelled SystemShutdown no_payload now r"
    let ?l' = "l\<lparr>lc_records := js_set k ?r' (lc_records l)\<rparr>"
    have wf: "lc_wf ?l'"
      using Cons.prems(1) r lc_wfD [OF Cons.prems(1) r(1)]
      by (intro lc_wf_put apply_transition_wf) auto
    have ph: "phases ?l' = (phases l)(k \<mapsto> Cancelled)" by simp
    have "filter (\<lambda>k'. \<exists>s. phases ?l' k' = Some s \<and> \<not> is_terminal s) ks =
          filter (\<lambda>k'. \<exists>s. phases l k' = Some s \<and> \<not> is_terminal s) ks"
      using Cons.prems(2) ph by (intro filter_cong) auto
    moreover have "phases l k = Some (rec_status r)" using r by (simp add: phases_def)
    ultimately show ?thesis
      using Cons.IH [OF wf] Cons.prems r cancel_live [OF Cons.prems(1) r]
      by (auto simp: ph case_prod_beta Let_def)
  next
    case False
    then have nolive: "\<not> (\<exists>s. phases l k = Some s \<and> \<not> is_terminal s)"
      by (auto simp: phases_def)
    then show ?thesis
      using Cons.IH [OF Cons.prems(1)] Cons.prems(2) False by (auto split: option.splits)
  qed
qed simp

lemma live_filter:
  assumes "lc_wf l"
  shows "filter (\<lambda>k. \<exists>s. phases l k = Some s \<and> \<not> is_terminal s) (js_keys (lc_records l)) = live_keys l"
proof -
  have "(\<exists>s. phases l (fst p) = Some s \<and> \<not> is_terminal s) \<longleftrightarrow> \<not> is_terminal (rec_status (snd p))"
    if "p \<in> set (lc_records l)" for p
  proof -
    have "js_get (lc_records l) (fst p) = Some (snd p)"
      using that assms by (intro js_get_Some_mem) (simp_all add: lc_wf_def)
    then show ?thesis by (simp add: phases_def)
  qed
  then have "filter (\<lambda>p. \<exists>s. phases l (fst p) = Some s \<and> \<not> is_terminal s) (lc_records l) =
        filter (\<lambda>p. \<not> is_terminal (rec_status (snd p))) (lc_records l)"
    by (rule filter_cong [OF refl])
  then show ?thesis by (simp add: live_keys_def filter_map o_def case_prod_beta)
qed

definition stats_balanced :: "lifecycle_stats \<Rightarrow> bool" where
  "stats_balanced s \<longleftrightarrow>
     ls_pending s + ls_processing s + ls_completed s + ls_failed s + ls_cancelled s = ls_total s"

lemma count_record_total [simp]: "ls_total (count_record s r) = Suc (ls_total s)"
  by (cases "rec_status r") (simp_all add: count_record_def Let_def)

lemma count_record_balanced: "stats_balanced s \<Longrightarrow> stats_balanced (count_record s r)"
  by (cases "rec_status r") (simp_all add: count_record_def Let_def stats_balanced_def)

lemma foldl_count_record:
  "ls_total (foldl count_record s rs) = ls_total s + length rs"
  "stats_balanced s \<Longrightarrow> stats_balanced (foldl count_record s rs)"
  by (induction rs arbitrary: s) (simp_all add: count_record_balanced)

section \<open>The registry interface\<close>

text \<open>
  What the queue and the session processor rely on: a status per task id, transitions that apply
  exactly when they are legal and touch no other task, and an expiry that drops exactly the ids
  it reports, all of them terminal.
\<close>

definition applied_outcome :: "transition_outcome \<Rightarrow> bool" where
  "applied_outcome oc = (case oc of Applied _ _ _ \<Rightarrow> True | _ \<Rightarrow> False)"

locale task_registry =
  fixes phase_of :: "'l \<Rightarrow> string \<rightharpoonup> task_status"
    and move :: "string \<Rightarrow> task_status \<Rightarrow> 'l \<Rightarrow> 'l \<times> transition_outcome"
    and expire :: "instant \<Rightarrow> 'l \<Rightarrow> 'l \<times> string list"
    and invar :: "'l \<Rightarrow> bool"
  assumes move_legal:
      "phase_of l k = Some s \<Longrightarrow> to \<in> legal_transitions s \<Longrightarrow>
       applied_outcome (snd (move k to l)) \<and> phase_of (fst (move k to l)) = (phase_of l)(k \<mapsto> to)"
    and move_other:
      "\<not> (\<exists>s. phase_of l k = Some s \<and> to \<in> legal_transitions s) \<Longrightarrow>
       \<not> applied_outcome (snd (move k to l)) \<and> fst (move k to l) = l"
    and expire_drops:
      "invar l \<Longrightarrow> phase_of (fst (expire now l)) = phase_of l |` (- set (snd (expire now l)))"
    and expire_terminal:
      "invar l \<Longrightarrow> k \<in> set (snd (expire now l)) \<Longrightarrow> \<exists>s. phase_of l k = Some s \<and> is_terminal s"
    and invar_move: "invar l \<Longrightarrow> invar (fst (move k to l))"
    and invar_expire: "invar l \<Longrightarrow> invar (fst (expire now l))"
begin

lemma move_applied_iff:
  "applied_outcome (snd (move k to l)) \<longleftrightarrow> (\<exists>s. phase_of l k = Some s \<and> to \<in> legal_transitions s)"
  using move_legal move_other by blast

lemma move_frame: "k' \<noteq> k \<Longrightarrow> phase_of (fst (move k to l)) k' = phase_of l k'"
  by (cases "\<exists>s. phase_of l k = Some s \<and> to \<in> legal_transitions s") (auto simp: move_legal move_other)

lemma move_domain: "(phase_of (fst (move k to l)) k' = None) = (phase_of l k' = None)"
proof (cases "\<exists>s. phase_of l k = Some s \<and> to \<in> legal_transitions s")
  case True
  then show ?thesis by (cases "k' = k") (auto simp: move_legal)
qed (simp add: move_other)

lemma terminal_is_final:
  "phase_of l k = Some s \<Longrightarrow> is_terminal s \<Longrightarrow> fst (move k to l) = l \<and> \<not> applied_outcome (snd (move k to l))"
  using move_other [of l k to] by auto

lemma dispatch_applied_iff:
  "applied_outcome (snd (move k Processing l)) \<longleftrightarrow> phase_of l k \<in> {Some Pending, Some WaitingApproval}"
proof -
  have "Processing \<in> legal_transitions s \<longleftrightarrow> s \<in> {Pending, WaitingApproval}" for s
    by (cases s) auto
  then show ?thesis by (auto simp: move_applied_iff)
qed

lemma live_survives_expiry:
  assumes "invar l" and "phase_of l k = Some s" and "\<not> is_terminal s"
  shows "phase_of (fst (expire now l)) k = Some s"
  using assms expire_terminal [OF assms(1), of k now] by (auto simp: expire_drops restrict_map_def)

end

lemma transition_task_cases:
  "if \<exists>s. phases l k = Some s \<and> to \<in> legal_transitions s
   then applied_outcome (fst (snd (transition_task k to reason payload now l))) \<and>
        phases (fst (transition_task k to reason payload now l)) = (phases l)(k \<mapsto> to)
   else \<not> applied_outcome (fst (snd (transition_task k to reason payload now l))) \<and>
        fst (transition_task k to reason payload now l) = l"
proof (cases "js_get (lc_records l) k")
  case None
  then show ?thesis by (simp add: phases_def transition_task_def applied_outcome_def)
next
  case (Some r)
  then have "phases l k = Some (rec_status r)" by (simp add: phases_def)
  with Some show ?thesis by (auto simp: transition_task_def applied_outcome_def Let_def)
qed

interpretation registry: task_registry phases
  "\<lambda>k to l. (fst (transition_task k to reason payload now l), fst (snd (transition_task k to reason payload now l)))"
  cleanup_stale_records lc_wf
  for reason payload now
proof (unfold_locales, goal_cases)
  case (1 l k s to)
  then show ?case using transition_task_cases [of l k to reason payload now] by auto
next
  case (2 l k to)
  then show ?case using transition_task_cases [of l k to reason payload now] by auto
next
  case (3 l now)
  then show ?case by (rule cleanup_phases)
next
  case (4 l k now)
  then show ?case by (rule cleanup_terminal)
next
  case (5 l k to)
  then show ?case by (simp add: transition_task_wf)
next
  case (6 l now)
  then show ?case by (rule cleanup_wf)
qed

section \<open>Properties\<close>

text \<open>C1: every run of the lifecycle service, whatever the calls, implements the per-task phase
  machine: its log of transition events and evictions, read in order, registers a task once,
  follows only legal transitions and forgets only terminal tasks, and the phases the log leads to
  are the statuses of the records the service holds.\<close>

theorem lifecycle_refines_phase_machine:
  "phase_run (snd (lifecycle_run cs empty_lifecycle)) Map.empty =
     Some (phases (fst (lifecycle_run cs empty_lifecycle)))"
  using lifecycle_run_refines [of empty_lifecycle cs] by simp

text \<open>In every reachable lifecycle each record is stored under its own id, its history is a
  non-empty chain of legal transitions of at most 20 entries that ends in its status, its terminal
  time is set exactly in a terminal state, and a task that has run carries a dispatch time.\<close>

theorem lifecycle_records_well_formed:
  "lc_wf (fst (lifecycle_run cs empty_lifecycle))"
  using lifecycle_run_refines [of empty_lifecycle cs] by simp

text \<open>A task ends at most once: in any stretch of the log in which the task is not evicted
  there is at most one event that moves it to completed, failed or cancelled.\<close>

theorem task_terminates_once:
  assumes "snd (lifecycle_run cs empty_lifecycle) = before @ stretch @ rest"
    and "Evicted k \<notin> set stretch"
  shows "length (filter (terminal_entry k) stretch) \<le> 1"
proof -
  have "phase_run (before @ stretch @ rest) Map.empty \<noteq> None"
    using lifecycle_run_refines [of empty_lifecycle cs] assms(1) by simp
  then obtain m m' where "phase_run stretch m = Some m'"
    by (auto simp: phase_run_append bind_eq_Some_conv)
  then show ?thesis using assms(2) by (rule phase_run_one_terminal)
qed

text \<open>Shutdown draining cancels exactly the live tasks: afterwards a task that was live is
  cancelled and every other task keeps its status, the returned count is the number of tasks that
  were live, and one event was emitted for each.\<close>

theorem drain_cancels_live_tasks:
  assumes "lc_wf l"
  shows "phases (fst (drain_non_terminal now l)) =
           (\<lambda>k. if \<exists>s. phases l k = Some s \<and> \<not> is_terminal s then Some Cancelled else phases l k) \<and>
         fst (snd (drain_non_terminal now l)) = length (live_keys l) \<and>
         length (snd (snd (drain_non_terminal now l))) = length (live_keys l)"
proof -
  have d: "distinct (js_keys (lc_records l))" using assms by (simp add: lc_wf_def)
  have key: "k \<in> set (js_keys (lc_records l))" if "phases l k = Some s" for k s
    using that js_get_None_iff [of "lc_records l" k] by (auto simp: phases_def)
  show ?thesis
    using drain_keys_spec [OF assms d, of now] key live_filter [OF assms]
    by (auto simp: drain_non_terminal_def fun_eq_iff)
qed

text \<open>The statistics account for every record: the five buckets sum to the total, and the
  total is the number of records left after the expiry the call performs.\<close>

theorem stats_account_for_every_record:
  "stats_balanced (fst (snd (get_stats now l))) \<and>
   ls_total (fst (snd (get_stats now l))) = length (lc_records (fst (get_stats now l)))"
  by (auto simp: get_stats_def case_prod_beta Let_def foldl_count_record
      intro!: foldl_count_record(2)) (simp add: stats_balanced_def)

text \<open>Expiry takes only finished tasks: a lookup forgets a task only when that task is in a
  terminal state, and never changes the status of a task it keeps.\<close>

theorem lookup_forgets_only_finished_tasks:
  assumes "lc_wf l" and "phases l k = Some s"
  shows "phases (fst (get_record i now l)) k = Some s \<or>
         phases (fst (get_record i now l)) k = None \<and> is_terminal s"
proof (cases "is_terminal s")
  case True
  then show ?thesis
    using assms registry.expire_drops [OF assms(1), of now]
    by (simp add: get_record_def case_prod_beta Let_def restrict_map_def)
next
  case False
  then show ?thesis
    using registry.live_survives_expiry [OF assms, of now] by (simp add: get_record_def case_prod_beta Let_def)
qed

section \<open>Concrete instances\<close>

definition demo_task :: task where
  "demo_task = \<lparr>
     tk_id = ''a'', tk_source = FromInternal, tk_sourceMessage = None, tk_traceContext = None,
     tk_priority = Low, tk_status = Pending, tk_conversationHistory = [], tk_createdAt = 1,
     tk_startedAt = None, tk_completedAt = None, tk_response = None, tk_error = None,
     tk_cronJobId = None, tk_budgetVerdict = None\<rparr>"

definition demo_lifecycle :: lifecycle where
  "demo_lifecycle = fst (register demo_task 1 empty_lifecycle)"

lemma demo_lifecycle_wf: "lc_wf demo_lifecycle"
  unfolding demo_lifecycle_def by (rule register_wf) simp

lemma task_terminates_once_witness:
  "length (filter (terminal_entry ''a'')
     (snd (lifecycle_run [(RegisterCall demo_task, 1), (TransitionCall ''a'' Cancelled UserRequested no_payload, 2),
        (TransitionCall ''a'' Cancelled UserRequested no_payload, 3)] empty_lifecycle))) \<le> 1"
proof -
  let ?log = "snd (lifecycle_run [(RegisterCall demo_task, 1), (TransitionCall ''a'' Cancelled UserRequested no_payload, 2),
        (TransitionCall ''a'' Cancelled UserRequested no_payload, 3)] empty_lifecycle)"
  have "?log = [] @ ?log @ []" by simp
  moreover have "Evicted ''a'' \<notin> set ?log" by code_simp
  ultimately show ?thesis by (rule task_terminates_once)
qed

lemma drain_cancels_live_tasks_witness:
  "fst (snd (drain_non_terminal 9 demo_lifecycle)) = 1"
proof -
  have "length (live_keys demo_lifecycle) = 1" by code_simp
  then show ?thesis using drain_cancels_live_tasks [OF demo_lifecycle_wf, of 9] by simp
qed

lemma lookup_forgets_only_finished_tasks_witness:
  "phases (fst (get_record ''a'' 1000000 demo_lifecycle)) ''a'' = Some Pending"
proof -
  have "phases demo_lifecycle ''a'' = Some Pending" by code_simp
  from lookup_forgets_only_finished_tasks [OF demo_lifecycle_wf this, of "''a''" 1000000]
  show ?thesis by simp
qed

end
