(* ===== verification/MessageQueue.thy ===== *)
theory MessageQueue
  imports TaskLifecycle "HOL-Library.Product_Lexorder"
begin

text \<open>
  \<open>mcp-host/src/queue/messageQueue.ts\<close>: task factories, the single admission sink with duplicate
  suppression, the ordering queue and the mirroring of lifecycle events.

  Task objects are shared by reference, so the state holds a heap of them (\<open>mq_tasks\<close>, keyed by
  the unique id); \<open>pendingQueue\<close> and \<open>taskInstanceIndex\<close> hold references. The wired lifecycle
  is part of the state; its listeners run inside the call that emits, which the \<open>mq_*\<close> wrappers
  around the lifecycle operations do. One handler reads one clock value.
\<close>

datatype queue_event =
    TaskAdded string | TaskStarted string | TaskCompleted string | TaskFailed string
  | TaskCancelled string | QueueEmpty | QueueDrained | QueueFull string

datatype admission_outcome =
    Admitted
  | RejectedFull
  | DuplicateTaskId string task_record
  | DuplicateDelivery string task_record

record message_queue =
  mq_tasks :: "(string, task) js_map"
  mq_pendingQueue :: "string list"
  mq_maxQueueSize :: nat
  mq_taskInstanceIndex :: "string set"
  mq_deliveryIndex :: "(string, string) js_map"
  mq_deliveryKeyByTaskId :: "(string, string) js_map"
  mq_lifecycle :: "lifecycle option"

definition new_message_queue :: "nat \<Rightarrow> message_queue" where
  "new_message_queue maxQueueSize = \<lparr>
     mq_tasks = [], mq_pendingQueue = [], mq_maxQueueSize = maxQueueSize,
     mq_taskInstanceIndex = {}, mq_deliveryIndex = [], mq_deliveryKeyByTaskId = [],
     mq_lifecycle = None\<rparr>"

definition set_lifecycle :: "lifecycle \<Rightarrow> message_queue \<Rightarrow> message_queue" where
  "set_lifecycle l s = s\<lparr>mq_lifecycle := Some l\<rparr>"

fun priority_weight :: "task_priority \<Rightarrow> int" where
  "priority_weight Urgent = 4"
| "priority_weight High = 3"
| "priority_weight Normal = 2"
| "priority_weight Low = 1"

section \<open>Factories\<close>

definition store_task :: "task \<Rightarrow> message_queue \<Rightarrow> message_queue" where
  "store_task t s = s\<lparr>mq_tasks := js_set (tk_id t) t (mq_tasks s),
                      mq_taskInstanceIndex := insert (tk_id t) (mq_taskInstanceIndex s)\<rparr>"

definition blank_task :: "string \<Rightarrow> task_source \<Rightarrow> task_priority \<Rightarrow> instant \<Rightarrow> task" where
  "blank_task uid src prio now = \<lparr>
     tk_id = uid, tk_source = src, tk_sourceMessage = None, tk_traceContext = None,
     tk_priority = prio, tk_status = Pending, tk_conversationHistory = [], tk_createdAt = now,
     tk_startedAt = None, tk_completedAt = None, tk_response = None, tk_error = None,
     tk_cronJobId = None, tk_budgetVerdict = None\<rparr>"

definition create_task_from_message ::
  "string \<Rightarrow> instant \<Rightarrow> incoming_message \<Rightarrow> task_priority \<Rightarrow> message_queue \<Rightarrow> message_queue \<times> task" where
  "create_task_from_message uid now message prio s =
     (let task = (blank_task uid FromChannel prio now)\<lparr>
        tk_sourceMessage := Some message,
        tk_traceContext := im_traceContext message,
        tk_conversationHistory :=
          [\<lparr>cm_role = UserRole, cm_content = im_content message, cm_timestamp = im_timestamp message\<rparr>]\<rparr>
      in (store_task task s, task))"

definition create_task_from_cron ::
  "string \<Rightarrow> instant \<Rightarrow> string \<Rightarrow> string \<Rightarrow> (string \<times> string \<times> string) option \<Rightarrow> task_priority \<Rightarrow>
   message_queue \<Rightarrow> message_queue \<times> task" where
  "create_task_from_cron uid now cronJobId content origin prio s =
     (let task = (blank_task uid FromCron prio now)\<lparr>
        tk_cronJobId := Some cronJobId,
        tk_sourceMessage :=
          (case origin of
             None \<Rightarrow> None
           | Some (channelType, channelId, sender) \<Rightarrow>
               Some \<lparr>im_content = '''', im_channelType = channelType, im_channelId = channelId,
                     im_sender = sender, im_timestamp = now,
                     im_messageId = ''cron-'' @ cronJobId @ ''-'' @ string_of_int now,
                     im_hostRef = '''', im_threadId = None, im_attachments = None, im_fileReferenceIds = None,
                     im_traceContext = None\<rparr>),
        tk_conversationHistory :=
          [\<lparr>cm_role = SystemRole, cm_content = ''Scheduled task triggered: '' @ cronJobId,
            cm_timestamp = now\<rparr>,
           \<lparr>cm_role = UserRole, cm_content = content, cm_timestamp = now\<rparr>]\<rparr>
      in (store_task task s, task))"

definition create_internal_task ::
  "string \<Rightarrow> instant \<Rightarrow> string \<Rightarrow> task_priority \<Rightarrow> message_queue \<Rightarrow> message_queue \<times> task" where
  "create_internal_task uid now content prio s =
     (let task = (blank_task uid FromInternal prio now)\<lparr>
        tk_conversationHistory :=
          [\<lparr>cm_role = SystemRole, cm_content = ''Internal system task'', cm_timestamp = now\<rparr>,
           \<lparr>cm_role = UserRole, cm_content = content, cm_timestamp = now\<rparr>]\<rparr>
      in (store_task task s, task))"

section \<open>Lifecycle listeners\<close>

definition handle_record_evicted :: "string \<Rightarrow> message_queue \<Rightarrow> message_queue" where
  "handle_record_evicted taskId s =
     (let s1 = s\<lparr>mq_taskInstanceIndex := mq_taskInstanceIndex s - {taskId}\<rparr>
      in case js_get (mq_deliveryKeyByTaskId s1) taskId of
           None \<Rightarrow> s1
         | Some deliveryKey \<Rightarrow>
             (let s2 = s1\<lparr>mq_deliveryKeyByTaskId := js_delete taskId (mq_deliveryKeyByTaskId s1)\<rparr>
              in if js_get (mq_deliveryIndex s2) deliveryKey = Some taskId
                 then s2\<lparr>mq_deliveryIndex := js_delete deliveryKey (mq_deliveryIndex s2)\<rparr>
                 else s2))"

definition handle_lifecycle_transition :: "message_queue \<Rightarrow> transition_event \<Rightarrow> queue_event list" where
  "handle_lifecycle_transition s ev =
     (if ev_taskId ev \<notin> mq_taskInstanceIndex s then []
      else if ev_from ev = None \<and> ev_to ev = Pending then [TaskAdded (ev_taskId ev)]
      else if ev_to ev = Processing \<and> ev_reason ev = Dispatched then [TaskStarted (ev_taskId ev)]
      else if ev_to ev = Completed then [TaskCompleted (ev_taskId ev)]
      else if ev_to ev = Failed then [TaskFailed (ev_taskId ev)]
      else if ev_to ev = Cancelled then [TaskCancelled (ev_taskId ev)]
      else [])"

definition mq_get_record :: "string \<Rightarrow> instant \<Rightarrow> message_queue \<Rightarrow> message_queue \<times> task_record option" where
  "mq_get_record taskId now s =
     (case mq_lifecycle s of
        None \<Rightarrow> (s, None)
      | Some l \<Rightarrow>
          (let (l', r, evicted) = get_record taskId now l
           in (fold handle_record_evicted evicted (s\<lparr>mq_lifecycle := Some l'\<rparr>), r)))"

definition mq_register :: "task \<Rightarrow> instant \<Rightarrow> message_queue \<Rightarrow> message_queue \<times> queue_event list" where
  "mq_register t now s =
     (case mq_lifecycle s of
        None \<Rightarrow> (s, [])
      | Some l \<Rightarrow>
          (let (l', evs) = register t now l
           in (s\<lparr>mq_lifecycle := Some l'\<rparr>, concat (map (handle_lifecycle_transition s) evs))))"

definition mq_transition ::
  "string \<Rightarrow> task_status \<Rightarrow> canonical_reason \<Rightarrow> transition_payload \<Rightarrow> instant \<Rightarrow> message_queue \<Rightarrow>
   message_queue \<times> transition_outcome \<times> queue_event list" where
  "mq_transition taskId to reason payload now s =
     (case mq_lifecycle s of
        None \<Rightarrow> (s, NotFound, [])
      | Some l \<Rightarrow>
          (let (l', outcome, evs) = transition_task taskId to reason payload now l
           in (s\<lparr>mq_lifecycle := Some l'\<rparr>, outcome,
               concat (map (handle_lifecycle_transition s) evs))))"

section \<open>Admission\<close>

definition delivery_key_of :: "incoming_message option \<Rightarrow> string option" where
  "delivery_key_of msg =
     (case msg of
        None \<Rightarrow> None
      | Some m \<Rightarrow>
          (let messageId = js_trim (im_messageId m)
           in if messageId = [] then None
              else Some (im_channelType m @ '':'' @ im_channelId m @ '':'' @ im_sender m @ '':'' @ messageId)))"

definition has_admitted_delivery ::
  "incoming_message \<Rightarrow> instant \<Rightarrow> message_queue \<Rightarrow> message_queue \<times> bool" where
  "has_admitted_delivery message now s =
     (case (delivery_key_of (Some message), mq_lifecycle s) of
        (Some key, Some _) \<Rightarrow>
          (case js_get (mq_deliveryIndex s) key of
             None \<Rightarrow> (s, False)
           | Some i \<Rightarrow> (let (s', r) = mq_get_record i now s in (s', r \<noteq> None)))
      | _ \<Rightarrow> (s, False))"

definition task_sort_key :: "message_queue \<Rightarrow> string \<Rightarrow> int \<times> instant" where
  "task_sort_key s i =
     (case js_get (mq_tasks s) i of
        None \<Rightarrow> (0, 0)
      | Some t \<Rightarrow> (- priority_weight (tk_priority t), tk_createdAt t))"

definition remember_delivery :: "string option \<Rightarrow> string \<Rightarrow> message_queue \<Rightarrow> message_queue" where
  "remember_delivery deliveryKey i s =
     (case deliveryKey of
        Some k \<Rightarrow>
          (if mq_lifecycle s = None then s
           else s\<lparr>mq_deliveryIndex := js_set k i (mq_deliveryIndex s),
                  mq_deliveryKeyByTaskId := js_set i k (mq_deliveryKeyByTaskId s)\<rparr>)
      | None \<Rightarrow> s)"

text \<open>The duplicate checks; a stale mapping is purged on the way.\<close>

definition check_duplicate ::
  "task \<Rightarrow> string option \<Rightarrow> instant \<Rightarrow> message_queue \<Rightarrow> message_queue \<times> admission_outcome option" where
  "check_duplicate task deliveryKey now s =
     (if mq_lifecycle s = None then (s, None)
      else
        (let (s1, prior) = mq_get_record (tk_id task) now s
         in case prior of
              Some r \<Rightarrow> (s1, Some (DuplicateTaskId (tk_id task) r))
            | None \<Rightarrow>
                (case Option.bind deliveryKey (js_get (mq_deliveryIndex s1)) of
                   None \<Rightarrow> (s1, None)
                 | Some priorTaskId \<Rightarrow>
                     if priorTaskId = [] \<or> priorTaskId = tk_id task then (s1, None)
                     else
                       (let (s2, priorDelivery) = mq_get_record priorTaskId now s1
                        in case priorDelivery of
                             Some r \<Rightarrow>
                               (s2\<lparr>mq_taskInstanceIndex := mq_taskInstanceIndex s2 - {tk_id task}\<rparr>,
                                Some (DuplicateDelivery priorTaskId r))
                           | None \<Rightarrow>
                               (s2\<lparr>mq_deliveryIndex := js_delete (the deliveryKey) (mq_deliveryIndex s2),
                                   mq_deliveryKeyByTaskId :=
                                     js_delete priorTaskId (mq_deliveryKeyByTaskId s2)\<rparr>,
                                None)))))"

definition enqueue_pending :: "task \<Rightarrow> message_queue \<Rightarrow> message_queue" where
  "enqueue_pending task s =
     (let s1 = s\<lparr>mq_tasks := js_set (tk_id task) (task\<lparr>tk_status := Pending\<rparr>) (mq_tasks s)\<rparr>
      in s1\<lparr>mq_pendingQueue := sort_key (task_sort_key s1) (mq_pendingQueue s1 @ [tk_id task])\<rparr>)"

definition admit :: "task \<Rightarrow> instant \<Rightarrow> message_queue \<Rightarrow> message_queue \<times> admission_outcome \<times> queue_event list" where
  "admit task now s =
     (let deliveryKey = delivery_key_of (tk_sourceMessage task);
          (s1, duplicate) = check_duplicate task deliveryKey now s
      in case duplicate of
           Some outcome \<Rightarrow> (s1, outcome, [])
         | None \<Rightarrow>
             if length (mq_pendingQueue s1) \<ge> mq_maxQueueSize s1 then
               ((if Option.bind deliveryKey (js_get (mq_deliveryIndex s1)) = None
                 then remember_delivery deliveryKey (tk_id task) s1 else s1),
                RejectedFull, [QueueFull (tk_id task)])
             else
               (let s2 = enqueue_pending task s1;
                    (s3, evs) = mq_register task now s2;
                    s4 = remember_delivery deliveryKey (tk_id task) s3
                in (s4, Admitted,
                    evs @ (if mq_lifecycle s4 = None then [TaskAdded (tk_id task)] else []))))"

definition enqueue :: "task \<Rightarrow> instant \<Rightarrow> message_queue \<Rightarrow> message_queue \<times> bool \<times> queue_event list" where
  "enqueue task now s = (let (s', outcome, evs) = admit task now s in (s', outcome = Admitted, evs))"

section \<open>Dispatch and completion\<close>

definition update_task :: "string \<Rightarrow> (task \<Rightarrow> task) \<Rightarrow> message_queue \<Rightarrow> message_queue" where
  "update_task i f s =
     (case js_get (mq_tasks s) i of
        None \<Rightarrow> s
      | Some t \<Rightarrow> s\<lparr>mq_tasks := js_set i (f t) (mq_tasks s)\<rparr>)"

definition dequeue :: "instant \<Rightarrow> message_queue \<Rightarrow> message_queue \<times> string option \<times> queue_event list" where
  "dequeue now s =
     (case mq_pendingQueue s of
        [] \<Rightarrow> (s, None, [])
      | i # rest \<Rightarrow>
          (let s1 = update_task i (\<lambda>t. t\<lparr>tk_status := Processing, tk_startedAt := Some now\<rparr>)
                      (s\<lparr>mq_pendingQueue := rest\<rparr>);
               (s2, _, evs) = mq_transition i Processing Dispatched no_payload now s1
           in (s2, Some i,
               evs @ (if mq_lifecycle s2 = None then [TaskStarted i] else [])
                   @ (if mq_pendingQueue s2 = [] then [QueueEmpty] else []))))"

definition complete_task :: "string \<Rightarrow> instant \<Rightarrow> message_queue \<Rightarrow> message_queue \<times> queue_event list" where
  "complete_task i now s =
     (let s1 = update_task i (\<lambda>t. t\<lparr>tk_status := Completed, tk_completedAt := Some now\<rparr>) s;
          response = Option.bind (js_get (mq_tasks s1) i) tk_response;
          (s2, _, evs) = mq_transition i Completed Natural (no_payload\<lparr>tp_response := response\<rparr>) now s1
      in (s2, evs @ (if mq_lifecycle s2 = None then [TaskCompleted i] else [])
                  @ (if mq_pendingQueue s2 = [] then [QueueDrained] else [])))"

definition fail_task :: "string \<Rightarrow> task_error \<Rightarrow> instant \<Rightarrow> message_queue \<Rightarrow> message_queue \<times> queue_event list" where
  "fail_task i err now s =
     (let s1 = update_task i (\<lambda>t. t\<lparr>tk_status := Failed, tk_error := Some err, tk_completedAt := Some now\<rparr>) s;
          (s2, _, evs) = mq_transition i Failed (ErrorReason (te_code err))
                           (no_payload\<lparr>tp_error := Some err\<rparr>) now s1
      in (s2, evs @ (if mq_lifecycle s2 = None then [TaskFailed i] else [])))"

definition mq_is_empty :: "instant \<Rightarrow> message_queue \<Rightarrow> message_queue \<times> bool" where
  "mq_is_empty now s =
     (case mq_lifecycle s of
        None \<Rightarrow> (s, mq_pendingQueue s = [])
      | Some l \<Rightarrow>
          (let (l', st, evicted) = get_stats now l
           in (fold handle_record_evicted evicted (s\<lparr>mq_lifecycle := Some l'\<rparr>), ls_pending st = 0)))"

definition get_task :: "string \<Rightarrow> message_queue \<Rightarrow> task option" where
  "get_task i s = (if i \<in> mq_taskInstanceIndex s then js_get (mq_tasks s) i else None)"

text \<open>The five-field legacy statistics: pending, processing, completed, failed, total.\<close>

definition queue_stats :: "instant \<Rightarrow> message_queue \<Rightarrow> message_queue \<times> (nat \<times> nat \<times> nat \<times> nat \<times> nat)" where
  "queue_stats now s =
     (case mq_lifecycle s of
        None \<Rightarrow> (s, (length (mq_pendingQueue s), 0, 0, 0, length (mq_pendingQueue s)))
      | Some l \<Rightarrow>
          (let (l', st, evicted) = get_stats now l
           in (fold handle_record_evicted evicted (s\<lparr>mq_lifecycle := Some l'\<rparr>),
               (ls_pending st, ls_processing st, ls_completed st, ls_failed st, ls_total st))))"

section \<open>Frames\<close>

definition mq_phases :: "message_queue \<Rightarrow> (string \<rightharpoonup> task_status)" where
  "mq_phases s = (case mq_lifecycle s of None \<Rightarrow> Map.empty | Some l \<Rightarrow> phases l)"

definition mq_ok :: "message_queue \<Rightarrow> bool" where
  "mq_ok s \<longleftrightarrow> (case mq_lifecycle s of None \<Rightarrow> True | Some l \<Rightarrow> lc_wf l)"

lemma handle_record_evicted_frame [simp]:
  "mq_lifecycle (handle_record_evicted k s) = mq_lifecycle s"
  "mq_pendingQueue (handle_record_evicted k s) = mq_pendingQueue s"
  "mq_maxQueueSize (handle_record_evicted k s) = mq_maxQueueSize s"
  "mq_tasks (handle_record_evicted k s) = mq_tasks s"
  by (simp_all add: handle_record_evicted_def Let_def split: option.splits)

lemma fold_evicted_frame [simp]:
  "mq_lifecycle (fold handle_record_evicted ks s) = mq_lifecycle s"
  "mq_pendingQueue (fold handle_record_evicted ks s) = mq_pendingQueue s"
  "mq_maxQueueSize (fold handle_record_evicted ks s) = mq_maxQueueSize s"
  "mq_tasks (fold handle_record_evicted ks s) = mq_tasks s"
  by (induction ks arbitrary: s) simp_all

lemma evicted_keeps_delivery:
  "js_get (mq_deliveryIndex s) dk = Some i \<Longrightarrow> i \<noteq> k \<Longrightarrow>
   js_get (mq_deliveryIndex (handle_record_evicted k s)) dk = Some i"
  by (auto simp: handle_record_evicted_def Let_def split: option.splits)

lemma fold_evicted_keeps_delivery:
  "js_get (mq_deliveryIndex s) dk = Some i \<Longrightarrow> i \<notin> set ks \<Longrightarrow>
   js_get (mq_deliveryIndex (fold handle_record_evicted ks s)) dk = Some i"
  by (induction ks arbitrary: s) (auto simp: evicted_keeps_delivery)

lemma mq_get_record_frame [simp]:
  "mq_pendingQueue (fst (mq_get_record k now s)) = mq_pendingQueue s"
  "mq_maxQueueSize (fst (mq_get_record k now s)) = mq_maxQueueSize s"
  "mq_tasks (fst (mq_get_record k now s)) = mq_tasks s"
  "(mq_lifecycle (fst (mq_get_record k now s)) = None) = (mq_lifecycle s = None)"
  by (auto simp: mq_get_record_def get_record_def Let_def case_prod_beta split: option.splits)

lemma mq_get_record_ok [wf_intros]: "mq_ok s \<Longrightarrow> mq_ok (fst (mq_get_record k now s))"
  using cleanup_wf by (auto simp: mq_ok_def mq_get_record_def get_record_def Let_def case_prod_beta
      split: option.splits)

lemma mq_get_record_result:
  "(snd (mq_get_record k now s) = None) = (mq_phases (fst (mq_get_record k now s)) k = None)"
  by (auto simp: mq_get_record_def get_record_def Let_def case_prod_beta mq_phases_def phases_def
      split: option.splits)

lemma mq_get_record_phases:
  assumes "mq_ok s" and "mq_phases (fst (mq_get_record k now s)) i \<noteq> None"
  shows "mq_phases (fst (mq_get_record k now s)) i = mq_phases s i"
  using assms registry.expire_drops [of _ now]
  by (auto simp: mq_ok_def mq_get_record_def get_record_def Let_def case_prod_beta mq_phases_def
      restrict_map_def split: option.splits if_splits)

lemma mq_get_record_keeps_delivery:
  assumes "mq_ok s" and "js_get (mq_deliveryIndex s) dk = Some i"
    and "mq_phases (fst (mq_get_record k now s)) i \<noteq> None"
  shows "js_get (mq_deliveryIndex (fst (mq_get_record k now s))) dk = Some i"
proof (cases "mq_lifecycle s")
  case (Some l)
  then have wf: "lc_wf l" using assms(1) by (simp add: mq_ok_def)
  have "i \<notin> set (snd (cleanup_stale_records now l))"
    using assms(3) Some registry.expire_drops [OF wf, of now]
    by (auto simp: mq_get_record_def get_record_def Let_def case_prod_beta mq_phases_def)
  then show ?thesis
    using assms(2) Some
    by (simp add: mq_get_record_def get_record_def Let_def case_prod_beta fold_evicted_keeps_delivery)
qed (use assms in \<open>simp add: mq_get_record_def\<close>)

lemma mq_register_frame [simp]:
  "mq_pendingQueue (fst (mq_register t now s)) = mq_pendingQueue s"
  "mq_maxQueueSize (fst (mq_register t now s)) = mq_maxQueueSize s"
  "mq_tasks (fst (mq_register t now s)) = mq_tasks s"
  "mq_deliveryIndex (fst (mq_register t now s)) = mq_deliveryIndex s"
  "(mq_lifecycle (fst (mq_register t now s)) = None) = (mq_lifecycle s = None)"
  by (auto simp: mq_register_def case_prod_beta Let_def split: option.splits)

lemma mq_register_phases:
  "mq_lifecycle s \<noteq> None \<Longrightarrow>
   mq_phases (fst (mq_register t now s)) =
     (if mq_phases s (tk_id t) = None then (mq_phases s)(tk_id t \<mapsto> Pending) else mq_phases s)"
  by (auto simp: mq_register_def case_prod_beta Let_def mq_phases_def register_def phases_def
      split: option.splits)

lemma mq_register_ok [wf_intros]: "mq_ok s \<Longrightarrow> mq_ok (fst (mq_register t now s))"
  using register_wf by (auto simp: mq_ok_def mq_register_def case_prod_beta Let_def split: option.splits)

lemma mq_transition_frame [simp]:
  "mq_pendingQueue (fst (mq_transition k to reason p now s)) = mq_pendingQueue s"
  "mq_maxQueueSize (fst (mq_transition k to reason p now s)) = mq_maxQueueSize s"
  "mq_tasks (fst (mq_transition k to reason p now s)) = mq_tasks s"
  "mq_deliveryIndex (fst (mq_transition k to reason p now s)) = mq_deliveryIndex s"
  "(mq_lifecycle (fst (mq_transition k to reason p now s)) = None) = (mq_lifecycle s = None)"
  by (auto simp: mq_transition_def case_prod_beta Let_def split: option.splits)

lemma mq_transition_ok [wf_intros]: "mq_ok s \<Longrightarrow> mq_ok (fst (mq_transition k to reason p now s))"
  using transition_task_wf
  by (auto simp: mq_ok_def mq_transition_def case_prod_beta Let_def split: option.splits)

lemma mq_transition_domain:
  "(mq_phases (fst (mq_transition k to reason p now s)) i = None) = (mq_phases s i = None)"
  using registry.move_domain [of k to reason p now _ i]
  by (auto simp: mq_phases_def mq_transition_def case_prod_beta Let_def split: option.splits)

lemma remember_delivery_frame [simp]:
  "mq_pendingQueue (remember_delivery dk i s) = mq_pendingQueue s"
  "mq_maxQueueSize (remember_delivery dk i s) = mq_maxQueueSize s"
  "mq_tasks (remember_delivery dk i s) = mq_tasks s"
  "mq_lifecycle (remember_delivery dk i s) = mq_lifecycle s"
  by (simp_all add: remember_delivery_def split: option.splits)

lemma remember_delivery_other:
  "dk' \<noteq> Some dk \<Longrightarrow> js_get (mq_deliveryIndex (remember_delivery dk' i s)) dk = js_get (mq_deliveryIndex s) dk"
  by (auto simp: remember_delivery_def split: option.splits)

lemma remember_delivery_same:
  "mq_lifecycle s \<noteq> None \<Longrightarrow> js_get (mq_deliveryIndex (remember_delivery (Some dk) i s)) dk = Some i"
  by (auto simp: remember_delivery_def)

lemma update_task_frame [simp]:
  "mq_pendingQueue (update_task i f s) = mq_pendingQueue s"
  "mq_maxQueueSize (update_task i f s) = mq_maxQueueSize s"
  "mq_lifecycle (update_task i f s) = mq_lifecycle s"
  "mq_deliveryIndex (update_task i f s) = mq_deliveryIndex s"
  by (simp_all add: update_task_def split: option.splits)

lemma enqueue_pending_frame [simp]:
  "mq_maxQueueSize (enqueue_pending t s) = mq_maxQueueSize s"
  "mq_lifecycle (enqueue_pending t s) = mq_lifecycle s"
  "mq_deliveryIndex (enqueue_pending t s) = mq_deliveryIndex s"
  "mset (mq_pendingQueue (enqueue_pending t s)) = add_mset (tk_id t) (mset (mq_pendingQueue s))"
  "length (mq_pendingQueue (enqueue_pending t s)) = Suc (length (mq_pendingQueue s))"
  by (simp_all add: enqueue_pending_def Let_def)

lemma frames_phases [simp]:
  "mq_phases (remember_delivery dk i s) = mq_phases s"
  "mq_phases (update_task i f s) = mq_phases s"
  "mq_phases (enqueue_pending t s) = mq_phases s"
  by (simp_all add: mq_phases_def)

lemma frames_ok [simp]:
  "mq_ok (remember_delivery dk i s) = mq_ok s"
  "mq_ok (update_task i f s) = mq_ok s"
  "mq_ok (enqueue_pending t s) = mq_ok s"
  by (simp_all add: mq_ok_def)

section \<open>Duplicate suppression\<close>

lemma check_duplicate_frame [simp]:
  "mq_pendingQueue (fst (check_duplicate t dk now s)) = mq_pendingQueue s"
  "mq_maxQueueSize (fst (check_duplicate t dk now s)) = mq_maxQueueSize s"
  "mq_tasks (fst (check_duplicate t dk now s)) = mq_tasks s"
  "(mq_lifecycle (fst (check_duplicate t dk now s)) = None) = (mq_lifecycle s = None)"
  by (auto simp: check_duplicate_def case_prod_beta Let_def split: option.splits)

lemma check_duplicate_ok [wf_intros]: "mq_ok s \<Longrightarrow> mq_ok (fst (check_duplicate t dk now s))"
proof -
  assume ok: "mq_ok s"
  have "mq_ok (s'\<lparr>mq_deliveryIndex := x, mq_deliveryKeyByTaskId := y\<rparr>) = mq_ok s'"
    "mq_ok (s'\<lparr>mq_taskInstanceIndex := z\<rparr>) = mq_ok s'" for s' x y z
    by (simp_all add: mq_ok_def)
  with ok show ?thesis
    by (auto simp: check_duplicate_def case_prod_beta Let_def mq_get_record_ok split: option.splits)
qed

lemma mq_phases_updates [simp]:
  "mq_phases (s\<lparr>mq_taskInstanceIndex := z\<rparr>) = mq_phases s"
  "mq_phases (s\<lparr>mq_deliveryIndex := x\<rparr>) = mq_phases s"
  "mq_phases (s\<lparr>mq_deliveryKeyByTaskId := y\<rparr>) = mq_phases s"
  by (simp_all add: mq_phases_def)

lemma check_duplicate_phases:
  assumes "mq_ok s" and "mq_phases (fst (check_duplicate t dk now s)) i \<noteq> None"
  shows "mq_phases (fst (check_duplicate t dk now s)) i = mq_phases s i"
proof -
  let ?s1 = "fst (mq_get_record (tk_id t) now s)"
  have ok1: "mq_ok ?s1" using assms(1) by (rule mq_get_record_ok)
  have "mq_phases (fst (mq_get_record k now ?s1)) i \<noteq> None \<Longrightarrow>
        mq_phases (fst (mq_get_record k now ?s1)) i = mq_phases s i" for k
    using mq_get_record_phases [OF ok1, of k now i] mq_get_record_phases [OF assms(1), of "tk_id t" now i]
    by auto
  then show ?thesis
    using assms mq_get_record_phases [OF assms(1), of "tk_id t" now i]
    by (auto simp: check_duplicate_def case_prod_beta Let_def split: option.splits if_splits)
qed

text \<open>A delivery is held by task \<open>i\<close> while the index maps its key to \<open>i\<close> and \<open>i\<close> has a record.\<close>

definition delivery_held :: "message_queue \<Rightarrow> string \<Rightarrow> string \<Rightarrow> bool" where
  "delivery_held s dk i \<longleftrightarrow> js_get (mq_deliveryIndex s) dk = Some i \<and> mq_phases s i \<noteq> None"

lemma check_duplicate_keeps_held:
  assumes "mq_ok s" and "delivery_held s dk i"
    and "mq_phases (fst (check_duplicate t dk' now s)) i \<noteq> None"
  shows "delivery_held (fst (check_duplicate t dk' now s)) dk i"
proof -
  let ?s1 = "fst (mq_get_record (tk_id t) now s)"
  have ok1: "mq_ok ?s1" using assms(1) by (rule mq_get_record_ok)
  have h1: "mq_phases ?s1 i \<noteq> None \<Longrightarrow> js_get (mq_deliveryIndex ?s1) dk = Some i"
    using assms(1,2) by (intro mq_get_record_keeps_delivery) (simp_all add: delivery_held_def)
  have h2: "mq_phases (fst (mq_get_record k now ?s1)) i \<noteq> None \<Longrightarrow>
     mq_phases ?s1 i \<noteq> None \<and> js_get (mq_deliveryIndex (fst (mq_get_record k now ?s1))) dk = Some i" for k
    using mq_get_record_phases [OF ok1, of k now i] mq_get_record_keeps_delivery [OF ok1 h1, of k now] by auto
  show ?thesis
    using assms h1 h2 mq_get_record_result [of _ now ?s1]
    by (auto simp: delivery_held_def check_duplicate_def case_prod_beta Let_def bind_eq_Some_conv
        split: option.splits if_splits)
qed

lemma check_duplicate_hit:
  assumes "mq_ok s" and "delivery_held s dk i" and "i \<noteq> []" and "i \<noteq> tk_id t"
    and "mq_phases (fst (check_duplicate t (Some dk) now s)) i \<noteq> None"
  shows "\<exists>r. snd (check_duplicate t (Some dk) now s) \<in>
           {Some (DuplicateTaskId (tk_id t) r), Some (DuplicateDelivery i r)}"
proof -
  let ?s1 = "fst (mq_get_record (tk_id t) now s)"
  have ok1: "mq_ok ?s1" using assms(1) by (rule mq_get_record_ok)
  have lc: "mq_lifecycle s \<noteq> None"
    using assms(2) by (auto simp: delivery_held_def mq_phases_def split: option.splits)
  have h1: "mq_phases ?s1 i \<noteq> None \<Longrightarrow> js_get (mq_deliveryIndex ?s1) dk = Some i"
    using assms(1,2) by (intro mq_get_record_keeps_delivery) (simp_all add: delivery_held_def)
  have h2: "mq_phases (fst (mq_get_record k now ?s1)) i \<noteq> None \<Longrightarrow> mq_phases ?s1 i \<noteq> None" for k
    using mq_get_record_phases [OF ok1, of k now i] by auto
  show ?thesis
    using assms lc h1 h2 mq_get_record_result [of i now ?s1]
    by (auto simp: check_duplicate_def case_prod_beta Let_def split: option.splits if_splits)
qed

lemma admit_keeps_held:
  assumes "mq_ok s" and "delivery_held s dk i" and "i \<noteq> []" and "tk_id t \<noteq> i"
    and "mq_phases (fst (admit t now s)) i \<noteq> None"
  shows "delivery_held (fst (admit t now s)) dk i"
proof -
  let ?k = "delivery_key_of (tk_sourceMessage t)"
  let ?c = "check_duplicate t ?k now s"
  have lc: "mq_lifecycle (fst ?c) \<noteq> None"
    using assms(2) by (auto simp: delivery_held_def mq_phases_def split: option.splits)
  have ph: "mq_phases (fst ?c) i \<noteq> None"
    using assms(4,5) mq_register_phases [of "enqueue_pending t (fst ?c)" t now] lc
    by (auto simp: admit_def case_prod_beta Let_def split: option.splits if_splits)
  have held: "delivery_held (fst ?c) dk i" by (rule check_duplicate_keeps_held [OF assms(1,2) ph])
  have hit: "snd ?c = None \<Longrightarrow> ?k \<noteq> Some dk"
    using check_duplicate_hit [OF assms(1,2,3) assms(4) [symmetric], of now] ph by auto
  show ?thesis
    using held hit assms(4,5)
    by (auto simp: admit_def case_prod_beta Let_def delivery_held_def remember_delivery_other
        split: option.splits if_splits)
qed

section \<open>Runs of the queue\<close>

datatype queue_call =
    AdmitCall task
  | CreateCall task
  | RegisterDirect task
  | DequeueCall
  | CompleteCall string
  | FailCall string task_error
  | StatusCall string task_status canonical_reason transition_payload
  | LookupCall string

fun queue_step :: "queue_call \<times> instant \<Rightarrow> message_queue \<Rightarrow> message_queue" where
  "queue_step (AdmitCall t, now) s = fst (admit t now s)"
| "queue_step (CreateCall t, now) s = store_task t s"
| "queue_step (RegisterDirect t, now) s = fst (mq_register t now s)"
| "queue_step (DequeueCall, now) s = fst (dequeue now s)"
| "queue_step (CompleteCall i, now) s = fst (complete_task i now s)"
| "queue_step (FailCall i e, now) s = fst (fail_task i e now s)"
| "queue_step (StatusCall i to reason p, now) s = fst (mq_transition i to reason p now s)"
| "queue_step (LookupCall i, now) s = fst (mq_get_record i now s)"

text \<open>The task ids a call may register with the lifecycle.\<close>

fun registers :: "queue_call \<Rightarrow> string set" where
  "registers (AdmitCall t) = {tk_id t}"
| "registers (RegisterDirect t) = {tk_id t}"
| "registers _ = {}"

lemma store_task_frame [simp]:
  "mq_lifecycle (store_task t s) = mq_lifecycle s"
  "mq_pendingQueue (store_task t s) = mq_pendingQueue s"
  "mq_maxQueueSize (store_task t s) = mq_maxQueueSize s"
  "mq_deliveryIndex (store_task t s) = mq_deliveryIndex s"
  by (simp_all add: store_task_def)

lemma admit_ok [wf_intros]: "mq_ok s \<Longrightarrow> mq_ok (fst (admit t now s))"
  by (auto simp: admit_def case_prod_beta Let_def check_duplicate_ok intro!: mq_register_ok
      split: option.splits)

lemma dequeue_ok [wf_intros]: "mq_ok s \<Longrightarrow> mq_ok (fst (dequeue now s))"
proof -
  assume "mq_ok s"
  then have "mq_ok (s\<lparr>mq_pendingQueue := q\<rparr>)" for q by (simp add: mq_ok_def)
  then show ?thesis
    by (auto simp: \<open>mq_ok s\<close> dequeue_def case_prod_beta Let_def intro!: mq_transition_ok split: list.splits)
qed

lemma queue_step_ok [wf_intros]: "mq_ok s \<Longrightarrow> mq_ok (queue_step c s)"
proof -
  assume ok: "mq_ok s"
  then have "mq_ok (store_task t s)" for t by (simp add: mq_ok_def)
  with ok show ?thesis
    by (cases "(c, s)" rule: queue_step.cases)
      (simp_all add: admit_ok mq_register_ok dequeue_ok mq_transition_ok mq_get_record_ok
        complete_task_def fail_task_def case_prod_beta Let_def)
qed

lemma mq_phases_pending [simp]: "mq_phases (s\<lparr>mq_pendingQueue := q\<rparr>) = mq_phases s"
  by (simp add: mq_phases_def)

lemma mq_phases_store [simp]: "mq_phases (store_task t s) = mq_phases s"
  by (simp add: mq_phases_def)

lemma dequeue_domain: "(mq_phases (fst (dequeue now s)) i = None) = (mq_phases s i = None)"
  by (auto simp: dequeue_def case_prod_beta Let_def mq_transition_domain split: list.splits)

lemma dequeue_delivery [simp]: "mq_deliveryIndex (fst (dequeue now s)) = mq_deliveryIndex s"
  by (auto simp: dequeue_def case_prod_beta Let_def split: list.splits)

lemma complete_fail_frame [simp]:
  "mq_deliveryIndex (fst (complete_task k now s)) = mq_deliveryIndex s"
  "mq_deliveryIndex (fst (fail_task k e now s)) = mq_deliveryIndex s"
  "mq_pendingQueue (fst (complete_task k now s)) = mq_pendingQueue s"
  "mq_pendingQueue (fst (fail_task k e now s)) = mq_pendingQueue s"
  "mq_maxQueueSize (fst (complete_task k now s)) = mq_maxQueueSize s"
  "mq_maxQueueSize (fst (fail_task k e now s)) = mq_maxQueueSize s"
  "(mq_phases (fst (complete_task k now s)) i = None) = (mq_phases s i = None)"
  "(mq_phases (fst (fail_task k e now s)) i = None) = (mq_phases s i = None)"
  by (simp_all add: complete_task_def fail_task_def case_prod_beta Let_def mq_transition_domain)

lemma mq_register_keeps_phase:
  "mq_phases s i \<noteq> None \<Longrightarrow> mq_phases (fst (mq_register t now s)) i = mq_phases s i"
proof (cases "mq_lifecycle s = None")
  case True
  assume "mq_phases s i \<noteq> None"
  with True show ?thesis by (simp add: mq_register_def)
next
  case False
  assume "mq_phases s i \<noteq> None"
  with False show ?thesis by (auto simp: mq_register_phases)
qed

lemma mq_register_absent:
  "mq_phases s i = None \<Longrightarrow> tk_id t \<noteq> i \<Longrightarrow> mq_phases (fst (mq_register t now s)) i = None"
proof (cases "mq_lifecycle s = None")
  case True
  assume "mq_phases s i = None" "tk_id t \<noteq> i"
  with True show ?thesis by (simp add: mq_register_def)
next
  case False
  assume "mq_phases s i = None" "tk_id t \<noteq> i"
  with False show ?thesis by (auto simp: mq_register_phases)
qed

text \<open>A task without a record gets one only from a call that registers it.\<close>

lemma queue_step_absent:
  assumes ok: "mq_ok s" and none: "mq_phases s i = None" and nr: "i \<notin> registers (fst c)"
  shows "mq_phases (queue_step c s) i = None"
proof -
  have chk: "mq_phases (fst (check_duplicate t dk now s)) i = None" for t dk now
    using check_duplicate_phases [OF ok, of t dk now i] none by argo
  have get: "mq_phases (fst (mq_get_record k now s)) i = None" for k now
    using mq_get_record_phases [OF ok, of k now i] none by argo
  have adm: "tk_id t \<noteq> i \<Longrightarrow> mq_phases (fst (admit t now s)) i = None" for t now
    using chk by (auto simp: admit_def case_prod_beta Let_def intro!: mq_register_absent split: option.splits)
  show ?thesis
    using none nr
    by (cases "(c, s)" rule: queue_step.cases)
      (auto simp: get dequeue_domain mq_transition_domain intro!: adm mq_register_absent)
qed

lemma queue_step_keeps_held:
  assumes ok: "mq_ok s" and held: "delivery_held s dk i" and "i \<noteq> []" and nr: "i \<notin> registers (fst c)"
    and live: "mq_phases (queue_step c s) i \<noteq> None"
  shows "delivery_held (queue_step c s) dk i"
proof -
  have reg: "delivery_held (fst (mq_register t now s)) dk i" for t now
    using held by (auto simp: delivery_held_def mq_register_keeps_phase)
  have get: "mq_phases (fst (mq_get_record k now s)) i \<noteq> None \<Longrightarrow>
      delivery_held (fst (mq_get_record k now s)) dk i" for k now
    using held mq_get_record_keeps_delivery [OF ok] by (auto simp: delivery_held_def)
  have adm: "tk_id t \<noteq> i \<Longrightarrow> mq_phases (fst (admit t now s)) i \<noteq> None \<Longrightarrow>
      delivery_held (fst (admit t now s)) dk i" for t now
    by (rule admit_keeps_held [OF ok held assms(3)])
  show ?thesis
    using held nr live
    by (cases "(c, s)" rule: queue_step.cases)
      (auto simp: reg get adm delivery_held_def [of "fst (dequeue _ _)"]
        delivery_held_def [of "fst (complete_task _ _ _)"] delivery_held_def [of "fst (fail_task _ _ _ _)"]
        delivery_held_def [of "fst (mq_transition _ _ _ _ _ _)"] delivery_held_def [of "store_task _ _"]
        dequeue_domain mq_transition_domain delivery_held_def [of s])
qed

lemma queue_run_held:
  assumes "mq_ok s" and "delivery_held s dk i" and "i \<noteq> []"
    and "\<forall>c\<in>set cs. i \<notin> registers (fst c)" and "mq_phases (fold queue_step cs s) i \<noteq> None"
  shows "mq_ok (fold queue_step cs s) \<and> delivery_held (fold queue_step cs s) dk i"
  using assms
proof (induction cs arbitrary: s)
  case (Cons c cs)
  have ok: "mq_ok (queue_step c s)" by (rule queue_step_ok) (rule Cons.prems(1))
  have absent: "mq_ok s' \<Longrightarrow> mq_phases s' i = None \<Longrightarrow> \<forall>c\<in>set cs'. i \<notin> registers (fst c) \<Longrightarrow>
      mq_phases (fold queue_step cs' s') i = None" for cs' s'
    by (induction cs' arbitrary: s') (auto simp: queue_step_absent queue_step_ok)
  have "mq_phases (queue_step c s) i \<noteq> None"
    using absent [OF ok, of cs] Cons.prems(4,5) by fastforce
  then have "delivery_held (queue_step c s) dk i"
    using Cons.prems by (intro queue_step_keeps_held) auto
  then show ?case using Cons.IH [OF ok] Cons.prems by simp
qed simp

lemma check_duplicate_outcome:
  "snd (check_duplicate t dk now s) \<noteq> Some Admitted \<and> snd (check_duplicate t dk now s) \<noteq> Some RejectedFull"
  by (auto simp: check_duplicate_def case_prod_beta Let_def split: option.splits)

lemma admit_outcome_cases:
  "fst (snd (admit t now s)) = Admitted \<longleftrightarrow>
     snd (check_duplicate t (delivery_key_of (tk_sourceMessage t)) now s) = None \<and>
     length (mq_pendingQueue s) < mq_maxQueueSize s"
  using check_duplicate_outcome [of t "delivery_key_of (tk_sourceMessage t)" now s]
  by (auto simp: admit_def case_prod_beta Let_def split: option.splits)

lemma admit_admitted_held:
  assumes "fst (snd (admit t now s)) = Admitted" and "delivery_key_of (tk_sourceMessage t) = Some dk"
    and "mq_lifecycle s \<noteq> None"
  shows "delivery_held (fst (admit t now s)) dk (tk_id t)"
  using assms(2,3) assms(1) [unfolded admit_outcome_cases]
  by (auto simp: admit_def case_prod_beta Let_def delivery_held_def remember_delivery_same
      mq_register_phases)

lemma admit_hit:
  assumes "mq_ok s" and "delivery_held s dk i" and "i \<noteq> []" and "i \<noteq> tk_id t"
    and "delivery_key_of (tk_sourceMessage t) = Some dk"
    and "mq_phases (fst (admit t now s)) i \<noteq> None"
  shows "\<exists>r. fst (snd (admit t now s)) \<in> {DuplicateTaskId (tk_id t) r, DuplicateDelivery i r}"
    and "mq_pendingQueue (fst (admit t now s)) = mq_pendingQueue s"
proof -
  let ?c = "check_duplicate t (Some dk) now s"
  have lc: "mq_lifecycle (fst ?c) \<noteq> None"
    using assms(2) by (auto simp: delivery_held_def mq_phases_def split: option.splits)
  have ph: "mq_phases (fst ?c) i \<noteq> None"
    using assms(4,5,6) mq_register_phases [of "enqueue_pending t (fst ?c)" t now] lc
    by (auto simp: admit_def case_prod_beta Let_def split: option.splits if_splits)
  obtain r where r: "snd ?c \<in> {Some (DuplicateTaskId (tk_id t) r), Some (DuplicateDelivery i r)}"
    using check_duplicate_hit [OF assms(1-4) ph] by blast
  then show "\<exists>r. fst (snd (admit t now s)) \<in> {DuplicateTaskId (tk_id t) r, DuplicateDelivery i r}"
    and "mq_pendingQueue (fst (admit t now s)) = mq_pendingQueue s"
    using assms(5) by (auto simp: admit_def case_prod_beta Let_def)
qed

section \<open>Order and bound of the pending queue\<close>

definition pending_ordered :: "message_queue \<Rightarrow> bool" where
  "pending_ordered s \<longleftrightarrow> sorted (map (task_sort_key s) (mq_pendingQueue s))"

lemma task_sort_key_pending [simp]: "task_sort_key (s\<lparr>mq_pendingQueue := q\<rparr>) = task_sort_key s"
  by (simp add: task_sort_key_def fun_eq_iff)

lemma enqueue_pending_ordered:
  "pending_ordered (enqueue_pending t s)"
  by (simp add: pending_ordered_def enqueue_pending_def Let_def del: sort_key_simps)

text \<open>Among equal priorities and times the earlier admission stays in front: the sort is stable.\<close>

lemma enqueue_pending_stable:
  "filter (\<lambda>i. task_sort_key (enqueue_pending t s) i = k) (mq_pendingQueue (enqueue_pending t s)) =
   filter (\<lambda>i. task_sort_key (enqueue_pending t s) i = k) (mq_pendingQueue s @ [tk_id t])"
proof -
  let ?s1 = "s\<lparr>mq_tasks := js_set (tk_id t) (t\<lparr>tk_status := Pending\<rparr>) (mq_tasks s)\<rparr>"
  have k: "task_sort_key (enqueue_pending t s) = task_sort_key ?s1"
    by (simp add: enqueue_pending_def Let_def task_sort_key_def fun_eq_iff)
  show ?thesis
    unfolding k by (simp add: enqueue_pending_def Let_def sort_key_stable del: filter_append)
qed

lemma check_duplicate_same_phase:
  "mq_ok s \<Longrightarrow> mq_phases s i = None \<Longrightarrow> mq_phases (fst (check_duplicate t dk now s)) i = None"
  using check_duplicate_phases [of s t dk now i] by argo

lemma admit_pending:
  "mq_pendingQueue (fst (admit t now s)) =
     (if fst (snd (admit t now s)) = Admitted
      then mq_pendingQueue (enqueue_pending t (fst (check_duplicate t (delivery_key_of (tk_sourceMessage t)) now s)))
      else mq_pendingQueue s)"
  using check_duplicate_outcome [of t "delivery_key_of (tk_sourceMessage t)" now s]
  by (auto simp: admit_def case_prod_beta Let_def split: option.splits)

lemma admit_max [simp]: "mq_maxQueueSize (fst (admit t now s)) = mq_maxQueueSize s"
  by (auto simp: admit_def case_prod_beta Let_def split: option.splits)

lemma admit_lifecycle [simp]: "(mq_lifecycle (fst (admit t now s)) = None) = (mq_lifecycle s = None)"
  by (cases "snd (check_duplicate t (delivery_key_of (tk_sourceMessage t)) now s)")
    (simp_all add: admit_def case_prod_beta Let_def del: not_None_eq)

lemma admit_length:
  "length (mq_pendingQueue (fst (admit t now s))) =
     (if fst (snd (admit t now s)) = Admitted then Suc (length (mq_pendingQueue s)) else length (mq_pendingQueue s))"
  by (simp add: admit_pending)

lemma dequeue_frame [simp]:
  "mq_maxQueueSize (fst (dequeue now s)) = mq_maxQueueSize s"
  "mq_pendingQueue (fst (dequeue now s)) = tl (mq_pendingQueue s)"
  by (auto simp: dequeue_def case_prod_beta Let_def split: list.splits)

lemma queue_step_max [simp]: "mq_maxQueueSize (queue_step c s) = mq_maxQueueSize s"
  by (cases "(c, s)" rule: queue_step.cases) simp_all

lemma queue_run_max [simp]: "mq_maxQueueSize (fold queue_step cs s) = mq_maxQueueSize s"
  by (induction cs arbitrary: s) simp_all

lemma queue_step_bound:
  "length (mq_pendingQueue s) \<le> mq_maxQueueSize s \<Longrightarrow>
   length (mq_pendingQueue (queue_step c s)) \<le> mq_maxQueueSize s"
  by (cases "(c, s)" rule: queue_step.cases) (auto simp: admit_length admit_outcome_cases)

lemma queue_run_bound:
  "length (mq_pendingQueue s) \<le> mq_maxQueueSize s \<Longrightarrow>
   length (mq_pendingQueue (fold queue_step cs s)) \<le> mq_maxQueueSize s"
proof (induction cs arbitrary: s)
  case (Cons c cs)
  then show ?case using Cons.IH [of "queue_step c s"] queue_step_bound [of s c] by simp
qed simp

lemma queue_step_grows:
  "fst c \<noteq> DequeueCall \<Longrightarrow> length (mq_pendingQueue s) \<le> length (mq_pendingQueue (queue_step c s))"
  by (cases "(c, s)" rule: queue_step.cases) (auto simp: admit_length)

lemma queue_run_grows:
  "\<forall>c\<in>set cs. fst c \<noteq> DequeueCall \<Longrightarrow>
   length (mq_pendingQueue s) \<le> length (mq_pendingQueue (fold queue_step cs s))"
proof (induction cs arbitrary: s)
  case (Cons c cs)
  then show ?case
    using Cons.IH [of "queue_step c s"] queue_step_grows [of c s] by (auto intro: le_trans)
qed simp

lemma queue_run_ok: "mq_ok s \<Longrightarrow> mq_ok (fold queue_step cs s)"
  by (induction cs arbitrary: s) (simp_all add: queue_step_ok)

lemma rejected_full_absent:
  assumes "mq_ok s" and "mq_phases s (tk_id t) = None" and "mq_maxQueueSize s \<le> length (mq_pendingQueue s)"
  shows "mq_phases (fst (admit t now s)) (tk_id t) = None"
  using assms check_duplicate_same_phase [OF assms(1,2)]
  by (auto simp: admit_def case_prod_beta Let_def split: option.splits)

lemma mq_transition_absent:
  "mq_phases s i = None \<Longrightarrow> fst (snd (mq_transition i to reason p now s)) = NotFound"
  by (auto simp: mq_transition_def mq_phases_def phases_def transition_task_def case_prod_beta Let_def
      split: option.splits)

section \<open>Properties\<close>

text \<open>C2: no delivery is admitted twice: once a message is admitted as a task, then after any
  sequence of queue operations that does not register that task id again, admitting another task for
  the same delivery is refused as a duplicate and leaves the pending queue alone, for as long
  as the first task still has its lifecycle record.\<close>

theorem delivery_admitted_once:
  assumes "mq_ok s" and "mq_lifecycle s \<noteq> None"
    and "delivery_key_of (tk_sourceMessage t1) = Some dk"
    and "delivery_key_of (tk_sourceMessage t2) = Some dk"
    and "tk_id t1 \<noteq> []" and "tk_id t1 \<noteq> tk_id t2"
    and "fst (snd (admit t1 now1 s)) = Admitted"
    and "\<forall>c\<in>set cs. tk_id t1 \<notin> registers (fst c)"
    and "mq_phases (fst (admit t2 now2 (fold queue_step cs (fst (admit t1 now1 s))))) (tk_id t1) \<noteq> None"
  shows "(\<exists>r. fst (snd (admit t2 now2 (fold queue_step cs (fst (admit t1 now1 s))))) \<in>
              {DuplicateTaskId (tk_id t2) r, DuplicateDelivery (tk_id t1) r}) \<and>
         mq_pendingQueue (fst (admit t2 now2 (fold queue_step cs (fst (admit t1 now1 s))))) =
           mq_pendingQueue (fold queue_step cs (fst (admit t1 now1 s)))"
proof -
  let ?s1 = "fst (admit t1 now1 s)"
  let ?s2 = "fold queue_step cs ?s1"
  have ok1: "mq_ok ?s1" using assms(1) by (rule admit_ok)
  have held1: "delivery_held ?s1 dk (tk_id t1)" using assms(7,3,2) by (rule admit_admitted_held)
  have ok2: "mq_ok ?s2" by (rule queue_run_ok [OF ok1])
  have live2: "mq_phases ?s2 (tk_id t1) \<noteq> None"
    using queue_step_absent [OF ok2, of "tk_id t1" "(AdmitCall t2, now2)"] assms(6,9) by auto
  have held2: "delivery_held ?s2 dk (tk_id t1)"
    using queue_run_held [OF ok1 held1 assms(5,8) live2] by simp
  show ?thesis using admit_hit [OF ok2 held2 assms(5,6,4,9)] by blast
qed

text \<open>Admission is ordered and accounted: an admitted task is added once to the pending
  queue, which is then sorted by descending priority and ascending creation time with earlier
  admissions first among equals, and it leaves the admission with a lifecycle record.\<close>

theorem admission_orders_and_registers:
  assumes "fst (snd (admit t now s)) = Admitted" and "mq_lifecycle s \<noteq> None"
  shows "mset (mq_pendingQueue (fst (admit t now s))) = add_mset (tk_id t) (mset (mq_pendingQueue s)) \<and>
         sorted (map (task_sort_key (fst (admit t now s))) (mq_pendingQueue (fst (admit t now s)))) \<and>
         filter (\<lambda>i. task_sort_key (fst (admit t now s)) i = k) (mq_pendingQueue (fst (admit t now s))) =
           filter (\<lambda>i. task_sort_key (fst (admit t now s)) i = k) (mq_pendingQueue s @ [tk_id t]) \<and>
         mq_phases (fst (admit t now s)) (tk_id t) \<noteq> None"
proof -
  let ?c = "fst (check_duplicate t (delivery_key_of (tk_sourceMessage t)) now s)"
  have none: "snd (check_duplicate t (delivery_key_of (tk_sourceMessage t)) now s) = None"
    and room: "\<not> mq_maxQueueSize s \<le> length (mq_pendingQueue s)"
    using assms(1) by (auto simp: admit_outcome_cases)
  have res: "fst (admit t now s) =
      remember_delivery (delivery_key_of (tk_sourceMessage t)) (tk_id t) (fst (mq_register t now (enqueue_pending t ?c)))"
    using none room by (simp add: admit_def case_prod_beta Let_def)
  have key: "task_sort_key (fst (admit t now s)) = task_sort_key (enqueue_pending t ?c)"
    by (simp add: res task_sort_key_def fun_eq_iff)
  have pend: "mq_pendingQueue (fst (admit t now s)) = mq_pendingQueue (enqueue_pending t ?c)"
    using assms(1) by (simp add: admit_pending)
  have "mq_phases (fst (admit t now s)) (tk_id t) \<noteq> None"
    using assms(2) by (simp add: res mq_register_phases)
  then show ?thesis
    unfolding key pend
    using enqueue_pending_ordered [of t ?c] enqueue_pending_stable [of t ?c k]
    by (simp add: pending_ordered_def del: filter_append)
qed

text \<open>The pending queue never holds more than its configured maximum, whatever the calls.\<close>

theorem pending_queue_bounded:
  "length (mq_pendingQueue (fold queue_step cs (set_lifecycle l (new_message_queue n)))) \<le> n"
  using queue_run_bound [of "set_lifecycle l (new_message_queue n)" cs]
  by (simp add: set_lifecycle_def new_message_queue_def)

text \<open>A full queue stays full until something dequeues: without a dequeue no later task is
  ever enqueued, and a task refused this way that has no lifecycle record gets none, so that
  dispatching it is answered with not found.\<close>

theorem full_queue_admits_nothing:
  assumes "mq_ok s" and "mq_maxQueueSize s \<le> length (mq_pendingQueue s)"
    and "\<forall>c\<in>set cs. fst c \<noteq> DequeueCall"
    and "mq_phases (fold queue_step cs s) (tk_id t) = None"
  shows "\<not> fst (snd (enqueue t now (fold queue_step cs s))) \<and>
         fst (snd (mq_transition (tk_id t) Processing Dispatched p now'
                     (fst (enqueue t now (fold queue_step cs s))))) = NotFound"
proof -
  let ?s = "fold queue_step cs s"
  have full: "mq_maxQueueSize ?s \<le> length (mq_pendingQueue ?s)"
    using queue_run_grows [OF assms(3), of s] assms(2) by simp
  have "mq_phases (fst (admit t now ?s)) (tk_id t) = None"
    by (rule rejected_full_absent [OF queue_run_ok [OF assms(1)] assms(4) full])
  moreover have "fst (snd (admit t now ?s)) \<noteq> Admitted"
    using full by (simp add: admit_outcome_cases)
  ultimately show ?thesis
    by (simp add: enqueue_def case_prod_beta Let_def mq_transition_absent)
qed

text \<open>The delivery key identifies the delivery: for messages whose channel type, channel and
  sender contain no colon, equal keys mean equal channel type, channel, sender and trimmed id.\<close>

theorem delivery_key_injective:
  assumes "delivery_key_of (Some m) = Some k" and "delivery_key_of (Some m') = Some k"
    and "CHR '':'' \<notin> set (im_channelType m) \<union> set (im_channelId m) \<union> set (im_sender m)"
    and "CHR '':'' \<notin> set (im_channelType m') \<union> set (im_channelId m') \<union> set (im_sender m')"
  shows "im_channelType m = im_channelType m' \<and> im_channelId m = im_channelId m' \<and>
         im_sender m = im_sender m' \<and> js_trim (im_messageId m) = js_trim (im_messageId m')"
proof -
  have "im_channelType m @ CHR '':'' # (im_channelId m @ CHR '':'' # (im_sender m @ CHR '':'' # js_trim (im_messageId m))) =
        im_channelType m' @ CHR '':'' # (im_channelId m' @ CHR '':'' # (im_sender m' @ CHR '':'' # js_trim (im_messageId m')))"
    using assms(1,2) by (auto simp: delivery_key_of_def Let_def split: if_splits)
  then show ?thesis
    using assms(3,4) by (auto dest!: append_sep_unique [rotated 2])
qed

section \<open>Concrete instances\<close>

definition sample_message :: "string \<Rightarrow> incoming_message" where
  "sample_message mid = \<lparr>im_content = ''hello'', im_channelType = ''slack'', im_channelId = ''c1'',
     im_sender = ''u1'', im_timestamp = 5, im_messageId = mid, im_hostRef = ''h'', im_threadId = None,
     im_attachments = None, im_fileReferenceIds = None, im_traceContext = None\<rparr>"

definition sample_task :: "string \<Rightarrow> string \<Rightarrow> task" where
  "sample_task i mid = (blank_task i FromChannel Normal 5)\<lparr>tk_sourceMessage := Some (sample_message mid)\<rparr>"

definition sample_queue :: "nat \<Rightarrow> message_queue" where
  "sample_queue n = set_lifecycle empty_lifecycle (new_message_queue n)"

lemma sample_queue_ok: "mq_ok (sample_queue n)"
  by (simp add: mq_ok_def sample_queue_def set_lifecycle_def)

lemma delivery_admitted_once_witness:
  "mq_pendingQueue (fst (admit (sample_task ''b'' ''m1'') 9
       (fold queue_step [(DequeueCall, 8)] (fst (admit (sample_task ''a'' ''m1 '') 7 (sample_queue 3)))))) = []"
proof -
  have ok: "mq_ok (sample_queue 3)" by (rule sample_queue_ok)
  have h: "mq_lifecycle (sample_queue 3) \<noteq> None"
    "delivery_key_of (tk_sourceMessage (sample_task ''a'' ''m1 '')) = Some ''slack:c1:u1:m1''"
    "delivery_key_of (tk_sourceMessage (sample_task ''b'' ''m1'')) = Some ''slack:c1:u1:m1''"
    "tk_id (sample_task ''a'' ''m1 '') \<noteq> []" "tk_id (sample_task ''a'' ''m1 '') \<noteq> tk_id (sample_task ''b'' ''m1'')"
    "fst (snd (admit (sample_task ''a'' ''m1 '') 7 (sample_queue 3))) = Admitted"
    "\<forall>c\<in>set [(DequeueCall, 8)]. tk_id (sample_task ''a'' ''m1 '') \<notin> registers (fst c)"
    "mq_phases (fst (admit (sample_task ''b'' ''m1'') 9
       (fold queue_step [(DequeueCall, 8)] (fst (admit (sample_task ''a'' ''m1 '') 7 (sample_queue 3))))))
         (tk_id (sample_task ''a'' ''m1 '')) \<noteq> None"
    "mq_pendingQueue (fold queue_step [(DequeueCall, 8)]
       (fst (admit (sample_task ''a'' ''m1 '') 7 (sample_queue 3)))) = []"
    by code_simp+
  show ?thesis using delivery_admitted_once [OF ok h(1-8)] h(9) by simp
qed

lemma admission_orders_and_registers_witness:
  "sorted (map (task_sort_key (fst (admit (sample_task ''a'' ''m1'') 7 (sample_queue 3))))
     (mq_pendingQueue (fst (admit (sample_task ''a'' ''m1'') 7 (sample_queue 3)))))"
proof -
  have "fst (snd (admit (sample_task ''a'' ''m1'') 7 (sample_queue 3))) = Admitted"
    "mq_lifecycle (sample_queue 3) \<noteq> None"
    by code_simp+
  then show ?thesis using admission_orders_and_registers [of "sample_task ''a'' ''m1''" 7 "sample_queue 3"] by simp
qed

lemma full_queue_admits_nothing_witness:
  "\<not> fst (snd (enqueue (sample_task ''b'' ''m2'') 9
     (fold queue_step [(CompleteCall ''a'', 8)] (fst (admit (sample_task ''a'' ''m1'') 7 (sample_queue 1))))))"
proof -
  have ok: "mq_ok (fst (admit (sample_task ''a'' ''m1'') 7 (sample_queue 1)))"
    by (rule admit_ok) (rule sample_queue_ok)
  have h: "mq_maxQueueSize (fst (admit (sample_task ''a'' ''m1'') 7 (sample_queue 1))) \<le>
        length (mq_pendingQueue (fst (admit (sample_task ''a'' ''m1'') 7 (sample_queue 1))))"
    "\<forall>c\<in>set [(CompleteCall ''a'', 8)]. fst c \<noteq> DequeueCall"
    "mq_phases (fold queue_step [(CompleteCall ''a'', 8)]
        (fst (admit (sample_task ''a'' ''m1'') 7 (sample_queue 1)))) (tk_id (sample_task ''b'' ''m2'')) = None"
    by (code_simp, simp, code_simp)
  show ?thesis using full_queue_admits_nothing [OF ok h] by blast
qed

lemma delivery_key_injective_witness:
  "js_trim (im_messageId (sample_message ''m1'')) = js_trim (im_messageId (sample_message '' m1''))"
proof -
  have "delivery_key_of (Some (sample_message ''m1'')) = Some ''slack:c1:u1:m1''"
    "delivery_key_of (Some (sample_message '' m1'')) = Some ''slack:c1:u1:m1''"
    by code_simp+
  then show ?thesis
    by (rule delivery_key_injective [THEN conjunct2, THEN conjunct2, THEN conjunct2])
      (simp_all add: sample_message_def)
qed

end
