(* ===== verification/SessionProcessor.thy ===== *)
theory SessionProcessor
  imports TaskLifecycle
begin

text \<open>
  \<open>mcp-host/src/session\<close>: session keys and the per-session FIFO dispatcher. Tasks are held by id;
  the lifecycle the processor is wired to is passed along. A promise the processor waits for is an
  entry of \<open>sp_running\<close> (session, task and the stage that is awaited), so settling it is a
  step of its own. One handler reads one clock value, and the budget check, the executor and the
  denial callback are injected: the first two show as events and settlements, the last is a
  function on the lifecycle.
\<close>

section \<open>Session keys\<close>

record session_key =
  sk_userId :: string
  sk_channelType :: string
  sk_channelId :: string
  sk_threadId :: "string option"

definition or_default :: "string \<Rightarrow> string" where
  "or_default s = (if s = [] then ''default'' else s)"

definition serialize_session_key :: "session_key \<Rightarrow> string" where
  "serialize_session_key key =
     sk_userId key @ '':'' @ sk_channelType key @ '':'' @ or_default (sk_channelId key) @ '':'' @
     or_default (case sk_threadId key of None \<Rightarrow> [] | Some t \<Rightarrow> t)"

definition parse_session_key :: "string \<Rightarrow> session_key option" where
  "parse_session_key key =
     (case js_split CHR '':'' key of
        userId # channelType # channelId # p # threadParts \<Rightarrow>
          (if userId = [] \<or> channelType = [] \<or> channelId = [] then None
           else
             (let threadId = js_join CHR '':'' (p # threadParts)
              in Some \<lparr>sk_userId = userId, sk_channelType = channelType, sk_channelId = channelId,
                       sk_threadId = (if threadId = ''default'' then None else Some threadId)\<rparr>))
      | _ \<Rightarrow> None)"

definition resolve_cron_task_session_key :: "task \<Rightarrow> session_key" where
  "resolve_cron_task_session_key task =
     (case tk_sourceMessage task of
        Some msg \<Rightarrow> \<lparr>sk_userId = im_sender msg, sk_channelType = im_channelType msg,
                     sk_channelId = im_channelId msg, sk_threadId = im_threadId msg\<rparr>
      | None \<Rightarrow> \<lparr>sk_userId = ''system'', sk_channelType = ''cron'',
                 sk_channelId = (case tk_cronJobId task of None \<Rightarrow> tk_id task | Some j \<Rightarrow> j),
                 sk_threadId = None\<rparr>)"

section \<open>State\<close>

record sp_config =
  sc_maxConcurrent :: nat
  sc_taskDelayMs :: millis
  sc_checkTaskBudget :: bool
  sc_onBudgetDenied :: "(string \<Rightarrow> string option \<Rightarrow> instant \<Rightarrow> lifecycle \<Rightarrow> lifecycle) option"

datatype sp_stage = CheckingBudget | Executing

record session_processor =
  sp_sessionQueues :: "(string, string list) js_map"
  sp_activeSessions :: "string set"
  sp_suspendedSessions :: "string set"
  sp_nextDispatchAt :: instant
  sp_dispatchTimer :: "instant option"
  sp_running :: "(string \<times> string \<times> sp_stage) list"
  sp_budgetVerdicts :: "(string, budget_verdict) js_map"

datatype sp_event =
    SpEnqueued string string
  | SpSkipped string string transition_outcome
  | SpStarted string string
  | SpExecute string
  | SpBudgetDenied string "string option"
  | SpSuspended string string
  | SpCompleted string string
  | SpFailed string string

definition idle_processor :: session_processor where
  "idle_processor = \<lparr>sp_sessionQueues = [], sp_activeSessions = {}, sp_suspendedSessions = {},
     sp_nextDispatchAt = 0, sp_dispatchTimer = None, sp_running = [], sp_budgetVerdicts = []\<rparr>"

definition new_session_processor :: "sp_config \<Rightarrow> (string, session_processor) result" where
  "new_session_processor cfg =
     (if sc_taskDelayMs cfg < 0 \<or> sc_taskDelayMs cfg > 2147483647 then Inl ''Invalid task dispatch delay''
      else Inr idle_processor)"

definition session_ready :: "session_processor \<Rightarrow> string \<times> string list \<Rightarrow> bool" where
  "session_ready p kq \<longleftrightarrow>
     snd kq \<noteq> [] \<and> fst kq \<notin> sp_activeSessions p \<and> fst kq \<notin> sp_suspendedSessions p"

definition pending_session_count :: "session_processor \<Rightarrow> nat" where
  "pending_session_count p = length (filter (session_ready p) (sp_sessionQueues p))"

definition pick_next_ready_session :: "session_processor \<Rightarrow> string option" where
  "pick_next_ready_session p = map_option fst (find (session_ready p) (sp_sessionQueues p))"

section \<open>Dispatch\<close>

definition shift_task :: "string \<Rightarrow> session_processor \<Rightarrow> (string \<times> session_processor) option" where
  "shift_task key p =
     (case js_get (sp_sessionQueues p) key of
        Some (t # rest) \<Rightarrow>
          Some (t, p\<lparr>sp_sessionQueues :=
                       (if rest = [] then js_delete key (sp_sessionQueues p)
                        else js_set key rest (sp_sessionQueues p))\<rparr>)
      | _ \<Rightarrow> None)"

definition run_executor :: "string \<Rightarrow> string \<Rightarrow> session_processor \<Rightarrow> session_processor \<times> sp_event list" where
  "run_executor key t p = (p\<lparr>sp_running := (key, t, Executing) # sp_running p\<rparr>, [SpExecute t])"

definition dispatch_with_budget_check ::
  "sp_config \<Rightarrow> string \<Rightarrow> string \<Rightarrow> session_processor \<Rightarrow> session_processor \<times> sp_event list" where
  "dispatch_with_budget_check cfg key t p =
     (if sc_checkTaskBudget cfg
      then (p\<lparr>sp_running := (key, t, CheckingBudget) # sp_running p\<rparr>, [])
      else run_executor key t p)"

definition start_session ::
  "sp_config \<Rightarrow> instant \<Rightarrow> string \<Rightarrow> string \<Rightarrow> session_processor \<Rightarrow> session_processor \<times> sp_event list" where
  "start_session cfg now key t p =
     (let p1 = p\<lparr>sp_nextDispatchAt := now + sc_taskDelayMs cfg,
                 sp_activeSessions := insert key (sp_activeSessions p)\<rparr>;
          (p2, evs) = dispatch_with_budget_check cfg key t p1
      in (p2, SpStarted key t # evs))"

definition queued_total :: "session_processor \<Rightarrow> nat" where
  "queued_total p = sum_list (map (length \<circ> snd) (sp_sessionQueues p))"

lemma total_js_set:
  "js_get m k = Some q \<Longrightarrow>
   sum_list (map (length \<circ> snd) (js_set k q' m)) + length q = sum_list (map (length \<circ> snd) m) + length q'"
  by (induction m) (auto split: if_splits)

lemma total_js_delete:
  "js_get m k = Some q \<Longrightarrow>
   sum_list (map (length \<circ> snd) (js_delete k m)) + length q \<le> sum_list (map (length \<circ> snd) m)"
proof (induction m)
  case (Cons a m)
  have le: "sum_list (map (length \<circ> snd) (js_delete k m)) \<le> sum_list (map (length \<circ> snd) m)"
    by (induction m) auto
  with Cons show ?case by (cases "fst a = k") (auto simp: o_def)
qed simp

lemma shift_task_Some:
  "shift_task key p = Some (t, p1) \<longleftrightarrow>
     (\<exists>rest. js_get (sp_sessionQueues p) key = Some (t # rest) \<and>
        p1 = p\<lparr>sp_sessionQueues := (if rest = [] then js_delete key (sp_sessionQueues p)
                                   else js_set key rest (sp_sessionQueues p))\<rparr>)"
  by (auto simp: shift_task_def split: option.splits list.splits)

lemma shift_task_smaller:
  assumes "shift_task key p = Some (t, p1)"
  shows "queued_total p1 < queued_total p"
proof -
  obtain rest where r: "js_get (sp_sessionQueues p) key = Some (t # rest)"
    "p1 = p\<lparr>sp_sessionQueues := (if rest = [] then js_delete key (sp_sessionQueues p)
                                   else js_set key rest (sp_sessionQueues p))\<rparr>"
    using assms by (auto simp only: shift_task_Some)
  show ?thesis
    using total_js_delete [OF r(1)] total_js_set [OF r(1), of rest] r(2) by (simp add: queued_total_def)
qed

lemma start_session_queues [simp]:
  "sp_sessionQueues (fst (start_session cfg now key t p)) = sp_sessionQueues p"
  by (simp add: start_session_def dispatch_with_budget_check_def run_executor_def Let_def case_prod_beta)

lemma start_session_total [simp]: "queued_total (fst (start_session cfg now key t p)) = queued_total p"
  by (simp add: queued_total_def)

function try_process_next ::
  "sp_config \<Rightarrow> instant \<Rightarrow> session_processor \<Rightarrow> lifecycle \<Rightarrow>
   session_processor \<times> lifecycle \<times> sp_event list" where
  "try_process_next cfg now p l =
     (if card (sp_activeSessions p) \<ge> sc_maxConcurrent cfg then (p, l, [])
      else case pick_next_ready_session p of
        None \<Rightarrow> (p, l, [])
      | Some key \<Rightarrow>
          if key = [] then (p, l, [])
          else if sp_nextDispatchAt p - now > 0 then
            ((if sp_dispatchTimer p = None then p\<lparr>sp_dispatchTimer := Some (sp_nextDispatchAt p)\<rparr> else p),
             l, [])
          else case shift_task key p of
            None \<Rightarrow> (p, l, [])
          | Some (t, p1) \<Rightarrow>
              (let (l1, outcome, _) = transition_task t Processing Dispatched no_payload now l
               in if \<not> applied_outcome outcome then
                    (let (p2, l2, evs) = try_process_next cfg now p1 l1
                     in (p2, l2, SpSkipped key t outcome # evs))
                  else
                    (let (p2, evs) = start_session cfg now key t p1;
                         (p3, l3, evs') = try_process_next cfg now p2 l1
                     in (p3, l3, evs @ evs'))))"
  by pat_completeness auto

termination
proof (relation "measure (\<lambda>(_, _, p, _). queued_total p)", goal_cases)
  case 3
  then show ?case
    using shift_task_smaller by (simp, metis fst_conv start_session_total)
qed (use shift_task_smaller in auto)

declare try_process_next.simps [simp del]

section \<open>Handlers\<close>

definition sp_enqueue ::
  "sp_config \<Rightarrow> string \<Rightarrow> string \<Rightarrow> instant \<Rightarrow> session_processor \<Rightarrow> lifecycle \<Rightarrow>
   session_processor \<times> lifecycle \<times> sp_event list" where
  "sp_enqueue cfg key t now p l =
     (let queue = (case js_get (sp_sessionQueues p) key of None \<Rightarrow> [] | Some q \<Rightarrow> q);
          p1 = p\<lparr>sp_sessionQueues := js_set key (queue @ [t]) (sp_sessionQueues p)\<rparr>;
          (p2, l2, evs) = try_process_next cfg now p1 l
      in (p2, l2, SpEnqueued key t # evs))"

definition dispatch_timer_fired ::
  "sp_config \<Rightarrow> instant \<Rightarrow> session_processor \<Rightarrow> lifecycle \<Rightarrow>
   session_processor \<times> lifecycle \<times> sp_event list" where
  "dispatch_timer_fired cfg now p l =
     (if sp_dispatchTimer p = None then (p, l, [])
      else try_process_next cfg now (p\<lparr>sp_dispatchTimer := None\<rparr>) l)"

definition deny_for_budget ::
  "sp_config \<Rightarrow> string \<Rightarrow> string \<Rightarrow> string option \<Rightarrow> instant \<Rightarrow> session_processor \<Rightarrow> lifecycle \<Rightarrow>
   session_processor \<times> lifecycle \<times> sp_event list" where
  "deny_for_budget cfg key t reason now p l =
     (let p1 = p\<lparr>sp_activeSessions := sp_activeSessions p - {key}\<rparr>;
          l1 = (case sc_onBudgetDenied cfg of
                  Some f \<Rightarrow> f t reason now l
                | None \<Rightarrow> fst (transition_task t Failed (ErrorReason ''BUDGET_EXCEEDED'') no_payload now l));
          (p2, l2, evs) = try_process_next cfg now p1 l1
      in (p2, l2, SpBudgetDenied t reason # evs))"

text \<open>The continuation after \<open>await checkTaskBudget\<close>: \<open>None\<close> is a check that threw.\<close>

definition budget_check_settled ::
  "sp_config \<Rightarrow> string \<Rightarrow> string \<Rightarrow> budget_verdict option \<Rightarrow> instant \<Rightarrow> session_processor \<Rightarrow> lifecycle \<Rightarrow>
   session_processor \<times> lifecycle \<times> sp_event list" where
  "budget_check_settled cfg key t answer now p l =
     (if (key, t, CheckingBudget) \<notin> set (sp_running p) then (p, l, [])
      else
        (let p1 = p\<lparr>sp_running := remove1 (key, t, CheckingBudget) (sp_running p)\<rparr>;
             verdict = (case answer of
                          Some v \<Rightarrow> v
                        | None \<Rightarrow> \<lparr>bv_allowed = True, bv_reason = None, bv_maxTaskTokens = None,
                                   bv_maxTaskCost = None, bv_unpriced = []\<rparr>)
         in if \<not> bv_allowed verdict then deny_for_budget cfg key t (bv_reason verdict) now p1 l
            else
              (let (p2, evs) = run_executor key t
                     (p1\<lparr>sp_budgetVerdicts := js_set t verdict (sp_budgetVerdicts p1)\<rparr>)
               in (p2, l, evs))))"

text \<open>The executor's promise: \<open>Some suspended\<close> when it resolves, \<open>None\<close> when it rejects.\<close>

definition executor_settled ::
  "sp_config \<Rightarrow> string \<Rightarrow> string \<Rightarrow> bool option \<Rightarrow> instant \<Rightarrow> session_processor \<Rightarrow> lifecycle \<Rightarrow>
   session_processor \<times> lifecycle \<times> sp_event list" where
  "executor_settled cfg key t outcome now p l =
     (if (key, t, Executing) \<notin> set (sp_running p) then (p, l, [])
      else
        (let p1 = p\<lparr>sp_running := remove1 (key, t, Executing) (sp_running p),
                    sp_activeSessions := sp_activeSessions p - {key}\<rparr>;
             (p2, ev) =
               (case outcome of
                  Some True \<Rightarrow>
                    (p1\<lparr>sp_suspendedSessions := insert key (sp_suspendedSessions p1)\<rparr>, SpSuspended key t)
                | Some False \<Rightarrow> (p1, SpCompleted key t)
                | None \<Rightarrow> (p1, SpFailed key t));
             (p3, l3, evs) = try_process_next cfg now p2 l
         in (p3, l3, ev # evs)))"

definition release_suspended_session ::
  "sp_config \<Rightarrow> string \<Rightarrow> instant \<Rightarrow> session_processor \<Rightarrow> lifecycle \<Rightarrow>
   session_processor \<times> lifecycle \<times> sp_event list" where
  "release_suspended_session cfg key now p l =
     try_process_next cfg now (p\<lparr>sp_suspendedSessions := sp_suspendedSessions p - {key}\<rparr>) l"

section \<open>Runs\<close>

datatype sp_call =
    SpEnqueue string string
  | SpTimer
  | SpBudgetAnswer string string "budget_verdict option"
  | SpExecutorDone string string "bool option"
  | SpRelease string
  | SpLifecycle lifecycle_call

fun sp_step ::
  "sp_config \<Rightarrow> sp_call \<times> instant \<Rightarrow> session_processor \<times> lifecycle \<Rightarrow>
   session_processor \<times> lifecycle \<times> sp_event list" where
  "sp_step cfg (SpEnqueue key t, now) (p, l) = sp_enqueue cfg key t now p l"
| "sp_step cfg (SpTimer, now) (p, l) = dispatch_timer_fired cfg now p l"
| "sp_step cfg (SpBudgetAnswer key t v, now) (p, l) = budget_check_settled cfg key t v now p l"
| "sp_step cfg (SpExecutorDone key t r, now) (p, l) = executor_settled cfg key t r now p l"
| "sp_step cfg (SpRelease key, now) (p, l) = release_suspended_session cfg key now p l"
| "sp_step cfg (SpLifecycle c, now) (p, l) = (p, fst (lifecycle_step (c, now) l), [])"

fun sp_run ::
  "sp_config \<Rightarrow> (sp_call \<times> instant) list \<Rightarrow> session_processor \<times> lifecycle \<Rightarrow>
   session_processor \<times> lifecycle \<times> sp_event list" where
  "sp_run cfg [] (p, l) = (p, l, [])"
| "sp_run cfg (c # cs) (p, l) =
     (let (p1, l1, evs) = sp_step cfg c (p, l); (p2, l2, evs') = sp_run cfg cs (p1, l1)
      in (p2, l2, evs @ evs'))"

section \<open>One rule for the dispatch loop\<close>

text \<open>
  A relation between the loop's arguments and its result holds when it holds for the three ways
  the loop stops and is kept by skipping one task and by starting one.
\<close>

lemma try_process_next_rule [consumes 0, case_names stop wait skip start]:
  assumes stop: "\<And>p l. card (sp_activeSessions p) \<ge> sc_maxConcurrent cfg \<or>
        pick_next_ready_session p \<in> {None, Some []} \<or>
        (\<exists>k. pick_next_ready_session p = Some k \<and> shift_task k p = None) \<Longrightarrow> P p l p l []"
    and wait: "\<And>p l. sp_nextDispatchAt p > now \<Longrightarrow>
        P p l (if sp_dispatchTimer p = None then p\<lparr>sp_dispatchTimer := Some (sp_nextDispatchAt p)\<rparr> else p) l []"
    and skip: "\<And>p l key t p1 p2 l2 evs. pick_next_ready_session p = Some key \<Longrightarrow>
        shift_task key p = Some (t, p1) \<Longrightarrow>
        \<not> applied_outcome (fst (snd (transition_task t Processing Dispatched no_payload now l))) \<Longrightarrow>
        P p1 l p2 l2 evs \<Longrightarrow>
        P p l p2 l2 (SpSkipped key t (fst (snd (transition_task t Processing Dispatched no_payload now l))) # evs)"
    and start: "\<And>p l key t p1 p2 l2 evs. card (sp_activeSessions p) < sc_maxConcurrent cfg \<Longrightarrow>
        pick_next_ready_session p = Some key \<Longrightarrow> shift_task key p = Some (t, p1) \<Longrightarrow>
        applied_outcome (fst (snd (transition_task t Processing Dispatched no_payload now l))) \<Longrightarrow>
        P (fst (start_session cfg now key t p1)) (fst (transition_task t Processing Dispatched no_payload now l))
          p2 l2 evs \<Longrightarrow>
        P p l p2 l2 (snd (start_session cfg now key t p1) @ evs)"
  shows "P p l (fst (try_process_next cfg now p l)) (fst (snd (try_process_next cfg now p l)))
           (snd (snd (try_process_next cfg now p l)))"
proof (induction "queued_total p" arbitrary: p l rule: less_induct)
  case less
  note unfold = try_process_next.simps [of cfg now p l]
  show ?case
  proof (cases "card (sp_activeSessions p) \<ge> sc_maxConcurrent cfg \<or>
      pick_next_ready_session p \<in> {None, Some []}")
    case True
    then show ?thesis using stop [of p l] by (auto simp: unfold)
  next
    case False
    then obtain key where key: "pick_next_ready_session p = Some key" "key \<noteq> []"
      "\<not> card (sp_activeSessions p) \<ge> sc_maxConcurrent cfg" by auto
    show ?thesis
    proof (cases "sp_nextDispatchAt p > now")
      case True
      then show ?thesis using key wait [of p l] by (simp add: unfold)
    next
      case early: False
      show ?thesis
      proof (cases "shift_task key p")
        case None
        then show ?thesis using key early stop [of p l] by (simp add: unfold)
      next
        case (Some tp)
        obtain t p1 where tp: "shift_task key p = Some (t, p1)" using Some by (cases tp) auto
        let ?tr = "transition_task t Processing Dispatched no_payload now l"
        have less1: "queued_total p1 < queued_total p" by (rule shift_task_smaller [OF tp])
        show ?thesis
        proof (cases "applied_outcome (fst (snd ?tr))")
          case False
          then have l1: "fst ?tr = l"
            using transition_task_cases [of l t Processing Dispatched no_payload now] by (auto split: if_splits)
          show ?thesis
            using key early tp False l1 skip [OF key(1) tp False less.hyps [OF less1]]
            by (simp add: unfold case_prod_beta Let_def)
        next
          case True
          have "queued_total (fst (start_session cfg now key t p1)) < queued_total p" using less1 by simp
          from start [OF _ key(1) tp True less.hyps [OF this]] show ?thesis
            using key early tp True by (simp add: unfold case_prod_beta Let_def)
        qed
      qed
    qed
  qed
qed

section \<open>The processor invariant\<close>

text \<open>
  At most one awaited task per session, the active sessions are exactly those, they stay within
  the limit and are never suspended, and no empty queue is kept.
\<close>

definition sp_inv :: "sp_config \<Rightarrow> session_processor \<Rightarrow> bool" where
  "sp_inv cfg p \<longleftrightarrow>
     js_distinct (sp_sessionQueues p) \<and> (\<forall>kq\<in>set (sp_sessionQueues p). snd kq \<noteq> []) \<and>
     distinct (map fst (sp_running p)) \<and> sp_activeSessions p = fst ` set (sp_running p) \<and>
     length (sp_running p) \<le> sc_maxConcurrent cfg \<and> sp_activeSessions p \<inter> sp_suspendedSessions p = {}"

lemma sp_inv_card: "sp_inv cfg p \<Longrightarrow> card (sp_activeSessions p) = length (sp_running p)"
  using distinct_card [of "map fst (sp_running p)"] by (simp add: sp_inv_def)

lemma sp_inv_updates [simp]:
  "sp_inv cfg (p\<lparr>sp_dispatchTimer := x\<rparr>) = sp_inv cfg p"
  "sp_inv cfg (p\<lparr>sp_nextDispatchAt := n\<rparr>) = sp_inv cfg p"
  "sp_inv cfg (p\<lparr>sp_budgetVerdicts := v\<rparr>) = sp_inv cfg p"
  by (simp_all add: sp_inv_def)

lemma pick_Some:
  assumes "pick_next_ready_session p = Some key"
  obtains q where "(key, q) \<in> set (sp_sessionQueues p)" "q \<noteq> []"
    "key \<notin> sp_activeSessions p" "key \<notin> sp_suspendedSessions p"
  using assms by (auto simp: pick_next_ready_session_def session_ready_def dest!: find_SomeD)

lemma set_js_delete: "set (js_delete k m) \<subseteq> set m"
  by (auto simp: AList.delete_eq)

lemma set_js_set: "set (js_set k v m) \<subseteq> insert (k, v) (set m)"
  by (induction m) auto

lemma shift_task_inv:
  assumes "shift_task key p = Some (t, p1)" and inv: "sp_inv cfg p"
  shows "sp_inv cfg p1"
proof -
  obtain rest where r: "p1 = p\<lparr>sp_sessionQueues := (if rest = [] then js_delete key (sp_sessionQueues p)
                                   else js_set key rest (sp_sessionQueues p))\<rparr>"
    using assms(1) by (auto simp only: shift_task_Some)
  let ?m = "if rest = [] then js_delete key (sp_sessionQueues p) else js_set key rest (sp_sessionQueues p)"
  have "js_distinct ?m" using inv by (simp add: sp_inv_def)
  moreover have "\<forall>kq\<in>set ?m. snd kq \<noteq> []"
    using inv set_js_delete [of key "sp_sessionQueues p"] set_js_set [of key rest "sp_sessionQueues p"]
    unfolding sp_inv_def by (cases "rest = []") auto
  ultimately show ?thesis using inv unfolding r sp_inv_def by auto
qed

lemma shift_task_frame [simp]:
  assumes "shift_task key p = Some (t, p1)"
  shows "sp_activeSessions p1 = sp_activeSessions p" "sp_suspendedSessions p1 = sp_suspendedSessions p"
    "sp_running p1 = sp_running p"
  using assms by (auto simp: shift_task_Some)

lemma start_session_inv:
  assumes "sp_inv cfg p" and "length (sp_running p) < sc_maxConcurrent cfg"
    and "key \<notin> sp_activeSessions p" and "key \<notin> sp_suspendedSessions p"
  shows "sp_inv cfg (fst (start_session cfg now key t p))"
  using assms
  by (auto simp: sp_inv_def start_session_def dispatch_with_budget_check_def run_executor_def Let_def
      case_prod_beta image_iff)

lemma try_process_next_inv [wf_intros]:
  "sp_inv cfg p \<Longrightarrow> sp_inv cfg (fst (try_process_next cfg now p l))"
proof (rule try_process_next_rule [where P = "\<lambda>p l p' l' evs. sp_inv cfg p \<longrightarrow> sp_inv cfg p'", THEN mp], goal_cases)
  case (2 p l)
  then show ?case by simp
next
  case (3 p l key t p1 p2 l2 evs)
  then show ?case using shift_task_inv by blast
next
  case (4 p l key t p1 p2 l2 evs)
  have "sp_inv cfg p \<Longrightarrow> sp_inv cfg (fst (start_session cfg now key t p1))"
    using 4(2) pick_Some [OF 4(3)] shift_task_inv [OF 4(4), of cfg] shift_task_frame [OF 4(4)]
    by (intro start_session_inv) (auto simp: sp_inv_card)
  with 4(6) show ?case by blast
qed auto

lemma running_remove_inv:
  assumes "sp_inv cfg p" and "(key, t, st) \<in> set (sp_running p)"
  shows "sp_inv cfg (p\<lparr>sp_running := remove1 (key, t, st) (sp_running p),
                      sp_activeSessions := sp_activeSessions p - {key}\<rparr>)"
proof -
  have d: "distinct (map fst (sp_running p))" using assms(1) by (simp add: sp_inv_def)
  have "length (remove1 (key, t, st) (sp_running p)) \<le> length (sp_running p)"
    by (simp add: length_remove1)
  then show ?thesis
    using assms(1) distinct_keys_remove1 [OF d, of "(key, t, st)"] keys_remove1 [OF d assms(2)]
    by (auto simp: sp_inv_def)
qed

section \<open>No lost wake-up\<close>

text \<open>
  Ready work and free capacity never coexist without an armed timer. A ready session with the
  empty key counts as none, as in the code.
\<close>

definition no_lost_wakeup :: "sp_config \<Rightarrow> session_processor \<Rightarrow> bool" where
  "no_lost_wakeup cfg p \<longleftrightarrow>
     pick_next_ready_session p \<in> {None, Some []} \<or> sc_maxConcurrent cfg \<le> card (sp_activeSessions p) \<or>
     sp_dispatchTimer p \<noteq> None"

lemma pick_shift: "sp_inv cfg p \<Longrightarrow> pick_next_ready_session p = Some k \<Longrightarrow> shift_task k p \<noteq> None"
proof -
  assume inv: "sp_inv cfg p" and "pick_next_ready_session p = Some k"
  then obtain q where "(k, q) \<in> set (sp_sessionQueues p)" "q \<noteq> []" using pick_Some by metis
  moreover from this have "js_get (sp_sessionQueues p) k = Some q"
    using inv by (intro js_get_Some_mem) (simp_all add: sp_inv_def)
  ultimately show ?thesis by (cases q) (simp_all add: shift_task_def)
qed

lemma try_process_next_wakes:
  "sp_inv cfg p \<longrightarrow> no_lost_wakeup cfg (fst (try_process_next cfg now p l))"
proof (rule try_process_next_rule [where P = "\<lambda>p l p' l' evs. sp_inv cfg p \<longrightarrow> no_lost_wakeup cfg p'"], goal_cases)
  case (1 p l)
  then show ?case using pick_shift [of cfg p] by (auto simp: no_lost_wakeup_def)
next
  case (2 p l)
  then show ?case by (simp add: no_lost_wakeup_def)
next
  case (3 p l key t p1 p2 l2 evs)
  then show ?case using shift_task_inv by blast
next
  case (4 p l key t p1 p2 l2 evs)
  have "sp_inv cfg p \<Longrightarrow> sp_inv cfg (fst (start_session cfg now key t p1))"
    using 4(1) pick_Some [OF 4(2)] shift_task_inv [OF 4(3), of cfg] shift_task_frame [OF 4(3)]
    by (intro start_session_inv) (auto simp: sp_inv_card)
  with 4(5) show ?case by blast
qed

definition sp_good :: "sp_config \<Rightarrow> session_processor \<times> lifecycle \<Rightarrow> bool" where
  "sp_good cfg pl \<longleftrightarrow> sp_inv cfg (fst pl) \<and> no_lost_wakeup cfg (fst pl)"

lemma try_good: "sp_inv cfg p \<Longrightarrow> sp_good cfg (fst (try_process_next cfg now p l), l')"
  by (simp add: sp_good_def try_process_next_inv try_process_next_wakes [THEN mp])

lemma sp_enqueue_good: "sp_good cfg (p, l) \<Longrightarrow> sp_good cfg (fst (sp_enqueue cfg key t now p l), l')"
proof -
  assume "sp_good cfg (p, l)"
  then have "sp_inv cfg (p\<lparr>sp_sessionQueues := js_set key (q @ [t]) (sp_sessionQueues p)\<rparr>)" for q
    using set_js_set [of key "q @ [t]" "sp_sessionQueues p"]
    unfolding sp_good_def sp_inv_def by auto
  then show ?thesis by (simp add: sp_enqueue_def case_prod_beta Let_def try_good)
qed

lemma budget_check_settled_good:
  assumes "sp_good cfg (p, l)"
  shows "sp_good cfg (fst (budget_check_settled cfg key t v now p l), l')"
proof (cases "(key, t, CheckingBudget) \<in> set (sp_running p)")
  case True
  let ?r = "remove1 (key, t, CheckingBudget) (sp_running p)"
  have inv: "sp_inv cfg p" and nl: "no_lost_wakeup cfg p" using assms by (simp_all add: sp_good_def)
  have deny: "sp_inv cfg (p\<lparr>sp_running := ?r, sp_activeSessions := sp_activeSessions p - {key}\<rparr>)"
    by (rule running_remove_inv [OF inv True])
  have d: "distinct (map fst (sp_running p))" using inv by (simp add: sp_inv_def)
  have len: "Suc (length ?r) = length (sp_running p)"
    using True by (simp add: length_remove1) (metis One_nat_def Suc_pred length_pos_if_in_set)
  have "key \<in> fst ` set (sp_running p)" using True by force
  then have "sp_inv cfg (p\<lparr>sp_budgetVerdicts := b, sp_running := (key, t, Executing) # ?r\<rparr>)" for b
    using inv d len keys_remove1 [OF d True] distinct_keys_remove1 [OF d, of "(key, t, CheckingBudget)"]
    unfolding sp_inv_def by auto
  moreover have "session_ready (p\<lparr>sp_budgetVerdicts := b, sp_running := r\<rparr>) = session_ready p" for r b
    by (simp add: session_ready_def fun_eq_iff)
  then have "no_lost_wakeup cfg (p\<lparr>sp_budgetVerdicts := b, sp_running := r\<rparr>) = no_lost_wakeup cfg p" for r b
    by (simp add: no_lost_wakeup_def pick_next_ready_session_def)
  ultimately have "sp_good cfg (p\<lparr>sp_budgetVerdicts := b, sp_running := (key, t, Executing) # ?r\<rparr>, l')" for b
    using nl by (simp add: sp_good_def)
  then show ?thesis
    using True deny
    by (auto simp: budget_check_settled_def run_executor_def deny_for_budget_def case_prod_beta Let_def
        try_good split: option.splits)
qed (use assms in \<open>simp add: budget_check_settled_def sp_good_def\<close>)

lemma executor_settled_good:
  assumes "sp_good cfg (p, l)"
  shows "sp_good cfg (fst (executor_settled cfg key t r now p l), l')"
proof (cases "(key, t, Executing) \<in> set (sp_running p)")
  case True
  let ?p = "p\<lparr>sp_running := remove1 (key, t, Executing) (sp_running p), sp_activeSessions := sp_activeSessions p - {key}\<rparr>"
  have inv: "sp_inv cfg ?p" using running_remove_inv [OF _ True] assms by (simp add: sp_good_def)
  then have "sp_inv cfg (?p\<lparr>sp_suspendedSessions := insert key (sp_suspendedSessions ?p)\<rparr>)"
    unfolding sp_inv_def by auto
  with inv show ?thesis
    using True by (auto simp: executor_settled_def case_prod_beta Let_def try_good split: option.splits bool.splits)
qed (use assms in \<open>simp add: executor_settled_def sp_good_def\<close>)

lemma dispatch_timer_good: "sp_good cfg (p, l) \<Longrightarrow> sp_good cfg (fst (dispatch_timer_fired cfg now p l), l')"
  by (cases "sp_dispatchTimer p") (simp_all add: dispatch_timer_fired_def try_good, simp_all add: sp_good_def
      try_process_next_inv try_process_next_wakes [THEN mp])

lemma release_good:
  assumes "sp_good cfg (p, l)"
  shows "sp_good cfg (fst (release_suspended_session cfg key now p l), l')"
proof -
  have "sp_inv cfg (p\<lparr>sp_suspendedSessions := sp_suspendedSessions p - {key}\<rparr>)"
    using assms unfolding sp_good_def sp_inv_def by auto
  then show ?thesis by (simp add: release_suspended_session_def try_good)
qed

lemmas sp_handler_good = sp_enqueue_good dispatch_timer_good budget_check_settled_good
  executor_settled_good release_good

lemma sp_step_good [wf_intros]:
  assumes "sp_good cfg pl"
  shows "sp_good cfg (fst (sp_step cfg c pl), fst (snd (sp_step cfg c pl)))"
  using assms
  by (cases "(cfg, c, pl)" rule: sp_step.cases)
    (simp_all add: sp_handler_good, simp add: sp_good_def)

section \<open>First in, first out\<close>

definition queue_of :: "string \<Rightarrow> session_processor \<Rightarrow> string list" where
  "queue_of k p = (case js_get (sp_sessionQueues p) k of None \<Rightarrow> [] | Some q \<Rightarrow> q)"

text \<open>The tasks a log takes from the queue of session \<open>k\<close>, and those it puts there.\<close>

fun taken :: "string \<Rightarrow> sp_event list \<Rightarrow> string list" where
  "taken k [] = []"
| "taken k (SpStarted k' t # evs) = (if k' = k then t # taken k evs else taken k evs)"
| "taken k (SpSkipped k' t oc # evs) = (if k' = k then t # taken k evs else taken k evs)"
| "taken k (e # evs) = taken k evs"

fun put_in :: "string \<Rightarrow> sp_event list \<Rightarrow> string list" where
  "put_in k [] = []"
| "put_in k (SpEnqueued k' t # evs) = (if k' = k then t # put_in k evs else put_in k evs)"
| "put_in k (e # evs) = put_in k evs"

lemma taken_append [simp]: "taken k (xs @ ys) = taken k xs @ taken k ys"
  by (induction k xs rule: taken.induct) auto

lemma put_in_append [simp]: "put_in k (xs @ ys) = put_in k xs @ put_in k ys"
  by (induction k xs rule: put_in.induct) auto

lemma start_session_events:
  "snd (start_session cfg now key t p) = SpStarted key t # (if sc_checkTaskBudget cfg then [] else [SpExecute t])"
  by (simp add: start_session_def dispatch_with_budget_check_def run_executor_def Let_def)

lemma queue_of_start [simp]: "queue_of k (fst (start_session cfg now key t p)) = queue_of k p"
  by (simp add: queue_of_def)

lemma shift_task_queue:
  "shift_task key p = Some (t, p1) \<Longrightarrow>
   queue_of k p = (if k = key then t # queue_of k p1 else queue_of k p1)"
  by (auto simp: shift_task_Some queue_of_def)

lemma try_process_next_fifo:
  "queue_of k p = taken k (snd (snd (try_process_next cfg now p l))) @ queue_of k (fst (try_process_next cfg now p l))
   \<and> put_in k (snd (snd (try_process_next cfg now p l))) = []"
proof (rule try_process_next_rule [where P = "\<lambda>p l p' l' evs. queue_of k p = taken k evs @ queue_of k p' \<and> put_in k evs = []"], goal_cases)
  case (2 p l)
  then show ?case by (simp add: queue_of_def)
next
  case (3 p l key t p1 p2 l2 evs)
  then show ?case using shift_task_queue [OF 3(2), of k] by auto
next
  case (4 p l key t p1 p2 l2 evs)
  then show ?case using shift_task_queue [OF 4(3), of k] by (auto simp: start_session_events)
qed simp

lemma queue_of_update [simp]:
  "queue_of k (p\<lparr>sp_running := a\<rparr>) = queue_of k p"
  "queue_of k (p\<lparr>sp_activeSessions := b\<rparr>) = queue_of k p"
  "queue_of k (p\<lparr>sp_suspendedSessions := c\<rparr>) = queue_of k p"
  "queue_of k (p\<lparr>sp_dispatchTimer := d\<rparr>) = queue_of k p"
  "queue_of k (p\<lparr>sp_budgetVerdicts := e\<rparr>) = queue_of k p"
  by (simp_all add: queue_of_def)

lemma queue_of_set:
  "queue_of k (p\<lparr>sp_sessionQueues := js_set key q (sp_sessionQueues p)\<rparr>) = (if k = key then q else queue_of k p)"
  by (simp add: queue_of_def)

lemma sp_step_fifo:
  "queue_of k (fst pl) @ put_in k (snd (snd (sp_step cfg c pl))) =
   taken k (snd (snd (sp_step cfg c pl))) @ queue_of k (fst (sp_step cfg c pl))"
proof -
  note fifo = try_process_next_fifo [of k _ cfg, THEN conjunct1] try_process_next_fifo [of k _ cfg, THEN conjunct2]
  have enq: "queue_of k p @ put_in k (snd (snd (sp_enqueue cfg key t now p l))) =
      taken k (snd (snd (sp_enqueue cfg key t now p l))) @ queue_of k (fst (sp_enqueue cfg key t now p l))"
    for key t now p l
    using fifo(1) [of "p\<lparr>sp_sessionQueues := js_set key (queue_of key p @ [t]) (sp_sessionQueues p)\<rparr>" now l]
    by (simp add: sp_enqueue_def queue_of_def [of key, symmetric] case_prod_beta Let_def fifo(2) queue_of_set split: if_splits)
  have norm: "queue_of k p = taken k (snd (snd (try_process_next cfg now p' l))) @
      queue_of k (fst (try_process_next cfg now p' l))" if "queue_of k p' = queue_of k p" for p p' now l
    using that fifo(1) [of p' now l] by simp
  show ?thesis
    by (cases "(cfg, c, pl)" rule: sp_step.cases)
      (auto simp: enq dispatch_timer_fired_def budget_check_settled_def deny_for_budget_def run_executor_def
        executor_settled_def release_suspended_session_def case_prod_beta Let_def fifo(2) intro!: norm
        split: option.splits bool.splits)
qed

section \<open>Locked sessions and live tasks\<close>

lemma try_process_next_locked:
  "k \<in> sp_activeSessions p \<union> sp_suspendedSessions p \<longrightarrow>
   taken k (snd (snd (try_process_next cfg now p l))) = [] \<and>
   sp_suspendedSessions (fst (try_process_next cfg now p l)) = sp_suspendedSessions p"
proof (rule try_process_next_rule [where P = "\<lambda>p l p' l' evs. k \<in> sp_activeSessions p \<union> sp_suspendedSessions p \<longrightarrow>
    taken k evs = [] \<and> sp_suspendedSessions p' = sp_suspendedSessions p"], goal_cases)
  case (3 p l key t p1 p2 l2 evs)
  then show ?case using pick_Some [OF 3(1)] shift_task_frame [OF 3(2)] by auto
next
  case (4 p l key t p1 p2 l2 evs)
  have "sp_suspendedSessions (fst (start_session cfg now key t p1)) = sp_suspendedSessions p1"
    "sp_activeSessions (fst (start_session cfg now key t p1)) = insert key (sp_activeSessions p1)"
    by (simp_all add: start_session_def dispatch_with_budget_check_def run_executor_def Let_def case_prod_beta)
  then show ?case
    using 4(5) pick_Some [OF 4(2)] shift_task_frame [OF 4(3)] by (auto simp: start_session_events)
qed simp_all

lemma try_process_next_live:
  "(\<forall>k t. SpStarted k t \<in> set (snd (snd (try_process_next cfg now p l))) \<longrightarrow>
      phases l t \<in> {Some Pending, Some WaitingApproval} \<and>
      phases (fst (snd (try_process_next cfg now p l))) t = Some Processing) \<and>
   (\<forall>t. phases l t = Some Processing \<longrightarrow> phases (fst (snd (try_process_next cfg now p l))) t = Some Processing)"
proof (rule try_process_next_rule [where P = "\<lambda>p l p' l' evs.
      (\<forall>k t. SpStarted k t \<in> set evs \<longrightarrow> phases l t \<in> {Some Pending, Some WaitingApproval} \<and> phases l' t = Some Processing) \<and>
      (\<forall>t. phases l t = Some Processing \<longrightarrow> phases l' t = Some Processing)"], goal_cases)
  case (4 p l key t p1 p2 l2 evs)
  let ?l1 = "fst (transition_task t Processing Dispatched no_payload now l)"
  have live: "phases l t \<in> {Some Pending, Some WaitingApproval}"
    using 4(4) registry.dispatch_applied_iff [of t Dispatched no_payload now l] by simp
  have l1: "phases ?l1 = (phases l)(t \<mapsto> Processing)"
    using 4(4) transition_task_cases [of l t Processing Dispatched no_payload now] by (auto split: if_splits)
  show ?case
    using 4(5) live unfolding l1 by (auto simp: start_session_events split: if_splits)
qed auto

lemma sp_step_locked:
  assumes "k \<in> sp_suspendedSessions (fst pl)" and "fst c \<noteq> SpRelease k"
  shows "taken k (snd (snd (sp_step cfg c pl))) = [] \<and> k \<in> sp_suspendedSessions (fst (sp_step cfg c pl))"
proof -
  note locked = try_process_next_locked [of k _ cfg, rule_format]
  show ?thesis
    using assms
    by (cases "(cfg, c, pl)" rule: sp_step.cases)
      (auto simp: sp_enqueue_def dispatch_timer_fired_def budget_check_settled_def deny_for_budget_def
        run_executor_def executor_settled_def release_suspended_session_def case_prod_beta Let_def locked
        split: option.splits bool.splits)
qed

section \<open>Reachable processors\<close>

definition sp_initial :: "session_processor \<times> lifecycle \<Rightarrow> bool" where
  "sp_initial pl \<longleftrightarrow> fst pl = idle_processor"

definition sp_next :: "sp_config \<Rightarrow> session_processor \<times> lifecycle \<Rightarrow> session_processor \<times> lifecycle \<Rightarrow> bool" where
  "sp_next cfg s t \<longleftrightarrow> (\<exists>c. t = (fst (sp_step cfg c s), fst (snd (sp_step cfg c s))))"

lemma idle_good: "sp_good cfg (idle_processor, l)"
  by (simp add: sp_good_def sp_inv_def no_lost_wakeup_def idle_processor_def pick_next_ready_session_def)

interpretation processor: inductive_invariant sp_initial "sp_next cfg" "sp_good cfg" for cfg
proof (unfold_locales, goal_cases)
  case (1 s)
  then show ?case using idle_good by (metis sp_initial_def prod.collapse)
next
  case (2 s t)
  then obtain c where "t = (fst (sp_step cfg c s), fst (snd (sp_step cfg c s)))"
    unfolding sp_next_def by blast
  then show ?case using sp_step_good [OF 2(2), of c] by simp
qed

lemma sp_run_reach:
  "reach sp_initial (sp_next cfg) pl \<Longrightarrow>
   reach sp_initial (sp_next cfg) (fst (sp_run cfg cs pl), fst (snd (sp_run cfg cs pl)))"
proof (induction cs arbitrary: pl)
  case (Cons c cs)
  have "sp_next cfg pl (fst (sp_step cfg c pl), fst (snd (sp_step cfg c pl)))"
    unfolding sp_next_def by blast
  from Cons.IH [OF reach_step [OF Cons.prems this]] show ?case
    by (cases pl) (simp add: case_prod_beta Let_def)
next
  case Nil
  then show ?case by (cases pl) simp
qed

lemma sp_run_good: "sp_good cfg (fst (sp_run cfg cs (idle_processor, l)), fst (snd (sp_run cfg cs (idle_processor, l))))"
  by (intro processor.invar_reach sp_run_reach reach_initial) (simp add: sp_initial_def)

lemma sp_run_fifo:
  "queue_of k (fst pl) @ put_in k (snd (snd (sp_run cfg cs pl))) =
   taken k (snd (snd (sp_run cfg cs pl))) @ queue_of k (fst (sp_run cfg cs pl))"
proof (induction cs arbitrary: pl)
  case (Cons c cs)
  let ?st = "sp_step cfg c pl"
  let ?rn = "sp_run cfg cs (fst ?st, fst (snd ?st))"
  have "queue_of k (fst pl) @ put_in k (snd (snd ?st)) @ put_in k (snd (snd ?rn)) =
      taken k (snd (snd ?st)) @ queue_of k (fst ?st) @ put_in k (snd (snd ?rn))"
    using sp_step_fifo [of k pl cfg c] by (metis append_assoc)
  also have "\<dots> = taken k (snd (snd ?st)) @ taken k (snd (snd ?rn)) @ queue_of k (fst ?rn)"
    using Cons.IH [of "(fst ?st, fst (snd ?st))"] by simp
  finally show ?case
    by (cases pl) (simp add: case_prod_beta Let_def)
next
  case Nil
  then show ?case by (cases pl) simp
qed

section \<open>Properties\<close>

text \<open>C3: sessions are serialized and bounded: after any run there is at most one task awaited per
  session, the active sessions are exactly those with an awaited task, at most the configured
  number of them, and no active session is suspended.\<close>

theorem sessions_never_overlap:
  "let p = fst (sp_run cfg cs (idle_processor, l))
   in distinct (map fst (sp_running p)) \<and> sp_activeSessions p = fst ` set (sp_running p) \<and>
      card (sp_activeSessions p) \<le> sc_maxConcurrent cfg \<and>
      sp_activeSessions p \<inter> sp_suspendedSessions p = {}"
  using sp_run_good [of cfg cs l] sp_inv_card by (fastforce simp: Let_def sp_good_def sp_inv_def)

text \<open>C4: no wake-up is lost: after any run, when a session has queued work and is neither active
  nor suspended, either the processor is at capacity or its dispatch timer is armed (or the first
  such session has the empty key, which the code takes for none).\<close>

theorem ready_work_is_never_stranded:
  "let p = fst (sp_run cfg cs (idle_processor, l))
   in pick_next_ready_session p = None \<or> pick_next_ready_session p = Some [] \<or>
      sc_maxConcurrent cfg \<le> card (sp_activeSessions p) \<or> (\<exists>at. sp_dispatchTimer p = Some at)"
  using sp_run_good [of cfg cs l] by (auto simp: Let_def sp_good_def no_lost_wakeup_def)

text \<open>Each session is first in, first out and loses nothing: after any run, the tasks enqueued
  for a session, in order, are the tasks taken from its queue (started or skipped), in order,
  followed by the tasks still queued.\<close>

theorem session_queue_is_fifo:
  "put_in k (snd (snd (sp_run cfg cs (idle_processor, l)))) =
   taken k (snd (snd (sp_run cfg cs (idle_processor, l)))) @ queue_of k (fst (sp_run cfg cs (idle_processor, l)))"
  using sp_run_fifo [of k "(idle_processor, l)" cfg cs] by (simp add: idle_processor_def queue_of_def)

text \<open>Only live tasks are dispatched: a task the dispatch loop starts was pending or waiting
  for approval when the loop began and is processing when it ends, so a task cancelled while it
  was queued is never handed to the executor.\<close>

theorem only_live_tasks_start:
  assumes "SpStarted k t \<in> set (snd (snd (try_process_next cfg now p l)))"
  shows "phases l t \<in> {Some Pending, Some WaitingApproval} \<and>
         phases (fst (snd (try_process_next cfg now p l))) t = Some Processing"
  using try_process_next_live [of cfg now p l] assms by blast

text \<open>A suspended session is locked: until it is released, no call takes a task from its queue
  and it stays suspended.\<close>

theorem suspended_session_is_locked:
  assumes "k \<in> sp_suspendedSessions p" and "fst c \<noteq> SpRelease k"
  shows "taken k (snd (snd (sp_step cfg c (p, l)))) = [] \<and>
         k \<in> sp_suspendedSessions (fst (sp_step cfg c (p, l)))"
  by (rule sp_step_locked) (use assms in simp_all)

text \<open>C38: the serialized session key can be read back: for a key whose user, channel type and
  channel are non-empty and free of colons and whose thread is absent or neither empty nor the word
  default, parsing the serialization returns the key.\<close>

theorem session_key_roundtrip:
  assumes "CHR '':'' \<notin> set (sk_userId key) \<union> set (sk_channelType key) \<union> set (sk_channelId key)"
    and "sk_userId key \<noteq> []" and "sk_channelType key \<noteq> []" and "sk_channelId key \<noteq> []"
    and "sk_threadId key \<notin> {Some [], Some ''default''}"
  shows "parse_session_key (serialize_session_key key) = Some key"
proof -
  define thr where "thr = or_default (case sk_threadId key of None \<Rightarrow> [] | Some t \<Rightarrow> t)"
  have "js_split CHR '':'' (serialize_session_key key) =
      sk_userId key # sk_channelType key # sk_channelId key # js_split CHR '':'' thr"
    using assms(1,4) by (simp add: serialize_session_key_def or_default_def [of "sk_channelId key"]
        js_split_piece flip: thr_def)
  moreover have "sk_threadId key = (if thr = ''default'' then None else Some thr)"
    using assms(5) by (cases "sk_threadId key") (auto simp: thr_def or_default_def)
  ultimately show ?thesis
    using assms(2-4) js_join_split [of "CHR '':''" thr]
    by (cases "js_split CHR '':'' thr") (auto simp: parse_session_key_def Let_def)
qed

section \<open>Concrete instances\<close>

definition demo_cfg :: sp_config where
  "demo_cfg = \<lparr>sc_maxConcurrent = 2, sc_taskDelayMs = 0, sc_checkTaskBudget = False, sc_onBudgetDenied = None\<rparr>"

definition demo_waiting :: session_processor where
  "demo_waiting = idle_processor\<lparr>sp_sessionQueues := [(''s'', [''a''])]\<rparr>"

lemma only_live_tasks_start_witness:
  "phases (fst (snd (try_process_next demo_cfg 5 demo_waiting demo_lifecycle))) ''a'' = Some Processing"
proof -
  have "SpStarted ''s'' ''a'' \<in> set (snd (snd (try_process_next demo_cfg 5 demo_waiting demo_lifecycle)))"
    by code_simp
  then show ?thesis by (rule only_live_tasks_start [THEN conjunct2])
qed

lemma suspended_session_is_locked_witness:
  "''s'' \<in> sp_suspendedSessions
     (fst (sp_step demo_cfg (SpTimer, 5) (demo_waiting\<lparr>sp_suspendedSessions := {''s''}\<rparr>, demo_lifecycle)))"
  by (rule suspended_session_is_locked [THEN conjunct2]) simp_all

lemma session_key_roundtrip_witness:
  "parse_session_key (serialize_session_key
     \<lparr>sk_userId = ''u'', sk_channelType = ''slack'', sk_channelId = ''c'', sk_threadId = Some ''t:1''\<rparr>) =
   Some \<lparr>sk_userId = ''u'', sk_channelType = ''slack'', sk_channelId = ''c'', sk_threadId = Some ''t:1''\<rparr>"
  by (rule session_key_roundtrip) simp_all

end
