(* ===== verification/Failover.thy ===== *)
theory Failover
  imports Prelude "HOL-Library.Sublist"
begin

text \<open>
  \<open>mcp-host/src/llm/failover\<close>: the provider failover policy and engine. A target's attempt is what
  the injected builder returns for it: nothing when the target cannot be constructed, else the
  model it really serves (when it says so) and the outcome its promise settles to. The clock is read
  after the attempt with a given index. While one call awaits an attempt other calls may use the
  same engine: \<open>others n\<close> is what they do to its state during attempt \<open>n\<close>.
\<close>

section \<open>Data\<close>

datatype llm_error_code =
    InvalidAttachment | ApiCallFailed | InvalidResponse | ContextLengthExceeded | ContentFiltered
  | ModelNotAvailable | InsufficientQuota | RateLimited | AuthenticationFailed | ModelOverloaded
  | ControlPlaneUnavailable | UpstreamRejected | ToolCallLimitExceeded | StreamDurationExceeded
  | ImageInputUnsupported | ImageInputUnknown | ModelSelectionConflict | ModelNotAllowed

datatype failover_class = InsufficientQuotaClass | AuthClass | ProviderUnavailableClass | RateLimitedClass

record model_pair =
  mp_provider :: string
  mp_model :: string

record fallback_entry =
  fe_provider :: string
  fe_model :: string
  fe_credentialSlot :: "string option"

record llm_policy =
  lp_cooldownSeconds :: int
  lp_triggerOn :: "failover_class list"
  lp_fallbacks :: "fallback_entry list"
  lp_budgetDeniedFailover :: bool

datatype failover_target = PrimaryTarget model_pair | FallbackTarget nat model_pair

record served_by =
  sb_pair :: model_pair
  sb_fallback :: bool

record classified =
  cl_code :: llm_error_code
  cl_retryable :: bool
  cl_providerCode :: "string option"

record failover_engine =
  fo_policy :: llm_policy
  fo_cooldownUntil :: "instant option"
  fo_served :: "served_by option"
  fo_nextProviderAttemptIndex :: nat

section \<open>Classification\<close>

definition ALL_FAILOVER_CLASSES :: "failover_class list" where
  "ALL_FAILOVER_CLASSES = [InsufficientQuotaClass, AuthClass, ProviderUnavailableClass, RateLimitedClass]"

fun classify_failover_class :: "llm_error_code \<Rightarrow> bool \<Rightarrow> failover_class option" where
  "classify_failover_class InsufficientQuota retryable = Some InsufficientQuotaClass"
| "classify_failover_class AuthenticationFailed retryable = Some AuthClass"
| "classify_failover_class RateLimited retryable = Some RateLimitedClass"
| "classify_failover_class ModelOverloaded retryable = Some ProviderUnavailableClass"
| "classify_failover_class ControlPlaneUnavailable retryable = Some ProviderUnavailableClass"
| "classify_failover_class ApiCallFailed retryable = (if retryable then Some ProviderUnavailableClass else None)"
| "classify_failover_class _ retryable = None"

section \<open>Parsing the policy\<close>

definition failover_class_of :: "json \<Rightarrow> failover_class option" where
  "failover_class_of v =
     (case v of
        JStr s \<Rightarrow>
          (if s = ''insufficient_quota'' then Some InsufficientQuotaClass
           else if s = ''auth'' then Some AuthClass
           else if s = ''provider_unavailable'' then Some ProviderUnavailableClass
           else if s = ''rate_limited'' then Some RateLimitedClass else None)
      | _ \<Rightarrow> None)"

definition DEFAULT_COOLDOWN_SECONDS :: int where
  "DEFAULT_COOLDOWN_SECONDS = 300"

definition parse_cooldown_and_triggers :: "json \<Rightarrow> int \<times> failover_class list" where
  "parse_cooldown_and_triggers rec =
     ((case json_field rec ''cooldownSeconds'' of
         Some (JInt n) \<Rightarrow> (if n \<ge> 0 then n else DEFAULT_COOLDOWN_SECONDS)
       | _ \<Rightarrow> DEFAULT_COOLDOWN_SECONDS),
      (case json_field rec ''triggerOn'' of
         Some (JArr vs) \<Rightarrow> List.map_filter failover_class_of vs
       | _ \<Rightarrow> ALL_FAILOVER_CLASSES))"

definition parse_fallback_entry :: "json \<Rightarrow> fallback_entry option" where
  "parse_fallback_entry raw =
     (case (json_field raw ''provider'', json_field raw ''model'') of
        (Some (JStr provider), Some (JStr model)) \<Rightarrow>
          (if provider = [] \<or> model = [] then None
           else Some \<lparr>fe_provider = provider, fe_model = model,
                      fe_credentialSlot =
                        (case json_field raw ''credentialSlot'' of
                           Some (JStr slot) \<Rightarrow> (if slot = [] then None else Some slot)
                         | _ \<Rightarrow> None)\<rparr>)
      | _ \<Rightarrow> None)"

definition parse_llm_policy :: "json \<Rightarrow> llm_policy option" where
  "parse_llm_policy raw =
     (case json_field raw ''fallbacks'' of
        Some (JArr items) \<Rightarrow>
          (let fallbacks = List.map_filter parse_fallback_entry items
           in if fallbacks = [] then None
              else
                (let (cooldownSeconds, triggerOn) = parse_cooldown_and_triggers raw
                 in Some \<lparr>lp_cooldownSeconds = cooldownSeconds, lp_triggerOn = triggerOn,
                          lp_fallbacks = fallbacks,
                          lp_budgetDeniedFailover = (json_field raw ''budgetDeniedFailover'' = Some (JBool True))\<rparr>))
      | _ \<Rightarrow> None)"

section \<open>The engine\<close>

definition new_failover_engine :: "llm_policy \<Rightarrow> failover_engine" where
  "new_failover_engine policy = \<lparr>fo_policy = policy, fo_cooldownUntil = None, fo_served = None,
     fo_nextProviderAttemptIndex = 1\<rparr>"

definition set_policy :: "llm_policy \<Rightarrow> failover_engine \<Rightarrow> failover_engine" where
  "set_policy policy e = e\<lparr>fo_policy := policy, fo_cooldownUntil := None, fo_served := None,
     fo_nextProviderAttemptIndex := 1\<rparr>"

definition is_eligible :: "llm_error_code \<Rightarrow> bool \<Rightarrow> failover_engine \<Rightarrow> bool" where
  "is_eligible code retryable e =
     (case classify_failover_class code retryable of
        None \<Rightarrow> False
      | Some cls \<Rightarrow> cls \<in> set (lp_triggerOn (fo_policy e)))"

definition note_served_primary :: "model_pair \<Rightarrow> failover_engine \<Rightarrow> failover_engine" where
  "note_served_primary pair e = e\<lparr>fo_served := Some \<lparr>sb_pair = pair, sb_fallback = False\<rparr>\<rparr>"

definition note_served_fallback :: "model_pair \<Rightarrow> failover_engine \<Rightarrow> failover_engine" where
  "note_served_fallback pair e = e\<lparr>fo_served := Some \<lparr>sb_pair = pair, sb_fallback = True\<rparr>\<rparr>"

definition clear_cooldown :: "failover_engine \<Rightarrow> failover_engine" where
  "clear_cooldown e = e\<lparr>fo_cooldownUntil := None\<rparr>"

definition fallback_targets :: "fallback_entry list \<Rightarrow> failover_target list" where
  "fallback_targets fs =
     map (\<lambda>(i, f). FallbackTarget i \<lparr>mp_provider = fe_provider f, mp_model = fe_model f\<rparr>)
       (enumerate 0 fs)"

definition plan_targets :: "model_pair \<Rightarrow> instant \<Rightarrow> failover_engine \<Rightarrow> failover_engine \<times> failover_target list" where
  "plan_targets primary now e =
     (let primaryCooling = (case fo_cooldownUntil e of None \<Rightarrow> False | Some c \<Rightarrow> now < c);
          e1 = (if primaryCooling then e else e\<lparr>fo_cooldownUntil := None\<rparr>)
      in (e1, (if primaryCooling then [] else [PrimaryTarget primary]) @
              fallback_targets (lp_fallbacks (fo_policy e1))))"

fun target_pair :: "failover_target \<Rightarrow> model_pair" where
  "target_pair (PrimaryTarget p) = p"
| "target_pair (FallbackTarget _ p) = p"

fun is_primary :: "failover_target \<Rightarrow> bool" where
  "is_primary (PrimaryTarget _) = True"
| "is_primary (FallbackTarget _ _) = False"

datatype ('e, 'a) fo_event =
    FoAttempt failover_target model_pair "'e + 'a"
  | FoSwitch model_pair model_pair failover_class

type_synonym ('e, 'a) builder = "failover_target \<Rightarrow> nat \<Rightarrow> (string option \<times> ('e + 'a)) option"

text \<open>What the catch block decides about an error: the class to go on with, or to give up.\<close>

definition failure_class :: "llm_policy \<Rightarrow> ('e \<Rightarrow> classified option) \<Rightarrow> 'e \<Rightarrow> failover_class option" where
  "failure_class policy classify err =
     (case classify err of
        None \<Rightarrow> None
      | Some c \<Rightarrow>
          (if cl_providerCode c = Some ''budget_denied'' \<and> \<not> lp_budgetDeniedFailover policy then None
           else case classify_failover_class (cl_code c) (cl_retryable c) of
                  None \<Rightarrow> None
                | Some cls \<Rightarrow> if cls \<in> set (lp_triggerOn policy) then Some cls else None))"

text \<open>The pair an attempt really serves, and the switch recorded before it.\<close>

definition served_pair :: "failover_target \<Rightarrow> string option \<Rightarrow> model_pair" where
  "served_pair target servedModel =
     \<lparr>mp_provider = mp_provider (target_pair target),
      mp_model = (case servedModel of None \<Rightarrow> mp_model (target_pair target) | Some m \<Rightarrow> m)\<rparr>"

definition record_switch :: "(model_pair \<times> failover_class) option \<Rightarrow> model_pair \<Rightarrow> ('e, 'a) fo_event list" where
  "record_switch prevFailure pair =
     (case prevFailure of None \<Rightarrow> [] | Some (from, reason) \<Rightarrow> [FoSwitch from pair reason])"

text \<open>The result \<open>Inl None\<close> is the error that no target could be attempted.\<close>

fun run_targets ::
  "('e, 'a) builder \<Rightarrow> ('e \<Rightarrow> classified option) \<Rightarrow> (nat \<Rightarrow> instant) \<Rightarrow>
   (nat \<Rightarrow> failover_engine \<Rightarrow> failover_engine) \<Rightarrow> failover_target list \<Rightarrow> 'e option \<Rightarrow>
   (model_pair \<times> failover_class) option \<Rightarrow> failover_engine \<Rightarrow>
   failover_engine \<times> ('e option + 'a) \<times> ('e, 'a) fo_event list" where
  "run_targets build classify clock others [] lastErr prevFailure e = (e, Inl lastErr, [])"
| "run_targets build classify clock others (target # targets) lastErr prevFailure e =
     (let n = fo_nextProviderAttemptIndex e in
      case build target n of
        None \<Rightarrow> run_targets build classify clock others targets lastErr prevFailure e
      | Some (servedModel, settled) \<Rightarrow>
          (let e1 = e\<lparr>fo_nextProviderAttemptIndex := n + 1\<rparr>;
               pair = served_pair target servedModel;
               switch = record_switch prevFailure pair;
               e2 = others n e1
           in case settled of
                Inr result \<Rightarrow>
                  ((if is_primary target then note_served_primary pair e2 else note_served_fallback pair e2),
                   Inr result, switch @ [FoAttempt target pair settled])
              | Inl err \<Rightarrow>
                  (case failure_class (fo_policy e2) classify err of
                     None \<Rightarrow> (e2, Inl (Some err), switch @ [FoAttempt target pair settled])
                   | Some cls \<Rightarrow>
                       (let e3 = (if is_primary target
                                  then e2\<lparr>fo_cooldownUntil :=
                                           Some (clock n + lp_cooldownSeconds (fo_policy e2) * 1000)\<rparr>
                                  else e2);
                            (e4, result, log) =
                              run_targets build classify clock others targets (Some err) (Some (pair, cls)) e3
                        in (e4, result, switch @ FoAttempt target pair settled # log)))))"

definition failover_run ::
  "model_pair \<Rightarrow> ('e, 'a) builder \<Rightarrow> ('e \<Rightarrow> classified option) \<Rightarrow> instant \<Rightarrow> (nat \<Rightarrow> instant) \<Rightarrow>
   (nat \<Rightarrow> failover_engine \<Rightarrow> failover_engine) \<Rightarrow> failover_engine \<Rightarrow>
   failover_engine \<times> ('e option + 'a) \<times> ('e, 'a) fo_event list" where
  "failover_run primary build classify now clock others e =
     (let (e1, targets) = plan_targets primary now e
      in run_targets build classify clock others targets None None e1)"

section \<open>Reading the log\<close>

fun attempts_of :: "('e, 'a) fo_event list \<Rightarrow> (failover_target \<times> model_pair \<times> ('e + 'a)) list" where
  "attempts_of [] = []"
| "attempts_of (FoAttempt t p oc # evs) = (t, p, oc) # attempts_of evs"
| "attempts_of (FoSwitch p q r # evs) = attempts_of evs"

fun switches_of :: "('e, 'a) fo_event list \<Rightarrow> (model_pair \<times> model_pair \<times> failover_class) list" where
  "switches_of [] = []"
| "switches_of (FoAttempt t p oc # evs) = switches_of evs"
| "switches_of (FoSwitch p q r # evs) = (p, q, r) # switches_of evs"

abbreviation run_log where
  "run_log r \<equiv> snd (snd r)"

abbreviation run_result where
  "run_result r \<equiv> fst (snd r)"

lemma attempts_of_append [simp]: "attempts_of (xs @ ys) = attempts_of xs @ attempts_of ys"
  by (induction xs rule: attempts_of.induct) auto

lemma switches_of_append [simp]: "switches_of (xs @ ys) = switches_of xs @ switches_of ys"
  by (induction xs rule: switches_of.induct) auto

lemma record_switch_log [simp]:
  "attempts_of (record_switch prev pair) = []"
  "switches_of (record_switch prev pair) = (case prev of None \<Rightarrow> [] | Some (p, c) \<Rightarrow> [(p, pair, c)])"
  by (auto simp: record_switch_def split: option.splits)

text \<open>
  The rule of the attempt loop: a relation between its arguments and its result holds when it
  holds for an exhausted list, is kept by skipping a target, and holds for an attempt that settles
  the call and for one that fails with an error to go on with.
\<close>

definition after_await :: "(nat \<Rightarrow> failover_engine \<Rightarrow> failover_engine) \<Rightarrow> failover_engine \<Rightarrow> failover_engine" where
  "after_await others e = others (fo_nextProviderAttemptIndex e)
     (e\<lparr>fo_nextProviderAttemptIndex := fo_nextProviderAttemptIndex e + 1\<rparr>)"

definition after_failure :: "(nat \<Rightarrow> instant) \<Rightarrow> nat \<Rightarrow> failover_target \<Rightarrow> failover_engine \<Rightarrow> failover_engine" where
  "after_failure clock n target e =
     (if is_primary target
      then e\<lparr>fo_cooldownUntil := Some (clock n + lp_cooldownSeconds (fo_policy e) * 1000)\<rparr> else e)"

lemma run_targets_rule [case_names exhausted skip success fatal go_on]:
  assumes exhausted: "\<And>le pv e. P [] le pv e e (Inl le) []"
    and skip: "\<And>t ts le pv e e' r log. build t (fo_nextProviderAttemptIndex e) = None \<Longrightarrow>
        P ts le pv e e' r log \<Longrightarrow> P (t # ts) le pv e e' r log"
    and success: "\<And>t ts le pv e m x. build t (fo_nextProviderAttemptIndex e) = Some (m, Inr x) \<Longrightarrow>
        P (t # ts) le pv e
          ((if is_primary t then note_served_primary else note_served_fallback) (served_pair t m) (after_await others e))
          (Inr x) (record_switch pv (served_pair t m) @ [FoAttempt t (served_pair t m) (Inr x)])"
    and fatal: "\<And>t ts le pv e m err. build t (fo_nextProviderAttemptIndex e) = Some (m, Inl err) \<Longrightarrow>
        failure_class (fo_policy (after_await others e)) classify err = None \<Longrightarrow>
        P (t # ts) le pv e (after_await others e) (Inl (Some err))
          (record_switch pv (served_pair t m) @ [FoAttempt t (served_pair t m) (Inl err)])"
    and go_on: "\<And>t ts le pv e m err cls e' r log. build t (fo_nextProviderAttemptIndex e) = Some (m, Inl err) \<Longrightarrow>
        failure_class (fo_policy (after_await others e)) classify err = Some cls \<Longrightarrow>
        P ts (Some err) (Some (served_pair t m, cls))
          (after_failure clock (fo_nextProviderAttemptIndex e) t (after_await others e)) e' r log \<Longrightarrow>
        P (t # ts) le pv e e' r
          (record_switch pv (served_pair t m) @ FoAttempt t (served_pair t m) (Inl err) # log)"
  shows "P ts le pv e (fst (run_targets build classify clock others ts le pv e))
           (run_result (run_targets build classify clock others ts le pv e))
           (run_log (run_targets build classify clock others ts le pv e))"
proof (induction ts arbitrary: le pv e)
  case Nil
  then show ?case using exhausted by simp
next
  case (Cons t ts)
  show ?case
  proof (cases "build t (fo_nextProviderAttemptIndex e)")
    case None
    with skip [OF None Cons.IH] show ?thesis by (simp add: Let_def)
  next
    case (Some ms)
    obtain m settled where ms: "ms = (m, settled)" by (cases ms)
    show ?thesis
    proof (cases settled)
      case (Inr x)
      have "build t (fo_nextProviderAttemptIndex e) = Some (m, Inr x)" using Some ms Inr by simp
      from success [OF this, of ts le pv] this show ?thesis by (simp add: after_await_def Let_def split: if_splits)
    next
      case (Inl err)
      have b: "build t (fo_nextProviderAttemptIndex e) = Some (m, Inl err)" using Some ms Inl by simp
      show ?thesis
      proof (cases "failure_class (fo_policy (after_await others e)) classify err")
        case None
        from fatal [OF b None, of ts le pv] b None show ?thesis by (simp add: after_await_def Let_def)
      next
        case cls: (Some cls)
        from go_on [OF b cls Cons.IH, of le pv] b cls show ?thesis
          by (simp add: after_await_def after_failure_def Let_def case_prod_beta)
      qed
    qed
  qed
qed

lemma run_targets_subseq:
  "subseq (map fst (attempts_of (run_log (run_targets build classify clock others ts le pv e)))) ts"
  by (rule run_targets_rule [where P = "\<lambda>ts le pv e e' r log. subseq (map fst (attempts_of log)) ts"]) auto

text \<open>What other calls may leave alone: the policy (only \<open>setPolicy\<close> replaces it), the cooldown.\<close>

definition keeps_policy :: "(nat \<Rightarrow> failover_engine \<Rightarrow> failover_engine) \<Rightarrow> bool" where
  "keeps_policy others \<longleftrightarrow> (\<forall>n e. fo_policy (others n e) = fo_policy e)"

definition keeps_cooldown :: "(nat \<Rightarrow> failover_engine \<Rightarrow> failover_engine) \<Rightarrow> bool" where
  "keeps_cooldown others \<longleftrightarrow> (\<forall>n e. fo_cooldownUntil (others n e) = fo_cooldownUntil e)"

lemma after_policy [simp]:
  "keeps_policy others \<Longrightarrow> fo_policy (after_await others e) = fo_policy e"
  "fo_policy (after_failure clock n t e) = fo_policy e"
  by (simp_all add: keeps_policy_def after_await_def after_failure_def)

definition settles :: "'e + 'a \<Rightarrow> 'e option + 'a" where
  "settles oc = (case oc of Inl err \<Rightarrow> Inl (Some err) | Inr x \<Rightarrow> Inr x)"

definition goes_on :: "llm_policy \<Rightarrow> ('e \<Rightarrow> classified option) \<Rightarrow> 'e + 'a \<Rightarrow> bool" where
  "goes_on policy classify oc =
     (case oc of Inr _ \<Rightarrow> False | Inl err \<Rightarrow> failure_class policy classify err \<noteq> None)"

text \<open>The policies that can be in force while a call runs: the one it started under and those others install.\<close>

inductive policy_in_force :: "(nat \<Rightarrow> failover_engine \<Rightarrow> failover_engine) \<Rightarrow> llm_policy \<Rightarrow> llm_policy \<Rightarrow> bool"
  for others :: "nat \<Rightarrow> failover_engine \<Rightarrow> failover_engine" where
  policy_at_start: "policy_in_force others p p"
| policy_replaced: "policy_in_force others (fo_policy (others n e)) q \<Longrightarrow> fo_policy e = p \<Longrightarrow> policy_in_force others p q"

lemma policy_kept: "policy_in_force others p q \<Longrightarrow> keeps_policy others \<Longrightarrow> q = p"
  by (induction rule: policy_in_force.induct) (simp_all add: keeps_policy_def)

lemma policy_after_await:
  "policy_in_force others (fo_policy (after_await others e)) q \<Longrightarrow> policy_in_force others (fo_policy e) q"
  unfolding after_await_def by (erule policy_replaced) simp

lemma run_targets_attempts:
  "let as = attempts_of (run_log (run_targets build classify clock others ts le pv e))
   in (if as = [] then run_result (run_targets build classify clock others ts le pv e) = Inl le
       else run_result (run_targets build classify clock others ts le pv e) = settles (snd (snd (last as)))) \<and>
      (\<forall>a\<in>set (butlast as). \<exists>p. policy_in_force others (fo_policy e) p \<and> goes_on p classify (snd (snd a)))"
proof (rule run_targets_rule [where P = "\<lambda>ts le pv e e' r log.
    let as = attempts_of log in
     (if as = [] then r = Inl le else r = settles (snd (snd (last as)))) \<and>
     (\<forall>a\<in>set (butlast as). \<exists>p. policy_in_force others (fo_policy e) p \<and> goes_on p classify (snd (snd a)))"], goal_cases)
  case (5 t ts le pv e m err cls e' r log)
  have "policy_in_force others (fo_policy e) (fo_policy (after_await others e))"
    by (rule policy_after_await) (rule policy_at_start)
  moreover have "goes_on (fo_policy (after_await others e)) classify (Inl err :: 'a + 'b)"
    using 5(2) by (simp add: goes_on_def)
  ultimately show ?case using 5(3)
    by (auto simp: Let_def settles_def dest: policy_after_await)
qed (auto simp: Let_def settles_def)

lemma run_targets_chain:
  "keeps_policy others \<longrightarrow>
   (let as = attempts_of (run_log (run_targets build classify clock others ts le pv e))
    in (if as = [] then run_result (run_targets build classify clock others ts le pv e) = Inl le
        else run_result (run_targets build classify clock others ts le pv e) = settles (snd (snd (last as)))) \<and>
       (\<forall>a\<in>set (butlast as). goes_on (fo_policy e) classify (snd (snd a))))"
proof (rule run_targets_rule [where P = "\<lambda>ts le pv e e' r log. keeps_policy others \<longrightarrow>
    (let as = attempts_of log in
     (if as = [] then r = Inl le else r = settles (snd (snd (last as)))) \<and>
     (\<forall>a\<in>set (butlast as). goes_on (fo_policy e) classify (snd (snd a))))"], goal_cases)
  case (5 t ts le pv e m err cls e' r log)
  then show ?case
    by (auto simp: Let_def settles_def goes_on_def)
qed (auto simp: Let_def settles_def)

definition switch_between ::
  "llm_policy \<Rightarrow> ('e \<Rightarrow> classified option) \<Rightarrow> (failover_target \<times> model_pair \<times> ('e + 'a)) \<times> (failover_target \<times> model_pair \<times> ('e + 'a)) \<Rightarrow>
   model_pair \<times> model_pair \<times> failover_class" where
  "switch_between policy classify ab =
     (fst (snd (fst ab)), fst (snd (snd ab)),
      the (failure_class policy classify (projl (snd (snd (fst ab))))))"

lemma run_targets_switches:
  "keeps_policy others \<longrightarrow>
   (let as = attempts_of (run_log (run_targets build classify clock others ts le pv e))
    in switches_of (run_log (run_targets build classify clock others ts le pv e)) =
       (case (pv, as) of (Some (p, c), (_, q, _) # _) \<Rightarrow> [(p, q, c)] | _ \<Rightarrow> []) @
       map (switch_between (fo_policy e) classify) (zip as (tl as)))"
proof (rule run_targets_rule [where P = "\<lambda>ts le pv e e' r log. keeps_policy others \<longrightarrow>
    (let as = attempts_of log in switches_of log =
       (case (pv, as) of (Some (p, c), (_, q, _) # _) \<Rightarrow> [(p, q, c)] | _ \<Rightarrow> []) @
       map (switch_between (fo_policy e) classify) (zip as (tl as)))"], goal_cases)
  case (5 t ts le pv e m err cls e' r log)
  then show ?case
    by (cases "attempts_of log") (auto simp: Let_def switch_between_def split: option.splits)
qed (auto simp: Let_def split: option.splits)

definition succeeds :: "('e, 'a) builder \<Rightarrow> failover_target \<Rightarrow> 'a option" where
  "succeeds build t = (case build t 0 of Some (_, Inr x) \<Rightarrow> Some x | _ \<Rightarrow> None)"

definition may_go_on :: "('e, 'a) builder \<Rightarrow> llm_policy \<Rightarrow> ('e \<Rightarrow> classified option) \<Rightarrow> failover_target \<Rightarrow> bool" where
  "may_go_on build policy classify t =
     (case build t 0 of Some (_, Inl err) \<Rightarrow> failure_class policy classify err \<noteq> None | _ \<Rightarrow> True)"

lemma run_targets_finds:
  "(\<forall>t n. build t n = build t 0) \<and> keeps_policy others \<and> (\<forall>t\<in>set ts. may_go_on build (fo_policy e) classify t) \<longrightarrow>
   (case List.map_filter (succeeds build) ts of
      [] \<Rightarrow> True | x # _ \<Rightarrow> run_result (run_targets build classify clock others ts le pv e) = Inr x)"
proof (rule run_targets_rule [where P = "\<lambda>ts le pv e e' r log.
    (\<forall>t n. build t n = build t 0) \<and> keeps_policy others \<and> (\<forall>t\<in>set ts. may_go_on build (fo_policy e) classify t) \<longrightarrow>
    (case List.map_filter (succeeds build) ts of [] \<Rightarrow> True | x # _ \<Rightarrow> r = Inr x)"], goal_cases)
  case (2 t ts le pv e e' r log)
  have "(\<forall>t n. build t n = build t 0) \<Longrightarrow> build t 0 = None" using 2(1) by metis
  then have "(\<forall>t n. build t n = build t 0) \<Longrightarrow> succeeds build t = None" by (simp add: succeeds_def)
  with 2(2) show ?case by (simp add: map_filter_simps)
next
  case (3 t ts le pv e m x)
  have "(\<forall>t n. build t n = build t 0) \<Longrightarrow> build t 0 = Some (m, Inr x)" using 3 by metis
  then have "(\<forall>t n. build t n = build t 0) \<Longrightarrow> succeeds build t = Some x" by (simp add: succeeds_def)
  then show ?case by (simp add: map_filter_simps)
next
  case (4 t ts le pv e m err)
  have "(\<forall>t n. build t n = build t 0) \<Longrightarrow> build t 0 = Some (m, Inl err)" using 4(1) by metis
  then have "(\<forall>t n. build t n = build t 0) \<Longrightarrow> keeps_policy others \<Longrightarrow> \<not> may_go_on build (fo_policy e) classify t"
    using 4(2) by (simp add: may_go_on_def)
  then show ?case by auto
next
  case (5 t ts le pv e m err cls e' r log)
  have "(\<forall>t n. build t n = build t 0) \<Longrightarrow> build t 0 = Some (m, Inl err)" using 5(1) by metis
  then have "(\<forall>t n. build t n = build t 0) \<Longrightarrow> succeeds build t = None" by (simp add: succeeds_def)
  with 5(3) show ?case by (simp add: map_filter_simps)
qed (simp_all add: map_filter_simps)

lemma run_targets_cooldown:
  "keeps_policy others \<and> keeps_cooldown others \<and> (\<forall>t\<in>set ts. \<not> is_primary t) \<longrightarrow>
   fo_cooldownUntil (fst (run_targets build classify clock others ts le pv e)) = fo_cooldownUntil e"
  by (rule run_targets_rule [where P = "\<lambda>ts le pv e e' r log.
      keeps_policy others \<and> keeps_cooldown others \<and> (\<forall>t\<in>set ts. \<not> is_primary t) \<longrightarrow>
      fo_cooldownUntil e' = fo_cooldownUntil e"])
    (auto simp: keeps_cooldown_def after_await_def after_failure_def note_served_fallback_def)

lemma fallbacks_not_primary: "t \<in> set (fallback_targets fs) \<Longrightarrow> \<not> is_primary t"
  by (auto simp: fallback_targets_def)

lemma plan_targets_policy [simp]: "fo_policy (fst (plan_targets primary now e)) = fo_policy e"
  by (simp add: plan_targets_def Let_def)

lemma distinct_fallbacks: "distinct (fallback_targets fs)"
proof -
  have "inj_on (\<lambda>(i, f). FallbackTarget i \<lparr>mp_provider = fe_provider f, mp_model = fe_model f\<rparr>) (set (enumerate 0 fs))"
    by (rule inj_onI) (auto simp: in_set_enumerate_eq)
  then show ?thesis by (simp add: fallback_targets_def distinct_map)
qed

lemma distinct_plan: "distinct (snd (plan_targets primary now e))"
  using distinct_fallbacks by (auto simp: plan_targets_def Let_def dest: fallbacks_not_primary)

lemma subseq_distinct: "subseq xs ys \<Longrightarrow> distinct ys \<Longrightarrow> distinct xs"
  by (auto simp: subseq_conv_nths intro: distinct_nthsI)

lemma subseq_set: "subseq xs ys \<Longrightarrow> set xs \<subseteq> set ys"
  by (auto simp: subseq_conv_nths dest: in_set_nthsD)

lemma goes_onD:
  "goes_on policy classify oc \<Longrightarrow>
   \<exists>err c cls. oc = Inl err \<and> classify err = Some c \<and>
     classify_failover_class (cl_code c) (cl_retryable c) = Some cls \<and> cls \<in> set (lp_triggerOn policy) \<and>
     (cl_providerCode c = Some ''budget_denied'' \<longrightarrow> lp_budgetDeniedFailover policy)"
  by (auto simp: goes_on_def failure_class_def split: sum.splits option.splits if_splits)

lemma failover_run_unfold:
  "failover_run primary build classify now clock others e =
   run_targets build classify clock others (snd (plan_targets primary now e)) None None (fst (plan_targets primary now e))"
  by (simp add: failover_run_def case_prod_beta Let_def)

section \<open>Properties\<close>


text \<open>C29: terminal errors are never masked: when a call goes on to another target after an attempt,
  that attempt failed with a classified error whose class is one of the policy's triggers, and with
  a budget denial only if the policy opts in.\<close>

theorem failover_never_masks_terminal_errors:
  assumes "keeps_policy others"
    and "a \<in> set (butlast (attempts_of (run_log (failover_run primary build classify now clock others e))))"
  shows "\<exists>err c cls. snd (snd a) = Inl err \<and> classify err = Some c \<and>
           classify_failover_class (cl_code c) (cl_retryable c) = Some cls \<and>
           cls \<in> set (lp_triggerOn (fo_policy e)) \<and>
           (cl_providerCode c = Some ''budget_denied'' \<longrightarrow> lp_budgetDeniedFailover (fo_policy e))"
proof -
  have "goes_on (fo_policy e) classify (snd (snd a))"
    using run_targets_chain [of others build classify clock "snd (plan_targets primary now e)" None None
        "fst (plan_targets primary now e)"] assms
    by (auto simp: Let_def failover_run_unfold)
  then show ?thesis by (rule goes_onD)
qed

text \<open>A working target is reached: when the outcome of a target does not depend on the attempt
  number and every target that fails does so with an error the policy goes on after, a call with
  at least one working planned target returns the result of the first of them.\<close>

theorem failover_reaches_a_working_target:
  assumes "\<forall>t n. build t n = build t 0" and "keeps_policy others"
    and "\<forall>t\<in>set (snd (plan_targets primary now e)). may_go_on build (fo_policy e) classify t"
    and "List.map_filter (succeeds build) (snd (plan_targets primary now e)) = x # xs"
  shows "run_result (failover_run primary build classify now clock others e) = Inr x"
  using run_targets_finds [of build others "snd (plan_targets primary now e)"
      "fst (plan_targets primary now e)" classify clock None None] assms
  by (simp add: failover_run_unfold)

text \<open>Switches are reported exactly between consecutive attempts, with the pairs really served
  and the class of the earlier failure: targets that could not be constructed leave no trace.\<close>

theorem failover_switches_match_attempts:
  assumes "keeps_policy others"
  shows "let log = run_log (failover_run primary build classify now clock others e); as = attempts_of log
         in switches_of log = map (switch_between (fo_policy e) classify) (zip as (tl as))"
  using run_targets_switches [of others build classify clock "snd (plan_targets primary now e)" None None
      "fst (plan_targets primary now e)"] assms
  by (simp add: Let_def failover_run_unfold)

text \<open>The primary rests while it cools down: a call made before the cooldown ends attempts no
  primary, and a call made after it plans the primary first and clears the clock.\<close>

theorem cooling_primary_is_not_attempted:
  assumes "fo_cooldownUntil e = Some c"
  shows "if now < c
         then PrimaryTarget primary \<notin>
              fst ` set (attempts_of (run_log (failover_run primary build classify now clock others e)))
         else hd (snd (plan_targets primary now e)) = PrimaryTarget primary \<and>
              fo_cooldownUntil (fst (plan_targets primary now e)) = None"
proof (cases "now < c")
  case True
  then have plan: "snd (plan_targets primary now e) = fallback_targets (lp_fallbacks (fo_policy e))"
    using assms by (simp add: plan_targets_def Let_def)
  have "fst ` set (attempts_of (run_log (failover_run primary build classify now clock others e)))
      \<subseteq> set (fallback_targets (lp_fallbacks (fo_policy e)))"
    unfolding failover_run_unfold plan set_map [symmetric] by (rule subseq_set [OF run_targets_subseq])
  then show ?thesis using True fallbacks_not_primary by fastforce
qed (use assms in \<open>simp add: plan_targets_def Let_def\<close>)

text \<open>A failing primary starts its cooldown: when a call's primary fails with an error the policy
  goes on after, the engine ends the call with the cooldown set to the failure time plus the
  policy's seconds, provided other calls leave policy and cooldown alone.\<close>

theorem failing_primary_starts_cooldown:
  assumes "keeps_policy others" and "keeps_cooldown others" and "fo_cooldownUntil e = None"
    and "build (PrimaryTarget primary) (fo_nextProviderAttemptIndex e) = Some (m, Inl err)"
    and "failure_class (fo_policy e) classify err = Some cls"
  shows "fo_cooldownUntil (fst (failover_run primary build classify now clock others e)) =
           Some (clock (fo_nextProviderAttemptIndex e) + lp_cooldownSeconds (fo_policy e) * 1000)"
proof -
  let ?n = "fo_nextProviderAttemptIndex e"
  let ?e1 = "e\<lparr>fo_cooldownUntil := None\<rparr>"
  have plan: "plan_targets primary now e = (?e1, PrimaryTarget primary # fallback_targets (lp_fallbacks (fo_policy e)))"
    using assms(3) by (simp add: plan_targets_def Let_def)
  have pol: "fo_policy (others ?n (?e1\<lparr>fo_nextProviderAttemptIndex := ?n + 1\<rparr>)) = fo_policy e"
    using assms(1) by (simp add: keeps_policy_def)
  have "fo_cooldownUntil (fst (run_targets build classify clock others
      (fallback_targets (lp_fallbacks (fo_policy e))) le pv ea)) = fo_cooldownUntil ea" for le pv ea
    using run_targets_cooldown [of others "fallback_targets (lp_fallbacks (fo_policy e))" build classify clock le pv ea]
      assms(1,2) fallbacks_not_primary by blast
  then show ?thesis
    using assms(4,5) pol by (simp add: failover_run_unfold plan Let_def case_prod_beta)
qed

text \<open>A parsed policy is usable: it has at least one fallback, every fallback names a provider
  and a model, any credential slot is non-empty, the cooldown is not negative, and an input without
  a list of fallbacks gives no policy at all.\<close>

theorem parsed_policy_is_usable:
  assumes "parse_llm_policy raw = Some p"
  shows "lp_fallbacks p \<noteq> [] \<and> lp_cooldownSeconds p \<ge> 0 \<and>
         (\<forall>f\<in>set (lp_fallbacks p). fe_provider f \<noteq> [] \<and> fe_model f \<noteq> [] \<and> fe_credentialSlot f \<noteq> Some []) \<and>
         (\<exists>items. json_field raw ''fallbacks'' = Some (JArr items))"
proof -
  have entry: "fe_provider f \<noteq> [] \<and> fe_model f \<noteq> [] \<and> fe_credentialSlot f \<noteq> Some []"
    if "parse_fallback_entry v = Some f" for v f
    using that by (auto simp: parse_fallback_entry_def split: option.splits json.splits if_splits)
  obtain items where items: "json_field raw ''fallbacks'' = Some (JArr items)"
    using assms by (auto simp: parse_llm_policy_def split: option.splits json.splits)
  have "lp_cooldownSeconds p = fst (parse_cooldown_and_triggers raw)"
    "lp_fallbacks p = List.map_filter parse_fallback_entry items" "lp_fallbacks p \<noteq> []"
    using assms items by (auto simp: parse_llm_policy_def Let_def case_prod_beta split: if_splits)
  moreover have "fst (parse_cooldown_and_triggers raw) \<ge> 0"
    by (auto simp: parse_cooldown_and_triggers_def DEFAULT_COOLDOWN_SECONDS_def split: option.splits json.splits)
  ultimately show ?thesis
    using items entry by (auto simp: map_filter_def)
qed

section \<open>Concrete instances\<close>

definition demo_primary :: model_pair where
  "demo_primary = \<lparr>mp_provider = ''claude'', mp_model = ''m1''\<rparr>"

definition demo_policy :: llm_policy where
  "demo_policy = \<lparr>lp_cooldownSeconds = 300, lp_triggerOn = [RateLimitedClass],
     lp_fallbacks = [\<lparr>fe_provider = ''openai'', fe_model = ''m2'', fe_credentialSlot = None\<rparr>],
     lp_budgetDeniedFailover = False\<rparr>"

definition demo_build :: "(string, nat) builder" where
  "demo_build t n = (if is_primary t then Some (None, Inl ''429'') else Some (Some ''m2b'', Inr 7))"

definition demo_classify :: "string \<Rightarrow> classified option" where
  "demo_classify err = Some \<lparr>cl_code = RateLimited, cl_retryable = True, cl_providerCode = None\<rparr>"

definition demo_others :: "nat \<Rightarrow> failover_engine \<Rightarrow> failover_engine" where
  "demo_others n e = e\<lparr>fo_served := None\<rparr>"

abbreviation demo_failover where
  "demo_failover \<equiv> failover_run demo_primary demo_build demo_classify 100 (\<lambda>n. 100 + int n) demo_others
     (new_failover_engine demo_policy)"

lemma demo_others_keep: "keeps_policy demo_others" "keeps_cooldown demo_others"
  by (simp_all add: keeps_policy_def keeps_cooldown_def demo_others_def)


lemma failover_never_masks_terminal_errors_witness:
  "\<exists>a\<in>set (attempts_of (run_log demo_failover)). \<exists>err c cls. snd (snd a) = Inl err \<and> demo_classify err = Some c \<and>
     classify_failover_class (cl_code c) (cl_retryable c) = Some cls"
proof -
  let ?a = "(PrimaryTarget demo_primary, demo_primary, Inl ''429'' :: string + nat)"
  have "?a \<in> set (butlast (attempts_of (run_log demo_failover)))" by code_simp
  from failover_never_masks_terminal_errors [OF demo_others_keep(1) this] in_set_butlastD [OF this]
  show ?thesis by blast
qed

lemma failover_reaches_a_working_target_witness: "run_result demo_failover = Inr 7"
proof (rule failover_reaches_a_working_target [OF _ demo_others_keep(1)])
  show "\<forall>t n. demo_build t n = demo_build t 0" by (simp add: demo_build_def)
  show "\<forall>t\<in>set (snd (plan_targets demo_primary 100 (new_failover_engine demo_policy))).
      may_go_on demo_build (fo_policy (new_failover_engine demo_policy)) demo_classify t"
    by code_simp
  show "List.map_filter (succeeds demo_build) (snd (plan_targets demo_primary 100 (new_failover_engine demo_policy))) = 7 # []"
    by code_simp
qed

lemma failover_switches_match_attempts_witness:
  "switches_of (run_log demo_failover) =
     [(demo_primary, \<lparr>mp_provider = ''openai'', mp_model = ''m2b''\<rparr>, RateLimitedClass)]"
proof -
  have "(let as = attempts_of (run_log demo_failover)
      in map (switch_between (fo_policy (new_failover_engine demo_policy)) demo_classify) (zip as (tl as))) =
      [(demo_primary, \<lparr>mp_provider = ''openai'', mp_model = ''m2b''\<rparr>, RateLimitedClass)]"
    by code_simp
  then show ?thesis
    using failover_switches_match_attempts [OF demo_others_keep(1), of demo_primary demo_build demo_classify 100
      "\<lambda>n. 100 + int n" "new_failover_engine demo_policy"]
    by (simp add: Let_def)
qed

lemma cooling_primary_is_not_attempted_witness:
  "PrimaryTarget demo_primary \<notin> fst ` set (attempts_of (run_log (failover_run demo_primary demo_build demo_classify
     150 (\<lambda>n. 150) demo_others ((new_failover_engine demo_policy)\<lparr>fo_cooldownUntil := Some 200\<rparr>))))"
  using cooling_primary_is_not_attempted [of "(new_failover_engine demo_policy)\<lparr>fo_cooldownUntil := Some 200\<rparr>" 200 150
      demo_primary demo_build demo_classify "\<lambda>n. 150" demo_others]
  by simp

lemma failing_primary_starts_cooldown_witness:
  "fo_cooldownUntil (fst demo_failover) = Some 300101"
proof -
  have "fo_cooldownUntil (new_failover_engine demo_policy) = None"
    "demo_build (PrimaryTarget demo_primary) (fo_nextProviderAttemptIndex (new_failover_engine demo_policy)) =
      Some (None, Inl ''429'')"
    "failure_class (fo_policy (new_failover_engine demo_policy)) demo_classify ''429'' = Some RateLimitedClass"
    "100 + int (fo_nextProviderAttemptIndex (new_failover_engine demo_policy)) +
      lp_cooldownSeconds (fo_policy (new_failover_engine demo_policy)) * 1000 = 300101"
    by code_simp+
  then show ?thesis
    using failing_primary_starts_cooldown [OF demo_others_keep] by metis
qed

lemma parsed_policy_is_usable_witness:
  "\<exists>p. parse_llm_policy (JObj [(''cooldownSeconds'', JInt (- 5)),
     (''fallbacks'', JArr [JNull, JObj [(''provider'', JStr ''p''), (''model'', JStr ''m'')]])]) = Some p \<and>
     lp_cooldownSeconds p \<ge> 0"
proof -
  let ?raw = "JObj [(''cooldownSeconds'', JInt (- 5)),
     (''fallbacks'', JArr [JNull, JObj [(''provider'', JStr ''p''), (''model'', JStr ''m'')]])]"
  have "parse_llm_policy ?raw \<noteq> None" by code_simp
  then obtain p where "parse_llm_policy ?raw = Some p" by blast
  then show ?thesis using parsed_policy_is_usable by blast
qed

end
