(* ===== verification/Guardrails.thy ===== *)
theory Guardrails
  imports Prelude "HOL-Library.Char_ord" "HOL-Library.List_Lexorder" "HOL-Library.Product_Lexorder"
begin

text \<open>
  \<open>mcp-host/src/core/guardrails\<close>: the decision algebra, capabilities and the boundary engine. A
  chain of contributors is a function of the round and the input (a remote hook may answer two
  rounds differently); executing a call is recorded as the input it was executed on.
\<close>

section \<open>Decisions\<close>

datatype decision = NoDecision | Allow | Ask | Deny

fun decision_rank :: "decision \<Rightarrow> nat" where
  "decision_rank Deny = 3"
| "decision_rank Ask = 2"
| "decision_rank Allow = 1"
| "decision_rank NoDecision = 0"

instantiation decision :: linorder
begin

definition less_eq_decision :: "decision \<Rightarrow> decision \<Rightarrow> bool" where
  "a \<le> b \<longleftrightarrow> decision_rank a \<le> decision_rank b"

definition less_decision :: "decision \<Rightarrow> decision \<Rightarrow> bool" where
  "a < b \<longleftrightarrow> decision_rank a < decision_rank b"

instance
proof
  fix x y :: decision
  show "x \<le> y \<Longrightarrow> y \<le> x \<Longrightarrow> x = y"
    by (cases x; cases y) (simp_all add: less_eq_decision_def)
qed (auto simp: less_eq_decision_def less_decision_def)

end

lemma no_decision_least [simp]: "NoDecision \<le> d"
  by (simp add: less_eq_decision_def)

lemma deny_greatest [simp]: "d \<le> Deny"
  by (cases d) (simp_all add: less_eq_decision_def)

datatype contributor_phase = PrePhase | PostPhase

datatype contributor_source = AdminRule | HostRule | HookSource | ValidatorSource | CurrentSource

datatype capability = MayDeny | MayRewrite | MaySubstituteResult | MayAddContext

record ('i, 'r) contributor =
  co_phase :: contributor_phase
  co_source :: contributor_source
  co_sourceId :: string
  co_decision :: decision
  co_reasonCode :: string
  co_rewrite :: "'i option"
  co_substitute :: "'r option"

definition at_least_as_strict :: "decision \<Rightarrow> decision \<Rightarrow> bool" where
  "at_least_as_strict a b \<longleftrightarrow> decision_rank a \<ge> decision_rank b"

definition stricter :: "decision \<Rightarrow> decision \<Rightarrow> decision" where
  "stricter a b = (if decision_rank a \<ge> decision_rank b then a else b)"

definition aggregate_decision :: "('i, 'r) contributor list \<Rightarrow> decision" where
  "aggregate_decision contributions = foldl (\<lambda>outcome c. stricter outcome (co_decision c)) NoDecision contributions"

definition unmatched_default :: "bool \<Rightarrow> decision" where
  "unmatched_default hasRules = (if hasRules then Ask else NoDecision)"

fun source_rank :: "contributor_source \<Rightarrow> nat" where
  "source_rank AdminRule = 0"
| "source_rank HookSource = 1"
| "source_rank HostRule = 2"
| "source_rank ValidatorSource = 3"
| "source_rank CurrentSource = 4"

definition presentation_key :: "('i, 'r) contributor \<Rightarrow> nat \<times> string" where
  "presentation_key c = (source_rank (co_source c), co_sourceId c)"

definition pick_presentation_reason :: "('i, 'r) contributor list \<Rightarrow> decision \<Rightarrow> string option" where
  "pick_presentation_reason contributions decision =
     (case sort_key presentation_key (filter (\<lambda>c. co_decision c = decision) contributions) of
        [] \<Rightarrow> None
      | c # _ \<Rightarrow> Some (co_reasonCode c))"

section \<open>Capabilities\<close>

definition ALL_CAPABILITIES :: "capability list" where
  "ALL_CAPABILITIES = [MayDeny, MayRewrite, MaySubstituteResult, MayAddContext]"

definition within_ceiling :: "capability list \<Rightarrow> capability list \<Rightarrow> bool" where
  "within_ceiling granted ceiling \<longleftrightarrow> list_all (\<lambda>c. c \<in> set ceiling) granted"

definition enforce_capabilities :: "('i, 'r) contributor \<Rightarrow> capability list \<Rightarrow> ('i, 'r) contributor" where
  "enforce_capabilities c granted = c\<lparr>
     co_decision := (if co_decision c = Deny \<and> MayDeny \<notin> set granted then NoDecision else co_decision c),
     co_rewrite := (if co_rewrite c \<noteq> None \<and> MayRewrite \<notin> set granted then None else co_rewrite c),
     co_substitute := (if co_substitute c \<noteq> None \<and> MaySubstituteResult \<notin> set granted then None else co_substitute c)\<rparr>"

section \<open>The boundary\<close>

definition MAX_REWRITE_ROUNDS :: nat where
  "MAX_REWRITE_ROUNDS = 64"

text \<open>Evaluating the chain may fail with an error, which the boundary lets through.\<close>

type_synonym ('e, 'i, 'r) pre_chain = "nat \<Rightarrow> 'i \<Rightarrow> 'e + ('i, 'r) contributor list"

definition pending_rewrite :: "string set \<Rightarrow> ('i, 'r) contributor \<Rightarrow> bool" where
  "pending_rewrite applied c \<longleftrightarrow> co_rewrite c \<noteq> None \<and> co_sourceId c \<notin> applied"

text \<open>\<open>rewrite_rounds pre fuel round\<close> is the loop from \<open>round\<close> on with \<open>fuel\<close> rounds left.\<close>

fun rewrite_rounds ::
  "('e, 'i, 'r) pre_chain \<Rightarrow> nat \<Rightarrow> nat \<Rightarrow> string set \<Rightarrow> 'i \<Rightarrow> ('i, 'r) contributor list \<Rightarrow>
   'e + 'i \<times> ('i, 'r) contributor list" where
  "rewrite_rounds pre 0 round applied input contributions = Inr (input, contributions)"
| "rewrite_rounds pre (Suc fuel) round applied input _ =
     (case pre round input of
        Inl e \<Rightarrow> Inl e
      | Inr contributions \<Rightarrow>
          (case find (pending_rewrite applied) contributions of
             None \<Rightarrow> Inr (input, contributions)
           | Some pending \<Rightarrow>
               rewrite_rounds pre fuel (Suc round) (insert (co_sourceId pending) applied)
                 (the (co_rewrite pending)) contributions))"

record 'i boundary_evaluation =
  be_decision :: decision
  be_reasonCode :: string
  be_effectiveInput :: 'i
  be_source :: contributor_source

fun default_reason :: "decision \<Rightarrow> string" where
  "default_reason Ask = ''unmatched_ask''"
| "default_reason NoDecision = ''no_decision''"
| "default_reason Allow = ''allow''"
| "default_reason Deny = ''deny''"

definition evaluation_of :: "bool \<Rightarrow> 'i \<Rightarrow> ('i, 'r) contributor list \<Rightarrow> 'i boundary_evaluation" where
  "evaluation_of hasRules effectiveInput contributions =
     (let decision = (if contributions = [] then unmatched_default hasRules
                      else aggregate_decision contributions)
      in \<lparr>be_decision = decision,
          be_reasonCode = (case pick_presentation_reason contributions decision of
                             Some r \<Rightarrow> r | None \<Rightarrow> default_reason decision),
          be_effectiveInput = effectiveInput,
          be_source = (case find (\<lambda>c. co_decision c = decision) contributions of
                         Some c \<Rightarrow> co_source c | None \<Rightarrow> CurrentSource)\<rparr>)"

definition evaluate_boundary :: "bool \<Rightarrow> ('e, 'i, 'r) pre_chain \<Rightarrow> 'i \<Rightarrow> 'e + 'i boundary_evaluation" where
  "evaluate_boundary hasRules pre input =
     (case rewrite_rounds pre MAX_REWRITE_ROUNDS 0 {} input [] of
        Inl e \<Rightarrow> Inl e
      | Inr (effectiveInput, contributions) \<Rightarrow> Inr (evaluation_of hasRules effectiveInput contributions))"

datatype 'r boundary_outcome = Executed 'r | Denied string | AskOutcome string

text \<open>The outcome, with the inputs \<open>execute\<close> was called on. What the post contributors answer is not used.\<close>

definition guard ::
  "bool \<Rightarrow> ('e, 'i, 'r) pre_chain \<Rightarrow> ('r \<Rightarrow> 'e + ('i, 'r) contributor list) \<Rightarrow> ('i \<Rightarrow> 'e + 'r) \<Rightarrow> 'i \<Rightarrow>
   ('e + 'r boundary_outcome) \<times> 'i list" where
  "guard hasRules pre post execute input =
     (case evaluate_boundary hasRules pre input of
        Inl err \<Rightarrow> (Inl err, [])
      | Inr e \<Rightarrow>
          (case be_decision e of
             Deny \<Rightarrow> (Inr (Denied (be_reasonCode e)), [])
           | Ask \<Rightarrow> (Inr (AskOutcome (be_reasonCode e)), [])
           | _ \<Rightarrow>
               (case execute (be_effectiveInput e) of
                  Inl err \<Rightarrow> (Inl err, [be_effectiveInput e])
                | Inr result \<Rightarrow>
                    (case post result of
                       Inl err \<Rightarrow> (Inl err, [be_effectiveInput e])
                     | Inr _ \<Rightarrow> (Inr (Executed result), [be_effectiveInput e])))))"

section \<open>The strictest contribution\<close>

lemma stricter_max: "stricter a b = max a b"
  by (cases a; cases b) (simp_all add: stricter_def max_def less_eq_decision_def)

lemma aggregate_fold: "foldl (\<lambda>d c. stricter d (co_decision c)) d cs = fold max (map co_decision cs) d"
  by (induction cs arbitrary: d) (simp_all add: stricter_max max.commute)

lemma aggregate_Max: "aggregate_decision cs = Max (insert NoDecision (co_decision ` set cs))"
  using Max.set_eq_fold [of NoDecision "map co_decision cs"] by (simp add: aggregate_decision_def aggregate_fold)

lemma aggregate_ge: "c \<in> set cs \<Longrightarrow> co_decision c \<le> aggregate_decision cs"
  by (simp add: aggregate_Max)

lemma aggregate_deny: "aggregate_decision cs = Deny \<longleftrightarrow> (\<exists>c\<in>set cs. co_decision c = Deny)"
proof -
  have "aggregate_decision cs \<in> insert NoDecision (co_decision ` set cs)" unfolding aggregate_Max by (rule Max_in) simp_all
  then have "aggregate_decision cs = Deny \<Longrightarrow> \<exists>c\<in>set cs. co_decision c = Deny" by (auto intro: sym)
  moreover have "aggregate_decision cs = Deny" if "c \<in> set cs" "co_decision c = Deny" for c
    using aggregate_ge [OF that(1)] that(2) by (cases "aggregate_decision cs") (simp_all add: less_eq_decision_def)
  ultimately show ?thesis by blast
qed

lemma aggregate_ask:
  "aggregate_decision cs = Ask \<longleftrightarrow> (\<exists>c\<in>set cs. co_decision c = Ask) \<and> \<not> (\<exists>c\<in>set cs. co_decision c = Deny)"
proof -
  have mem: "aggregate_decision cs \<in> insert NoDecision (co_decision ` set cs)" unfolding aggregate_Max by (rule Max_in) simp_all
  show ?thesis
  proof (cases "aggregate_decision cs")
    case Deny
    then show ?thesis using aggregate_deny [of cs] by simp
  next
    case Ask
    then have "\<exists>c\<in>set cs. co_decision c = Ask" using mem by (auto intro: sym)
    then show ?thesis using Ask aggregate_deny [of cs] by auto
  qed (auto dest!: aggregate_ge simp: less_eq_decision_def)
qed

section \<open>The rewrite loop\<close>

text \<open>
  As long as fewer sources than rounds can rewrite, the loop leaves with the contributions of the
  input it returns, and with no rewrite left that could still be honored.
\<close>

definition rewrites_within :: "('e, 'i, 'r) pre_chain \<Rightarrow> string set \<Rightarrow> bool" where
  "rewrites_within pre S \<longleftrightarrow> (\<forall>r i cs. pre r i = Inr cs \<longrightarrow> (\<forall>c\<in>set cs. co_rewrite c \<noteq> None \<longrightarrow> co_sourceId c \<in> S))"

text \<open>The evaluations a call performs: its \<open>r\<close>th is on \<open>x\<close>, when the sources \<open>A\<close> have had their rewrite honored.\<close>

inductive evaluates_on :: "('e, 'i, 'r) pre_chain \<Rightarrow> 'i \<Rightarrow> nat \<Rightarrow> string set \<Rightarrow> 'i \<Rightarrow> bool"
  for pre :: "('e, 'i, 'r) pre_chain" and input :: 'i where
  first_round: "evaluates_on pre input 0 {} input"
| next_round: "evaluates_on pre input r A x \<Longrightarrow> pre r x = Inr cs \<Longrightarrow> find (pending_rewrite A) cs = Some c \<Longrightarrow>
    evaluates_on pre input (Suc r) (insert (co_sourceId c) A) (the (co_rewrite c))"

lemma rewrite_rounds_settles:
  assumes "rewrites_within pre S" and "finite S" and "card (S - A) < fuel" and "evaluates_on pre input r A x"
  shows "\<exists>r' A' x'. evaluates_on pre input r' A' x' \<and> r' < r + fuel \<and>
    (case pre r' x' of
       Inl e \<Rightarrow> rewrite_rounds pre fuel r A x cs0 = Inl e
     | Inr cs \<Rightarrow> find (pending_rewrite A') cs = None \<and> rewrite_rounds pre fuel r A x cs0 = Inr (x', cs))"
  using assms(3,4)
proof (induction fuel arbitrary: r A x cs0)
  case (Suc fuel)
  show ?case
  proof (cases "pre r x")
    case (Inl e)
    then show ?thesis using Suc.prems(2) by (intro exI [of _ r] exI [of _ A] exI [of _ x]) simp
  next
    case (Inr cs)
    show ?thesis
    proof (cases "find (pending_rewrite A) cs")
      case None
      then show ?thesis using Suc.prems(2) Inr by (intro exI [of _ r] exI [of _ A] exI [of _ x]) simp
    next
      case (Some c)
      then have "c \<in> set cs" "co_rewrite c \<noteq> None" "co_sourceId c \<notin> A"
        by (auto dest!: find_SomeD simp: pending_rewrite_def)
      then have "co_sourceId c \<in> S - A" using assms(1) Inr unfolding rewrites_within_def by blast
      then have "card (S - insert (co_sourceId c) A) < card (S - A)"
        using assms(2) by (intro psubset_card_mono) auto
      with Suc.prems(1) have "card (S - insert (co_sourceId c) A) < fuel" by simp
      from Suc.IH [OF this next_round [OF Suc.prems(2) Inr Some], of cs]
      have "\<exists>r' A' x'. evaluates_on pre input r' A' x' \<and> r' < r + Suc fuel \<and>
        (case pre r' x' of
           Inl e \<Rightarrow> rewrite_rounds pre fuel (Suc r) (insert (co_sourceId c) A) (the (co_rewrite c)) cs = Inl e
         | Inr cs' \<Rightarrow> find (pending_rewrite A') cs' = None \<and>
             rewrite_rounds pre fuel (Suc r) (insert (co_sourceId c) A) (the (co_rewrite c)) cs = Inr (x', cs'))"
        by simp
      moreover have "rewrite_rounds pre (Suc fuel) r A x cs0 =
          rewrite_rounds pre fuel (Suc r) (insert (co_sourceId c) A) (the (co_rewrite c)) cs"
        using Inr Some by simp
      ultimately show ?thesis by (simp only:)
    qed
  qed
qed simp

lemma boundary_settles:
  assumes "rewrites_within pre S" and "finite S" and "card S < MAX_REWRITE_ROUNDS"
  shows "\<exists>r A x. evaluates_on pre input r A x \<and> r < MAX_REWRITE_ROUNDS \<and>
    (case pre r x of
       Inl e \<Rightarrow> evaluate_boundary hasRules pre input = Inl e
     | Inr cs \<Rightarrow> find (pending_rewrite A) cs = None \<and>
         evaluate_boundary hasRules pre input = Inr (evaluation_of hasRules x cs))"
proof -
  have "card (S - {}) < MAX_REWRITE_ROUNDS" using assms(3) by simp
  from rewrite_rounds_settles [OF assms(1,2) this first_round] obtain r A x where
    "evaluates_on pre input r A x" "r < 0 + MAX_REWRITE_ROUNDS"
    "case pre r x of
       Inl e \<Rightarrow> rewrite_rounds pre MAX_REWRITE_ROUNDS 0 {} input [] = Inl e
     | Inr cs \<Rightarrow> find (pending_rewrite A) cs = None \<and> rewrite_rounds pre MAX_REWRITE_ROUNDS 0 {} input [] = Inr (x, cs)"
    by blast
  then show ?thesis
    by (intro exI [of _ r] exI [of _ A] exI [of _ x]) (auto simp: evaluate_boundary_def split: sum.splits)
qed

lemma be_of_evaluation:
  "be_effectiveInput (evaluation_of hasRules x cs) = x"
  "be_decision (evaluation_of hasRules x cs) = (if cs = [] then unmatched_default hasRules else aggregate_decision cs)"
  by (simp_all add: evaluation_of_def Let_def)

text \<open>An evaluation that returns is the one of a round on the input it returns.\<close>

lemma boundary_round:
  assumes "rewrites_within pre S" and "finite S" and "card S < MAX_REWRITE_ROUNDS"
    and "evaluate_boundary hasRules pre input = Inr e"
  shows "\<exists>r cs. pre r (be_effectiveInput e) = Inr cs \<and>
    be_decision e = (if cs = [] then unmatched_default hasRules else aggregate_decision cs)"
proof -
  obtain r A x where last: "case pre r x of
       Inl e \<Rightarrow> evaluate_boundary hasRules pre input = Inl e
     | Inr cs \<Rightarrow> find (pending_rewrite A) cs = None \<and>
         evaluate_boundary hasRules pre input = Inr (evaluation_of hasRules x cs)"
    using boundary_settles [OF assms(1-3)] by blast
  then obtain cs where "pre r x = Inr cs" "e = evaluation_of hasRules x cs" using assms(4) by (cases "pre r x") auto
  then show ?thesis by (auto simp: be_of_evaluation)
qed

section \<open>Properties\<close>

text \<open>The strictest contribution wins: the aggregate is the maximum of the contributed decisions
  in the order no decision, allow, ask, deny, so it does not depend on the order of the
  contributors and one deny denies.\<close>

theorem strictest_contribution_wins:
  "aggregate_decision cs = Max (insert NoDecision (co_decision ` set cs))"
  by (rule aggregate_Max)

text \<open>C39: a guarded call does what the last evaluation it performs says, and runs at most once. When fewer than 64
  sources can rewrite, the rounds of a call, each on the rewrite honored in the one before, come to one that
  fails, or in which no rewrite is left to honor. If it fails, the call ends in that error and nothing was
  executed. If a contributor of that round denies, the call is denied, if one asks (or none answers although there
  are rules), it is put up for approval, and nothing was executed. Otherwise the call is executed once, on
  the input this very round evaluated; what executing it or the post contributors throw is passed on.\<close>

theorem guarded_input_was_permitted:
  assumes "rewrites_within pre S" and "finite S" and "card S < MAX_REWRITE_ROUNDS"
  shows "\<exists>r A x. evaluates_on pre input r A x \<and> r < MAX_REWRITE_ROUNDS \<and>
    (case pre r x of
       Inl e \<Rightarrow> guard hasRules pre post execute input = (Inl e, [])
     | Inr cs \<Rightarrow> find (pending_rewrite A) cs = None \<and>
         (if \<exists>c\<in>set cs. co_decision c = Deny
          then \<exists>reason. guard hasRules pre post execute input = (Inr (Denied reason), [])
          else if (\<exists>c\<in>set cs. co_decision c = Ask) \<or> cs = [] \<and> hasRules
          then \<exists>reason. guard hasRules pre post execute input = (Inr (AskOutcome reason), [])
          else guard hasRules pre post execute input =
            (case execute x of Inl e \<Rightarrow> Inl e | Inr res \<Rightarrow> (case post res of Inl e \<Rightarrow> Inl e | Inr _ \<Rightarrow> Inr (Executed res)), [x])))"
proof -
  obtain r A x where run: "evaluates_on pre input r A x" "r < MAX_REWRITE_ROUNDS"
    and last: "case pre r x of
       Inl e \<Rightarrow> evaluate_boundary hasRules pre input = Inl e
     | Inr cs \<Rightarrow> find (pending_rewrite A) cs = None \<and>
         evaluate_boundary hasRules pre input = Inr (evaluation_of hasRules x cs)"
    using boundary_settles [OF assms] by blast
  have "case pre r x of
       Inl e \<Rightarrow> guard hasRules pre post execute input = (Inl e, [])
     | Inr cs \<Rightarrow> find (pending_rewrite A) cs = None \<and>
         (if \<exists>c\<in>set cs. co_decision c = Deny
          then \<exists>reason. guard hasRules pre post execute input = (Inr (Denied reason), [])
          else if (\<exists>c\<in>set cs. co_decision c = Ask) \<or> cs = [] \<and> hasRules
          then \<exists>reason. guard hasRules pre post execute input = (Inr (AskOutcome reason), [])
          else guard hasRules pre post execute input =
            (case execute x of Inl e \<Rightarrow> Inl e | Inr res \<Rightarrow> (case post res of Inl e \<Rightarrow> Inl e | Inr _ \<Rightarrow> Inr (Executed res)), [x]))"
  proof (cases "pre r x")
    case (Inl e)
    then show ?thesis using last by (simp add: guard_def)
  next
    case (Inr cs)
    then show ?thesis
      using last aggregate_deny [of cs] aggregate_ask [of cs]
      by (cases "aggregate_decision cs")
        (auto simp: guard_def be_of_evaluation unmatched_default_def aggregate_decision_def split: sum.splits)
  qed
  with run show ?thesis by blast
qed

text \<open>The presentation reason is the reason of a contribution that carries the decision and is
  first by source and then by source id, and there is none exactly when no contribution carries
  it.\<close>

theorem presentation_reason_is_first:
  "case pick_presentation_reason cs d of
     None \<Rightarrow> \<forall>c\<in>set cs. co_decision c \<noteq> d
   | Some reason \<Rightarrow> \<exists>c\<in>set cs. co_decision c = d \<and> co_reasonCode c = reason \<and>
       (\<forall>c'\<in>set cs. co_decision c' = d \<longrightarrow> presentation_key c \<le> presentation_key c')"
proof (cases "sort_key presentation_key (filter (\<lambda>c. co_decision c = d) cs)")
  case Nil
  then have "set (filter (\<lambda>c. co_decision c = d) cs) = {}" by (metis set_sort set_empty)
  then show ?thesis using Nil by (auto simp: pick_presentation_reason_def filter_empty_conv)
next
  case (Cons c rest)
  have set: "set (c # rest) = set (filter (\<lambda>c. co_decision c = d) cs)" by (metis Cons set_sort)
  have "sorted (map presentation_key (c # rest))" by (metis Cons sorted_sort_key)
  then have "\<forall>c'\<in>set (c # rest). presentation_key c \<le> presentation_key c'" by auto
  with set have "c \<in> set cs \<and> co_decision c = d \<and>
      (\<forall>c'\<in>set cs. co_decision c' = d \<longrightarrow> presentation_key c \<le> presentation_key c')" by auto
  then show ?thesis using Cons by (auto simp: pick_presentation_reason_def)
qed

text \<open>Enforcement bounds a hook by its grants: the enforced contribution denies only with the
  deny grant, rewrites only with the rewrite grant, substitutes only with the substitute grant,
  is never stricter than the original, and enforcing twice changes nothing more.\<close>

theorem enforcement_respects_grants:
  "let c' = enforce_capabilities c granted
   in (co_decision c' = Deny \<longrightarrow> MayDeny \<in> set granted) \<and>
      (co_rewrite c' \<noteq> None \<longrightarrow> MayRewrite \<in> set granted) \<and>
      (co_substitute c' \<noteq> None \<longrightarrow> MaySubstituteResult \<in> set granted) \<and>
      co_decision c' \<le> co_decision c \<and> enforce_capabilities c' granted = c'"
  by (simp add: enforce_capabilities_def Let_def)

text \<open>A chain in which every source rewrites once and the 64th input is denied.\<close>

definition staircase :: "(unit, nat, unit) pre_chain" where
  "staircase r n = Inr
     [\<lparr>co_phase = PrePhase, co_source = HookSource, co_sourceId = replicate n CHR ''a'',
       co_decision = (if n < 64 then Allow else Deny), co_reasonCode = ''r'',
       co_rewrite = (if n < 64 then Some (Suc n) else None), co_substitute = None\<rparr>]"

lemma staircase_rounds:
  "n + fuel \<le> 64 \<Longrightarrow>
   rewrite_rounds staircase fuel n ((\<lambda>m. replicate m CHR ''a'') ` {..<n}) n cs =
     Inr (n + fuel, if fuel = 0 then cs else projr (staircase 0 (n + fuel - 1)))"
proof (induction fuel arbitrary: n cs)
  case (Suc fuel)
  have "replicate n CHR ''a'' \<notin> (\<lambda>m. replicate m CHR ''a'') ` {..<n}"
    by (auto dest: arg_cong [of _ _ size])
  moreover have "insert (replicate n CHR ''a'') ((\<lambda>m. replicate m CHR ''a'') ` {..<n}) =
      (\<lambda>m. replicate m CHR ''a'') ` {..<Suc n}"
    by (auto simp: lessThan_Suc)
  ultimately show ?case
    using Suc.IH [of "Suc n" "projr (staircase n n)"] Suc.prems
    by (cases "fuel = 0") (simp_all add: staircase_def pending_rewrite_def)
qed simp

text \<open>The backstop can let a refused input through: with 64 rewriting sources there is a chain that
  denies the final input in every round and a call that is nevertheless executed on it, because
  the last rewrite is not evaluated again.\<close>

theorem backstop_executes_denied_input:
  "snd (guard True staircase (\<lambda>_. Inr []) (\<lambda>_. Inr ()) 0) = [64] \<and> (\<forall>r. aggregate_decision (projr (staircase r 64)) = Deny)"
  using staircase_rounds [of 0 64 "[]"]
  by (simp add: guard_def evaluate_boundary_def evaluation_of_def MAX_REWRITE_ROUNDS_def staircase_def
      aggregate_decision_def stricter_def Let_def)

section \<open>Concrete instances\<close>

definition demo_chain :: "(unit, nat, unit) pre_chain" where
  "demo_chain r n = Inr
     [\<lparr>co_phase = PrePhase, co_source = HookSource, co_sourceId = ''h'', co_decision = Allow, co_reasonCode = ''r'',
       co_rewrite = (if n = 0 then Some 5 else None), co_substitute = None\<rparr>]"

lemma demo_round: "evaluates_on demo_chain 0 (Suc 0) {''h''} 5"
  using next_round [OF first_round, of demo_chain 0 "projr (demo_chain 0 0)" "hd (projr (demo_chain 0 0))"]
  by (simp add: demo_chain_def pending_rewrite_def)

lemma guarded_input_was_permitted_witness:
  "guard True demo_chain (\<lambda>_. Inr []) (\<lambda>_. Inr ()) 0 = (Inr (Executed ()), [5]) \<and>
   (\<exists>r A x. evaluates_on demo_chain 0 r A x \<and> x \<in> set (snd (guard True demo_chain (\<lambda>_. Inr []) (\<lambda>_. Inr ()) 0)))"
proof -
  have "rewrites_within demo_chain {''h''}" by (auto simp: rewrites_within_def demo_chain_def)
  moreover have "card {''h''} < MAX_REWRITE_ROUNDS" by (simp add: MAX_REWRITE_ROUNDS_def)
  moreover have run: "guard True demo_chain (\<lambda>_. Inr []) (\<lambda>_. Inr ()) 0 = (Inr (Executed ()), [5])" by code_simp
  ultimately show ?thesis
    using guarded_input_was_permitted [of demo_chain "{''h''}" 0 True "\<lambda>_. Inr []" "\<lambda>_. Inr ()"]
    by (auto simp: demo_chain_def split: if_splits)
qed

end
