(* ===== verification/ToolRules.thy ===== *)
theory ToolRules
  imports Guardrails
begin

text \<open>
  \<open>mcp-host/src/core/guardrails/tool\<close>: typed argument predicates (\<open>predicates.ts\<close>), provenance
  (\<open>provenance.ts\<close>), permission rules (\<open>rules.ts\<close>) and the doom-loop guard (\<open>doomLoop.ts\<close>), with the
  rule shape of \<open>config.ts\<close>. An error is the left value of a sum. The platform's \<open>URL\<close> parser is the
  parameter \<open>url_parse\<close>. Numbers parsed from text are exact: rounding of a literal with more
  digits than a double holds is not modelled.
\<close>

section \<open>Platform functions\<close>

definition is_base_digit :: "int \<Rightarrow> char \<Rightarrow> bool" where
  "is_base_digit b c \<longleftrightarrow>
     (is_digit c \<or> (of_char c :: nat) \<in> {65..70} \<or> (of_char c :: nat) \<in> {97..102}) \<and> digit_value c < b"

text \<open>An optional exponent part after the mantissa; nothing when the text is not one.\<close>

definition exponent_of :: "string \<Rightarrow> int option" where
  "exponent_of s =
     (case s of
        [] \<Rightarrow> Some 0
      | e # r \<Rightarrow>
          (if e \<noteq> CHR ''e'' \<and> e \<noteq> CHR ''E'' then None
           else
             (let (neg, ds) = (case r of x # xs \<Rightarrow> (if x = CHR ''-'' then (True, xs)
                                                else if x = CHR ''+'' then (False, xs) else (False, r))
                                      | [] \<Rightarrow> (False, []))
              in if ds = [] \<or> \<not> list_all is_digit ds then None
                 else Some (if neg then - digits_value 10 ds else digits_value 10 ds))))"

text \<open>An unsigned decimal literal whose value is an integer.\<close>

definition decimal_integer :: "string \<Rightarrow> int option" where
  "decimal_integer s =
     (let whole = takeWhile is_digit s; r = dropWhile is_digit s;
          frac = (case r of x # xs \<Rightarrow> (if x = CHR ''.'' then takeWhile is_digit xs else []) | [] \<Rightarrow> []);
          r' = (case r of x # xs \<Rightarrow> (if x = CHR ''.'' then dropWhile is_digit xs else r) | [] \<Rightarrow> [])
      in if whole = [] \<and> frac = [] then None
         else case exponent_of r' of
           None \<Rightarrow> None
         | Some e \<Rightarrow>
             (let m = digits_value 10 (whole @ frac); k = e - int (length frac)
              in if k \<ge> 0 then Some (m * 10 ^ nat k)
                 else if m mod 10 ^ nat (- k) = 0 then Some (m div 10 ^ nat (- k)) else None))"

text \<open>\<open>Number(s)\<close> when it is an integer.\<close>

definition js_number_of_string :: "string \<Rightarrow> int option" where
  "js_number_of_string s =
     (let t = js_trim s in
      case t of
        [] \<Rightarrow> Some 0
      | c # r \<Rightarrow>
          (let b = (if c = CHR ''0'' \<and> r \<noteq> [] then
                      (if hd r \<in> {CHR ''x'', CHR ''X''} then 16 else if hd r \<in> {CHR ''o'', CHR ''O''} then 8
                       else if hd r \<in> {CHR ''b'', CHR ''B''} then 2 else 0) else 0)
           in if b \<noteq> 0 then
                (if tl r = [] \<or> \<not> list_all (is_base_digit b) (tl r) then None else Some (digits_value b (tl r)))
              else if c = CHR ''-'' then map_option uminus (decimal_integer r)
              else if c = CHR ''+'' then decimal_integer r
              else decimal_integer t))"

text \<open>\<open>Number(v)\<close> of a JSON value.\<close>

fun js_number_of :: "json \<Rightarrow> int option" where
  "js_number_of JNull = Some 0"
| "js_number_of (JBool b) = Some (if b then 1 else 0)"
| "js_number_of (JInt n) = Some n"
| "js_number_of (JFrac _) = None"
| "js_number_of (JStr s) = js_number_of_string s"
| "js_number_of (JArr vs) = js_number_of_string (js_string_of (JArr vs))"
| "js_number_of (JObj _) = None"

section \<open>JSON pointers\<close>

datatype predicate_error =
    InvalidPointer string
  | PointerTooDeep string
  | BadPredicateValue string
  | UnknownOp string
  | JsonTooDeep
  | UnknownPredicateType string

record argument_predicate =
  ap_type :: string
  ap_pointer :: string
  ap_op :: string
  ap_value :: "json option"

definition MAX_POINTER_DEPTH :: nat where
  "MAX_POINTER_DEPTH = 16"

definition MAX_JSON_COMPARE_DEPTH :: nat where
  "MAX_JSON_COMPARE_DEPTH = 32"

text \<open>\<open>s.replace(/~d/g, r)\<close>.\<close>

fun replace_tilde :: "char \<Rightarrow> char \<Rightarrow> string \<Rightarrow> string" where
  "replace_tilde d r (x # y # xs) =
     (if x = CHR ''~'' \<and> y = d then r # replace_tilde d r xs else x # replace_tilde d r (y # xs))"
| "replace_tilde d r xs = xs"

definition unescape_token :: "string \<Rightarrow> string" where
  "unescape_token t = replace_tilde CHR ''0'' CHR ''~'' (replace_tilde CHR ''1'' CHR ''/'' t)"

fun step_pointer :: "json \<Rightarrow> string \<Rightarrow> json option" where
  "step_pointer (JArr vs) tok =
     (case js_number_of_string tok of
        None \<Rightarrow> None
      | Some i \<Rightarrow> if i < 0 \<or> i \<ge> int (length vs) then None else Some (vs ! nat i))"
| "step_pointer (JObj fs) tok = map_of fs tok"
| "step_pointer _ tok = None"

fun walk_pointer :: "string list \<Rightarrow> json \<Rightarrow> json option" where
  "walk_pointer [] cur = Some cur"
| "walk_pointer (tok # toks) cur =
     (case step_pointer cur tok of None \<Rightarrow> None | Some v \<Rightarrow> walk_pointer toks v)"

definition resolve_pointer :: "json \<Rightarrow> string \<Rightarrow> predicate_error + json option" where
  "resolve_pointer args pointer =
     (case pointer of
        [] \<Rightarrow> Inr (Some args)
      | c # r \<Rightarrow>
          (if c \<noteq> CHR ''/'' then Inl (InvalidPointer pointer)
           else
             (let tokens = map unescape_token (js_split CHR ''/'' r)
              in if length tokens > MAX_POINTER_DEPTH then Inl (PointerTooDeep pointer)
                 else Inr (walk_pointer tokens args))))"

section \<open>Paths\<close>

text \<open>
  \<open>path.posix.normalize\<close> without the trailing slash, which \<open>normalizePath\<close> strips: empty and dot
  segments go, a dot-dot segment takes back the segment before it; above the start it stays in a
  relative path and disappears in an absolute one.
\<close>

fun normal_segments :: "bool \<Rightarrow> string list \<Rightarrow> string list \<Rightarrow> string list" where
  "normal_segments aboveRoot [] acc = rev acc"
| "normal_segments aboveRoot (s # ss) acc =
     (if s = [] \<or> s = ''.'' then normal_segments aboveRoot ss acc
      else if s = ''..'' then
        (case acc of
           x # xs \<Rightarrow> (if x \<noteq> ''..'' then normal_segments aboveRoot ss xs
                      else normal_segments aboveRoot ss (if aboveRoot then ''..'' # acc else acc))
         | [] \<Rightarrow> normal_segments aboveRoot ss (if aboveRoot then [''..''] else []))
      else normal_segments aboveRoot ss (s # acc))"

definition is_absolute :: "string \<Rightarrow> bool" where
  "is_absolute p \<longleftrightarrow> starts_with p ''/''"

definition path_segments :: "string \<Rightarrow> string list" where
  "path_segments p = normal_segments (\<not> is_absolute p) (js_split CHR ''/'' p) []"

definition normalize_path :: "string \<Rightarrow> string" where
  "normalize_path p =
     (if is_absolute p then CHR ''/'' # js_join CHR ''/'' (path_segments p)
      else if path_segments p = [] then ''.'' else js_join CHR ''/'' (path_segments p))"

definition is_under :: "string \<Rightarrow> string \<Rightarrow> bool" where
  "is_under child base =
     (let c = normalize_path child; b = normalize_path base
      in if c = b then True else starts_with c (if b = ''/'' then ''/'' else b @ ''/''))"

definition eval_path :: "json option \<Rightarrow> string \<Rightarrow> json option \<Rightarrow> predicate_error + bool" where
  "eval_path value op target =
     (case value of
        Some (JStr v) \<Rightarrow>
          (case target of
             Some (JStr t) \<Rightarrow>
               (if op = ''equals'' then Inr (normalize_path v = normalize_path t)
                else if op = ''under'' then Inr (is_under v t)
                else if op = ''outside'' then Inr (\<not> is_under v t)
                else Inl (UnknownOp op))
           | _ \<Rightarrow> Inl (BadPredicateValue ''path''))
      | _ \<Rightarrow> Inr False)"

section \<open>URLs\<close>

record url =
  url_protocol :: string
  url_hostname :: string
  url_port :: string
  url_pathname :: string
  url_username :: string
  url_password :: string

definition DEFAULT_PORTS :: "(string, int) js_map" where
  "DEFAULT_PORTS = [(''http:'', 80), (''https:'', 443), (''ws:'', 80), (''wss:'', 443), (''ftp:'', 21)]"

definition strip_last :: "char \<Rightarrow> string \<Rightarrow> string" where
  "strip_last c s = (if s \<noteq> [] \<and> last s = c then butlast s else s)"

definition canonical_host :: "url \<Rightarrow> string" where
  "canonical_host u = strip_last CHR ''.'' (url_hostname u)"

definition effective_port :: "url \<Rightarrow> int option" where
  "effective_port u =
     (if url_port u \<noteq> [] then js_number_of_string (url_port u) else js_get DEFAULT_PORTS (url_protocol u))"

definition eval_url ::
  "(string \<Rightarrow> url option) \<Rightarrow> json option \<Rightarrow> string \<Rightarrow> json option \<Rightarrow> predicate_error + bool" where
  "eval_url url_parse value op target =
     (case value of
        Some (JStr v) \<Rightarrow>
          (case url_parse v of
             None \<Rightarrow> Inr False
           | Some u \<Rightarrow>
               (if url_username u \<noteq> [] \<or> url_password u \<noteq> [] then Inr False
                else if op = ''scheme_in'' then
                  (case target of
                     Some (JArr ts) \<Rightarrow>
                       Inr (list_ex (\<lambda>s. js_lower (js_string_of s) = strip_last CHR '':'' (url_protocol u)) ts)
                   | _ \<Rightarrow> Inl (BadPredicateValue op))
                else if op = ''host_in'' then
                  (case target of
                     Some (JArr ts) \<Rightarrow>
                       Inr (list_ex (\<lambda>h. strip_last CHR ''.'' (js_lower (js_string_of h)) = canonical_host u) ts)
                   | _ \<Rightarrow> Inl (BadPredicateValue op))
                else if op = ''port_in'' then
                  (case target of
                     Some (JArr ts) \<Rightarrow>
                       Inr (effective_port u \<noteq> None \<and> list_ex (\<lambda>p. js_number_of p = effective_port u) ts)
                   | _ \<Rightarrow> Inl (BadPredicateValue op))
                else if op = ''path_under'' then
                  (case target of
                     Some (JStr t) \<Rightarrow> Inr (is_under (url_pathname u) t)
                   | _ \<Rightarrow> Inl (BadPredicateValue op))
                else Inl (UnknownOp op)))
      | _ \<Rightarrow> Inr False)"

section \<open>Commands\<close>

fun strings_of :: "json list \<Rightarrow> string list option" where
  "strings_of [] = Some []"
| "strings_of (JStr s # vs) = map_option (\<lambda>ss. s # ss) (strings_of vs)"
| "strings_of (_ # vs) = None"

definition as_structured_command :: "json option \<Rightarrow> (string \<times> string list) option" where
  "as_structured_command v =
     (case v of
        Some (JArr vs) \<Rightarrow> (case strings_of vs of Some (e # as) \<Rightarrow> Some (e, as) | _ \<Rightarrow> None)
      | Some (JObj fs) \<Rightarrow>
          (case (map_of fs ''executable'', map_of fs ''args'') of
             (Some (JStr e), Some (JArr as)) \<Rightarrow> map_option (\<lambda>ss. (e, ss)) (strings_of as)
           | _ \<Rightarrow> None)
      | _ \<Rightarrow> None)"

definition posix_basename :: "string \<Rightarrow> string" where
  "posix_basename p = last (js_split CHR ''/'' (rev (dropWhile (\<lambda>c. c = CHR ''/'') (rev p))))"

definition eval_command :: "json option \<Rightarrow> string \<Rightarrow> json option \<Rightarrow> predicate_error + bool" where
  "eval_command value op target =
     (case as_structured_command value of
        None \<Rightarrow> Inr False
      | Some (executable, args) \<Rightarrow>
          (if op = ''executable_is'' then
             (case target of
                Some (JStr t) \<Rightarrow> Inr (executable = t \<or> posix_basename executable = t)
              | _ \<Rightarrow> Inl (BadPredicateValue op))
           else if op = ''argv_prefix'' then
             (case target of
                Some (JArr ts) \<Rightarrow>
                  (case strings_of ts of Some prefix \<Rightarrow> Inr (starts_with args prefix)
                                      | None \<Rightarrow> Inl (BadPredicateValue op))
              | _ \<Rightarrow> Inl (BadPredicateValue op))
           else Inl (UnknownOp op)))"

section \<open>JSON comparison\<close>

definition hex_digit :: "nat \<Rightarrow> char" where
  "hex_digit n = (if n < 10 then char_of (48 + n) else char_of (87 + n))"

definition quote_char :: "char \<Rightarrow> string" where
  "quote_char c =
     (let n = (of_char c :: nat) in
      if n = 34 then [char_of (92 :: nat), char_of (34 :: nat)]
      else if n = 92 then [char_of (92 :: nat), char_of (92 :: nat)]
      else if n = 8 then [char_of (92 :: nat), CHR ''b''] else if n = 9 then [char_of (92 :: nat), CHR ''t'']
      else if n = 10 then [char_of (92 :: nat), CHR ''n''] else if n = 12 then [char_of (92 :: nat), CHR ''f'']
      else if n = 13 then [char_of (92 :: nat), CHR ''r'']
      else if n < 32 then [char_of (92 :: nat), CHR ''u'', CHR ''0'', CHR ''0'', hex_digit (n div 16), hex_digit (n mod 16)]
      else [c])"

definition json_quote :: "string \<Rightarrow> string" where
  "json_quote s = char_of (34 :: nat) # concat (map quote_char s) @ [char_of (34 :: nat)]"

definition join_with :: "string list \<Rightarrow> string" where
  "join_with ss = js_join CHR '','' ss"

fun sequence_results :: "('e + 'a) list \<Rightarrow> 'e + 'a list" where
  "sequence_results [] = Inr []"
| "sequence_results (Inl e # rs) = Inl e"
| "sequence_results (Inr x # rs) = (case sequence_results rs of Inl e \<Rightarrow> Inl e | Inr xs \<Rightarrow> Inr (x # xs))"

fun canonicalize :: "json \<Rightarrow> nat \<Rightarrow> predicate_error + string" where
  "canonicalize v depth =
     (if depth > MAX_JSON_COMPARE_DEPTH then Inl JsonTooDeep
      else case v of
        JArr vs \<Rightarrow>
          (case sequence_results (map (\<lambda>x. canonicalize x (depth + 1)) vs) of
             Inl e \<Rightarrow> Inl e
           | Inr ss \<Rightarrow> Inr (''['' @ join_with ss @ '']''))
      | JObj fs \<Rightarrow>
          (case sequence_results (map (\<lambda>kx. case canonicalize (snd kx) (depth + 1) of
                                         Inl e \<Rightarrow> Inl e | Inr s \<Rightarrow> Inr (json_quote (fst kx) @ '':'' @ s))
                                    (sort_key fst fs)) of
             Inl e \<Rightarrow> Inl e
           | Inr ss \<Rightarrow> Inr (''{'' @ join_with ss @ ''}''))
      | JStr s \<Rightarrow> Inr (json_quote s)
      | _ \<Rightarrow> Inr (js_string_of v))"

definition json_equals :: "json \<Rightarrow> json option \<Rightarrow> predicate_error + bool" where
  "json_equals a b =
     (case canonicalize a 0 of
        Inl e \<Rightarrow> Inl e
      | Inr s \<Rightarrow>
          (case b of
             None \<Rightarrow> Inr (s = ''null'')
           | Some v \<Rightarrow> (case canonicalize v 0 of Inl e \<Rightarrow> Inl e | Inr t \<Rightarrow> Inr (s = t))))"

text \<open>\<open>Array.prototype.some\<close> with a test that may throw.\<close>

fun some_equal :: "(json \<Rightarrow> 'e + bool) \<Rightarrow> json list \<Rightarrow> 'e + bool" where
  "some_equal f [] = Inr False"
| "some_equal f (t # ts) = (case f t of Inl e \<Rightarrow> Inl e | Inr True \<Rightarrow> Inr True | Inr False \<Rightarrow> some_equal f ts)"

definition eval_json :: "json option \<Rightarrow> string \<Rightarrow> json option \<Rightarrow> predicate_error + bool" where
  "eval_json value op target =
     (if op = ''exists'' then Inr (value \<noteq> None)
      else if op = ''equals'' then
        (case value of None \<Rightarrow> Inr False | Some v \<Rightarrow> json_equals v target)
      else if op = ''one_of'' then
        (case target of
           Some (JArr ts) \<Rightarrow>
             (case value of None \<Rightarrow> Inr False | Some v \<Rightarrow> some_equal (\<lambda>t. json_equals v (Some t)) ts)
         | _ \<Rightarrow> Inl (BadPredicateValue op))
      else if op = ''contains'' then
        (case value of
           Some (JStr s) \<Rightarrow> Inr (case target of Some (JStr t) \<Rightarrow> js_includes s t | _ \<Rightarrow> False)
         | Some (JArr els) \<Rightarrow> some_equal (\<lambda>el. json_equals el target) els
         | _ \<Rightarrow> Inr False)
      else Inl (UnknownOp op))"

definition evaluate_predicate ::
  "(string \<Rightarrow> url option) \<Rightarrow> json \<Rightarrow> argument_predicate \<Rightarrow> predicate_error + bool" where
  "evaluate_predicate url_parse args p =
     (case resolve_pointer args (ap_pointer p) of
        Inl e \<Rightarrow> Inl e
      | Inr resolved \<Rightarrow>
          (if ap_type p = ''path'' then eval_path resolved (ap_op p) (ap_value p)
           else if ap_type p = ''url'' then eval_url url_parse resolved (ap_op p) (ap_value p)
           else if ap_type p = ''command'' then eval_command resolved (ap_op p) (ap_value p)
           else if ap_type p = ''json'' then eval_json resolved (ap_op p) (ap_value p)
           else Inl (UnknownPredicateType (ap_type p))))"

section \<open>Provenance\<close>

datatype provenance = Native | Mcp

datatype descriptor_kind = McpServerTool | InternalTool | OtherTool string

record tool_trace_descriptor =
  td_kind :: descriptor_kind
  td_sourceRef :: "string option"

record tool_identity =
  ti_provenance :: provenance
  ti_server :: "string option"
  ti_name :: string

definition resolve_tool_identity ::
  "string \<Rightarrow> tool_trace_descriptor option \<Rightarrow> string option \<Rightarrow> tool_identity" where
  "resolve_tool_identity name descriptor serverName =
     (case descriptor of
        Some d \<Rightarrow>
          (if td_kind d = McpServerTool
           then \<lparr>ti_provenance = Mcp, ti_server = (case serverName of Some s \<Rightarrow> Some s | None \<Rightarrow> td_sourceRef d),
                 ti_name = name\<rparr>
           else \<lparr>ti_provenance = Native, ti_server = None, ti_name = name\<rparr>)
      | None \<Rightarrow> \<lparr>ti_provenance = Native, ti_server = None, ti_name = name\<rparr>)"

text \<open>A registry gives, for a tool name, the descriptor its tool reports for the arguments.\<close>

type_synonym tool_registry = "string \<Rightarrow> (json \<Rightarrow> tool_trace_descriptor option) option"

definition resolve_tool_identity_from_registry :: "string \<Rightarrow> tool_registry \<Rightarrow> json \<Rightarrow> tool_identity" where
  "resolve_tool_identity_from_registry name registry args =
     resolve_tool_identity name (Option.bind (registry name) (\<lambda>describe. describe args)) None"

section \<open>Rules\<close>

record guardrail_rule =
  gr_id :: string
  gr_action :: string
  gr_reasonCode :: "string option"
  gr_provenance :: string
  gr_server :: "string option"
  gr_name :: "string option"
  gr_arguments :: "argument_predicate list"

datatype rule_error =
    TooManyRules nat nat
  | MissingRuleId
  | DuplicateRuleId string
  | InvalidAction string string
  | MissingProvenance string
  | InvalidProvenance string string
  | InvalidPredicateType string string
  | InvalidRulePointer string string
  | MissingOp string

record compiled_rules =
  cr_rules :: "guardrail_rule list"
  cr_hasRules :: bool

definition DEFAULT_MAX_RULES :: nat where
  "DEFAULT_MAX_RULES = 100"

definition MAX_WILDCARD_LEN :: nat where
  "MAX_WILDCARD_LEN = 256"

definition validate_argument_shape :: "string \<Rightarrow> argument_predicate \<Rightarrow> rule_error option" where
  "validate_argument_shape ruleId a =
     (if ap_type a \<notin> {''path'', ''url'', ''command'', ''json''} then Some (InvalidPredicateType ruleId (ap_type a))
      else if ap_pointer a \<noteq> [] \<and> \<not> starts_with (ap_pointer a) ''/'' then Some (InvalidRulePointer ruleId (ap_pointer a))
      else if ap_op a = [] then Some (MissingOp ruleId) else None)"

definition validate_rule :: "string set \<Rightarrow> guardrail_rule \<Rightarrow> rule_error option" where
  "validate_rule ids r =
     (if gr_id r = [] then Some MissingRuleId
      else if gr_id r \<in> ids then Some (DuplicateRuleId (gr_id r))
      else if gr_action r \<notin> {''allow'', ''ask'', ''deny''} then Some (InvalidAction (gr_id r) (gr_action r))
      else if gr_provenance r = [] then Some (MissingProvenance (gr_id r))
      else if gr_provenance r \<notin> {''native'', ''mcp''} then Some (InvalidProvenance (gr_id r) (gr_provenance r))
      else first_error (validate_argument_shape (gr_id r)) (gr_arguments r))"

fun validate_rules :: "string set \<Rightarrow> guardrail_rule list \<Rightarrow> rule_error option" where
  "validate_rules ids [] = None"
| "validate_rules ids (r # rs) =
     (case validate_rule ids r of Some e \<Rightarrow> Some e | None \<Rightarrow> validate_rules (insert (gr_id r) ids) rs)"

definition compile_rules :: "guardrail_rule list \<Rightarrow> nat \<Rightarrow> rule_error + compiled_rules" where
  "compile_rules rules maxRules =
     (if length rules > maxRules then Inl (TooManyRules (length rules) maxRules)
      else case validate_rules {} rules of
             Some e \<Rightarrow> Inl e
           | None \<Rightarrow> Inr \<lparr>cr_rules = rules, cr_hasRules = (rules \<noteq> [])\<rparr>)"

text \<open>The anchored expression the pattern becomes; its dot excludes the line terminators.\<close>

definition line_terminator :: "char \<Rightarrow> bool" where
  "line_terminator c \<longleftrightarrow> (of_char c :: nat) \<in> {10, 13}"

fun wildcard_accepts :: "string \<Rightarrow> string \<Rightarrow> bool" where
  "wildcard_accepts [] v = (v = [])"
| "wildcard_accepts (p # ps) [] = (p = CHR ''*'' \<and> wildcard_accepts ps [])"
| "wildcard_accepts (p # ps) (x # xs) =
     (if p = CHR ''*'' then
        wildcard_accepts ps (x # xs) \<or> (\<not> line_terminator x \<and> wildcard_accepts (p # ps) xs)
      else if p = CHR ''?'' then \<not> line_terminator x \<and> wildcard_accepts ps xs
      else x = p \<and> wildcard_accepts ps xs)"

definition match_wildcard :: "string \<Rightarrow> string \<Rightarrow> bool" where
  "match_wildcard pattern value =
     (if length pattern > MAX_WILDCARD_LEN then False
      else if CHR ''*'' \<notin> set pattern \<and> CHR ''?'' \<notin> set pattern then pattern = value
      else wildcard_accepts pattern value)"

fun provenance_name :: "provenance \<Rightarrow> string" where
  "provenance_name Native = ''native''"
| "provenance_name Mcp = ''mcp''"

definition tool_matches :: "guardrail_rule \<Rightarrow> tool_identity \<Rightarrow> bool" where
  "tool_matches r identity =
     (if gr_provenance r \<noteq> provenance_name (ti_provenance identity) then False
      else if (case gr_server r of None \<Rightarrow> False
               | Some p \<Rightarrow> \<not> match_wildcard p (case ti_server identity of None \<Rightarrow> [] | Some s \<Rightarrow> s)) then False
      else if (case gr_name r of None \<Rightarrow> False | Some p \<Rightarrow> \<not> match_wildcard p (ti_name identity)) then False
      else True)"

text \<open>\<open>Array.prototype.every\<close> with a test that may throw.\<close>

fun every_predicate :: "('a \<Rightarrow> 'e + bool) \<Rightarrow> 'a list \<Rightarrow> 'e + bool" where
  "every_predicate f [] = Inr True"
| "every_predicate f (p # ps) =
     (case f p of Inl e \<Rightarrow> Inl e | Inr b \<Rightarrow> if b then every_predicate f ps else Inr False)"

definition action_decision :: "string \<Rightarrow> decision" where
  "action_decision a = (if a = ''deny'' then Deny else if a = ''ask'' then Ask else Allow)"

definition rule_contribution :: "guardrail_rule \<Rightarrow> (json, string) contributor" where
  "rule_contribution r = \<lparr>
     co_phase = PrePhase, co_source = HostRule, co_sourceId = gr_id r,
     co_decision = action_decision (gr_action r),
     co_reasonCode = (case gr_reasonCode r of Some c \<Rightarrow> c | None \<Rightarrow> ''rule:'' @ gr_id r),
     co_rewrite = None, co_substitute = None\<rparr>"

fun evaluate_rule_list ::
  "(string \<Rightarrow> url option) \<Rightarrow> guardrail_rule list \<Rightarrow> tool_identity \<Rightarrow> json \<Rightarrow>
   predicate_error + (json, string) contributor list" where
  "evaluate_rule_list url_parse [] identity args = Inr []"
| "evaluate_rule_list url_parse (r # rs) identity args =
     (if \<not> tool_matches r identity then evaluate_rule_list url_parse rs identity args
      else case every_predicate (evaluate_predicate url_parse args) (gr_arguments r) of
        Inl e \<Rightarrow> Inl e
      | Inr allMatch \<Rightarrow>
          (case evaluate_rule_list url_parse rs identity args of
             Inl e \<Rightarrow> Inl e
           | Inr out \<Rightarrow> Inr (if allMatch then rule_contribution r # out else out)))"

definition evaluate_rules ::
  "(string \<Rightarrow> url option) \<Rightarrow> compiled_rules \<Rightarrow> tool_identity \<Rightarrow> json \<Rightarrow>
   predicate_error + (json, string) contributor list" where
  "evaluate_rules url_parse compiled identity args = evaluate_rule_list url_parse (cr_rules compiled) identity args"

section \<open>The doom-loop guard\<close>

definition DOOM_LOOP_LIMIT :: nat where
  "DOOM_LOOP_LIMIT = 3"

record doom_loop_state =
  dl_lastKey :: "string option"
  dl_count :: nat

definition record_and_check :: "doom_loop_state \<Rightarrow> string \<Rightarrow> bool \<times> doom_loop_state" where
  "record_and_check state key =
     (let count = (if dl_lastKey state = Some key then dl_count state + 1 else 1)
      in (count \<ge> DOOM_LOOP_LIMIT, \<lparr>dl_lastKey = Some key, dl_count = count\<rparr>))"

section \<open>Containment by segments\<close>

lemma normal_segments_clean:
  "p \<in> set (normal_segments up ss acc) \<Longrightarrow>
   p \<in> set acc \<or> p = ''..'' \<or> p \<in> set ss \<and> p \<noteq> [] \<and> p \<noteq> ''.''"
  by (induction up ss acc rule: normal_segments.induct) (auto split: if_splits list.splits)

lemma path_segments_clean:
  assumes "p \<in> set (path_segments q)"
  shows "CHR ''/'' \<notin> set p \<and> p \<noteq> []"
  using normal_segments_clean [OF assms [unfolded path_segments_def]] js_split_pieces [of p "CHR ''/''" q] by auto

lemma join_segments_eq_Nil: "js_join CHR ''/'' (path_segments q) = [] \<longleftrightarrow> path_segments q = []"
proof (cases "path_segments q")
  case (Cons s ss)
  then have "s \<noteq> []" using path_segments_clean [of s q] by simp
  then show ?thesis using Cons by (cases ss) auto
qed simp

lemma join_segments_inject:
  "js_join CHR ''/'' (path_segments q) = js_join CHR ''/'' (path_segments r) \<longleftrightarrow> path_segments q = path_segments r"
proof (cases "path_segments q = [] \<or> path_segments r = []")
  case True
  then show ?thesis using join_segments_eq_Nil [of q] join_segments_eq_Nil [of r] by auto
next
  case False
  then show ?thesis
    using js_split_join [of "path_segments q" "CHR ''/''"] js_split_join [of "path_segments r" "CHR ''/''"]
      path_segments_clean by metis
qed

lemma is_under_absolute:
  assumes "is_absolute child" and "is_absolute base"
  shows "is_under child base \<longleftrightarrow> starts_with (path_segments child) (path_segments base)"
proof -
  let ?c = "path_segments child" and ?b = "path_segments base"
  have nc: "normalize_path child = CHR ''/'' # js_join CHR ''/'' ?c"
    and nb: "normalize_path base = CHR ''/'' # js_join CHR ''/'' ?b"
    using assms by (simp_all add: normalize_path_def)
  show ?thesis
  proof (cases "?b = []")
    case True
    then show ?thesis by (simp add: is_under_def nc nb Let_def)
  next
    case False
    have clean: "\<forall>s\<in>set ?b. CHR ''/'' \<notin> set s" "\<forall>s\<in>set ?c. CHR ''/'' \<notin> set s"
      using path_segments_clean by blast+
    have root: "normalize_path base \<noteq> ''/''" using False join_segments_eq_Nil [of base] by (simp add: nb)
    have "is_under child base \<longleftrightarrow> ?c = ?b \<or> starts_with (js_join CHR ''/'' ?c) (js_join CHR ''/'' ?b @ ''/'')"
      using root join_segments_inject [of child base] by (auto simp: is_under_def nc nb Let_def)
    also have "starts_with (js_join CHR ''/'' ?c) (js_join CHR ''/'' ?b @ ''/'') \<longleftrightarrow> (\<exists>d. d \<noteq> [] \<and> ?c = ?b @ d)"
    proof
      assume "starts_with (js_join CHR ''/'' ?c) (js_join CHR ''/'' ?b @ ''/'')"
      then obtain xs where xs: "js_join CHR ''/'' ?c = js_join CHR ''/'' ?b @ CHR ''/'' # xs"
        by (auto simp: starts_with_iff)
      then have "?c \<noteq> []" by auto
      then have "?c = ?b @ js_split CHR ''/'' xs"
        using js_split_join [of ?c "CHR ''/''"] js_split_join_append [OF False clean(1), of xs] xs clean(2) by simp
      then show "\<exists>d. d \<noteq> [] \<and> ?c = ?b @ d" by auto
    next
      assume "\<exists>d. d \<noteq> [] \<and> ?c = ?b @ d"
      then obtain d where "d \<noteq> []" "?c = ?b @ d" by auto
      then show "starts_with (js_join CHR ''/'' ?c) (js_join CHR ''/'' ?b @ ''/'')"
        using js_join_append [OF False, of d "CHR ''/''"] by (auto simp: starts_with_iff)
    qed
    also have "?c = ?b \<or> (\<exists>d. d \<noteq> [] \<and> ?c = ?b @ d) \<longleftrightarrow> starts_with ?c ?b"
      by (auto simp: starts_with_iff)
    finally show ?thesis .
  qed
qed

section \<open>Matching rules\<close>

lemma rule_list_contributes:
  "evaluate_rule_list url_parse rs identity args = Inr out \<Longrightarrow> r \<in> set rs \<Longrightarrow> tool_matches r identity \<Longrightarrow>
   every_predicate (evaluate_predicate url_parse args) (gr_arguments r) = Inr True \<Longrightarrow> rule_contribution r \<in> set out"
  by (induction rs arbitrary: out) (auto split: if_splits sum.splits)

lemma rule_list_no_rewrite:
  "evaluate_rule_list url_parse rs identity args = Inr out \<Longrightarrow> c \<in> set out \<Longrightarrow> co_rewrite c = None"
  by (induction rs arbitrary: out) (auto simp: rule_contribution_def split: if_splits sum.splits)

text \<open>What the doom-loop guard has seen: the length of the final run of equal keys.\<close>

definition final_run :: "string list \<Rightarrow> nat" where
  "final_run ks = (case rev ks of [] \<Rightarrow> 0 | k # _ \<Rightarrow> length (takeWhile (\<lambda>x. x = k) (rev ks)))"

definition doom_state :: "string list \<Rightarrow> doom_loop_state" where
  "doom_state ks = foldl (\<lambda>s k. snd (record_and_check s k)) \<lparr>dl_lastKey = None, dl_count = 0\<rparr> ks"

lemma doom_state_counts:
  "dl_count (doom_state ks) = final_run ks \<and> dl_lastKey (doom_state ks) = (if ks = [] then None else Some (last ks))"
proof (induction ks rule: rev_induct)
  case Nil
  then show ?case by (simp add: doom_state_def final_run_def)
next
  case (snoc k ks)
  have "final_run (ks @ [k]) = (if ks \<noteq> [] \<and> last ks = k then Suc (final_run ks) else 1)"
    by (cases ks rule: rev_cases) (auto simp: final_run_def)
  then show ?case using snoc by (auto simp: doom_state_def record_and_check_def Let_def)
qed

section \<open>Properties\<close>

text \<open>Path containment is by whole segments: for absolute paths the under predicate holds exactly
  when the normalized segments of the base are a prefix of those of the child, so neither a sibling
  with the base as a name prefix nor a path that climbs out with dot-dot is contained.\<close>

theorem containment_is_by_segments:
  assumes "is_absolute child" and "is_absolute base"
  shows "is_under child base \<longleftrightarrow> starts_with (path_segments child) (path_segments base)"
  using assms by (rule is_under_absolute)

text \<open>The doom-loop guard trips exactly on the third identical call in a row: after any sequence
  of calls from a fresh state, recording one more trips exactly when it and the two calls before it
  have the same key.\<close>

theorem doom_loop_trips_on_third_repeat:
  "fst (record_and_check (doom_state ks) k) \<longleftrightarrow> (\<exists>pre. ks = pre @ [k, k])"
proof -
  have "fst (record_and_check (doom_state ks) k) \<longleftrightarrow> ks \<noteq> [] \<and> last ks = k \<and> final_run ks \<ge> 2"
    using doom_state_counts [of ks] by (auto simp: record_and_check_def DOOM_LOOP_LIMIT_def Let_def)
  also have "\<dots> \<longleftrightarrow> (\<exists>pre. ks = pre @ [k, k])"
  proof (cases ks rule: rev_cases)
    case (snoc ys y)
    then show ?thesis by (cases ys rule: rev_cases) (auto simp: final_run_def split: if_splits)
  qed simp
  finally show ?thesis .
qed

text \<open>An overlong pattern silently disables its rule: a deny rule whose tool name pattern is longer
  than 256 characters is accepted by the compiler and then contributes nothing to any call, even to a
  call of exactly that name.\<close>

theorem overlong_pattern_disables_rule:
  assumes "gr_name r = Some p" and "length p > MAX_WILDCARD_LEN" and "validate_rule {} r = None"
  shows "\<exists>compiled. compile_rules [r] DEFAULT_MAX_RULES = Inr compiled \<and> cr_hasRules compiled \<and>
           (\<forall>identity args. evaluate_rules url_parse compiled identity args = Inr [])"
  using assms
  by (simp add: compile_rules_def DEFAULT_MAX_RULES_def evaluate_rules_def tool_matches_def match_wildcard_def)

section \<open>Concrete instances\<close>

definition overlong_rule :: guardrail_rule where
  "overlong_rule = \<lparr>gr_id = ''r'', gr_action = ''deny'', gr_reasonCode = None, gr_provenance = ''native'',
     gr_server = None, gr_name = Some (replicate 257 CHR ''a''), gr_arguments = []\<rparr>"

lemma containment_is_by_segments_witness: "\<not> is_under ''/work/../etc/passwd'' ''/work''"
proof -
  have "is_absolute ''/work/../etc/passwd''" "is_absolute ''/work''"
    "\<not> starts_with (path_segments ''/work/../etc/passwd'') (path_segments ''/work'')"
    by code_simp+
  then show ?thesis using containment_is_by_segments by blast
qed

lemma overlong_pattern_disables_rule_witness:
  "\<exists>compiled. compile_rules [overlong_rule] DEFAULT_MAX_RULES = Inr compiled \<and>
     evaluate_rules (\<lambda>_. None) compiled \<lparr>ti_provenance = Native, ti_server = None, ti_name = replicate 257 CHR ''a''\<rparr> JNull = Inr []"
proof -
  have "gr_name overlong_rule = Some (replicate 257 CHR ''a'')"
    "length (replicate 257 CHR ''a'') > MAX_WILDCARD_LEN" "validate_rule {} overlong_rule = None"
    by (simp_all add: overlong_rule_def MAX_WILDCARD_LEN_def validate_rule_def)
  from overlong_pattern_disables_rule [OF this, of "\<lambda>_. None"] show ?thesis by blast
qed

end
