(* ===== verification/Approval.thy ===== *)
theory Approval
  imports ToolRules
begin

text \<open>
  The approval gate of a tool call: \<open>approvalTypes.ts\<close>, \<open>approvalResolver.ts\<close>,
  \<open>approvalController.ts\<close>, \<open>mcpApprovalGateController.ts\<close> and \<open>nudgeController.ts\<close> under
  \<open>mcp-host/src/core/extensions\<close>. A tool is what the gate asks of it: whether it requires approval and
  how it describes itself; a random request id is an argument. The conversation fields the gate
  reads and writes are its state.
\<close>

section \<open>Who may approve\<close>

datatype approval_policy = CliOnly | ChannelUsers | DesignatedApprovers

record channel_approval_config =
  ca_enabled :: bool
  ca_approvers :: "string list option"

record approval_config =
  ac_defaultPolicy :: approval_policy
  ac_channels :: "(string, channel_approval_config) js_map"
  ac_tools :: "(string, bool) js_map option"

definition can_user_approve :: "string \<Rightarrow> string option \<Rightarrow> approval_config option \<Rightarrow> bool" where
  "can_user_approve userId channelType config =
     (case config of
        None \<Rightarrow> False
      | Some cfg \<Rightarrow>
          (case channelType of
             None \<Rightarrow> True
           | Some ct \<Rightarrow>
               (if ct = [] then True
                else if ac_defaultPolicy cfg = CliOnly then False
                else
                  (let channelConfig = js_get (ac_channels cfg) ct
                   in if (case channelConfig of None \<Rightarrow> False | Some c \<Rightarrow> \<not> ca_enabled c) then False
                      else if ac_defaultPolicy cfg = ChannelUsers then True
                      else case Option.bind channelConfig ca_approvers of
                             None \<Rightarrow> False
                           | Some approvers \<Rightarrow> userId \<in> set approvers))))"

section \<open>Pending approvals\<close>

datatype authorization_scope = TurnTools | ExactInvocation

record pending_approval =
  pa_requestId :: string
  pa_authorizationScope :: "authorization_scope option"
  pa_toolName :: string
  pa_toolKind :: descriptor_kind
  pa_toolSourceRef :: "string option"
  pa_parameters :: json
  pa_description :: string
  pa_toolCallId :: string
  pa_reason :: "string option"
  pa_mcpServerName :: "string option"

datatype gate = Proceed | Skip | Suspend pending_approval

record tool =
  tl_requiresApproval :: bool
  tl_traceDescriptor :: "(json \<Rightarrow> tool_trace_descriptor) option"

fun mcp_server_prefix :: "string \<Rightarrow> string option" where
  "mcp_server_prefix (x # y # xs) =
     (if x = CHR ''_'' \<and> y = CHR ''_'' then Some [] else map_option (\<lambda>p. x # p) (mcp_server_prefix (y # xs)))"
| "mcp_server_prefix _ = None"

definition is_mcp_tool_name :: "string \<Rightarrow> bool" where
  "is_mcp_tool_name toolName = js_includes toolName ''__''"

section \<open>Connect markers\<close>

definition extract_connect_required_marker :: "json option \<Rightarrow> string option" where
  "extract_connect_required_marker metadata =
     (case Option.bind metadata (\<lambda>m. json_field m ''connect_required'') of
        Some (JObj fs) \<Rightarrow>
          (case map_of fs ''mcpServerName'' of
             Some (JStr s) \<Rightarrow> (if s = [] then None else Some s)
           | _ \<Rightarrow> None)
      | _ \<Rightarrow> None)"

definition build_connect_required_approval :: "string \<Rightarrow> string \<Rightarrow> string \<Rightarrow> json \<Rightarrow> string \<Rightarrow> pending_approval" where
  "build_connect_required_approval uid callId callName callArguments mcpServerName = \<lparr>
     pa_requestId = uid, pa_authorizationScope = Some ExactInvocation, pa_toolName = callName,
     pa_toolKind = McpServerTool, pa_toolSourceRef = Some mcpServerName, pa_parameters = callArguments,
     pa_description = ''Connect '' @ mcpServerName @ '' to continue'', pa_toolCallId = callId,
     pa_reason = Some ''connect_required'', pa_mcpServerName = Some mcpServerName\<rparr>"

section \<open>The unified gate\<close>

record unified_gate =
  ug_toolRegistry :: "string \<Rightarrow> tool option"
  ug_getNative :: "(string \<Rightarrow> tool option) option"
  ug_nativeToolRegistry :: "(string \<Rightarrow> tool option) option"
  ug_approvalConfig :: "approval_config option"
  ug_statelessLifecycle :: bool
  ug_cronManageGateOnly :: bool

definition STATELESS_CRON_APPROVAL_PROMPT :: string where
  "STATELESS_CRON_APPROVAL_PROMPT =
     ''Approve scheduled task on a stateless agent? While any schedule is active, this agent '' @
     ''stays running continuously and will NOT suspend when idle (higher cost). Remove or '' @
     ''disable the schedule to restore suspension.''"

definition STATELESS_CRON_GATED_ACTIONS :: "string set" where
  "STATELESS_CRON_GATED_ACTIONS = {''create'', ''enable''}"

definition or_else :: "'a option \<Rightarrow> 'a option \<Rightarrow> 'a option" where
  "or_else a b = (case a of None \<Rightarrow> b | Some x \<Rightarrow> Some x)"

definition native_tool :: "unified_gate \<Rightarrow> string \<Rightarrow> tool option" where
  "native_tool g name =
     or_else (Option.bind (ug_nativeToolRegistry g) (\<lambda>f. f name)) (Option.bind (ug_getNative g) (\<lambda>f. f name))"

definition gate_tool :: "unified_gate \<Rightarrow> string \<Rightarrow> tool option" where
  "gate_tool g name = or_else (native_tool g name) (ug_toolRegistry g name)"

definition create_suspension :: "string \<Rightarrow> string \<Rightarrow> json \<Rightarrow> string \<Rightarrow> tool option \<Rightarrow> pending_approval" where
  "create_suspension uid toolName params description tool =
     (let d = (case Option.bind tool tl_traceDescriptor of
                 Some f \<Rightarrow> f params
               | None \<Rightarrow> \<lparr>td_kind = InternalTool, td_sourceRef = Some ''mcp-host''\<rparr>)
      in \<lparr>pa_requestId = uid, pa_authorizationScope = Some TurnTools, pa_toolName = toolName,
          pa_toolKind = td_kind d, pa_toolSourceRef = td_sourceRef d, pa_parameters = params,
          pa_description = description, pa_toolCallId = [], pa_reason = None, pa_mcpServerName = None\<rparr>)"

definition forced_approval :: "unified_gate \<Rightarrow> string \<Rightarrow> string \<Rightarrow> json \<Rightarrow> pending_approval option" where
  "forced_approval g uid toolName params =
     (if ug_statelessLifecycle g \<and> toolName = ''cron_manage'' then
        (case gate_tool g toolName of
           None \<Rightarrow> None
         | Some tool \<Rightarrow>
             (if \<not> tl_requiresApproval tool then None
              else
                (let action = (case json_field params ''action'' of Some (JStr a) \<Rightarrow> a | _ \<Rightarrow> [])
                 in if action \<in> STATELESS_CRON_GATED_ACTIONS
                    then Some ((create_suspension uid toolName params STATELESS_CRON_APPROVAL_PROMPT (Some tool))
                                 \<lparr>pa_authorizationScope := Some ExactInvocation\<rparr>)
                    else None)))
      else None)"

definition double_quoted :: "string \<Rightarrow> string" where
  "double_quoted s = char_of (34 :: nat) # s @ [char_of (34 :: nat)]"

definition unified_before_tool :: "unified_gate \<Rightarrow> string \<Rightarrow> string \<Rightarrow> json \<Rightarrow> gate" where
  "unified_before_tool g uid toolName params =
     (if ug_cronManageGateOnly g then
        (case forced_approval g uid toolName params of Some a \<Rightarrow> Suspend a | None \<Rightarrow> Proceed)
      else
        (let nativeTool = native_tool g toolName;
             tool = gate_tool g toolName
         in if is_mcp_tool_name toolName \<and> nativeTool = None then
              Suspend (create_suspension uid toolName params
                (''MCP tool '' @ double_quoted toolName @ '' requires approval before execution'') tool)
            else
              case forced_approval g uid toolName params of
                Some a \<Rightarrow> Suspend a
              | None \<Rightarrow>
                  (let override = Option.bind (Option.bind (ug_approvalConfig g) ac_tools) (\<lambda>ts. js_get ts toolName);
                       needsApproval = (case override of
                                          Some b \<Rightarrow> b
                                        | None \<Rightarrow> (case tool of Some t \<Rightarrow> tl_requiresApproval t | None \<Rightarrow> False))
                   in if needsApproval then
                        Suspend (create_suspension uid toolName params
                          (''Tool '' @ double_quoted toolName @ '' requires approval before execution'') tool)
                      else Proceed)))"

section \<open>The approval controller\<close>

record conversation =
  cv_autoApprovedTools :: "string set"
  cv_taskApprovedTools :: "string set option"
  cv_pendingApproval :: "pending_approval option"
  cv_doomLoop :: "doom_loop_state option"

definition SESSION_SCOPED_APPROVAL_TOOLS :: "string set" where
  "SESSION_SCOPED_APPROVAL_TOOLS = {''shell_exec'', ''http_request'', ''cron_manage''}"

text \<open>
  The controller over a delegate. \<open>forcedGate\<close> is the forced approval the runtime passes when it has
  one; \<open>live\<close> is the set of live-approval tools.
\<close>

definition controller_before_tool ::
  "(string \<Rightarrow> json \<Rightarrow> gate) \<Rightarrow> (string \<Rightarrow> json \<Rightarrow> pending_approval option) option \<Rightarrow> string set \<Rightarrow>
   string \<Rightarrow> json \<Rightarrow> conversation \<Rightarrow> conversation \<times> gate" where
  "controller_before_tool delegate forcedGate live toolName params cv =
     (case Option.bind forcedGate (\<lambda>f. f toolName params) of
        Some a \<Rightarrow> (cv, Suspend a)
      | None \<Rightarrow>
          (if toolName \<in> live then
             (case delegate toolName params of
                Suspend a \<Rightarrow> (cv, Suspend (a\<lparr>pa_authorizationScope := Some ExactInvocation\<rparr>))
              | d \<Rightarrow> (cv, d))
           else if ''*'' \<in> cv_autoApprovedTools cv \<and> toolName \<notin> SESSION_SCOPED_APPROVAL_TOOLS then (cv, Proceed)
           else if toolName \<in> cv_autoApprovedTools cv \<or>
                   (case cv_taskApprovedTools cv of None \<Rightarrow> False | Some ts \<Rightarrow> toolName \<in> ts) then (cv, Proceed)
           else if (case mcp_server_prefix toolName of
                      None \<Rightarrow> False
                    | Some p \<Rightarrow> p \<noteq> [] \<and> p \<in> cv_autoApprovedTools cv) then (cv, Proceed)
           else if (case cv_pendingApproval cv of None \<Rightarrow> False | Some a \<Rightarrow> pa_toolName a = toolName) then
             (cv\<lparr>cv_pendingApproval := None\<rparr>, Proceed)
           else (cv, delegate toolName params)))"

text \<open>The gate the runtime builds: the controller over the unified gate, which is also its forced gate.\<close>

definition approval_gate ::
  "unified_gate \<Rightarrow> string set \<Rightarrow> string \<Rightarrow> string \<Rightarrow> json \<Rightarrow> conversation \<Rightarrow> conversation \<times> gate" where
  "approval_gate g live uid =
     controller_before_tool (unified_before_tool g uid) (Some (forced_approval g uid)) live"

section \<open>The nudge controller\<close>

record nudge_controller =
  nc_maxNudges :: nat
  nc_toolsExecutedInLoop :: bool
  nc_nudgeCount :: nat

definition new_nudge_controller :: "nat \<Rightarrow> nudge_controller" where
  "new_nudge_controller maxNudges = \<lparr>nc_maxNudges = maxNudges, nc_toolsExecutedInLoop = False, nc_nudgeCount = 0\<rparr>"

definition nudge_should_accept :: "(string \<Rightarrow> nat \<Rightarrow> bool) \<Rightarrow> string \<Rightarrow> nat \<Rightarrow> nudge_controller \<Rightarrow> bool" where
  "nudge_should_accept delegate content iteration n =
     (if nc_toolsExecutedInLoop n then delegate content iteration
      else if nc_nudgeCount n \<ge> nc_maxNudges n then delegate content iteration
      else False)"

definition nudge_on_text_rejected :: "nudge_controller \<Rightarrow> nudge_controller \<times> string" where
  "nudge_on_text_rejected n =
     (n\<lparr>nc_nudgeCount := nc_nudgeCount n + 1\<rparr>,
      ''You have tools available. Please use the appropriate tool(s) to answer the question '' @
      ''rather than responding from memory alone. Check the available tools and try again.'')"

definition nudge_before_tool ::
  "('c \<Rightarrow> 'c \<times> gate) \<Rightarrow> nudge_controller \<Rightarrow> 'c \<Rightarrow> nudge_controller \<times> 'c \<times> gate" where
  "nudge_before_tool delegate n c = (n\<lparr>nc_toolsExecutedInLoop := True\<rparr>, delegate c)"

section \<open>Lemmas\<close>

lemma mcp_prefix_iff: "(mcp_server_prefix n = None) = (\<not> is_mcp_tool_name n)"
  unfolding is_mcp_tool_name_def
  by (induction n rule: mcp_server_prefix.induct) auto

text \<open>A stored approval that covers a tool of the conversation.\<close>

definition stored_approval :: "string \<Rightarrow> conversation \<Rightarrow> bool" where
  "stored_approval n cv \<longleftrightarrow>
     ''*'' \<in> cv_autoApprovedTools cv \<and> n \<notin> SESSION_SCOPED_APPROVAL_TOOLS \<or>
     n \<in> cv_autoApprovedTools cv \<or> (\<exists>ts. cv_taskApprovedTools cv = Some ts \<and> n \<in> ts) \<or>
     (\<exists>p. mcp_server_prefix n = Some p \<and> p \<noteq> [] \<and> p \<in> cv_autoApprovedTools cv)"

definition one_shot :: "string \<Rightarrow> conversation \<Rightarrow> bool" where
  "one_shot n cv \<longleftrightarrow> (\<exists>a. cv_pendingApproval cv = Some a \<and> pa_toolName a = n)"

lemma controller_outcome:
  "controller_before_tool delegate forcedGate live n params cv =
     (case Option.bind forcedGate (\<lambda>f. f n params) of
        Some a \<Rightarrow> (cv, Suspend a)
      | None \<Rightarrow>
          if n \<in> live then
            (cv, case delegate n params of Suspend a \<Rightarrow> Suspend (a\<lparr>pa_authorizationScope := Some ExactInvocation\<rparr>) | d \<Rightarrow> d)
          else if stored_approval n cv then (cv, Proceed)
          else if one_shot n cv then (cv\<lparr>cv_pendingApproval := None\<rparr>, Proceed)
          else (cv, delegate n params))"
  by (auto simp: controller_before_tool_def stored_approval_def one_shot_def split: option.splits gate.splits)

lemma unified_suspends_mcp:
  "is_mcp_tool_name n \<Longrightarrow> native_tool g n = None \<Longrightarrow> \<not> ug_cronManageGateOnly g \<Longrightarrow>
   \<exists>a. unified_before_tool g uid n params = Suspend a"
  by (simp add: unified_before_tool_def Let_def)

section \<open>Properties\<close>

text \<open>Creating or enabling a schedule on a stateless agent always asks: with stateless cron
  management on and a cron tool that requires approval, every create or enable call is suspended for
  exactly that invocation, whatever was approved before, whatever is live, whatever the per-tool
  override says and also in a cron-fired task; and the conversation is left alone.\<close>

theorem stateless_schedule_always_asks:
  assumes "ug_statelessLifecycle g" and "gate_tool g ''cron_manage'' = Some t" and "tl_requiresApproval t"
    and "json_field params ''action'' = Some (JStr act)" and "act \<in> {''create'', ''enable''}"
  shows "\<exists>a. approval_gate g live uid ''cron_manage'' params cv = (cv, Suspend a) \<and>
             pa_authorizationScope a = Some ExactInvocation \<and> pa_parameters a = params \<and>
             (ug_cronManageGateOnly g \<longrightarrow> unified_before_tool g uid ''cron_manage'' params = Suspend a)"
  using assms
  by (auto simp: approval_gate_def controller_before_tool_def forced_approval_def STATELESS_CRON_GATED_ACTIONS_def
      create_suspension_def unified_before_tool_def Let_def)

text \<open>An MCP tool runs only on an approval: outside a cron-fired task a call of a tool with an MCP
  name that is no native tool proceeds exactly when it is not a live-approval tool and is covered by
  a stored approval or by the one-shot approval of that tool name, and the one-shot is used up.\<close>

theorem mcp_tool_needs_an_approval:
  assumes "is_mcp_tool_name n" and "native_tool g n = None" and "\<not> ug_cronManageGateOnly g"
  shows "(snd (approval_gate g live uid n params cv) = Proceed \<longleftrightarrow>
            n \<notin> live \<and> (stored_approval n cv \<or> one_shot n cv)) \<and>
         (snd (approval_gate g live uid n params cv) = Proceed \<and> \<not> stored_approval n cv \<longrightarrow>
            cv_pendingApproval (fst (approval_gate g live uid n params cv)) = None)"
proof -
  obtain a where a: "unified_before_tool g uid n params = Suspend a"
    using unified_suspends_mcp [OF assms] by blast
  have "n \<noteq> ''cron_manage''"
    using assms(1) by (auto simp: is_mcp_tool_name_def)
  then have "forced_approval g uid n params = None" by (simp add: forced_approval_def)
  then show ?thesis by (simp add: approval_gate_def controller_outcome a)
qed

text \<open>The turn-wide approval does not reach session-scoped tools: for shell, HTTP and schedule
  calls that are neither forced, live, individually approved nor one-shot approved, the gate decides
  as if nothing had been approved in the turn.\<close>

theorem turn_approval_skips_session_scoped_tools:
  assumes "n \<in> SESSION_SCOPED_APPROVAL_TOOLS" and "n \<notin> live" and "n \<notin> cv_autoApprovedTools cv"
    and "\<forall>ts. cv_taskApprovedTools cv = Some ts \<longrightarrow> n \<notin> ts" and "\<not> one_shot n cv"
    and "forced_approval g uid n params = None"
  shows "approval_gate g live uid n params cv = (cv, unified_before_tool g uid n params)"
proof -
  have "mcp_server_prefix n = None"
    using assms(1) by (auto simp: SESSION_SCOPED_APPROVAL_TOOLS_def)
  then have "\<not> stored_approval n cv" using assms(1,3,4) by (auto simp: stored_approval_def)
  then show ?thesis using assms(2,5,6) by (simp add: approval_gate_def controller_outcome)
qed

section \<open>Concrete instances\<close>

definition demo_tool :: tool where
  "demo_tool = \<lparr>tl_requiresApproval = True, tl_traceDescriptor = None\<rparr>"

definition demo_gate :: unified_gate where
  "demo_gate = \<lparr>ug_toolRegistry = (\<lambda>n. Some demo_tool), ug_getNative = None,
     ug_nativeToolRegistry = Some (\<lambda>n. if is_mcp_tool_name n then None else Some demo_tool),
     ug_approvalConfig = None, ug_statelessLifecycle = True, ug_cronManageGateOnly = False\<rparr>"

definition demo_conversation :: conversation where
  "demo_conversation = \<lparr>cv_autoApprovedTools = {''*''}, cv_taskApprovedTools = None, cv_pendingApproval = None,
     cv_doomLoop = None\<rparr>"

lemma stateless_schedule_always_asks_witness:
  "\<exists>a. approval_gate demo_gate {} ''u'' ''cron_manage'' (JObj [(''action'', JStr ''enable'')]) demo_conversation =
     (demo_conversation, Suspend a)"
proof -
  have h: "ug_statelessLifecycle demo_gate" "gate_tool demo_gate ''cron_manage'' = Some demo_tool"
    "tl_requiresApproval demo_tool" "json_field (JObj [(''action'', JStr ''enable'')]) ''action'' = Some (JStr ''enable'')"
    "''enable'' \<in> {''create'', ''enable''}"
    by (simp_all add: demo_gate_def demo_tool_def gate_tool_def native_tool_def or_else_def is_mcp_tool_name_def)
  show ?thesis using stateless_schedule_always_asks [OF h, of "{}" "''u''" demo_conversation] by blast
qed

lemma mcp_tool_needs_an_approval_witness:
  "snd (approval_gate demo_gate {} ''u'' ''srv__read'' JNull demo_conversation) = Proceed"
proof -
  have h: "is_mcp_tool_name ''srv__read''" "native_tool demo_gate ''srv__read'' = None" "\<not> ug_cronManageGateOnly demo_gate"
    by (simp_all add: demo_gate_def native_tool_def or_else_def is_mcp_tool_name_def)
  have "stored_approval ''srv__read'' demo_conversation"
    by (simp add: stored_approval_def demo_conversation_def SESSION_SCOPED_APPROVAL_TOOLS_def)
  then show ?thesis using mcp_tool_needs_an_approval [OF h] by simp
qed

lemma turn_approval_skips_session_scoped_tools_witness:
  "approval_gate demo_gate {} ''u'' ''shell_exec'' JNull demo_conversation =
     (demo_conversation, unified_before_tool demo_gate ''u'' ''shell_exec'' JNull)"
  by (rule turn_approval_skips_session_scoped_tools)
    (simp_all add: SESSION_SCOPED_APPROVAL_TOOLS_def demo_conversation_def one_shot_def forced_approval_def)

end
