(* ===== verification/Breakers.thy ===== *)
theory Breakers
  imports Guardrails Complex_Main
begin

text \<open>
  The two circuit breakers of the runtime and the guarded hook transport:
  \<open>core/guardrails/hooks/hookBreaker.ts\<close>, \<open>guardedFetch.ts\<close>, \<open>types.ts\<close> and
  \<open>pluginWorkloadSdk/domain/circuitBreaker.ts\<close> (under \<open>mcp-host/src\<close>). The raw transport is
  injected: a dial's result, deadline included, is an argument.
\<close>

section \<open>The contract of a breaker\<close>

locale circuit_breaker =
  fixes is_open :: "instant \<Rightarrow> 's \<Rightarrow> bool"
    and fail :: "instant \<Rightarrow> 's \<Rightarrow> 's"
    and cooldown :: millis
  assumes trip: "\<not> is_open now s \<Longrightarrow> is_open now (fail now s) \<Longrightarrow> now \<le> t \<Longrightarrow>
      is_open t (fail now s) \<longleftrightarrow> t < now + cooldown"
    and no_trip: "\<not> is_open now s \<Longrightarrow> \<not> is_open now (fail now s) \<Longrightarrow> now \<le> t \<Longrightarrow> \<not> is_open t (fail now s)"
begin

lemma open_window:
  assumes "\<not> is_open now s" and "now \<le> t"
  shows "is_open t (fail now s) \<longleftrightarrow> is_open now (fail now s) \<and> t < now + cooldown"
proof (cases "is_open now (fail now s)")
  case True
  from trip [OF assms(1) this assms(2)] True show ?thesis by iprover
next
  case False
  from no_trip [OF assms(1) this assms(2)] False show ?thesis by iprover
qed

lemma open_is_bounded:
  assumes "\<not> is_open now s" and "0 \<le> cooldown" and "now + cooldown \<le> t"
  shows "\<not> is_open t (fail now s)"
proof -
  have "now \<le> t" using assms(2,3) by linarith
  from open_window [OF assms(1) this] assms(3) show ?thesis by linarith
qed

end

section \<open>The per-hook breaker registry\<close>

record breaker_state =
  bk_failures :: nat
  bk_openUntil :: instant

type_synonym breaker_registry = "(string, breaker_state) js_map"

definition fresh_breaker :: breaker_state where
  "fresh_breaker = \<lparr>bk_failures = 0, bk_openUntil = 0\<rparr>"

text \<open>Reading the state of a key creates it.\<close>

definition breaker_state_of :: "string \<Rightarrow> breaker_registry \<Rightarrow> breaker_registry \<times> breaker_state" where
  "breaker_state_of key reg =
     (case js_get reg key of
        None \<Rightarrow> (js_set key fresh_breaker reg, fresh_breaker)
      | Some s \<Rightarrow> (reg, s))"

definition breaker_is_open :: "string \<Rightarrow> instant \<Rightarrow> breaker_registry \<Rightarrow> breaker_registry \<times> bool" where
  "breaker_is_open key now reg =
     (let (reg', s) = breaker_state_of key reg in (reg', now < bk_openUntil s))"

definition breaker_record_success :: "string \<Rightarrow> breaker_registry \<Rightarrow> breaker_registry" where
  "breaker_record_success key reg =
     (let (reg', s) = breaker_state_of key reg
      in js_set key (s\<lparr>bk_failures := 0, bk_openUntil := 0\<rparr>) reg')"

definition breaker_record_failure ::
  "string \<Rightarrow> nat \<Rightarrow> millis \<Rightarrow> instant \<Rightarrow> breaker_registry \<Rightarrow> breaker_registry \<times> bool" where
  "breaker_record_failure key failureThreshold cooldownMs now reg =
     (let (reg', s) = breaker_state_of key reg;
          s1 = s\<lparr>bk_failures := bk_failures s + 1\<rparr>
      in if bk_failures s1 \<ge> failureThreshold \<and> bk_openUntil s1 \<le> now
         then (js_set key (s1\<lparr>bk_openUntil := now + cooldownMs\<rparr>) reg', True)
         else (js_set key s1 reg', False))"

definition breaker_reset :: "breaker_registry \<Rightarrow> breaker_registry" where
  "breaker_reset reg = []"

text \<open>The state a key has, created or not.\<close>

definition breaker_at :: "string \<Rightarrow> breaker_registry \<Rightarrow> breaker_state" where
  "breaker_at key reg = (case js_get reg key of None \<Rightarrow> fresh_breaker | Some s \<Rightarrow> s)"

lemma breaker_at_simps [simp]:
  "snd (breaker_state_of key reg) = breaker_at key reg"
  "breaker_at k (fst (breaker_state_of key reg)) = breaker_at k reg"
  "breaker_at k (js_set key s reg) = (if k = key then s else breaker_at k reg)"
  by (auto simp: breaker_state_of_def breaker_at_def split: option.splits)

lemma breaker_effects [simp]:
  "breaker_at k (fst (breaker_is_open key now reg)) = breaker_at k reg"
  "snd (breaker_is_open key now reg) = (now < bk_openUntil (breaker_at key reg))"
  "breaker_at k (breaker_record_success key reg) = (if k = key then fresh_breaker else breaker_at k reg)"
  by (simp_all add: breaker_is_open_def breaker_record_success_def case_prod_beta Let_def fresh_breaker_def)

lemma breaker_failure_effect:
  "breaker_at k (fst (breaker_record_failure key th cd now reg)) =
     (if k \<noteq> key then breaker_at k reg
      else let s = breaker_at key reg
           in \<lparr>bk_failures = Suc (bk_failures s),
               bk_openUntil = (if Suc (bk_failures s) \<ge> th \<and> bk_openUntil s \<le> now then now + cd else bk_openUntil s)\<rparr>)"
  by (auto simp: breaker_record_failure_def case_prod_beta Let_def)

interpretation hook_breaker: circuit_breaker
  "\<lambda>now reg. snd (breaker_is_open key now reg)"
  "\<lambda>now reg. fst (breaker_record_failure key th cd now reg)" cd
  for key th cd
  by unfold_locales (auto simp: breaker_failure_effect Let_def split: if_splits)

section \<open>The sliding-window breaker\<close>

record sliding_config =
  sw_windowMs :: millis
  sw_failureRateThreshold :: rat
  sw_minSamples :: nat
  sw_resetMs :: millis

record sliding_breaker =
  sl_events :: "(instant \<times> bool) list"
  sl_openedAt :: "instant option"

definition default_sliding_config :: sliding_config where
  "default_sliding_config =
     \<lparr>sw_windowMs = 30000, sw_failureRateThreshold = 1 / 2, sw_minSamples = 4, sw_resetMs = 60000\<rparr>"

definition new_sliding_breaker :: sliding_breaker where
  "new_sliding_breaker = \<lparr>sl_events = [], sl_openedAt = None\<rparr>"

definition sliding_prune :: "sliding_config \<Rightarrow> instant \<Rightarrow> (instant \<times> bool) list \<Rightarrow> (instant \<times> bool) list" where
  "sliding_prune cfg now evs = filter (\<lambda>(tm, _). now - tm \<le> sw_windowMs cfg) evs"

text \<open>The state, the answer and the state change reported to the observer.\<close>

definition sliding_allow ::
  "sliding_config \<Rightarrow> instant \<Rightarrow> sliding_breaker \<Rightarrow> sliding_breaker \<times> bool \<times> bool option" where
  "sliding_allow cfg now s =
     (case sl_openedAt s of
        None \<Rightarrow> (s, True, None)
      | Some tm \<Rightarrow>
          (if now - tm \<ge> sw_resetMs cfg then (s\<lparr>sl_openedAt := None, sl_events := []\<rparr>, True, Some False)
           else (s, False, None)))"

definition sliding_record ::
  "sliding_config \<Rightarrow> bool \<Rightarrow> instant \<Rightarrow> sliding_breaker \<Rightarrow> sliding_breaker \<times> bool option" where
  "sliding_record cfg ok now s =
     (let evs = sliding_prune cfg now (sl_events s @ [(now, ok)]);
          s1 = s\<lparr>sl_events := evs\<rparr>
      in if length evs < sw_minSamples cfg then (s1, None)
         else
           (let failures = length (filter (\<lambda>(_, ok). \<not> ok) evs)
            in if of_nat failures / of_nat (length evs) > sw_failureRateThreshold cfg
               then (s1\<lparr>sl_openedAt := Some now\<rparr>, if sl_openedAt s1 = None then Some True else None)
               else (s1, None)))"

definition sliding_is_open :: "sliding_config \<Rightarrow> instant \<Rightarrow> sliding_breaker \<Rightarrow> bool" where
  "sliding_is_open cfg now s =
     (case sl_openedAt s of None \<Rightarrow> False | Some tm \<Rightarrow> now - tm < sw_resetMs cfg)"

lemma sliding_record_openedAt:
  "sl_openedAt (fst (sliding_record cfg ok now s)) \<in> {Some now, sl_openedAt s}"
  by (simp add: sliding_record_def Let_def)

interpretation sliding: circuit_breaker
  "sliding_is_open cfg" "\<lambda>now s. fst (sliding_record cfg ok now s)" "sw_resetMs cfg"
  for cfg ok
proof (unfold_locales, goal_cases)
  case (1 now s t)
  then show ?case
    using sliding_record_openedAt [of cfg ok now s] by (auto simp: sliding_is_open_def split: option.splits)
next
  case (2 now s t)
  then show ?case
    using sliding_record_openedAt [of cfg ok now s] by (auto simp: sliding_is_open_def split: option.splits)
qed

section \<open>The guarded hook transport\<close>

datatype lifecycle_point = PreCall | Moderate | PostCall | OnError | PreToolUse | PostToolUse

datatype fail_mode = FailOpen | FailClosed

record unavailable_policy =
  up_breaker :: bool
  up_failureThreshold :: nat
  up_cooldownMs :: millis

record hook_descriptor =
  hd_id :: string
  hd_endpoint :: string
  hd_path :: string
  hd_lifecyclePoints :: "lifecycle_point list"
  hd_capabilities :: "capability list"
  hd_failMode :: fail_mode
  hd_onUnavailable :: "unavailable_policy option"
  hd_order :: int
  hd_quarantined :: bool

record hook_http_result =
  hr_status :: int
  hr_body :: "json option"
  hr_unavailable :: bool
  hr_oversized :: bool

definition unavailable_result :: hook_http_result where
  "unavailable_result = \<lparr>hr_status = 0, hr_body = None, hr_unavailable = True, hr_oversized = False\<rparr>"

definition hook_breaker_key :: "hook_descriptor \<Rightarrow> string" where
  "hook_breaker_key d = hd_endpoint d @ hd_path d"

definition hook_breaker_engaged :: "hook_descriptor \<Rightarrow> bool" where
  "hook_breaker_engaged d \<longleftrightarrow>
     (case hd_onUnavailable d of None \<Rightarrow> False | Some up \<Rightarrow> up_breaker up) \<and> MayDeny \<notin> set (hd_capabilities d)"

text \<open>
  \<open>guard_hook_fetch d dial t1 t2\<close>: \<open>dial\<close> is what the raced transport would settle to, \<open>t1\<close> the
  clock before it and \<open>t2\<close> the clock after. The third component says whether the hook was dialed.
\<close>

definition guard_hook_fetch ::
  "hook_descriptor \<Rightarrow> hook_http_result \<Rightarrow> instant \<Rightarrow> instant \<Rightarrow> breaker_registry \<Rightarrow>
   breaker_registry \<times> hook_http_result \<times> bool" where
  "guard_hook_fetch d dial t1 t2 reg =
     (if hd_quarantined d then (reg, unavailable_result, False)
      else
        (let engaged = hook_breaker_engaged d;
             key = hook_breaker_key d;
             (reg1, shut) = (if engaged then breaker_is_open key t1 reg else (reg, False))
         in if shut then (reg1, unavailable_result, False)
            else if \<not> engaged then (reg1, dial, True)
            else
              (let policy = the (hd_onUnavailable d);
                   reg2 = (if hr_oversized dial then reg1
                           else if hr_unavailable dial then
                             fst (breaker_record_failure key (up_failureThreshold policy) (up_cooldownMs policy) t2 reg1)
                           else breaker_record_success key reg1)
               in (reg2, dial, True))))"

section \<open>Counting failures\<close>

text \<open>What a breaker was told, oldest first: a success, or a failure at a time.\<close>

datatype breaker_report = Reachable | Unreachable instant

fun report :: "string \<Rightarrow> nat \<Rightarrow> millis \<Rightarrow> breaker_report \<Rightarrow> breaker_registry \<Rightarrow> breaker_registry" where
  "report key th cd Reachable reg = breaker_record_success key reg"
| "report key th cd (Unreachable now) reg = fst (breaker_record_failure key th cd now reg)"

definition trailing_failures :: "breaker_report list \<Rightarrow> nat" where
  "trailing_failures rs = length (takeWhile (\<lambda>r. r \<noteq> Reachable) (rev rs))"

lemma trailing_failures_snoc [simp]:
  "trailing_failures (rs @ [r]) = (if r = Reachable then 0 else Suc (trailing_failures rs))"
  by (simp add: trailing_failures_def)

lemma report_other [simp]: "k \<noteq> key \<Longrightarrow> breaker_at k (report key th cd r reg) = breaker_at k reg"
  by (cases r) (simp_all add: breaker_failure_effect)

lemma reports_count:
  "bk_failures (breaker_at key (fold (report key th cd) rs [])) = trailing_failures rs \<and>
   (trailing_failures rs < th \<longrightarrow> bk_openUntil (breaker_at key (fold (report key th cd) rs [])) = 0)"
proof (induction rs rule: rev_induct)
  case Nil
  then show ?case by (simp add: breaker_at_def fresh_breaker_def trailing_failures_def)
next
  case (snoc r rs)
  then show ?case by (cases r) (auto simp: breaker_failure_effect Let_def fresh_breaker_def)
qed

section \<open>Properties\<close>

text \<open>A hook's breaker counts consecutive failures and opens no earlier than the threshold: after
  any reports the failure count is the number of failures since the last success, and while it is
  below the threshold the breaker is closed at every time, whatever happened to other hooks.\<close>

theorem hook_breaker_counts_consecutive_failures:
  "bk_failures (breaker_at key (fold (report key th cd) rs [])) = trailing_failures rs \<and>
   (trailing_failures rs < th \<and> 0 \<le> t \<longrightarrow>
      \<not> snd (breaker_is_open key t (fold (report key th cd) rs []))) \<and>
   (k \<noteq> key \<longrightarrow> breaker_at k (fold (report key th cd) rs reg) = breaker_at k reg)"
proof -
  have "k \<noteq> key \<Longrightarrow> breaker_at k (fold (report key th cd) rs reg) = breaker_at k reg"
    by (induction rs arbitrary: reg) simp_all
  then show ?thesis using reports_count [of key th cd rs] by auto
qed

text \<open>A trip lasts exactly the cooldown: a failure that opens a closed hook breaker keeps it open
  from that moment until the cooldown has passed, and closed afterwards; the sliding-window breaker
  of the plugin workload has the same window, its reset time.\<close>

theorem breaker_open_window:
  assumes "now \<le> t"
  shows "(\<not> snd (breaker_is_open key now reg) \<longrightarrow>
            (snd (breaker_is_open key t (fst (breaker_record_failure key th cd now reg))) \<longleftrightarrow>
             snd (breaker_is_open key now (fst (breaker_record_failure key th cd now reg))) \<and> t < now + cd)) \<and>
         (\<not> sliding_is_open cfg now s \<longrightarrow>
            (sliding_is_open cfg t (fst (sliding_record cfg ok now s)) \<longleftrightarrow>
             sliding_is_open cfg now (fst (sliding_record cfg ok now s)) \<and> t < now + sw_resetMs cfg))"
  using hook_breaker.open_window [OF _ assms, of key reg th cd] sliding.open_window [OF _ assms, of cfg s ok]
  by (intro conjI impI) simp_all

text \<open>A hook that may deny is never silenced by a breaker: unless it is quarantined it is dialed on
  every call, its answer is returned as it is and the breaker registry is left alone; a quarantined
  hook is never dialed and always reports unavailable.\<close>

theorem denying_hook_is_always_dialed:
  assumes "MayDeny \<in> set (hd_capabilities d)"
  shows "guard_hook_fetch d dial t1 t2 reg =
           (if hd_quarantined d then (reg, unavailable_result, False) else (reg, dial, True))"
  using assms by (simp add: guard_hook_fetch_def hook_breaker_engaged_def)

section \<open>Concrete instances\<close>

definition demo_hook :: hook_descriptor where
  "demo_hook = \<lparr>hd_id = ''h'', hd_endpoint = ''http://h'', hd_path = ''/p'', hd_lifecyclePoints = [PreToolUse],
     hd_capabilities = [MayDeny], hd_failMode = FailClosed, hd_onUnavailable = None, hd_order = 1,
     hd_quarantined = False\<rparr>"

lemma hook_breaker_counts_consecutive_failures_witness:
  "bk_failures (breaker_at ''h'' (fold (report ''h'' 2 100) [Unreachable 1, Reachable, Unreachable 3] [])) = 1"
proof -
  have "trailing_failures [Unreachable 1, Reachable, Unreachable 3] = 1" by (simp add: trailing_failures_def)
  then show ?thesis
    using hook_breaker_counts_consecutive_failures [of "''h''" 2 100 "[Unreachable 1, Reachable, Unreachable 3]"] by simp
qed

lemma breaker_open_window_witness:
  "snd (breaker_is_open ''h'' 50 (fst (breaker_record_failure ''h'' 1 100 7 [])))"
proof -
  have "\<not> snd (breaker_is_open ''h'' 7 [])"
    "snd (breaker_is_open ''h'' 7 (fst (breaker_record_failure ''h'' 1 100 7 [])))"
    by code_simp+
  then show ?thesis using breaker_open_window [of 7 50 "''h''" "[]" 1 100] by simp
qed

lemma denying_hook_is_always_dialed_witness:
  "guard_hook_fetch demo_hook unavailable_result 1 2 [] = ([], unavailable_result, True)"
proof -
  have "MayDeny \<in> set (hd_capabilities demo_hook)" by (simp add: demo_hook_def)
  from denying_hook_is_always_dialed [OF this, of unavailable_result 1 2 "[]"] show ?thesis
    by (simp add: demo_hook_def)
qed

end
