(* ===== verification/ToolLane.thy ===== *)
theory ToolLane
  imports Approval Breakers
begin

text \<open>
  The tool lane: installed hooks (\<open>core/guardrails/hooks/remoteToolHook.ts\<close>), the lane built from the
  Host configuration (\<open>core/guardrails/tool/toolLaneAdapter.ts\<close>) and the admission of a tool call
  (\<open>core/orchestration/toolCallPolicy.ts\<close>, \<open>admitToolCall\<close>). What a hook's guarded transport answers in
  a round is the function \<open>fetch\<close>; parameter validation and the loop controller's \<open>beforeTool\<close> are
  injected as in the code.
\<close>

section \<open>Hooks\<close>

definition hook_on_unavailable :: "hook_descriptor \<Rightarrow> (json, string) contributor option" where
  "hook_on_unavailable d =
     (if hd_failMode d = FailClosed \<and> MayDeny \<in> set (hd_capabilities d)
      then Some \<lparr>co_phase = PrePhase, co_source = HookSource, co_sourceId = hd_id d, co_decision = Deny,
                 co_reasonCode = ''hook_unavailable'', co_rewrite = None, co_substitute = None\<rparr>
      else None)"

definition is_record :: "json option \<Rightarrow> bool" where
  "is_record v = (case v of Some (JObj _) \<Rightarrow> True | Some (JArr _) \<Rightarrow> True | _ \<Rightarrow> False)"

definition response_field :: "hook_http_result \<Rightarrow> string \<Rightarrow> json option" where
  "response_field res k = Option.bind (hr_body res) (\<lambda>b. json_field b k)"

definition pre_tool_use :: "hook_descriptor \<Rightarrow> hook_http_result \<Rightarrow> (json, string) contributor option" where
  "pre_tool_use d res =
     (if PreToolUse \<notin> set (hd_lifecyclePoints d) then None
      else if hr_unavailable res \<or> hr_status res \<noteq> 200 then hook_on_unavailable d
      else if response_field res ''decision'' = Some (JStr ''deny'') then
        Some \<lparr>co_phase = PrePhase, co_source = HookSource, co_sourceId = hd_id d,
              co_decision = (if MayDeny \<in> set (hd_capabilities d) then Deny else NoDecision),
              co_reasonCode = (case response_field res ''reasonCode'' of
                                 None \<Rightarrow> ''hook_denied'' | Some JNull \<Rightarrow> ''hook_denied'' | Some v \<Rightarrow> js_string_of v),
              co_rewrite = None, co_substitute = None\<rparr>
      else if is_record (response_field res ''updatedInput'') \<and> MayRewrite \<in> set (hd_capabilities d) then
        Some \<lparr>co_phase = PrePhase, co_source = HookSource, co_sourceId = hd_id d, co_decision = Allow,
              co_reasonCode = ''hook_rewrite'', co_rewrite = response_field res ''updatedInput'',
              co_substitute = None\<rparr>
      else None)"

record tool_result_view =
  rv_content :: string
  rv_isError :: bool

definition post_tool_use ::
  "hook_descriptor \<Rightarrow> hook_http_result \<Rightarrow> tool_result_view \<Rightarrow> tool_result_view option" where
  "post_tool_use d res result =
     (if PostToolUse \<notin> set (hd_lifecyclePoints d) then None
      else if hr_unavailable res \<or> hr_status res \<noteq> 200 then
        (if hd_failMode d = FailClosed \<and> MayRewrite \<in> set (hd_capabilities d)
         then Some \<lparr>rv_content = ''This tool result was withheld by a content guardrail policy.'',
                    rv_isError = rv_isError result\<rparr>
         else None)
      else if \<not> is_record (response_field res ''updatedResult'') \<or> MayRewrite \<notin> set (hd_capabilities d) then None
      else Some \<lparr>rv_content = (case Option.bind (response_field res ''updatedResult'') (\<lambda>p. json_field p ''content'') of
                                 Some (JStr s) \<Rightarrow> s | _ \<Rightarrow> rv_content result),
                 rv_isError = rv_isError result\<rparr>)"

section \<open>The lane\<close>

record guardrails_config =
  gc_rules :: "guardrail_rule list"
  gc_maxRules :: "nat option"
  gc_hookDescriptors :: "hook_descriptor list"

record tool_lane =
  ln_compiled :: compiled_rules
  ln_pre :: "hook_descriptor list"
  ln_post :: "hook_descriptor list"

definition build_tool_lane_guardrail :: "guardrails_config \<Rightarrow> rule_error + tool_lane option" where
  "build_tool_lane_guardrail config =
     (case compile_rules (gc_rules config)
             (case gc_maxRules config of None \<Rightarrow> DEFAULT_MAX_RULES | Some n \<Rightarrow> n) of
        Inl e \<Rightarrow> Inl e
      | Inr compiled \<Rightarrow>
          (let ordered = sort_key hd_order (gc_hookDescriptors config);
               pre = filter (\<lambda>d. PreToolUse \<in> set (hd_lifecyclePoints d)) ordered;
               post = filter (\<lambda>d. PostToolUse \<in> set (hd_lifecyclePoints d)) ordered
           in Inr (if \<not> cr_hasRules compiled \<and> pre = [] \<and> post = [] then None
                   else Some \<lparr>ln_compiled = compiled, ln_pre = pre, ln_post = post\<rparr>)))"

type_synonym hook_transport = "nat \<Rightarrow> hook_descriptor \<Rightarrow> json \<Rightarrow> hook_http_result"

definition tool_lane_pre ::
  "(string \<Rightarrow> url option) \<Rightarrow> hook_transport \<Rightarrow> tool_lane \<Rightarrow> tool_identity \<Rightarrow>
   (predicate_error, json, string) pre_chain" where
  "tool_lane_pre url_parse fetch lane identity r input =
     (case evaluate_rules url_parse (ln_compiled lane) identity input of
        Inl e \<Rightarrow> Inl e
      | Inr ruleContribs \<Rightarrow>
          Inr (ruleContribs @ List.map_filter (\<lambda>d. pre_tool_use d (fetch r d input)) (ln_pre lane)))"

definition tool_lane_decide ::
  "(string \<Rightarrow> url option) \<Rightarrow> hook_transport \<Rightarrow> tool_lane \<Rightarrow> tool_identity \<Rightarrow> json \<Rightarrow>
   predicate_error + json boundary_evaluation" where
  "tool_lane_decide url_parse fetch lane identity input =
     evaluate_boundary (cr_hasRules (ln_compiled lane)) (tool_lane_pre url_parse fetch lane identity) input"

definition transform_result ::
  "(hook_descriptor \<Rightarrow> tool_result_view \<Rightarrow> hook_http_result) \<Rightarrow> tool_lane \<Rightarrow> tool_result_view \<Rightarrow> tool_result_view" where
  "transform_result fetch lane result =
     foldl (\<lambda>current d. case post_tool_use d (fetch d current) current of None \<Rightarrow> current | Some r \<Rightarrow> r)
       result (ln_post lane)"

section \<open>Admission of a tool call\<close>

record tool_call =
  call_id :: string
  call_name :: string
  call_arguments :: json

datatype execution_mode = Interactive | Unattended

datatype tool_call_admission =
    AdmitResult string string bool
  | AdmitSuspend pending_approval
  | AdmitExecute tool_call "tool_identity option"

fun json_stringify :: "json \<Rightarrow> string" where
  "json_stringify (JStr s) = json_quote s"
| "json_stringify (JArr vs) = ''['' @ js_join CHR '','' (map json_stringify vs) @ '']''"
| "json_stringify (JObj fs) =
     ''{'' @ js_join CHR '','' (map (\<lambda>kv. json_quote (fst kv) @ '':'' @ json_stringify (snd kv)) fs) @ ''}''"
| "json_stringify v = js_string_of v"

text \<open>\<open>isDeepStrictEqual\<close> of JSON values: the order of an object's keys does not matter.\<close>

function (sequential) json_deep_equal :: "json \<Rightarrow> json \<Rightarrow> bool" where
  "json_deep_equal (JArr vs) (JArr ws) =
     (length vs = length ws \<and> (\<forall>(v, w)\<in>set (zip vs ws). json_deep_equal v w))"
| "json_deep_equal (JObj fs) (JObj gs) =
     (length fs = length gs \<and>
      (\<forall>(k, v)\<in>set fs. case map_of gs k of None \<Rightarrow> False | Some w \<Rightarrow> json_deep_equal v w))"
| "json_deep_equal v w = (v = w)"
  by pat_completeness auto

termination
  by (relation "measure (size \<circ> fst)")
    (auto dest!: set_zip_leftD split: prod.splits intro: size_list_estimation' less_SucI simp: less_Suc_eq_le)

definition doom_loop_key :: "tool_identity \<Rightarrow> json \<Rightarrow> string" where
  "doom_loop_key identity args =
     provenance_name (ti_provenance identity) @ '':'' @
     (case ti_server identity of None \<Rightarrow> [] | Some s \<Rightarrow> s) @ '':'' @ ti_name identity @ '':'' @ json_stringify args"

definition guardrail_suspension :: "string \<Rightarrow> tool_registry \<Rightarrow> tool_call \<Rightarrow> string \<Rightarrow> pending_approval" where
  "guardrail_suspension uid registry call reasonCode =
     (let d = (case Option.bind (registry (call_name call)) (\<lambda>describe. describe (call_arguments call)) of
                 Some d \<Rightarrow> d | None \<Rightarrow> \<lparr>td_kind = InternalTool, td_sourceRef = Some ''mcp-host''\<rparr>)
      in \<lparr>pa_requestId = uid, pa_authorizationScope = Some ExactInvocation, pa_toolName = call_name call,
          pa_toolKind = td_kind d, pa_toolSourceRef = td_sourceRef d, pa_parameters = call_arguments call,
          pa_description = ''Guardrail requires approval ('' @ reasonCode @ '')'', pa_toolCallId = call_id call,
          pa_reason = None, pa_mcpServerName = None\<rparr>)"

definition pending_matches :: "pending_approval option \<Rightarrow> tool_call \<Rightarrow> bool" where
  "pending_matches pending call =
     (case pending of
        None \<Rightarrow> False
      | Some p \<Rightarrow>
          pa_toolName p = call_name call \<and>
          (pa_authorizationScope p = Some TurnTools \<or>
           pa_toolCallId p = call_id call \<and> json_deep_equal (pa_parameters p) (call_arguments call)))"

record loop_config =
  lg_beforeExecution :: "string \<Rightarrow> json \<Rightarrow> string list option"
  lg_validateParams :: "string \<Rightarrow> json \<Rightarrow> string list option option"
  lg_registry :: tool_registry
  lg_guardrails :: "tool_lane option"
  lg_executionMode :: execution_mode
  lg_beforeTool :: "string \<Rightarrow> json \<Rightarrow> conversation \<Rightarrow> conversation \<times> gate"

text \<open>
  Validation answers nothing for a valid call and the errors of an invalid one; the tool's own
  validation, when it has one, replaces the answer of the processor's.
\<close>

definition validation_errors :: "loop_config \<Rightarrow> tool_call \<Rightarrow> string list option" where
  "validation_errors cfg call =
     (case lg_beforeExecution cfg (call_name call) (call_arguments call) of
        Some errs \<Rightarrow> Some errs
      | None \<Rightarrow> (case lg_validateParams cfg (call_name call) (call_arguments call) of
                   None \<Rightarrow> None | Some answer \<Rightarrow> answer))"

definition finish_gate :: "tool_call \<Rightarrow> tool_identity option \<Rightarrow> gate \<Rightarrow> tool_call_admission" where
  "finish_gate call identity g =
     (case g of
        Skip \<Rightarrow> AdmitResult (call_id call) ''Tool execution skipped'' False
      | Suspend a \<Rightarrow> AdmitSuspend a
      | Proceed \<Rightarrow> AdmitExecute call identity)"

text \<open>The conversation after the call is left, and a rejection or the admission.\<close>

definition apply_decision ::
  "loop_config \<Rightarrow> string \<Rightarrow> tool_call \<Rightarrow> tool_identity \<Rightarrow> json boundary_evaluation \<Rightarrow> conversation \<Rightarrow>
   conversation \<times> tool_call_admission" where
  "apply_decision cfg uid inputCall identity e cv =
     (let call = inputCall\<lparr>call_arguments := be_effectiveInput e\<rparr>
      in if be_decision e = Deny then
           (cv, AdmitResult (call_id inputCall) (''Blocked by guardrail policy ('' @ be_reasonCode e @ '').'') True)
         else if be_decision e = Ask then
           (if pending_matches (cv_pendingApproval cv) call then
              (cv\<lparr>cv_pendingApproval := None\<rparr>, finish_gate call (Some identity) Proceed)
            else if lg_executionMode cfg = Unattended then
              (cv, AdmitResult (call_id call)
                     ''Blocked: approval required but no approver is available in an autonomous run.'' True)
            else (cv, finish_gate call (Some identity)
                        (Suspend (guardrail_suspension uid (lg_registry cfg) call (be_reasonCode e)))))
         else
           (let (cv', g) = lg_beforeTool cfg (call_name call) (call_arguments call) cv
            in (cv', finish_gate call (Some identity) g)))"

definition admit_tool_call ::
  "(string \<Rightarrow> url option) \<Rightarrow> hook_transport \<Rightarrow> loop_config \<Rightarrow> string \<Rightarrow> tool_call \<Rightarrow> conversation \<Rightarrow>
   conversation \<times> (predicate_error + tool_call_admission)" where
  "admit_tool_call url_parse fetch cfg uid call cv =
     (case validation_errors cfg call of
        Some errs \<Rightarrow>
          (cv, Inr (AdmitResult (call_id call)
             (''Parameter validation failed: '' @ join_text '', '' errs) True))
      | None \<Rightarrow>
          (case lg_guardrails cfg of
             None \<Rightarrow>
               (let (cv', g) = lg_beforeTool cfg (call_name call) (call_arguments call) cv
                in (cv', Inr (finish_gate call None g)))
           | Some lane \<Rightarrow>
               (let identity = resolve_tool_identity_from_registry (call_name call) (lg_registry cfg) (call_arguments call);
                    (tripped, doom) = record_and_check
                      (case cv_doomLoop cv of Some s \<Rightarrow> s | None \<Rightarrow> \<lparr>dl_lastKey = None, dl_count = 0\<rparr>)
                      (doom_loop_key identity (call_arguments call));
                    cv1 = cv\<lparr>cv_doomLoop := Some doom\<rparr>
                in if tripped then
                     (cv1, Inr (AdmitResult (call_id call)
                        ''Blocked: repeated identical tool call (doom-loop guard).'' True))
                   else case tool_lane_decide url_parse fetch lane identity (call_arguments call) of
                     Inl err \<Rightarrow> (cv1, Inl err)
                   | Inr e \<Rightarrow>
                       (let (cv2, admission) = apply_decision cfg uid call identity e cv1
                        in (cv2, Inr admission)))))"

section \<open>What an admitted call has passed\<close>

lemma hook_contribution_source: "pre_tool_use d res = Some c \<Longrightarrow> co_sourceId c = hd_id d"
  by (auto simp: pre_tool_use_def hook_on_unavailable_def split: if_splits)

lemma tool_lane_rewrites:
  "rewrites_within (tool_lane_pre url_parse fetch lane identity) (set (map hd_id (ln_pre lane)))"
proof -
  have "co_sourceId c \<in> set (map hd_id (ln_pre lane))"
    if "tool_lane_pre url_parse fetch lane identity r i = Inr cs" "c \<in> set cs" "co_rewrite c \<noteq> None" for r i cs c
  proof -
    show ?thesis
    proof (cases "evaluate_rules url_parse (ln_compiled lane) identity i")
      case (Inl a)
      then show ?thesis using that(1) by (simp add: tool_lane_pre_def)
    next
      case (Inr rc)
      have cs: "cs = rc @ List.map_filter (\<lambda>d. pre_tool_use d (fetch r d i)) (ln_pre lane)"
        using that(1) Inr by (simp add: tool_lane_pre_def)
      have "c \<notin> set rc"
        using rule_list_no_rewrite Inr that(3) by (auto simp: evaluate_rules_def)
      then show ?thesis
        using cs that(2) hook_contribution_source by (fastforce simp: map_filter_def)
    qed
  qed
  then show ?thesis unfolding rewrites_within_def by blast
qed

lemma apply_decision_execute:
  assumes "apply_decision cfg uid call identity e cv = (cv', AdmitExecute call' ident)"
  shows "be_decision e \<noteq> Deny \<and> call' = call\<lparr>call_arguments := be_effectiveInput e\<rparr> \<and>
     (be_decision e = Ask \<longrightarrow> pending_matches (cv_pendingApproval cv) call' \<and> cv_pendingApproval cv' = None) \<and>
     (be_decision e \<noteq> Ask \<longrightarrow> lg_beforeTool cfg (call_name call') (call_arguments call') cv = (cv', Proceed))"
  using assms by (auto simp: apply_decision_def finish_gate_def Let_def case_prod_beta prod_eq_iff split: if_splits gate.splits)

lemma admit_execute_cases:
  assumes "admit_tool_call url_parse fetch cfg uid call cv = (cv', Inr (AdmitExecute call' ident))"
    and "lg_guardrails cfg = Some lane"
  shows "validation_errors cfg call = None \<and>
    (\<exists>e d. tool_lane_decide url_parse fetch lane
              (resolve_tool_identity_from_registry (call_name call) (lg_registry cfg) (call_arguments call))
              (call_arguments call) = Inr e \<and>
            apply_decision cfg uid call
              (resolve_tool_identity_from_registry (call_name call) (lg_registry cfg) (call_arguments call))
              e (cv\<lparr>cv_doomLoop := Some d\<rparr>) = (cv', AdmitExecute call' ident))"
  using assms
  by (simp add: admit_tool_call_def Let_def case_prod_beta split: option.splits if_splits sum.splits)
    (metis prod.collapse)+

section \<open>Properties\<close>

text \<open>C40: an executed tool call has passed the whole policy: when a call is admitted for execution under
  guardrails with fewer than 64 hooks, the original call was valid; in some round the chain of rules
  and hooks, evaluated on exactly the arguments executed, contains no deny; if it contains an ask, or
  rules exist and nothing contributed, the pending approval matched this very call and was used up;
  otherwise the approval gate let exactly this call proceed; and the call's id and name are unchanged.\<close>

theorem executed_call_passed_policy:
  assumes "admit_tool_call url_parse fetch cfg uid call cv = (cv', Inr (AdmitExecute call' ident))"
    and "lg_guardrails cfg = Some lane" and "card (set (map hd_id (ln_pre lane))) < MAX_REWRITE_ROUNDS"
  shows "validation_errors cfg call = None \<and> call_id call' = call_id call \<and> call_name call' = call_name call \<and>
    (\<exists>r cs d. tool_lane_pre url_parse fetch lane
         (resolve_tool_identity_from_registry (call_name call) (lg_registry cfg) (call_arguments call))
         r (call_arguments call') = Inr cs \<and>
       (\<forall>c\<in>set cs. co_decision c \<noteq> Deny) \<and>
       (if (\<exists>c\<in>set cs. co_decision c = Ask) \<or> cs = [] \<and> cr_hasRules (ln_compiled lane)
        then pending_matches (cv_pendingApproval cv) call' \<and> cv_pendingApproval cv' = None
        else lg_beforeTool cfg (call_name call') (call_arguments call') (cv\<lparr>cv_doomLoop := Some d\<rparr>) = (cv', Proceed)))"
proof -
  define identity where
    "identity = resolve_tool_identity_from_registry (call_name call) (lg_registry cfg) (call_arguments call)"
  obtain e d where a: "validation_errors cfg call = None"
    "tool_lane_decide url_parse fetch lane identity (call_arguments call) = Inr e"
    "apply_decision cfg uid call identity e (cv\<lparr>cv_doomLoop := Some d\<rparr>) = (cv', AdmitExecute call' ident)"
    using admit_execute_cases [OF assms(1,2)] unfolding identity_def by blast
  obtain r cs where r: "tool_lane_pre url_parse fetch lane identity r (be_effectiveInput e) = Inr cs"
    "be_decision e = (if cs = [] then unmatched_default (cr_hasRules (ln_compiled lane)) else aggregate_decision cs)"
    using boundary_round [OF tool_lane_rewrites _ _ a(2) [unfolded tool_lane_decide_def]] assms(3) by auto
  note x = apply_decision_execute [OF a(3)]
  have nodeny: "\<forall>c\<in>set cs. co_decision c \<noteq> Deny"
    using x r(2) aggregate_deny [of cs] by (auto split: if_splits)
  have ask: "be_decision e = Ask \<longleftrightarrow> (\<exists>c\<in>set cs. co_decision c = Ask) \<or> cs = [] \<and> cr_hasRules (ln_compiled lane)"
  proof (cases "cs = []")
    case True
    then show ?thesis using r(2) by (simp add: unmatched_default_def)
  next
    case False
    then show ?thesis using r(2) x aggregate_ask [of cs] aggregate_deny [of cs] by auto
  qed
  have args: "call_arguments call' = be_effectiveInput e" "call_id call' = call_id call" "call_name call' = call_name call"
    using x by simp_all
  show ?thesis
    using a(1) args nodeny r(1) x unfolding ask identity_def
    by (intro conjI exI [of _ r] exI [of _ cs] exI [of _ d]) (auto split: if_splits)
qed

text \<open>A matching deny rule always blocks: in a lane without gating hooks, when the rules evaluate
  without error on the call and a deny rule matches its tool and arguments, the call is answered
  with an error result: it is neither executed nor put up for approval.\<close>

theorem matching_deny_rule_blocks:
  assumes "lg_guardrails cfg = Some lane" and "ln_pre lane = []" and "r \<in> set (cr_rules (ln_compiled lane))"
    and "gr_action r = ''deny''"
    and "identity = resolve_tool_identity_from_registry (call_name call) (lg_registry cfg) (call_arguments call)"
    and "tool_matches r identity"
    and "every_predicate (evaluate_predicate url_parse (call_arguments call)) (gr_arguments r) = Inr True"
    and "evaluate_rules url_parse (ln_compiled lane) identity (call_arguments call) = Inr out"
  shows "\<exists>msg. snd (admit_tool_call url_parse fetch cfg uid call cv) = Inr (AdmitResult (call_id call) msg True)"
proof -
  have chain: "tool_lane_pre url_parse fetch lane identity n (call_arguments call) = Inr out" for n
    using assms(2,8) by (simp add: tool_lane_pre_def map_filter_def)
  have norw: "find (pending_rewrite {}) out = None"
    using rule_list_no_rewrite assms(8) by (auto simp: find_None_iff pending_rewrite_def evaluate_rules_def)
  have "rule_contribution r \<in> set out"
    using rule_list_contributes assms(3,6,7,8) by (simp add: evaluate_rules_def)
  moreover have "co_decision (rule_contribution r) = Deny"
    using assms(4) by (simp add: rule_contribution_def action_decision_def)
  ultimately have deny: "out \<noteq> []" "aggregate_decision out = Deny" using aggregate_deny [of out] by auto
  have "rewrite_rounds (tool_lane_pre url_parse fetch lane identity) MAX_REWRITE_ROUNDS 0 {} (call_arguments call) [] =
      Inr (call_arguments call, out)"
    using chain norw by (simp add: MAX_REWRITE_ROUNDS_def numeral_eq_Suc)
  then have "\<exists>e. tool_lane_decide url_parse fetch lane identity (call_arguments call) = Inr e \<and> be_decision e = Deny"
    using deny by (simp add: tool_lane_decide_def evaluate_boundary_def evaluation_of_def Let_def)
  then show ?thesis
    using assms(1) unfolding assms(5)
    by (auto simp: admit_tool_call_def apply_decision_def Let_def case_prod_beta split: option.splits)
qed

text \<open>A hook without the deny grant can switch off the question: rules exist, none matches and one
  gating hook that must not deny answers deny; without the hook the lane asks, with it the lane
  contributes no decision and the call goes on to the approval gate unasked.\<close>

theorem powerless_deny_silences_ask:
  assumes "evaluate_rules url_parse (ln_compiled lane) identity input = Inr []" and "cr_hasRules (ln_compiled lane)"
    and "ln_pre lane = [d]" and "PreToolUse \<in> set (hd_lifecyclePoints d)" and "MayDeny \<notin> set (hd_capabilities d)"
    and "\<forall>n. \<not> hr_unavailable (fetch n d input) \<and> hr_status (fetch n d input) = 200 \<and>
             response_field (fetch n d input) ''decision'' = Some (JStr ''deny'')"
  shows "(\<exists>e. tool_lane_decide url_parse fetch lane identity input = Inr e \<and> be_decision e = NoDecision) \<and>
         (\<exists>e. tool_lane_decide url_parse fetch (lane\<lparr>ln_pre := []\<rparr>) identity input = Inr e \<and> be_decision e = Ask)"
  using assms
  by (simp add: tool_lane_decide_def evaluate_boundary_def tool_lane_pre_def MAX_REWRITE_ROUNDS_def numeral_eq_Suc
      map_filter_def pre_tool_use_def pending_rewrite_def evaluation_of_def aggregate_decision_def stricter_def
      unmatched_default_def Let_def)

text \<open>Redaction never changes success into failure: whatever the post hooks answer, the transformed
  result has the error flag of the tool's result, and a lane without post hooks returns it
  unchanged.\<close>

theorem redaction_keeps_error_flag:
  "rv_isError (transform_result fetch lane result) = rv_isError result \<and>
   (ln_post lane = [] \<longrightarrow> transform_result fetch lane result = result)"
proof -
  have step: "post_tool_use d res r = Some r' \<Longrightarrow> rv_isError r' = rv_isError r" for d res r r'
    by (auto simp: post_tool_use_def split: if_splits)
  have "rv_isError (foldl (\<lambda>current d. case post_tool_use d (fetch d current) current of None \<Rightarrow> current | Some r \<Rightarrow> r)
      result ds) = rv_isError result" for ds
    by (induction ds arbitrary: result) (auto simp: step split: option.splits)
  then show ?thesis by (simp add: transform_result_def)
qed

section \<open>Concrete instances\<close>

definition demo_rule :: guardrail_rule where
  "demo_rule = \<lparr>gr_id = ''r'', gr_action = ''allow'', gr_reasonCode = None, gr_provenance = ''native'',
     gr_server = None, gr_name = Some ''ls'', gr_arguments = []\<rparr>"

definition demo_lane :: "guardrail_rule \<Rightarrow> hook_descriptor list \<Rightarrow> tool_lane" where
  "demo_lane r ds = \<lparr>ln_compiled = \<lparr>cr_rules = [r], cr_hasRules = True\<rparr>, ln_pre = ds, ln_post = ds\<rparr>"

definition demo_loop :: "tool_lane \<Rightarrow> loop_config" where
  "demo_loop lane = \<lparr>lg_beforeExecution = (\<lambda>_ _. None), lg_validateParams = (\<lambda>_ _. None),
     lg_registry = (\<lambda>_. None), lg_guardrails = Some lane, lg_executionMode = Unattended,
     lg_beforeTool = (\<lambda>_ _ cv. (cv, Proceed))\<rparr>"

definition demo_call :: tool_call where
  "demo_call = \<lparr>call_id = ''c'', call_name = ''ls'', call_arguments = JNull\<rparr>"

definition deny_reply :: hook_http_result where
  "deny_reply = \<lparr>hr_status = 200, hr_body = Some (JObj [(''decision'', JStr ''deny'')]), hr_unavailable = False,
     hr_oversized = False\<rparr>"

lemma executed_call_passed_policy_witness:
  "\<exists>r cs. tool_lane_pre (\<lambda>_. None) (\<lambda>_ _ _. deny_reply) (demo_lane demo_rule []) 
       \<lparr>ti_provenance = Native, ti_server = None, ti_name = ''ls''\<rparr> r JNull = Inr cs \<and> (\<forall>c\<in>set cs. co_decision c \<noteq> Deny)"
proof -
  let ?cfg = "demo_loop (demo_lane demo_rule [])"
  have "snd (admit_tool_call (\<lambda>_. None) (\<lambda>_ _ _. deny_reply) ?cfg ''u'' demo_call demo_conversation) =
      Inr (AdmitExecute demo_call (Some \<lparr>ti_provenance = Native, ti_server = None, ti_name = ''ls''\<rparr>))"
    by code_simp
  then obtain cv' where run: "admit_tool_call (\<lambda>_. None) (\<lambda>_ _ _. deny_reply) ?cfg ''u'' demo_call demo_conversation =
      (cv', Inr (AdmitExecute demo_call (Some \<lparr>ti_provenance = Native, ti_server = None, ti_name = ''ls''\<rparr>)))"
    by (metis prod.collapse)
  have "lg_guardrails ?cfg = Some (demo_lane demo_rule [])"
    "card (set (map hd_id (ln_pre (demo_lane demo_rule [])))) < MAX_REWRITE_ROUNDS"
    by (simp_all add: demo_loop_def demo_lane_def MAX_REWRITE_ROUNDS_def)
  from executed_call_passed_policy [OF run this] show ?thesis
    by (auto simp: demo_call_def demo_loop_def resolve_tool_identity_from_registry_def resolve_tool_identity_def)
qed

lemma matching_deny_rule_blocks_witness:
  "\<exists>msg. snd (admit_tool_call (\<lambda>_. None) (\<lambda>_ _ _. deny_reply)
     (demo_loop (demo_lane (demo_rule\<lparr>gr_action := ''deny''\<rparr>) [])) ''u'' demo_call demo_conversation) =
     Inr (AdmitResult ''c'' msg True)"
proof -
  let ?r = "demo_rule\<lparr>gr_action := ''deny''\<rparr>"
  let ?i = "\<lparr>ti_provenance = Native, ti_server = None, ti_name = ''ls''\<rparr>"
  have h: "lg_guardrails (demo_loop (demo_lane ?r [])) = Some (demo_lane ?r [])" "ln_pre (demo_lane ?r []) = []"
    "?r \<in> set (cr_rules (ln_compiled (demo_lane ?r [])))" "gr_action ?r = ''deny''"
    by (simp_all add: demo_loop_def demo_lane_def)
  have i: "?i = resolve_tool_identity_from_registry (call_name demo_call) (lg_registry (demo_loop (demo_lane ?r [])))
      (call_arguments demo_call)"
    by (simp add: demo_loop_def demo_call_def resolve_tool_identity_from_registry_def resolve_tool_identity_def)
  have e: "tool_matches ?r ?i" "every_predicate (evaluate_predicate (\<lambda>_. None) (call_arguments demo_call)) (gr_arguments ?r) = Inr True"
    "evaluate_rules (\<lambda>_. None) (ln_compiled (demo_lane ?r [])) ?i (call_arguments demo_call) = Inr [rule_contribution ?r]"
    by code_simp+
  from matching_deny_rule_blocks [OF h i e, of "\<lambda>_ _ _. deny_reply" "''u''" demo_conversation] show ?thesis
    by (simp add: demo_call_def)
qed

lemma powerless_deny_silences_ask_witness:
  "\<exists>e. tool_lane_decide (\<lambda>_. None) (\<lambda>_ _ _. deny_reply) (demo_lane (demo_rule\<lparr>gr_name := Some ''rm''\<rparr>)
     [demo_hook\<lparr>hd_capabilities := []\<rparr>]) \<lparr>ti_provenance = Native, ti_server = None, ti_name = ''ls''\<rparr> JNull = Inr e \<and>
     be_decision e = NoDecision"
proof -
  let ?d = "demo_hook\<lparr>hd_capabilities := []\<rparr>"
  let ?lane = "demo_lane (demo_rule\<lparr>gr_name := Some ''rm''\<rparr>) [?d]"
  let ?i = "\<lparr>ti_provenance = Native, ti_server = None, ti_name = ''ls''\<rparr>"
  have e: "evaluate_rules (\<lambda>_. None) (ln_compiled ?lane) ?i JNull = Inr []" by code_simp
  have h: "cr_hasRules (ln_compiled ?lane)" "ln_pre ?lane = [?d]" "PreToolUse \<in> set (hd_lifecyclePoints ?d)"
    "MayDeny \<notin> set (hd_capabilities ?d)"
    "\<forall>n. \<not> hr_unavailable ((\<lambda>_ _ _. deny_reply) n ?d JNull) \<and> hr_status ((\<lambda>_ _ _. deny_reply) n ?d JNull) = 200 \<and>
       response_field ((\<lambda>_ _ _. deny_reply) n ?d JNull) ''decision'' = Some (JStr ''deny'')"
    by (simp_all add: demo_lane_def demo_hook_def deny_reply_def response_field_def)
  show ?thesis by (rule powerless_deny_silences_ask [OF e h, THEN conjunct1])
qed

lemma redaction_keeps_error_flag_witness:
  "transform_result (\<lambda>_ _. deny_reply) (demo_lane demo_rule []) \<lparr>rv_content = ''x'', rv_isError = True\<rparr> =
     \<lparr>rv_content = ''x'', rv_isError = True\<rparr>"
proof -
  have "ln_post (demo_lane demo_rule []) = []" by (simp add: demo_lane_def)
  then show ?thesis using redaction_keeps_error_flag by blast
qed

end
