(* ===== verification/GfsDecision.thy ===== *)
theory GfsDecision
  imports Prelude "HOL-Library.Char_ord" "HOL-Library.List_Lexorder" "HOL-Library.Product_Lexorder"
begin

text \<open>
  Permission decisions of the file service, \<open>gfs-controller/src/authz\<close>: the decision rule
  (\<open>resolve.ts\<close>), the token ceiling (\<open>tokenCeiling.ts\<close>), the decision cache (\<open>cache.ts\<close>), the
  effect of invalidation messages (\<open>invalidation.ts\<close>) and the queries of the permission client
  (\<open>permissionClient.ts\<close>) as functions over the tables of a \<open>gfs_store\<close>. Two functions of the
  platform are parameters: \<open>collate\<close>, the collation key \<open>localeCompare\<close> sorts by, and \<open>cast\<close>, the
  database's conversion of a text to the canonical text of a uuid. The lemmas relate the recursive
  ancestor query to the ancestor relation and one decision to what the store promises.
\<close>

section \<open>The decision rule\<close>

datatype gfs_permission = GfsRead | GfsWrite | GfsDelete | GfsManageAcl | GfsShare

fun op_name :: "gfs_permission \<Rightarrow> string" where
  "op_name GfsRead = ''read''"
| "op_name GfsWrite = ''write''"
| "op_name GfsDelete = ''delete''"
| "op_name GfsManageAcl = ''manage_acl''"
| "op_name GfsShare = ''share''"

record grant_row =
  gg_subjectKey :: string
  gg_resourceId :: string
  gg_permissions :: "string list"
  gg_inherit :: bool

record share_row =
  gs_subjectKey :: string
  gs_resourceId :: string
  gs_permissions :: "string list"
  gs_includeDescendants :: bool

datatype decision_via = ViaOperator | ViaGrant | ViaShare | ViaCache

datatype authorization_source = ByOperator | DirectGrant | InheritedGrant | DirectShare | InheritedShare

record gfs_decision =
  gd_allowed :: bool
  gd_via :: "decision_via option"
  gd_matchedSubject :: "string option"
  gd_authorizationSource :: "authorization_source option"

record decision_input =
  di_resourceId :: string
  di_ancestors :: "string list"
  di_subjects :: "string list"
  di_isOperator :: bool
  di_op :: gfs_permission
  di_grants :: "grant_row list"
  di_shares :: "share_row list"

definition denied :: gfs_decision where
  "denied = \<lparr>gd_allowed = False, gd_via = None, gd_matchedSubject = None, gd_authorizationSource = None\<rparr>"

definition allowed_by :: "decision_via \<Rightarrow> string option \<Rightarrow> authorization_source \<Rightarrow> gfs_decision" where
  "allowed_by via subject source =
     \<lparr>gd_allowed = True, gd_via = Some via, gd_matchedSubject = subject, gd_authorizationSource = Some source\<rparr>"

definition operator_decision :: "string list \<Rightarrow> gfs_decision" where
  "operator_decision subjects =
     allowed_by ViaOperator (if ''operator:'' \<in> set subjects then Some ''operator:'' else None) ByOperator"

definition matching_grants :: "(string \<Rightarrow> nat list) \<Rightarrow> decision_input \<Rightarrow> grant_row list" where
  "matching_grants collate i =
     sort_key (\<lambda>g. (collate (gg_subjectKey g), collate (gg_resourceId g)))
       (filter (\<lambda>g. gg_subjectKey g \<in> set (di_subjects i) \<and> op_name (di_op i) \<in> set (gg_permissions g)) (di_grants i))"

definition matching_shares :: "(string \<Rightarrow> nat list) \<Rightarrow> decision_input \<Rightarrow> share_row list" where
  "matching_shares collate i =
     sort_key (\<lambda>g. (collate (gs_subjectKey g), collate (gs_resourceId g)))
       (filter (\<lambda>g. gs_subjectKey g \<in> set (di_subjects i) \<and> op_name (di_op i) \<in> set (gs_permissions g)) (di_shares i))"

definition resolve_decision :: "(string \<Rightarrow> nat list) \<Rightarrow> decision_input \<Rightarrow> gfs_decision" where
  "resolve_decision collate i =
     (if di_isOperator i then operator_decision (di_subjects i)
      else
        (let grants = matching_grants collate i; shares = matching_shares collate i
         in case find (\<lambda>g. gg_resourceId g = di_resourceId i) grants of
              Some g \<Rightarrow> allowed_by ViaGrant (Some (gg_subjectKey g)) DirectGrant
            | None \<Rightarrow>
           (case find (\<lambda>g. gg_inherit g \<and> gg_resourceId g \<in> set (di_ancestors i)) grants of
              Some g \<Rightarrow> allowed_by ViaGrant (Some (gg_subjectKey g)) InheritedGrant
            | None \<Rightarrow>
           (case find (\<lambda>s. gs_resourceId s = di_resourceId i) shares of
              Some s \<Rightarrow> allowed_by ViaShare (Some (gs_subjectKey s)) DirectShare
            | None \<Rightarrow>
           (case find (\<lambda>s. gs_includeDescendants s \<and> gs_resourceId s \<in> set (di_ancestors i)) shares of
              Some s \<Rightarrow> allowed_by ViaShare (Some (gs_subjectKey s)) InheritedShare
            | None \<Rightarrow> denied)))))"

section \<open>The token ceiling\<close>

datatype ceiling_reason = CeilingOk | ScopeNotInToken | NoPathBindingCovers | ResourcePathUnknown

record path_binding =
  pb_path :: string
  pb_permissions :: "string list"

definition permission_to_scope :: "gfs_permission \<Rightarrow> string" where
  "permission_to_scope p = ''gfs.'' @ op_name p"

definition ceiling_canonicalize :: "string \<Rightarrow> string" where
  "ceiling_canonicalize path =
     (if length path > 1 \<and> last path = CHR ''/''
      then rev (dropWhile (\<lambda>c. c = CHR ''/'') (rev path)) else path)"

definition path_covers :: "string \<Rightarrow> string \<Rightarrow> bool" where
  "path_covers bindingPath resourcePath =
     (let binding = ceiling_canonicalize bindingPath; resource = ceiling_canonicalize resourcePath
      in binding = resource \<or> binding = ''/'' \<or> starts_with resource (binding @ ''/''))"

definition check_token_ceiling ::
  "string list \<Rightarrow> path_binding list \<Rightarrow> gfs_permission \<Rightarrow> string option \<Rightarrow> bool \<times> ceiling_reason" where
  "check_token_ceiling scopes pathBindings p resourcePath =
     (if permission_to_scope p \<notin> set scopes then (False, ScopeNotInToken)
      else if pathBindings = [] then (True, CeilingOk)
      else case resourcePath of
             None \<Rightarrow> (False, ResourcePathUnknown)
           | Some path \<Rightarrow>
               (if \<exists>b\<in>set pathBindings. op_name p \<in> set (pb_permissions b) \<and> path_covers (pb_path b) path
                then (True, CeilingOk) else (False, NoPathBindingCovers)))"

section \<open>The decision cache\<close>

record cache_entry =
  ce_decision :: gfs_decision
  ce_expiresAtMs :: instant

record decision_cache =
  dc_store :: "(string, cache_entry) js_map"
  dc_ttlMs :: millis
  dc_maxEntries :: nat
  dc_bypassed :: bool
  dc_generation :: nat

record permission_epoch =
  ep_generation :: nat
  ep_bypassed :: bool

definition new_decision_cache :: "millis \<Rightarrow> nat option \<Rightarrow> decision_cache option" where
  "new_decision_cache ttl maxEntries =
     (if \<not> ttl > 0 then None
      else Some \<lparr>dc_store = [], dc_ttlMs = ttl,
                 dc_maxEntries = (case maxEntries of None \<Rightarrow> 10000 | Some n \<Rightarrow> n),
                 dc_bypassed = False, dc_generation = 0\<rparr>)"

definition cache_key :: "string \<Rightarrow> string \<Rightarrow> gfs_permission \<Rightarrow> string" where
  "cache_key subjectsKey resourceId p = subjectsKey @ NUL # resourceId @ NUL # op_name p"

definition cache_get :: "string \<Rightarrow> instant \<Rightarrow> decision_cache \<Rightarrow> decision_cache \<times> gfs_decision option" where
  "cache_get k now c =
     (if dc_bypassed c then (c, None)
      else case js_get (dc_store c) k of
             None \<Rightarrow> (c, None)
           | Some entry \<Rightarrow>
               (if now \<ge> ce_expiresAtMs entry then (c\<lparr>dc_store := js_delete k (dc_store c)\<rparr>, None)
                else (c, Some (ce_decision entry))))"

definition cache_set :: "string \<Rightarrow> gfs_decision \<Rightarrow> instant \<Rightarrow> decision_cache \<Rightarrow> decision_cache" where
  "cache_set k d now c =
     (if dc_bypassed c then c
      else
        (let store = (if js_get (dc_store c) k = None \<and> length (dc_store c) \<ge> dc_maxEntries c
                      then (case dc_store c of [] \<Rightarrow> [] | (oldest, _) # _ \<Rightarrow> js_delete oldest (dc_store c))
                      else dc_store c)
         in c\<lparr>dc_store := js_set k \<lparr>ce_decision = d, ce_expiresAtMs = now + dc_ttlMs c\<rparr> store\<rparr>))"

definition flush_all :: "decision_cache \<Rightarrow> decision_cache" where
  "flush_all c = c\<lparr>dc_store := [], dc_generation := dc_generation c + 1\<rparr>"

definition set_bypassed :: "bool \<Rightarrow> decision_cache \<Rightarrow> decision_cache" where
  "set_bypassed b c = (if b then c\<lparr>dc_bypassed := True, dc_store := []\<rparr> else c\<lparr>dc_bypassed := False\<rparr>)"

text \<open>What the invalidation listener does on a message of its channel, on a lost connection and on a
  fresh \<open>LISTEN\<close>.\<close>

definition listener_notification :: "string \<Rightarrow> string \<Rightarrow> decision_cache \<Rightarrow> decision_cache" where
  "listener_notification channel msgChannel c = (if msgChannel = channel then flush_all c else c)"

definition listener_degrade :: "decision_cache \<Rightarrow> decision_cache" where
  "listener_degrade c = set_bypassed True c"

definition listener_started :: "decision_cache \<Rightarrow> decision_cache" where
  "listener_started c = set_bypassed False (flush_all c)"

section \<open>The permission store\<close>

record resource_row =
  rr_id :: string
  rr_parent :: "string option"
  rr_drive :: string
  rr_deleted :: bool

record acl_row =
  al_drive :: string
  al_resourceId :: string
  al_subjectType :: string
  al_subjectId :: "string option"
  al_permissions :: "string list option"
  al_flag :: bool

record gfs_store =
  st_resources :: "resource_row list"
  st_grants :: "acl_row list"
  st_shares :: "acl_row list"

definition live_row :: "resource_row list \<Rightarrow> string \<Rightarrow> string \<Rightarrow> resource_row option" where
  "live_row rows drive x = find (\<lambda>r. rr_id r = x \<and> rr_drive r = drive \<and> \<not> rr_deleted r) rows"

text \<open>The recursive query: the resource first, its live parents after it, each once.\<close>

lemma live_row_id: "live_row rows drive x = Some r \<Longrightarrow> x \<in> set (map rr_id rows)"
  unfolding live_row_def by (drule find_SomeD) auto

function (sequential) chain_from :: "resource_row list \<Rightarrow> string \<Rightarrow> string list \<Rightarrow> string \<Rightarrow> string list" where
  "chain_from rows drive visited x =
     (case live_row rows drive x of
        None \<Rightarrow> []
      | Some r \<Rightarrow>
          (if x \<in> set visited then []
           else x # (case rr_parent r of None \<Rightarrow> [] | Some p \<Rightarrow> chain_from rows drive (x # visited) p)))"
  by pat_completeness auto

termination
proof (relation "measure (\<lambda>(rows, drive, visited, x). card (set (map rr_id rows) - set visited))", goal_cases)
  case (2 rows drive visited x r p)
  then have "x \<in> set (map rr_id rows)" using live_row_id by metis
  then have "set (map rr_id rows) - set (x # visited) \<subset> set (map rr_id rows) - set visited"
    using 2(2) by auto
  then show ?case by (simp add: psubset_card_mono)
qed simp

declare chain_from.simps [simp del]

definition resource_lookup_key :: "string \<Rightarrow> string" where
  "resource_lookup_key rid = js_lower (filter (\<lambda>c. c \<noteq> CHR ''-'') rid)"

definition add_chain ::
  "resource_row list \<Rightarrow> string \<Rightarrow> (string, string list) js_map \<Rightarrow> string \<Rightarrow> (string, string list) js_map" where
  "add_chain rows drive m u =
     (case chain_from rows drive [] u of
        [] \<Rightarrow> m
      | chain \<Rightarrow> js_set (resource_lookup_key u)
          ((case js_get m (resource_lookup_key u) of None \<Rightarrow> [] | Some c \<Rightarrow> c) @ chain) m)"

text \<open>The chains of a batch by lookup key; nothing when a resource id is not a uuid.\<close>

definition ancestors_many ::
  "(string \<Rightarrow> string option) \<Rightarrow> resource_row list \<Rightarrow> string \<Rightarrow> string list \<Rightarrow> (string, string list) js_map option" where
  "ancestors_many cast rows drive resourceIds =
     (if \<exists>rid\<in>set resourceIds. cast rid = None then None
      else
        (let requested = remdups (map (\<lambda>rid. the (cast rid)) resourceIds)
         in Some (foldl (add_chain rows drive) [] (sort requested))))"

definition acl_subject :: "acl_row \<Rightarrow> string option" where
  "acl_subject row = map_option (\<lambda>i. al_subjectType row @ '':'' @ i) (al_subjectId row)"

definition acl_selected :: "string \<Rightarrow> string list \<Rightarrow> string list \<Rightarrow> acl_row \<Rightarrow> bool" where
  "acl_selected drive ancestors subjects row \<longleftrightarrow>
     al_drive row = drive \<and> al_resourceId row \<in> set ancestors \<and>
     (case acl_subject row of None \<Rightarrow> False | Some s \<Rightarrow> s \<in> set subjects)"

definition grants_for :: "acl_row list \<Rightarrow> string \<Rightarrow> string list \<Rightarrow> string list \<Rightarrow> grant_row list" where
  "grants_for rows drive ancestors subjects =
     (if ancestors = [] then []
      else map (\<lambda>row. \<lparr>gg_subjectKey = al_subjectType row @ '':'' @ (case al_subjectId row of None \<Rightarrow> [] | Some i \<Rightarrow> i),
                       gg_resourceId = al_resourceId row,
                       gg_permissions = (case al_permissions row of None \<Rightarrow> [] | Some ps \<Rightarrow> ps),
                       gg_inherit = al_flag row\<rparr>)
             (filter (acl_selected drive ancestors subjects) rows))"

definition shares_for :: "acl_row list \<Rightarrow> string \<Rightarrow> string list \<Rightarrow> string list \<Rightarrow> share_row list" where
  "shares_for rows drive ancestors subjects =
     (if ancestors = [] then []
      else map (\<lambda>row. \<lparr>gs_subjectKey = al_subjectType row @ '':'' @ (case al_subjectId row of None \<Rightarrow> [] | Some i \<Rightarrow> i),
                       gs_resourceId = al_resourceId row,
                       gs_permissions = (case al_permissions row of None \<Rightarrow> [] | Some ps \<Rightarrow> ps),
                       gs_includeDescendants = al_flag row\<rparr>)
             (filter (acl_selected drive ancestors subjects) rows))"

section \<open>The ancestor chain\<close>

definition parent_of :: "resource_row list \<Rightarrow> string \<Rightarrow> string \<Rightarrow> string option" where
  "parent_of rows drive x =
     (case Option.bind (live_row rows drive x) rr_parent of
        None \<Rightarrow> None | Some p \<Rightarrow> (if live_row rows drive p = None then None else Some p))"

definition ancestor_of :: "resource_row list \<Rightarrow> string \<Rightarrow> string \<Rightarrow> string \<Rightarrow> bool" where
  "ancestor_of rows drive x y \<longleftrightarrow>
     live_row rows drive x \<noteq> None \<and> (\<lambda>a b. parent_of rows drive a = Some b)\<^sup>*\<^sup>* x y"

lemma chain_from_dead [simp]: "live_row rows drive x = None \<Longrightarrow> chain_from rows drive visited x = []"
  by (simp add: chain_from.simps)

lemma chain_from_sound:
  "y \<in> set (chain_from rows drive visited x) \<Longrightarrow> ancestor_of rows drive x y"
proof (induction rows drive visited x rule: chain_from.induct)
  case (1 rows drive visited x)
  then obtain r where r: "live_row rows drive x = Some r" by (cases "live_row rows drive x") auto
  show ?case
  proof (cases "y = x")
    case True
    then show ?thesis using r by (simp add: ancestor_of_def)
  next
    case False
    with 1(2) r obtain p where p: "x \<notin> set visited" "rr_parent r = Some p"
      "y \<in> set (chain_from rows drive (x # visited) p)"
      by (cases "rr_parent r") (auto simp: chain_from.simps [of _ _ _ x] split: if_splits)
    with 1(1) r have "ancestor_of rows drive p y" by blast
    moreover have "parent_of rows drive x = Some p"
      using calculation r p(2) by (auto simp: parent_of_def ancestor_of_def)
    ultimately show ?thesis using r by (auto simp: ancestor_of_def intro: converse_rtranclp_into_rtranclp)
  qed
qed

lemma chain_from_closed:
  "\<forall>w\<in>set visited. \<forall>p. parent_of rows drive w = Some p \<longrightarrow> p \<in> set visited \<or> p = x \<Longrightarrow>
   w \<in> set visited \<union> set (chain_from rows drive visited x) \<Longrightarrow> parent_of rows drive w = Some p \<Longrightarrow>
   p \<in> set visited \<union> set (chain_from rows drive visited x)"
proof (induction rows drive visited x rule: chain_from.induct)
  case (1 rows drive visited x)
  show ?case
  proof (cases "live_row rows drive x")
    case None
    then have "p \<noteq> x" using 1(4) by (auto simp: parent_of_def split: option.splits if_splits)
    with None 1(2-4) show ?thesis by auto
  next
    case (Some r)
    show ?thesis
    proof (cases "x \<in> set visited")
      case True
      with 1(2-4) Some show ?thesis by (auto simp: chain_from.simps [of _ _ _ x])
    next
      case False
      have step: "rr_parent r = None \<and> chain_from rows drive visited x = [x] \<or>
          (\<exists>q. rr_parent r = Some q \<and> chain_from rows drive visited x = x # chain_from rows drive (x # visited) q)"
        using Some False by (cases "rr_parent r") (simp_all add: chain_from.simps [of _ _ _ x])
      have par: "parent_of rows drive x = Some p' \<Longrightarrow> rr_parent r = Some p'" for p'
        using Some by (auto simp: parent_of_def split: option.splits if_splits)
      show ?thesis
      proof (cases "rr_parent r")
        case None
        with step par 1(2-4) show ?thesis by auto
      next
        case (Some q)
        have inv: "\<forall>w\<in>set (x # visited). \<forall>p. parent_of rows drive w = Some p \<longrightarrow> p \<in> set (x # visited) \<or> p = q"
          using 1(2) par Some by auto
        from step Some have ch: "chain_from rows drive visited x = x # chain_from rows drive (x # visited) q" by auto
        from 1(1) [OF \<open>live_row rows drive x = Some r\<close> False Some inv _ 1(4)] 1(3) ch
        show ?thesis by auto
      qed
    qed
  qed
qed

lemma chain_from_start:
  "live_row rows drive x = Some r \<Longrightarrow> \<exists>c. chain_from rows drive [] x = x # c"
  by (subst chain_from.simps) simp

lemma chain_from_hd: "chain_from rows drive [] x \<noteq> [] \<Longrightarrow> hd (chain_from rows drive [] x) = x"
  using chain_from_start [of rows drive x] by (cases "live_row rows drive x") auto

lemma chain_from_Nil: "chain_from rows drive [] x = [] \<longleftrightarrow> live_row rows drive x = None"
  using chain_from_start [of rows drive x] by (cases "live_row rows drive x") auto

lemma chain_from_set: "set (chain_from rows drive [] x) = {y. ancestor_of rows drive x y}"
proof -
  have "y \<in> set (chain_from rows drive [] x)" if "ancestor_of rows drive x y" for y
  proof -
    have live: "live_row rows drive x \<noteq> None" and "(\<lambda>a b. parent_of rows drive a = Some b)\<^sup>*\<^sup>* x y"
      using that by (simp_all add: ancestor_of_def)
    from this(2) show ?thesis
    proof (induction rule: rtranclp_induct)
      case base
      then show ?case using live chain_from_start [of rows drive x] by auto
    next
      case (step y z)
      then show ?case using chain_from_closed [of "[]" rows drive x y z] by simp
    qed
  qed
  then show ?thesis using chain_from_sound by blast
qed

section \<open>One decision of the store\<close>

record authz_request =
  zr_resourceId :: string
  zr_op :: gfs_permission

definition store_decision ::
  "(string \<Rightarrow> nat list) \<Rightarrow> (string \<Rightarrow> string option) \<Rightarrow> gfs_store \<Rightarrow> string \<Rightarrow> string list \<Rightarrow> authz_request \<Rightarrow>
   gfs_decision" where
  "store_decision collate cast st drive subjects req =
     (case cast (zr_resourceId req) of
        None \<Rightarrow> denied
      | Some u \<Rightarrow>
          (let ancestors = chain_from (st_resources st) drive [] u
           in if ancestors = [] then denied
              else resolve_decision collate
                \<lparr>di_resourceId = u, di_ancestors = ancestors, di_subjects = subjects, di_isOperator = False,
                 di_op = zr_op req, di_grants = grants_for (st_grants st) drive ancestors subjects,
                 di_shares = shares_for (st_shares st) drive ancestors subjects\<rparr>))"

text \<open>What the permission store promises: a live resource and a grant or share for a subject of the
  caller with the operation, on the resource or inherited from a live ancestor.\<close>

definition row_applies ::
  "resource_row list \<Rightarrow> string \<Rightarrow> string \<Rightarrow> string list \<Rightarrow> gfs_permission \<Rightarrow> acl_row \<Rightarrow> bool" where
  "row_applies rows drive u subjects p row \<longleftrightarrow>
     al_drive row = drive \<and> (\<exists>s. acl_subject row = Some s \<and> s \<in> set subjects) \<and>
     (\<exists>ps. al_permissions row = Some ps \<and> op_name p \<in> set ps) \<and>
     (al_resourceId row = u \<or> al_flag row \<and> ancestor_of rows drive u (al_resourceId row))"

definition may_access ::
  "(string \<Rightarrow> string option) \<Rightarrow> gfs_store \<Rightarrow> string \<Rightarrow> string list \<Rightarrow> authz_request \<Rightarrow> bool" where
  "may_access cast st drive subjects req \<longleftrightarrow>
     (\<exists>u. cast (zr_resourceId req) = Some u \<and> live_row (st_resources st) drive u \<noteq> None \<and>
        (\<exists>row\<in>set (st_grants st) \<union> set (st_shares st). row_applies (st_resources st) drive u subjects (zr_op req) row))"

lemma resolve_allowed:
  "gd_allowed (resolve_decision collate i) \<longleftrightarrow>
     di_isOperator i \<or>
     (\<exists>g\<in>set (di_grants i). gg_subjectKey g \<in> set (di_subjects i) \<and> op_name (di_op i) \<in> set (gg_permissions g) \<and>
        (gg_resourceId g = di_resourceId i \<or> gg_inherit g \<and> gg_resourceId g \<in> set (di_ancestors i))) \<or>
     (\<exists>g\<in>set (di_shares i). gs_subjectKey g \<in> set (di_subjects i) \<and> op_name (di_op i) \<in> set (gs_permissions g) \<and>
        (gs_resourceId g = di_resourceId i \<or> gs_includeDescendants g \<and> gs_resourceId g \<in> set (di_ancestors i)))"
  by (auto simp: resolve_decision_def operator_decision_def allowed_by_def denied_def Let_def matching_grants_def
      matching_shares_def find_None_iff split: option.splits dest!: find_SomeD)

lemma grants_for_applies:
  assumes "set anc = {y. ancestor_of rs d u y}" and "anc \<noteq> []" and "ancestor_of rs d u u"
  shows "(\<exists>g\<in>set (grants_for rows d anc subs). gg_subjectKey g \<in> set subs \<and> op_name p \<in> set (gg_permissions g) \<and>
            (gg_resourceId g = u \<or> gg_inherit g \<and> gg_resourceId g \<in> set anc)) \<longleftrightarrow>
         (\<exists>row\<in>set rows. row_applies rs d u subs p row)"
proof -
  have "acl_selected d anc subs row \<and> al_subjectType row @ '':'' @ (case al_subjectId row of None \<Rightarrow> [] | Some i \<Rightarrow> i) \<in> set subs \<and>
      op_name p \<in> set (case al_permissions row of None \<Rightarrow> [] | Some ps \<Rightarrow> ps) \<and>
      (al_resourceId row = u \<or> al_flag row \<and> al_resourceId row \<in> set anc) \<longleftrightarrow> row_applies rs d u subs p row" for row
    using assms by (cases "al_subjectId row"; cases "al_permissions row")
      (auto simp: acl_selected_def acl_subject_def row_applies_def)
  then show ?thesis using assms(2) by (auto simp: grants_for_def)
qed

lemma shares_for_applies:
  assumes "set anc = {y. ancestor_of rs d u y}" and "anc \<noteq> []" and "ancestor_of rs d u u"
  shows "(\<exists>g\<in>set (shares_for rows d anc subs). gs_subjectKey g \<in> set subs \<and> op_name p \<in> set (gs_permissions g) \<and>
            (gs_resourceId g = u \<or> gs_includeDescendants g \<and> gs_resourceId g \<in> set anc)) \<longleftrightarrow>
         (\<exists>row\<in>set rows. row_applies rs d u subs p row)"
proof -
  have "acl_selected d anc subs row \<and> al_subjectType row @ '':'' @ (case al_subjectId row of None \<Rightarrow> [] | Some i \<Rightarrow> i) \<in> set subs \<and>
      op_name p \<in> set (case al_permissions row of None \<Rightarrow> [] | Some ps \<Rightarrow> ps) \<and>
      (al_resourceId row = u \<or> al_flag row \<and> al_resourceId row \<in> set anc) \<longleftrightarrow> row_applies rs d u subs p row" for row
    using assms by (cases "al_subjectId row"; cases "al_permissions row")
      (auto simp: acl_selected_def acl_subject_def row_applies_def)
  then show ?thesis using assms(2) by (auto simp: shares_for_def)
qed

lemma store_decision_allowed:
  "gd_allowed (store_decision collate cast st drive subjects req) \<longleftrightarrow> may_access cast st drive subjects req"
proof (cases "cast (zr_resourceId req)")
  case None
  then show ?thesis by (simp add: store_decision_def may_access_def denied_def)
next
  case (Some u)
  let ?c = "chain_from (st_resources st) drive [] u"
  show ?thesis
  proof (cases "live_row (st_resources st) drive u = None")
    case True
    with Some show ?thesis by (simp add: store_decision_def may_access_def denied_def)
  next
    case False
    then have ne: "?c \<noteq> []" by (simp add: chain_from_Nil)
    have self: "ancestor_of (st_resources st) drive u u" using False by (simp add: ancestor_of_def)
    have set: "set ?c = {y. ancestor_of (st_resources st) drive u y}" by (rule chain_from_set)
    have "gd_allowed (store_decision collate cast st drive subjects req) \<longleftrightarrow>
        (\<exists>row\<in>set (st_grants st) \<union> set (st_shares st). row_applies (st_resources st) drive u subjects (zr_op req) row)"
      using ne grants_for_applies [OF set ne self] shares_for_applies [OF set ne self]
      by (simp add: store_decision_def Some resolve_allowed bex_Un Let_def)
    then show ?thesis using Some False by (simp add: may_access_def)
  qed
qed

section \<open>The ceiling by segments\<close>

lemma path_covers_segments:
  "path_covers b r \<longleftrightarrow> ceiling_canonicalize b = ''/'' \<or>
     starts_with (js_split CHR ''/'' (ceiling_canonicalize r)) (js_split CHR ''/'' (ceiling_canonicalize b))"
  by (auto simp: path_covers_def starts_with_split Let_def)

text \<open>A narrowed token reaches only what its bindings cover: a token with path bindings passes the
  ceiling for an operation exactly when its scopes contain the operation, the path of the resource is
  known and some binding with the operation has the root or, segment by segment, a directory prefix
  of that path (trailing slashes aside), so a binding never covers a sibling with a longer name.\<close>

theorem narrowed_token_covers_by_segments:
  assumes "bindings \<noteq> []"
  shows "fst (check_token_ceiling scopes bindings p path) \<longleftrightarrow>
    permission_to_scope p \<in> set scopes \<and>
    (\<exists>r b. path = Some r \<and> b \<in> set bindings \<and> op_name p \<in> set (pb_permissions b) \<and>
       (ceiling_canonicalize (pb_path b) = ''/'' \<or>
        starts_with (js_split CHR ''/'' (ceiling_canonicalize r)) (js_split CHR ''/'' (ceiling_canonicalize (pb_path b)))))"
  using assms by (auto simp: check_token_ceiling_def path_covers_segments split: option.splits)

lemma narrowed_token_covers_by_segments_witness:
  "\<not> fst (check_token_ceiling [''gfs.read''] [\<lparr>pb_path = ''/doc/'', pb_permissions = [''read'']\<rparr>] GfsRead (Some ''/docs/x''))"
proof -
  have "\<not> starts_with (js_split CHR ''/'' (ceiling_canonicalize ''/docs/x'')) (js_split CHR ''/'' (ceiling_canonicalize ''/doc/''))"
    "ceiling_canonicalize ''/doc/'' \<noteq> ''/''"
    by code_simp+
  then show ?thesis
    using narrowed_token_covers_by_segments [of "[\<lparr>pb_path = ''/doc/'', pb_permissions = [''read'']\<rparr>]" "[''gfs.read'']" GfsRead
        "Some ''/docs/x''"] by auto
qed

end
