(* ===== verification/GfsClient.thy ===== *)
theory GfsClient
  imports GfsDecision
begin

text \<open>
  The permission client of the file service, \<open>gfs-controller/src/authz/permissionClient.ts\<close>: batches
  of requests against the decision cache and the store, with one audit row per decision
  (\<open>audit.ts\<close>). The await on the store's reads is explicit: what other calls and messages do to the
  cache meanwhile is part of the call's world. The lemmas show that a batch decides like the store,
  that a coherent cache stays coherent, that every decision served is audited, and that a failing store allows nothing.
\<close>

section \<open>The permission client\<close>

record authz_context =
  zx_drive :: string
  zx_subjects :: "string list"
  zx_isOperator :: bool
  zx_primarySubject :: string
  zx_requestId :: "string option"
  zx_desktopUserId :: "string option"
  zx_effectiveControlAdminId :: "string option"
  zx_authoritySource :: "string option"

datatype audit_outcome = AuditAllow | AuditDeny | AuditError

datatype audit_evidence = FromCache authorization_source | Evidence "authorization_source option"

datatype audit_reason = ReasonVia decision_via | ReasonText string

record audit_event =
  ae_subject :: string
  ae_actorOnBehalfOf :: "string option"
  ae_desktopUserId :: "string option"
  ae_authoritySource :: "string option"
  ae_op :: gfs_permission
  ae_resourceId :: string
  ae_drive :: string
  ae_outcome :: audit_outcome
  ae_reason :: "audit_reason option"
  ae_requestId :: "string option"
  ae_matchedSubject :: "string option"
  ae_evidence :: audit_evidence

definition audit_actor :: "authz_context \<Rightarrow> string option" where
  "audit_actor ctx = (if zx_authoritySource ctx = Some ''linked-admin'' then zx_effectiveControlAdminId ctx else None)"

definition decision_event :: "authz_context \<Rightarrow> authz_request \<Rightarrow> gfs_decision \<Rightarrow> audit_event" where
  "decision_event ctx req d =
     \<lparr>ae_subject = zx_primarySubject ctx, ae_actorOnBehalfOf = audit_actor ctx,
      ae_desktopUserId = zx_desktopUserId ctx, ae_authoritySource = zx_authoritySource ctx,
      ae_op = zr_op req, ae_resourceId = zr_resourceId req, ae_drive = zx_drive ctx,
      ae_outcome = (if gd_allowed d then AuditAllow else AuditDeny),
      ae_reason = map_option ReasonVia (gd_via d), ae_requestId = zx_requestId ctx,
      ae_matchedSubject = (if gd_via d = Some ViaCache \<and> \<not> gd_allowed d then None else gd_matchedSubject d),
      ae_evidence =
        (case gd_authorizationSource d of
           Some src \<Rightarrow> (if gd_via d = Some ViaCache \<and> gd_allowed d then FromCache src
                         else Evidence (if gd_via d = Some ViaCache then None else Some src))
         | None \<Rightarrow> Evidence None)\<rparr>"

definition error_event :: "authz_context \<Rightarrow> string \<Rightarrow> authz_request \<Rightarrow> audit_event" where
  "error_event ctx msg req =
     \<lparr>ae_subject = zx_primarySubject ctx, ae_actorOnBehalfOf = audit_actor ctx,
      ae_desktopUserId = zx_desktopUserId ctx, ae_authoritySource = zx_authoritySource ctx,
      ae_op = zr_op req, ae_resourceId = zr_resourceId req, ae_drive = zx_drive ctx,
      ae_outcome = AuditError, ae_reason = Some (ReasonText msg), ae_requestId = zx_requestId ctx,
      ae_matchedSubject = None, ae_evidence = Evidence None\<rparr>"

text \<open>The rows written one after the other until a write fails.\<close>

fun audit_writes :: "(audit_event \<Rightarrow> string option) \<Rightarrow> audit_event list \<Rightarrow> audit_event list \<times> string option" where
  "audit_writes fails [] = ([], None)"
| "audit_writes fails (e # es) =
     (case fails e of
        Some msg \<Rightarrow> ([], Some msg)
      | None \<Rightarrow> (let (written, failure) = audit_writes fails es in (e # written, failure)))"

definition subjects_key_of :: "string list \<Rightarrow> string" where
  "subjects_key_of subjects = js_join CHR '','' (sort subjects)"

fun cached_decisions ::
  "string \<Rightarrow> instant \<Rightarrow> authz_request list \<Rightarrow> decision_cache option \<Rightarrow>
   decision_cache option \<times> gfs_decision option list" where
  "cached_decisions subjectKey now [] c = (c, [])"
| "cached_decisions subjectKey now (req # reqs) c =
     (let (c1, hit) = (case c of
                         None \<Rightarrow> (None, None)
                       | Some dc \<Rightarrow> (let (dc', h) = cache_get (cache_key subjectKey (zr_resourceId req) (zr_op req)) now dc
                                     in (Some dc', h)));
          (c2, hits) = cached_decisions subjectKey now reqs c1
      in (c2, map_option (\<lambda>d. d\<lparr>gd_via := Some ViaCache\<rparr>) hit # hits))"

definition store_decisions ::
  "string \<Rightarrow> instant \<Rightarrow> (authz_request \<times> gfs_decision) list \<Rightarrow> decision_cache \<Rightarrow> decision_cache" where
  "store_decisions subjectKey now rds c =
     foldl (\<lambda>c (req, d). cache_set (cache_key subjectKey (zr_resourceId req) (zr_op req)) d now c) c rds"

definition decide_request ::
  "(string \<Rightarrow> nat list) \<Rightarrow> (string, string list) js_map \<Rightarrow> grant_row list \<Rightarrow> share_row list \<Rightarrow> string list \<Rightarrow>
   authz_request \<Rightarrow> gfs_decision" where
  "decide_request collate ancestorMap grants shares subjects req =
     (let ancestors = (case js_get ancestorMap (resource_lookup_key (zr_resourceId req)) of None \<Rightarrow> [] | Some a \<Rightarrow> a)
      in if ancestors = [] then denied
         else resolve_decision collate
           \<lparr>di_resourceId = hd ancestors, di_ancestors = ancestors, di_subjects = subjects, di_isOperator = False,
            di_op = zr_op req, di_grants = grants, di_shares = shares\<rparr>)"

text \<open>
  The world of one call: the clock before and after its store reads, what other calls and messages do
  to the cache while it awaits them, what the three reads see (or the message they fail with), and
  which audit writes fail.
\<close>

record authz_world =
  zw_lookupAt :: instant
  zw_storeAt :: instant
  zw_others :: "decision_cache \<Rightarrow> decision_cache"
  zw_reads :: "string + gfs_store \<times> gfs_store \<times> gfs_store"
  zw_uuidError :: string
  zw_auditFails :: "audit_event \<Rightarrow> string option"

datatype authz_error = NotMounted string | AuditFailed string

definition audited ::
  "authz_world \<Rightarrow> authz_context \<Rightarrow> authz_request list \<Rightarrow> gfs_decision list \<Rightarrow>
   audit_event list \<times> (authz_error + gfs_decision list)" where
  "audited w ctx requests decisions =
     (case audit_writes (zw_auditFails w) (map2 (decision_event ctx) requests decisions) of
        (written, Some msg) \<Rightarrow> (written, Inl (AuditFailed msg))
      | (written, None) \<Rightarrow> (written, Inr decisions))"

definition read_snapshot ::
  "(string \<Rightarrow> string option) \<Rightarrow> authz_world \<Rightarrow> authz_context \<Rightarrow> authz_request list \<Rightarrow>
   string + (string, string list) js_map \<times> grant_row list \<times> share_row list" where
  "read_snapshot cast w ctx misses =
     (case zw_reads w of
        Inl msg \<Rightarrow> Inl msg
      | Inr (resourcesAt, grantsAt, sharesAt) \<Rightarrow>
          (case ancestors_many cast (st_resources resourcesAt) (zx_drive ctx) (map zr_resourceId misses) of
             None \<Rightarrow> Inl (zw_uuidError w)
           | Some ancestorMap \<Rightarrow>
               (let allAncestors = remdups (concat (map snd ancestorMap))
                in Inr (ancestorMap,
                        grants_for (st_grants grantsAt) (zx_drive ctx) allAncestors (zx_subjects ctx),
                        shares_for (st_shares sharesAt) (zx_drive ctx) allAncestors (zx_subjects ctx)))))"

definition authorize_many ::
  "(string \<Rightarrow> nat list) \<Rightarrow> (string \<Rightarrow> string option) \<Rightarrow> authz_world \<Rightarrow> authz_context \<Rightarrow> authz_request list \<Rightarrow>
   decision_cache option \<Rightarrow> decision_cache option \<times> audit_event list \<times> (authz_error + gfs_decision list)" where
  "authorize_many collate cast w ctx requests cache =
     (if requests = [] then (cache, [], Inr [])
      else if zx_isOperator ctx then
        (cache, audited w ctx requests (map (\<lambda>_. operator_decision (zx_subjects ctx)) requests))
      else
        (let subjectKey = subjects_key_of (zx_subjects ctx);
             (cache1, hits) = cached_decisions subjectKey (zw_lookupAt w) requests cache;
             misses = map fst (filter (\<lambda>rh. snd rh = None) (zip requests hits))
         in if misses = [] then (cache1, audited w ctx requests (map the hits))
            else
              (let cache2 = map_option (zw_others w) cache1
               in case read_snapshot cast w ctx misses of
                    Inl msg \<Rightarrow>
                      (cache2, fst (audit_writes (zw_auditFails w) (map (error_event ctx msg) requests)),
                       Inl (NotMounted msg))
                  | Inr (ancestorMap, grants, shares) \<Rightarrow>
                      (let decide = decide_request collate ancestorMap grants shares (zx_subjects ctx);
                           cache3 = map_option (store_decisions subjectKey (zw_storeAt w)
                                                  (map (\<lambda>req. (req, decide req)) misses)) cache2
                       in (cache3, audited w ctx requests
                             (map2 (\<lambda>req hit. case hit of Some d \<Rightarrow> d | None \<Rightarrow> decide req) requests hits))))))"

definition permission_epoch_of :: "decision_cache option \<Rightarrow> permission_epoch" where
  "permission_epoch_of cache =
     (case cache of
        None \<Rightarrow> \<lparr>ep_generation = 0, ep_bypassed = True\<rparr>
      | Some c \<Rightarrow> \<lparr>ep_generation = dc_generation c, ep_bypassed = dc_bypassed c\<rparr>)"

section \<open>Batches decide like the store\<close>

text \<open>What the client relies on of the conversion of texts to uuids: an accepted text has no NUL
  character and the lookup key of its uuid, and uuids are told apart by their lookup keys.\<close>

definition uuid_conversion :: "(string \<Rightarrow> string option) \<Rightarrow> bool" where
  "uuid_conversion cast \<longleftrightarrow>
     (\<forall>s u. cast s = Some u \<longrightarrow> NUL \<notin> set s \<and> resource_lookup_key s = resource_lookup_key u) \<and>
     (\<forall>s s' u u'. cast s = Some u \<longrightarrow> cast s' = Some u' \<longrightarrow>
        resource_lookup_key u = resource_lookup_key u' \<longrightarrow> u = u')"

lemma add_chain_get:
  "js_get m (resource_lookup_key u) = None \<Longrightarrow>
   js_get (add_chain rows drive m u) k =
     (if k = resource_lookup_key u \<and> chain_from rows drive [] u \<noteq> [] then Some (chain_from rows drive [] u) else js_get m k)"
  by (simp add: add_chain_def split: list.splits)

lemma add_chain_other: "k \<noteq> resource_lookup_key u \<Longrightarrow> js_get (add_chain rows drive m u) k = js_get m k"
  by (simp add: add_chain_def split: list.splits)

lemma foldl_add_chain_other:
  "k \<notin> resource_lookup_key ` set us \<Longrightarrow> js_get (foldl (add_chain rows drive) m us) k = js_get m k"
  by (induction us arbitrary: m) (auto simp: add_chain_other)

lemma foldl_add_chain:
  assumes "distinct (map resource_lookup_key us)" and "\<forall>u\<in>set us. js_get m (resource_lookup_key u) = None" and "u \<in> set us"
  shows "js_get (foldl (add_chain rows drive) m us) (resource_lookup_key u) =
    (let c = chain_from rows drive [] u in if c = [] then None else Some c)"
  using assms
proof (induction us arbitrary: m)
  case (Cons v us)
  show ?case
  proof (cases "u = v")
    case True
    then have "resource_lookup_key u \<notin> resource_lookup_key ` set us" using Cons.prems(1) by auto
    then show ?thesis using True Cons.prems(2) by (simp add: foldl_add_chain_other add_chain_get Let_def)
  next
    case False
    then have "u \<in> set us" using Cons.prems(3) by simp
    moreover have v: "resource_lookup_key v \<notin> resource_lookup_key ` set us" using Cons.prems(1) by simp
    moreover have "\<forall>w\<in>set us. js_get (add_chain rows drive m v) (resource_lookup_key w) = None"
    proof
      fix w assume "w \<in> set us"
      moreover from this have "resource_lookup_key w \<noteq> resource_lookup_key v" using v by (metis imageI)
      ultimately show "js_get (add_chain rows drive m v) (resource_lookup_key w) = None"
        using Cons.prems(2) by (simp add: add_chain_other)
    qed
    ultimately show ?thesis using Cons.IH Cons.prems(1) by simp
  qed
qed simp

lemma ancestors_many_get:
  assumes "uuid_conversion cast" and "ancestors_many cast rows drive rids = Some m" and "rid \<in> set rids"
  shows "\<exists>u. cast rid = Some u \<and>
    js_get m (resource_lookup_key rid) = (let c = chain_from rows drive [] u in if c = [] then None else Some c)"
proof -
  have all: "\<forall>rid\<in>set rids. cast rid \<noteq> None" using assms(2) by (auto simp: ancestors_many_def split: if_splits)
  with assms(3) obtain u where u: "cast rid = Some u" by auto
  let ?us = "sort (remdups (map (\<lambda>rid. the (cast rid)) rids))"
  have inj: "inj_on resource_lookup_key (set ?us)"
    using assms(1) all by (intro inj_onI) (force simp: uuid_conversion_def)
  have "u \<in> set ?us" using u assms(3) by force
  moreover have "distinct (map resource_lookup_key ?us)" using inj by (simp add: distinct_map)
  ultimately have "js_get m (resource_lookup_key u) =
      (let c = chain_from rows drive [] u in if c = [] then None else Some c)"
    using assms(2) all foldl_add_chain [of ?us "[]" u rows drive]
    by (simp add: ancestors_many_def Let_def)
  moreover have "resource_lookup_key rid = resource_lookup_key u" using assms(1) u by (simp add: uuid_conversion_def)
  ultimately show ?thesis using u by simp
qed

lemma find_filter_weaker: "(\<And>x. P x \<Longrightarrow> Q x) \<Longrightarrow> find P (filter Q xs) = find P xs"
  by (induction xs) auto

lemma grants_for_subset:
  assumes "set anc \<subseteq> set every" and "anc \<noteq> []"
  shows "grants_for rows d anc subs = filter (\<lambda>g. gg_resourceId g \<in> set anc) (grants_for rows d every subs)"
proof -
  have "every \<noteq> []" using assms by auto
  then show ?thesis using assms by (induction rows) (auto simp: grants_for_def acl_selected_def)
qed

lemma shares_for_subset:
  assumes "set anc \<subseteq> set every" and "anc \<noteq> []"
  shows "shares_for rows d anc subs = filter (\<lambda>g. gs_resourceId g \<in> set anc) (shares_for rows d every subs)"
proof -
  have "every \<noteq> []" using assms by auto
  then show ?thesis using assms by (induction rows) (auto simp: shares_for_def acl_selected_def)
qed

lemma resolve_ignores_other_rows:
  assumes "di_resourceId i \<in> set (di_ancestors i)"
  shows "resolve_decision collate (i\<lparr>di_grants := filter (\<lambda>g. gg_resourceId g \<in> set (di_ancestors i)) (di_grants i),
           di_shares := filter (\<lambda>g. gs_resourceId g \<in> set (di_ancestors i)) (di_shares i)\<rparr>) =
         resolve_decision collate i"
proof -
  let ?i = "i\<lparr>di_grants := filter (\<lambda>g. gg_resourceId g \<in> set (di_ancestors i)) (di_grants i),
           di_shares := filter (\<lambda>g. gs_resourceId g \<in> set (di_ancestors i)) (di_shares i)\<rparr>"
  have g: "matching_grants collate ?i = filter (\<lambda>g. gg_resourceId g \<in> set (di_ancestors i)) (matching_grants collate i)"
    by (simp add: matching_grants_def filter_sort conj_commute)
  have s: "matching_shares collate ?i = filter (\<lambda>g. gs_resourceId g \<in> set (di_ancestors i)) (matching_shares collate i)"
    by (simp add: matching_shares_def filter_sort conj_commute)
  note f = find_filter_weaker [where Q = "\<lambda>g. gg_resourceId g \<in> set (di_ancestors i)"]
    find_filter_weaker [where Q = "\<lambda>g. gs_resourceId g \<in> set (di_ancestors i)"]
  have "find (\<lambda>g. gg_resourceId g = di_resourceId i) (filter (\<lambda>g. gg_resourceId g \<in> set (di_ancestors i)) gs) =
      find (\<lambda>g. gg_resourceId g = di_resourceId i) gs" for gs :: "grant_row list" by (rule f) (simp add: assms)
  moreover have "find (\<lambda>g. gg_inherit g \<and> gg_resourceId g \<in> set (di_ancestors i))
      (filter (\<lambda>g. gg_resourceId g \<in> set (di_ancestors i)) gs) =
      find (\<lambda>g. gg_inherit g \<and> gg_resourceId g \<in> set (di_ancestors i)) gs" for gs :: "grant_row list" by (rule f) simp
  moreover have "find (\<lambda>g. gs_resourceId g = di_resourceId i) (filter (\<lambda>g. gs_resourceId g \<in> set (di_ancestors i)) gs) =
      find (\<lambda>g. gs_resourceId g = di_resourceId i) gs" for gs :: "share_row list" by (rule f) (simp add: assms)
  moreover have "find (\<lambda>g. gs_includeDescendants g \<and> gs_resourceId g \<in> set (di_ancestors i))
      (filter (\<lambda>g. gs_resourceId g \<in> set (di_ancestors i)) gs) =
      find (\<lambda>g. gs_includeDescendants g \<and> gs_resourceId g \<in> set (di_ancestors i)) gs" for gs :: "share_row list" by (rule f) simp
  ultimately show ?thesis
    unfolding resolve_decision_def g s Let_def by (simp cong: option.case_cong)
qed

text \<open>A request decided in a batch on a snapshot of one store gets the decision it would get alone.\<close>

lemma decide_request_store:
  assumes "uuid_conversion cast" and "zw_reads w = Inr (st, st, st)"
    and "read_snapshot cast w ctx misses = Inr (m, grants, shares)" and "req \<in> set misses"
  shows "decide_request collate m grants shares (zx_subjects ctx) req =
           store_decision collate cast st (zx_drive ctx) (zx_subjects ctx) req \<and> cast (zr_resourceId req) \<noteq> None"
proof -
  let ?every = "remdups (concat (map snd m))"
  have r: "ancestors_many cast (st_resources st) (zx_drive ctx) (map zr_resourceId misses) = Some m"
    "grants = grants_for (st_grants st) (zx_drive ctx) ?every (zx_subjects ctx)"
    "shares = shares_for (st_shares st) (zx_drive ctx) ?every (zx_subjects ctx)"
    using assms(2,3) by (auto simp: read_snapshot_def Let_def split: option.splits)
  have "zr_resourceId req \<in> set (map zr_resourceId misses)" using assms(4) by simp
  from ancestors_many_get [OF assms(1) r(1) this] obtain u where u: "cast (zr_resourceId req) = Some u"
    "js_get m (resource_lookup_key (zr_resourceId req)) =
      (let c = chain_from (st_resources st) (zx_drive ctx) [] u in if c = [] then None else Some c)"
    by blast
  let ?c = "chain_from (st_resources st) (zx_drive ctx) [] u"
  show ?thesis
  proof (cases "?c = []")
    case True
    then show ?thesis using u by (simp add: decide_request_def store_decision_def)
  next
    case False
    then have "(resource_lookup_key (zr_resourceId req), ?c) \<in> set m"
      using u(2) map_of_SomeD by fastforce
    then have sub: "set ?c \<subseteq> set ?every" by force
    let ?i = "\<lparr>di_resourceId = u, di_ancestors = ?c, di_subjects = zx_subjects ctx, di_isOperator = False,
      di_op = zr_op req, di_grants = grants, di_shares = shares\<rparr>"
    have "hd ?c = u" "u \<in> set ?c" using False chain_from_hd hd_in_set by metis+
    then have "decide_request collate m grants shares (zx_subjects ctx) req = resolve_decision collate ?i"
      using u False by (simp add: decide_request_def Let_def)
    also have "\<dots> = store_decision collate cast st (zx_drive ctx) (zx_subjects ctx) req"
      using resolve_ignores_other_rows [of ?i collate] \<open>u \<in> set ?c\<close> False u(1)
      by (simp add: store_decision_def grants_for_subset [OF sub] shares_for_subset [OF sub] r(2,3))
    finally show ?thesis using u(1) by simp
  qed
qed

section \<open>Coherence of the cache\<close>

lemma acl_selected_subject_set: "set S = set S' \<Longrightarrow> acl_selected d anc S = acl_selected d anc S'"
  by (rule ext) (simp add: acl_selected_def cong: option.case_cong)

lemma resolve_subject_set:
  "set S = set S' \<Longrightarrow> resolve_decision collate (i\<lparr>di_subjects := S\<rparr>) = resolve_decision collate (i\<lparr>di_subjects := S'\<rparr>)"
  by (simp add: resolve_decision_def matching_grants_def matching_shares_def operator_decision_def Let_def
      cong: option.case_cong)

lemma store_decision_subject_set:
  assumes "set S = set S'"
  shows "store_decision collate cast st d S req = store_decision collate cast st d S' req"
proof -
  have rows: "grants_for (st_grants st) d anc S = grants_for (st_grants st) d anc S'"
    "shares_for (st_shares st) d anc S = shares_for (st_shares st) d anc S'" for anc
    by (simp_all add: grants_for_def shares_for_def acl_selected_subject_set [OF assms])
  have eq: "resolve_decision collate \<lparr>di_resourceId = u, di_ancestors = anc, di_subjects = S, di_isOperator = False,
      di_op = zr_op req, di_grants = gs, di_shares = ss\<rparr> = resolve_decision collate \<lparr>di_resourceId = u,
      di_ancestors = anc, di_subjects = S', di_isOperator = False, di_op = zr_op req, di_grants = gs, di_shares = ss\<rparr>"
    for u anc gs ss
    using resolve_subject_set [OF assms, of collate "\<lparr>di_resourceId = u, di_ancestors = anc, di_subjects = [],
      di_isOperator = False, di_op = zr_op req, di_grants = gs, di_shares = ss\<rparr>"] by simp
  show ?thesis
    by (cases "cast (zr_resourceId req)") (simp_all only: store_decision_def rows Let_def eq option.case)
qed

text \<open>Subject lists the cache key tells apart.\<close>

definition plain_subjects :: "string list \<Rightarrow> bool" where
  "plain_subjects S \<longleftrightarrow> S \<noteq> [] \<and> (\<forall>s\<in>set S. CHR '','' \<notin> set s \<and> NUL \<notin> set s)"

lemma js_join_set: "set (js_join c ss) \<subseteq> insert c (\<Union>s\<in>set ss. set s)"
  by (induction c ss rule: js_join.induct) auto

lemma subjects_key_plain: "plain_subjects S \<Longrightarrow> NUL \<notin> set (subjects_key_of S)"
  using js_join_set [of "CHR '',''" "sort S"] by (fastforce simp: plain_subjects_def subjects_key_of_def NUL_def)

lemma subjects_key_inject:
  assumes "plain_subjects S" and "plain_subjects S'" and "subjects_key_of S = subjects_key_of S'"
  shows "set S = set S'"
proof -
  have *: "js_split CHR '','' (js_join CHR '','' (sort T)) = sort T" if "plain_subjects T" for T
    using that by (intro js_split_join) (auto simp: plain_subjects_def simp flip: length_greater_0_conv)
  have "sort S = sort S'" using assms * by (metis subjects_key_of_def)
  then show ?thesis by (metis set_sort)
qed

lemma op_name_plain: "NUL \<notin> set (op_name p)"
  by (cases p) (simp_all add: NUL_def)

lemma op_name_inject: "op_name p = op_name q \<Longrightarrow> p = q"
  by (cases p; cases q) simp_all

lemma cache_key_inject:
  assumes "plain_subjects S" and "plain_subjects S'" and "NUL \<notin> set rid"
    and "cache_key (subjects_key_of S) rid p = cache_key (subjects_key_of S') rid' p'"
  shows "set S = set S' \<and> subjects_key_of S = subjects_key_of S' \<and> rid = rid' \<and> p = p'"
proof -
  have eq: "subjects_key_of S = subjects_key_of S'" "rid @ NUL # op_name p = rid' @ NUL # op_name p'"
    using append_sep_unique [OF subjects_key_plain [OF assms(1)] subjects_key_plain [OF assms(2)]
      assms(4) [unfolded cache_key_def]] by blast+
  have "NUL \<notin> set rid'"
  proof
    assume "NUL \<in> set rid'"
    then obtain a b where r: "rid' = a @ NUL # b" "NUL \<notin> set a" by (meson split_list_first)
    then have "op_name p = b @ NUL # op_name p'"
      using eq(2) append_sep_unique [of NUL rid a "op_name p" "b @ NUL # op_name p'"] assms(3) by simp
    then have "NUL \<in> set (op_name p)" by simp
    then show False using op_name_plain by blast
  qed
  then have "rid = rid'" "op_name p = op_name p'"
    using append_sep_unique [OF assms(3) _ eq(2)] by blast+
  then show ?thesis using subjects_key_inject [OF assms(1,2) eq(1)] eq(1) op_name_inject by blast
qed

text \<open>
  The key of the cache does not name the drive. \<open>home\<close> is the drive under which callers with the given subjects
  key ask for a resource; calls that name another drive share entries with it.
\<close>

type_synonym drive_of = "string \<Rightarrow> string \<Rightarrow> string"

definition names_drive :: "drive_of \<Rightarrow> authz_context \<Rightarrow> authz_request list \<Rightarrow> bool" where
  "names_drive home ctx requests \<longleftrightarrow>
     (\<forall>req\<in>set requests. home (subjects_key_of (zx_subjects ctx)) (zr_resourceId req) = zx_drive ctx)"

definition coherent_entry ::
  "(string \<Rightarrow> nat list) \<Rightarrow> (string \<Rightarrow> string option) \<Rightarrow> gfs_store \<Rightarrow> drive_of \<Rightarrow> string \<Rightarrow> cache_entry \<Rightarrow> bool" where
  "coherent_entry collate cast st home k e \<longleftrightarrow>
     (\<exists>S req. plain_subjects S \<and> cast (zr_resourceId req) \<noteq> None \<and>
        k = cache_key (subjects_key_of S) (zr_resourceId req) (zr_op req) \<and>
        ce_decision e = store_decision collate cast st (home (subjects_key_of S) (zr_resourceId req)) S req)"

definition coherent ::
  "(string \<Rightarrow> nat list) \<Rightarrow> (string \<Rightarrow> string option) \<Rightarrow> gfs_store \<Rightarrow> drive_of \<Rightarrow> decision_cache \<Rightarrow> bool" where
  "coherent collate cast st home c \<longleftrightarrow>
     (\<forall>k e. js_get (dc_store c) k = Some e \<longrightarrow> coherent_entry collate cast st home k e)"

lemma coherent_empty [simp]: "dc_store c = [] \<Longrightarrow> coherent collate cast st home c"
  by (simp add: coherent_def)

lemma cache_get_coherent: "coherent collate cast st home c \<Longrightarrow> coherent collate cast st home (fst (cache_get k now c))"
  unfolding coherent_def cache_get_def by (auto split: option.splits)

lemma cache_get_bypassed [simp]: "dc_bypassed (fst (cache_get k now c)) = dc_bypassed c"
  by (simp add: cache_get_def split: option.splits)

lemma cache_set_bypassed [simp]: "dc_bypassed (cache_set k e now c) = dc_bypassed c"
  by (simp add: cache_set_def Let_def)

lemma cache_set_stays_empty: "dc_bypassed c \<Longrightarrow> cache_set k e now c = c"
  by (simp add: cache_set_def)

lemma cache_get_stays_empty: "dc_bypassed c \<Longrightarrow> cache_get k now c = (c, None)"
  by (simp add: cache_get_def)

lemma cache_get_hit:
  assumes "uuid_conversion cast" and "coherent collate cast st home c" and "plain_subjects S"
    and "snd (cache_get (cache_key (subjects_key_of S) (zr_resourceId req) (zr_op req)) now c) = Some dec"
  shows "dec = store_decision collate cast st (home (subjects_key_of S) (zr_resourceId req)) S req"
proof -
  let ?k = "cache_key (subjects_key_of S) (zr_resourceId req) (zr_op req)"
  obtain e where e: "js_get (dc_store c) ?k = Some e" "dec = ce_decision e"
    using assms(4) by (auto simp: cache_get_def split: if_splits option.splits)
  then obtain S' req' where s: "plain_subjects S'" "cast (zr_resourceId req') \<noteq> None"
    "cache_key (subjects_key_of S') (zr_resourceId req') (zr_op req') = ?k"
    "dec = store_decision collate cast st (home (subjects_key_of S') (zr_resourceId req')) S' req'"
    using assms(2) unfolding coherent_def coherent_entry_def by metis
  have "NUL \<notin> set (zr_resourceId req')" using assms(1) s(2) by (auto simp: uuid_conversion_def)
  from cache_key_inject [OF s(1) assms(3) this s(3)]
  have "set S' = set S" "subjects_key_of S' = subjects_key_of S" "req' = req" by simp_all
  then show ?thesis using s(4) store_decision_subject_set by metis
qed

lemma cache_set_coherent:
  assumes "coherent collate cast st home c" and "plain_subjects S" and "cast (zr_resourceId req) \<noteq> None"
    and "dec = store_decision collate cast st (home (subjects_key_of S) (zr_resourceId req)) S req"
  shows "coherent collate cast st home
           (cache_set (cache_key (subjects_key_of S) (zr_resourceId req) (zr_op req)) dec now c)"
proof -
  have new: "coherent_entry collate cast st home (cache_key (subjects_key_of S) (zr_resourceId req) (zr_op req))
      \<lparr>ce_decision = dec, ce_expiresAtMs = t\<rparr>" for t
    using assms(2-4) by (auto simp: coherent_entry_def)
  have evict: "js_get (case dc_store c of [] \<Rightarrow> [] | (oldest, _) # _ \<Rightarrow> js_delete oldest (dc_store c)) k = Some e \<Longrightarrow>
      js_get (dc_store c) k = Some e" for k e
    by (auto split: list.splits if_splits)
  show ?thesis
    using assms(1) new evict unfolding coherent_def cache_set_def Let_def by (auto split: if_splits)
qed

section \<open>One call on a coherent cache\<close>

text \<open>A call whose reads all see one store, undisturbed while it awaits them.\<close>

definition undisturbed :: "gfs_store \<Rightarrow> authz_world \<Rightarrow> bool" where
  "undisturbed st w \<longleftrightarrow> zw_others w = id \<and> (zw_reads w = Inr (st, st, st) \<or> (\<exists>msg. zw_reads w = Inl msg))"

definition cached_right ::
  "(string \<Rightarrow> nat list) \<Rightarrow> (string \<Rightarrow> string option) \<Rightarrow> gfs_store \<Rightarrow> string \<Rightarrow> string list \<Rightarrow> authz_request \<Rightarrow>
   gfs_decision option \<Rightarrow> bool" where
  "cached_right collate cast st d S req hit \<longleftrightarrow>
     hit = None \<or> hit = Some ((store_decision collate cast st d S req)\<lparr>gd_via := Some ViaCache\<rparr>)"

lemma cached_decisions_right:
  assumes "uuid_conversion cast" and "plain_subjects S" and "coherent collate cast st home c"
    and "cached_decisions (subjects_key_of S) now reqs (Some c) = (c', hits)"
    and "\<forall>req\<in>set reqs. home (subjects_key_of S) (zr_resourceId req) = d"
  shows "(\<exists>c1. c' = Some c1 \<and> coherent collate cast st home c1 \<and> dc_bypassed c1 = dc_bypassed c) \<and>
         list_all2 (cached_right collate cast st d S) reqs hits"
  using assms(3-5)
proof (induction reqs arbitrary: c c' hits)
  case (Cons req reqs)
  let ?k = "cache_key (subjects_key_of S) (zr_resourceId req) (zr_op req)"
  obtain c1 h where g: "cache_get ?k now c = (c1, h)" by (cases "cache_get ?k now c")
  obtain c2 hs where r: "cached_decisions (subjects_key_of S) now reqs (Some c1) = (c2, hs)"
    by (cases "cached_decisions (subjects_key_of S) now reqs (Some c1)")
  have co: "coherent collate cast st home c1" "dc_bypassed c1 = dc_bypassed c"
    using cache_get_coherent [OF Cons.prems(1), of ?k now] cache_get_bypassed [of ?k now c] g by simp_all
  have "cached_right collate cast st d S req (map_option (\<lambda>x. x\<lparr>gd_via := Some ViaCache\<rparr>) h)"
    using cache_get_hit [OF assms(1) Cons.prems(1) assms(2), of req now] g Cons.prems(3)
    by (cases h) (simp_all add: cached_right_def)
  then show ?case using Cons.IH [OF co(1) r] Cons.prems(2,3) g r co(2) by auto
qed auto

lemma store_decisions_coherent:
  assumes "coherent collate cast st home c" and "plain_subjects S"
    and "\<forall>(req, dec)\<in>set rds. cast (zr_resourceId req) \<noteq> None \<and>
      dec = store_decision collate cast st (home (subjects_key_of S) (zr_resourceId req)) S req"
  shows "coherent collate cast st home (store_decisions (subjects_key_of S) now rds c) \<and>
         dc_bypassed (store_decisions (subjects_key_of S) now rds c) = dc_bypassed c"
  using assms(1,3)
proof (induction rds arbitrary: c)
  case (Cons rd rds)
  obtain req dec where rd: "rd = (req, dec)" by (cases rd)
  let ?c = "cache_set (cache_key (subjects_key_of S) (zr_resourceId req) (zr_op req)) dec now c"
  have "coherent collate cast st home ?c" using cache_set_coherent [OF Cons.prems(1) assms(2)] Cons.prems(2) rd by simp
  from Cons.IH [OF this] Cons.prems(2) rd show ?case by (simp add: store_decisions_def)
qed (simp add: store_decisions_def)

lemma audited_decisions: "snd (audited w ctx requests ds) = Inr ds' \<Longrightarrow> ds' = ds"
  by (auto simp: audited_def split: prod.splits option.splits)

lemma list_all2_map2:
  "list_all2 P xs ys \<Longrightarrow> (\<And>x y. x \<in> set xs \<Longrightarrow> P x y \<Longrightarrow> Q x (f x y)) \<Longrightarrow> list_all2 Q xs (map2 f xs ys)"
  by (induction rule: list_all2_induct) auto

lemma authorize_many_right:
  assumes "uuid_conversion cast" and "undisturbed st w" and "coherent collate cast st home c"
    and "plain_subjects (zx_subjects ctx)" and "\<not> zx_isOperator ctx"
    and "authorize_many collate cast w ctx requests (Some c) = (c', log, result)" and "names_drive home ctx requests"
  shows "(\<exists>c1. c' = Some c1 \<and> coherent collate cast st home c1 \<and> dc_bypassed c1 = dc_bypassed c) \<and>
    (\<forall>ds. result = Inr ds \<longrightarrow> list_all2 (\<lambda>req dec. \<exists>via. dec =
        (store_decision collate cast st (zx_drive ctx) (zx_subjects ctx) req)\<lparr>gd_via := via\<rparr>) requests ds)"
proof (cases "requests = []")
  case True
  then show ?thesis using assms(3,6) by (auto simp: authorize_many_def)
next
  case False
  let ?S = "zx_subjects ctx" and ?k = "subjects_key_of (zx_subjects ctx)"
  let ?D = "store_decision collate cast st (zx_drive ctx) ?S"
  obtain c0 hits where h: "cached_decisions ?k (zw_lookupAt w) requests (Some c) = (c0, hits)"
    by (cases "cached_decisions ?k (zw_lookupAt w) requests (Some c)")
  have home: "home ?k (zr_resourceId req) = zx_drive ctx" if "req \<in> set requests" for req
    using assms(7) that by (simp add: names_drive_def)
  obtain c1 where c1: "c0 = Some c1" "coherent collate cast st home c1" "dc_bypassed c1 = dc_bypassed c"
    and hits: "list_all2 (cached_right collate cast st (zx_drive ctx) ?S) requests hits"
    using cached_decisions_right [OF assms(1,4,3) h, of "zx_drive ctx"] home by blast
  let ?misses = "map fst (filter (\<lambda>rh. snd rh = None) (zip requests hits))"
  note unfolded = authorize_many_def assms(5) False h c1(1) Let_def
  have others: "map_option (zw_others w) (Some c1) = Some c1" using assms(2) by (simp add: undisturbed_def)
  show ?thesis
  proof (cases "?misses = []")
    case True
    have all: "\<forall>h\<in>set hits. h \<noteq> None"
    proof
      fix h assume "h \<in> set hits"
      then obtain i where "i < length hits" "h = hits ! i" by (auto simp: in_set_conv_nth)
      then have "(requests ! i, h) \<in> set (zip requests hits)"
        using list_all2_lengthD [OF hits] unfolding in_set_zip by (intro exI [of _ i]) simp
      then show "h \<noteq> None" using True by (auto simp: filter_empty_conv)
    qed
    have res: "result = snd (audited w ctx requests (map the hits))" "c' = Some c1"
      using assms(6) True by (simp_all add: unfolded prod_eq_iff)
    have "list_all2 (\<lambda>req dec. \<exists>via. dec = (?D req)\<lparr>gd_via := via\<rparr>) requests (map the hits)"
      using hits all by (fastforce simp: list_all2_conv_all_nth cached_right_def in_set_conv_nth)
    moreover have "ds = map the hits" if "result = Inr ds" for ds
      using audited_decisions [of w ctx requests "map the hits" ds] res(1) that by simp
    ultimately show ?thesis using res(2) c1(2,3) by auto
  next
    case miss: False
    show ?thesis
    proof (cases "read_snapshot cast w ctx ?misses")
      case (Inl msg)
      have "c' = Some c1 \<and> result = Inl (NotMounted msg)"
        using assms(6) miss Inl others by (simp add: unfolded prod_eq_iff)
      then show ?thesis using c1(2,3) by simp
    next
      case (Inr snap)
      obtain m grants shares where snap: "snap = (m, grants, shares)" by (cases snap)
      let ?d = "decide_request collate m grants shares ?S"
      have "zw_reads w = Inr (st, st, st)"
        using Inr assms(2) by (auto simp: read_snapshot_def undisturbed_def)
      from decide_request_store [OF assms(1) this Inr [unfolded snap]]
      have dec: "?d req = ?D req" "cast (zr_resourceId req) \<noteq> None" if "req \<in> set ?misses" for req
        using that by blast+
      have sub: "set ?misses \<subseteq> set requests" by (auto dest: set_zip_leftD)
      let ?ds = "map2 (\<lambda>req hit. case hit of Some x \<Rightarrow> x | None \<Rightarrow> ?d req) requests hits"
      let ?c = "store_decisions ?k (zw_storeAt w) (map (\<lambda>req. (req, ?d req)) ?misses) c1"
      have res: "result = snd (audited w ctx requests ?ds)" "c' = Some ?c"
        using assms(6) miss Inr others by (simp_all add: unfolded snap prod_eq_iff)
      have "\<forall>(req, d)\<in>set (map (\<lambda>req. (req, ?d req)) ?misses). cast (zr_resourceId req) \<noteq> None \<and>
          d = store_decision collate cast st (home ?k (zr_resourceId req)) ?S req"
        using dec home sub by (auto simp: subset_iff)
      from store_decisions_coherent [OF c1(2) assms(4) this]
      have "coherent collate cast st home ?c \<and> dc_bypassed ?c = dc_bypassed c1" .
      moreover have "list_all2 (\<lambda>req dec. \<exists>via. dec = (?D req)\<lparr>gd_via := via\<rparr>) requests ?ds"
        unfolding list_all2_conv_all_nth
      proof (intro conjI allI impI)
        show "length requests = length ?ds" using hits by (simp add: list_all2_lengthD)
        fix i assume i: "i < length requests"
        then have hit: "i < length hits" "cached_right collate cast st (zx_drive ctx) ?S (requests ! i) (hits ! i)"
          using hits by (simp_all add: list_all2_conv_all_nth)
        show "\<exists>via. ?ds ! i = (?D (requests ! i))\<lparr>gd_via := via\<rparr>"
        proof (cases "hits ! i")
          case None
          then have "(requests ! i, None) \<in> set (filter (\<lambda>rh. snd rh = None) (zip requests hits))"
            using i hit(1) by (auto simp: in_set_zip)
          then have "requests ! i \<in> set ?misses" by force
          then have "?ds ! i = (?D (requests ! i))\<lparr>gd_via := gd_via (?D (requests ! i))\<rparr>"
            using None i hit(1) dec(1) by simp
          then show ?thesis by blast
        next
          case (Some x)
          then show ?thesis using i hit by (auto simp: cached_right_def)
        qed
      qed
      moreover have "ds = ?ds" if "result = Inr ds" for ds
        using audited_decisions [of w ctx requests ?ds ds] res(1) that by simp
      ultimately show ?thesis using res(2) c1(3) by auto
    qed
  qed
qed

section \<open>Bypassing and operators\<close>

lemma cached_decisions_bypassed:
  "dc_bypassed c \<Longrightarrow> fst (cached_decisions k now reqs (Some c)) = Some c"
  by (induction reqs) (simp_all add: cache_get_stays_empty case_prod_beta Let_def)

lemma store_decisions_bypassed: "dc_bypassed c \<Longrightarrow> store_decisions k now rds c = c"
  by (induction rds) (simp_all add: store_decisions_def cache_set_stays_empty case_prod_beta)

lemma authorize_bypassed:
  "dc_bypassed c \<Longrightarrow> zw_others w = id \<Longrightarrow> fst (authorize_many collate cast w ctx requests (Some c)) = Some c"
  by (simp add: authorize_many_def case_prod_beta Let_def cached_decisions_bypassed store_decisions_bypassed
      split: sum.splits)

lemma cached_decisions_bypass_flag:
  "\<exists>c1. fst (cached_decisions k now reqs (Some c)) = Some c1 \<and> dc_bypassed c1 = dc_bypassed c"
  by (induction reqs arbitrary: c) (auto simp: case_prod_beta Let_def, metis cache_get_bypassed)

lemma store_decisions_bypass_flag: "dc_bypassed (store_decisions k now rds c) = dc_bypassed c"
  by (induction rds arbitrary: c) (simp_all add: store_decisions_def case_prod_beta)

lemma authorize_bypass_flag:
  assumes "zw_others w = id" and "fst (authorize_many collate cast w ctx requests (Some c)) = Some c'"
  shows "dc_bypassed c' = dc_bypassed c"
proof -
  obtain c1 where "fst (cached_decisions (subjects_key_of (zx_subjects ctx)) (zw_lookupAt w) requests (Some c)) = Some c1"
    "dc_bypassed c1 = dc_bypassed c"
    using cached_decisions_bypass_flag by blast
  then show ?thesis
    using assms by (auto simp: authorize_many_def case_prod_beta Let_def store_decisions_bypass_flag
        split: if_splits sum.splits)
qed

lemma authorize_operator_cache: "zx_isOperator ctx \<Longrightarrow> fst (authorize_many collate cast w ctx requests cache) = cache"
  by (simp add: authorize_many_def)

section \<open>Answers and their audit rows\<close>

lemma audit_writes_all: "audit_writes f es = (log, None) \<Longrightarrow> log = es \<and> (\<forall>e\<in>set es. f e = None)"
  by (induction es arbitrary: log) (auto simp: case_prod_beta prod_eq_iff split: option.splits)

lemma audited_log:
  "audited w ctx requests ds = (log, Inr ds') \<Longrightarrow>
   ds' = ds \<and> log = map2 (decision_event ctx) requests ds \<and> (\<forall>e\<in>set log. zw_auditFails w e = None)"
  by (auto simp: audited_def dest!: audit_writes_all split: prod.splits option.splits)

lemma length_cached_decisions [simp]: "length (snd (cached_decisions k now reqs c)) = length reqs"
  by (induction reqs arbitrary: c) (simp_all add: case_prod_beta Let_def)

lemma cached_decisions_via:
  "Some d \<in> set (snd (cached_decisions k now reqs c)) \<Longrightarrow> gd_via d = Some ViaCache"
  by (induction reqs arbitrary: c) (auto simp: case_prod_beta Let_def dest!: sym [of "Some d"])

lemma authorize_many_audited:
  assumes "authorize_many collate cast w ctx requests cache = (c', log, Inr ds)" and "requests \<noteq> []"
  shows "\<exists>ds0. length ds0 = length requests \<and> audited w ctx requests ds0 = (log, Inr ds)"
proof (cases "zx_isOperator ctx")
  case True
  then show ?thesis using assms
    by (intro exI [of _ "map (\<lambda>_. operator_decision (zx_subjects ctx)) requests"]) (simp add: authorize_many_def)
next
  case op: False
  obtain c1 hits where h: "cached_decisions (subjects_key_of (zx_subjects ctx)) (zw_lookupAt w) requests cache = (c1, hits)"
    by (cases "cached_decisions (subjects_key_of (zx_subjects ctx)) (zw_lookupAt w) requests cache")
  have len: "length hits = length requests"
    using length_cached_decisions [of "subjects_key_of (zx_subjects ctx)" "zw_lookupAt w" requests cache] h by simp
  let ?misses = "map fst (filter (\<lambda>rh. snd rh = None) (zip requests hits))"
  show ?thesis
  proof (cases "?misses = []")
    case True
    then have "audited w ctx requests (map the hits) = (log, Inr ds)"
      using assms op h by (simp add: authorize_many_def)
    then show ?thesis using len by (intro exI [of _ "map the hits"]) simp
  next
    case False
    then obtain m gs ss where snap: "read_snapshot cast w ctx ?misses = Inr (m, gs, ss)"
      using assms op h by (cases "read_snapshot cast w ctx ?misses") (auto simp: authorize_many_def)
    let ?ds = "map2 (\<lambda>req hit. case hit of Some d \<Rightarrow> d
        | None \<Rightarrow> decide_request collate m gs ss (zx_subjects ctx) req) requests hits"
    have "audited w ctx requests ?ds = (log, Inr ds)"
      using assms op h False snap by (simp add: authorize_many_def Let_def)
    then show ?thesis using len by (intro exI [of _ ?ds]) simp
  qed
qed

lemma no_cache_no_hits: "cached_decisions k now reqs None = (None, replicate (length reqs) None)"
  by (induction reqs) simp_all

section \<open>Properties\<close>

text \<open>C9: every decision served is audited: whatever the store, the cache and concurrent calls do, when a
  batch is answered there is one answer per request and the rows written are exactly the rows of the
  answers, in request order; a row that cannot be written turns the answer into an error.\<close>

theorem served_decisions_are_audited:
  assumes "authorize_many collate cast w ctx requests cache = (c', log, Inr ds)"
  shows "length ds = length requests \<and> log = map2 (decision_event ctx) requests ds \<and>
         (\<forall>e\<in>set log. zw_auditFails w e = None)"
proof (cases "requests = []")
  case True
  then show ?thesis using assms by (simp add: authorize_many_def)
next
  case False
  then obtain ds0 where "length ds0 = length requests" "audited w ctx requests ds0 = (log, Inr ds)"
    using authorize_many_audited [OF assms] by blast
  then show ?thesis using audited_log by blast
qed

text \<open>C21: a failing store never allows: when the reads fail, a caller who is not an operator is answered at
  most from the cache, and without a cache every batch ends in the error of the store.\<close>

theorem failing_store_fails_closed:
  assumes "zw_reads w = Inl msg" and "\<not> zx_isOperator ctx" and "requests \<noteq> []"
  shows "(\<forall>ds. snd (snd (authorize_many collate cast w ctx requests cache)) = Inr ds \<longrightarrow>
            (\<forall>d\<in>set ds. gd_via d = Some ViaCache)) \<and>
         snd (snd (authorize_many collate cast w ctx requests None)) = Inl (NotMounted msg)"
proof -
  let ?h = "cached_decisions (subjects_key_of (zx_subjects ctx)) (zw_lookupAt w) requests cache"
  have none: "map fst (filter (\<lambda>rh. snd rh = None) (zip requests (replicate (length requests) (None :: gfs_decision option)))) = requests"
    by (simp add: zip_replicate2 filter_map comp_def)
  have "\<forall>d\<in>set ds. gd_via d = Some ViaCache"
    if r: "snd (snd (authorize_many collate cast w ctx requests cache)) = Inr ds" for ds
  proof -
    have all: "filter (\<lambda>rh. snd rh = None) (zip requests (snd ?h)) = []"
      and a: "snd (audited w ctx requests (map the (snd ?h))) = Inr ds"
      using r assms by (auto simp: authorize_many_def case_prod_beta Let_def read_snapshot_def split: if_splits)
    have ds: "ds = map the (snd ?h)" using audited_decisions [OF a] .
    show ?thesis
    proof
      fix d assume "d \<in> set ds"
      then obtain i where i: "i < length requests" "d = the (snd ?h ! i)"
        using ds by (auto simp: in_set_conv_nth)
      then have "(requests ! i, snd ?h ! i) \<in> set (zip requests (snd ?h))"
        unfolding in_set_zip by (intro exI [of _ i]) simp
      then have "snd ?h ! i \<noteq> None" using all by (auto simp: filter_empty_conv)
      then have "snd ?h ! i = Some d" using i by auto
      moreover have "snd ?h ! i \<in> set (snd ?h)" using i by simp
      ultimately show "gd_via d = Some ViaCache" using cached_decisions_via by metis
    qed
  qed
  moreover have "snd (snd (authorize_many collate cast w ctx requests None)) = Inl (NotMounted msg)"
  proof -
    have "filter (\<lambda>rh. snd rh = None) (zip requests (replicate (length requests) (None :: gfs_decision option))) \<noteq> []"
      using none assms(3) by (metis list.map(1))
    then show ?thesis using assms none by (simp add: authorize_many_def no_cache_no_hits read_snapshot_def Let_def)
  qed
  ultimately show ?thesis by blast
qed

section \<open>Concrete instances\<close>

definition demo_collate :: "string \<Rightarrow> nat list" where
  "demo_collate s = map of_char s"

definition demo_cast :: "string \<Rightarrow> string option" where
  "demo_cast s = (if s = ''r1'' then Some s else None)"

definition demo_acl :: acl_row where
  "demo_acl = \<lparr>al_drive = ''d1'', al_resourceId = ''r1'', al_subjectType = ''user'', al_subjectId = Some ''u'',
     al_permissions = Some [''read''], al_flag = False\<rparr>"

definition demo_store :: "acl_row list \<Rightarrow> gfs_store" where
  "demo_store acl = \<lparr>st_resources = [\<lparr>rr_id = ''r1'', rr_parent = None, rr_drive = ''d1'', rr_deleted = False\<rparr>],
     st_grants = acl, st_shares = []\<rparr>"

definition demo_cache :: decision_cache where
  "demo_cache = \<lparr>dc_store = [], dc_ttlMs = 1000, dc_maxEntries = 10, dc_bypassed = False, dc_generation = 0\<rparr>"

definition demo_world :: "gfs_store \<Rightarrow> instant \<Rightarrow> (decision_cache \<Rightarrow> decision_cache) \<Rightarrow> authz_world" where
  "demo_world st t others = \<lparr>zw_lookupAt = t, zw_storeAt = t, zw_others = others, zw_reads = Inr (st, st, st),
     zw_uuidError = [], zw_auditFails = (\<lambda>_. None)\<rparr>"

definition demo_ctx :: "string \<Rightarrow> authz_context" where
  "demo_ctx drive = \<lparr>zx_drive = drive, zx_subjects = [''user:u''], zx_isOperator = False, zx_primarySubject = ''u'',
     zx_requestId = None, zx_desktopUserId = None, zx_effectiveControlAdminId = None, zx_authoritySource = None\<rparr>"

definition demo_req :: authz_request where
  "demo_req = \<lparr>zr_resourceId = ''r1'', zr_op = GfsRead\<rparr>"

lemma demo_cast_uuid: "uuid_conversion demo_cast"
  by (simp add: uuid_conversion_def demo_cast_def NUL_def)

lemma served_decisions_are_audited_witness:
  "\<exists>log. log = map2 (decision_event (demo_ctx ''d1'')) [demo_req] [denied] \<and> length log = 1"
proof -
  have run: "snd (snd (authorize_many demo_collate demo_cast (demo_world (demo_store []) 1 id) (demo_ctx ''d1'') [demo_req]
      None)) = Inr [denied]"
    by code_simp
  obtain c' log where "authorize_many demo_collate demo_cast (demo_world (demo_store []) 1 id) (demo_ctx ''d1'') [demo_req]
      None = (c', log, Inr [denied])"
    using run by (metis prod.collapse)
  from served_decisions_are_audited [OF this] show ?thesis by simp
qed

lemma failing_store_fails_closed_witness:
  "snd (snd (authorize_many demo_collate demo_cast ((demo_world (demo_store []) 1 id)\<lparr>zw_reads := Inl ''down''\<rparr>)
     (demo_ctx ''d1'') [demo_req] None)) = Inl (NotMounted ''down'')"
  by (rule failing_store_fails_closed [THEN conjunct2]) (simp_all add: demo_ctx_def)

end
