(* ===== verification/GfsReader.thy ===== *)
theory GfsReader
  imports GfsClient
begin

text \<open>
  A reader of the file service beside the store its grants are written to: the permission cache of one
  process under any number of concurrent calls, the messages of the listener
  (\<open>gfs-controller/src/authz/invalidation.ts\<close>) and changes of the tables. A call of \<open>authorizeMany\<close>
  is cut at its awaits: it looks its requests up, makes three reads of the store, each of which may see
  another state of it, and stores its decisions. The lemmas show when what the cache answers is what the
  store says now, and two ways in which it is not.
\<close>

section \<open>A reader and its store\<close>

text \<open>A call between its lookup and its end: what it asked, what it found, and the stores its reads saw.\<close>

record flight =
  fl_ctx :: authz_context
  fl_requests :: "authz_request list"
  fl_hits :: "gfs_decision option list"
  fl_seen :: "gfs_store list"

definition flight_misses :: "flight \<Rightarrow> authz_request list" where
  "flight_misses f = map fst (filter (\<lambda>rh. snd rh = None) (zip (fl_requests f) (fl_hits f)))"

text \<open>
  \<open>rd_unheard\<close> counts the committed changes whose message has not been handled. While the listening
  connection is lost no message arrives; a fresh \<open>LISTEN\<close> flushes, so nothing committed before it stays
  unheard. \<open>rd_overtaken\<close> remembers that a call stored decisions it had read before a change whose
  message was already handled; a flush forgets them, and this with them.
\<close>

record gfs_reader =
  rd_store :: gfs_store
  rd_cache :: decision_cache
  rd_unheard :: nat
  rd_flights :: "flight list"
  rd_overtaken :: bool

definition without_flight :: "nat \<Rightarrow> flight list \<Rightarrow> flight list" where
  "without_flight k fs = take k fs @ drop (Suc k) fs"

definition overtaken_by :: "flight \<Rightarrow> gfs_reader \<Rightarrow> bool" where
  "overtaken_by f r \<longleftrightarrow> rd_unheard r = 0 \<and> \<not> dc_bypassed (rd_cache r) \<and> (\<exists>st\<in>set (fl_seen f). st \<noteq> rd_store r)"

inductive reader_step ::
  "(string \<Rightarrow> nat list) \<Rightarrow> (string \<Rightarrow> string option) \<Rightarrow> drive_of \<Rightarrow> gfs_reader \<Rightarrow> gfs_reader \<Rightarrow> bool"
  for collate cast home where
  committed: "reader_step collate cast home r (r\<lparr>rd_store := st, rd_unheard := Suc (rd_unheard r)\<rparr>)"
| notified: "rd_unheard r = Suc n \<Longrightarrow> \<not> dc_bypassed (rd_cache r) \<Longrightarrow>
    reader_step collate cast home r
      (r\<lparr>rd_cache := listener_notification ''gfs_perm_invalidate'' ''gfs_perm_invalidate'' (rd_cache r), rd_unheard := n,
         rd_overtaken := False\<rparr>)"
| other_channel: "ch \<noteq> ''gfs_perm_invalidate'' \<Longrightarrow>
    reader_step collate cast home r (r\<lparr>rd_cache := listener_notification ''gfs_perm_invalidate'' ch (rd_cache r)\<rparr>)"
| lost: "reader_step collate cast home r (r\<lparr>rd_cache := listener_degrade (rd_cache r), rd_overtaken := False\<rparr>)"
| listening: "reader_step collate cast home r
    (r\<lparr>rd_cache := listener_started (rd_cache r), rd_unheard := 0, rd_overtaken := False\<rparr>)"
| call_begins: "\<not> zx_isOperator ctx \<Longrightarrow> plain_subjects (zx_subjects ctx) \<Longrightarrow> names_drive home ctx requests \<Longrightarrow>
    cached_decisions (subjects_key_of (zx_subjects ctx)) now requests (Some (rd_cache r)) = (Some c, hits) \<Longrightarrow>
    reader_step collate cast home r
      (r\<lparr>rd_cache := c, rd_flights := \<lparr>fl_ctx = ctx, fl_requests = requests, fl_hits = hits, fl_seen = []\<rparr> # rd_flights r\<rparr>)"
| call_reads: "k < length (rd_flights r) \<Longrightarrow> f = rd_flights r ! k \<Longrightarrow> length (fl_seen f) < 3 \<Longrightarrow>
    reader_step collate cast home r
      (r\<lparr>rd_flights := (rd_flights r)[k := f\<lparr>fl_seen := fl_seen f @ [rd_store r]\<rparr>]\<rparr>)"
| call_stores: "k < length (rd_flights r) \<Longrightarrow> f = rd_flights r ! k \<Longrightarrow> fl_seen f = [resourcesAt, grantsAt, sharesAt] \<Longrightarrow>
    zw_reads w = Inr (resourcesAt, grantsAt, sharesAt) \<Longrightarrow>
    read_snapshot cast w (fl_ctx f) (flight_misses f) = Inr (ancestorMap, grants, shares) \<Longrightarrow>
    reader_step collate cast home r
      (r\<lparr>rd_cache := store_decisions (subjects_key_of (zx_subjects (fl_ctx f))) (zw_storeAt w)
           (map (\<lambda>req. (req, decide_request collate ancestorMap grants shares (zx_subjects (fl_ctx f)) req)) (flight_misses f))
           (rd_cache r),
         rd_flights := without_flight k (rd_flights r),
         rd_overtaken := rd_overtaken r \<or> overtaken_by f r\<rparr>)"
| call_leaves: "reader_step collate cast home r (r\<lparr>rd_flights := without_flight k (rd_flights r)\<rparr>)"

text \<open>A call leaves without storing when everything was found in the cache, or when a read failed.\<close>

definition reader_initial :: "gfs_reader \<Rightarrow> bool" where
  "reader_initial r \<longleftrightarrow> dc_store (rd_cache r) = [] \<and> rd_flights r = []"

definition flight_ok :: "drive_of \<Rightarrow> flight \<Rightarrow> bool" where
  "flight_ok home f \<longleftrightarrow> plain_subjects (zx_subjects (fl_ctx f)) \<and> names_drive home (fl_ctx f) (fl_requests f)"

definition reader_ok ::
  "(string \<Rightarrow> nat list) \<Rightarrow> (string \<Rightarrow> string option) \<Rightarrow> drive_of \<Rightarrow> gfs_reader \<Rightarrow> bool" where
  "reader_ok collate cast home r \<longleftrightarrow>
     (dc_bypassed (rd_cache r) \<longrightarrow> dc_store (rd_cache r) = []) \<and>
     (rd_unheard r = 0 \<and> \<not> rd_overtaken r \<longrightarrow> coherent collate cast (rd_store r) home (rd_cache r)) \<and>
     (\<forall>f\<in>set (rd_flights r). flight_ok home f)"

text \<open>Run without interruption, the stations leave the cache as \<open>authorize_many\<close> does.\<close>

lemma authorize_many_stations:
  assumes "\<not> zx_isOperator ctx" and "requests \<noteq> []"
    and "cached_decisions (subjects_key_of (zx_subjects ctx)) (zw_lookupAt w) requests (Some c) = (Some c1, hits)"
    and "misses = map fst (filter (\<lambda>rh. snd rh = None) (zip requests hits))" and "misses \<noteq> []"
    and "read_snapshot cast w ctx misses = Inr (m, grants, shares)"
  shows "fst (authorize_many collate cast w ctx requests (Some c)) =
    Some (store_decisions (subjects_key_of (zx_subjects ctx)) (zw_storeAt w)
      (map (\<lambda>req. (req, decide_request collate m grants shares (zx_subjects ctx) req)) misses) (zw_others w c1))"
  using assms by (simp add: authorize_many_def Let_def)

lemma set_without_flight: "set (without_flight k fs) \<subseteq> set fs"
  by (auto simp: without_flight_def dest: in_set_takeD in_set_dropD)

lemma flight_misses_subset: "set (flight_misses f) \<subseteq> set (fl_requests f)"
  by (auto simp: flight_misses_def dest: set_zip_leftD)

text \<open>What a call stores is coherent with a store that all its reads saw.\<close>

lemma stored_coherent:
  assumes "uuid_conversion cast" and "flight_ok home f" and "zw_reads w = Inr (st, st, st)"
    and "read_snapshot cast w (fl_ctx f) (flight_misses f) = Inr (m, grants, shares)" and "coherent collate cast st home c"
  shows "coherent collate cast st home (store_decisions (subjects_key_of (zx_subjects (fl_ctx f))) now
    (map (\<lambda>req. (req, decide_request collate m grants shares (zx_subjects (fl_ctx f)) req)) (flight_misses f)) c)"
proof -
  let ?S = "zx_subjects (fl_ctx f)" and ?d = "\<lambda>req. decide_request collate m grants shares (zx_subjects (fl_ctx f)) req"
  have "\<forall>(req, d)\<in>set (map (\<lambda>req. (req, ?d req)) (flight_misses f)). cast (zr_resourceId req) \<noteq> None \<and>
      d = store_decision collate cast st (home (subjects_key_of ?S) (zr_resourceId req)) ?S req"
    using decide_request_store [OF assms(1,3,4)] flight_misses_subset [of f] assms(2)
    by (auto simp: flight_ok_def names_drive_def subset_iff)
  from store_decisions_coherent [OF assms(5) _ this] assms(2) show ?thesis by (simp add: flight_ok_def)
qed

lemma reader_step_ok [wf_intros]:
  assumes "uuid_conversion cast"
  shows "reader_step collate cast home r r' \<Longrightarrow> reader_ok collate cast home r \<Longrightarrow> reader_ok collate cast home r'"
proof (induction rule: reader_step.induct)
  case (call_begins ctx requests now r c hits)
  have "\<forall>req\<in>set requests. home (subjects_key_of (zx_subjects ctx)) (zr_resourceId req) = zx_drive ctx"
    using call_begins(3) by (simp add: names_drive_def)
  then have "coherent collate cast (rd_store r) home c" if "coherent collate cast (rd_store r) home (rd_cache r)"
    using cached_decisions_right [OF assms call_begins(2) that call_begins(4)] by auto
  moreover have "dc_store c = []" if "dc_bypassed c"
  proof -
    have "dc_bypassed (rd_cache r)"
      using that cached_decisions_bypass_flag [of "subjects_key_of (zx_subjects ctx)" now requests "rd_cache r"] call_begins(4)
      by simp
    then show ?thesis
      using cached_decisions_bypassed [of "rd_cache r" "subjects_key_of (zx_subjects ctx)" now requests] call_begins(4,5)
      by (simp add: reader_ok_def)
  qed
  ultimately show ?case using call_begins by (simp add: reader_ok_def flight_ok_def)
next
  case (call_reads k r f)
  then have "flight_ok home (f\<lparr>fl_seen := fl_seen f @ [rd_store r]\<rparr>)" by (simp add: reader_ok_def flight_ok_def)
  then show ?case using call_reads set_update_subset_insert [of "rd_flights r" k] by (fastforce simp: reader_ok_def)
next
  case (call_stores k r f a b d w m grants shares)
  let ?c = "store_decisions (subjects_key_of (zx_subjects (fl_ctx f))) (zw_storeAt w)
    (map (\<lambda>req. (req, decide_request collate m grants shares (zx_subjects (fl_ctx f)) req)) (flight_misses f)) (rd_cache r)"
  have ok: "flight_ok home f" using call_stores(1,2,6) by (simp add: reader_ok_def)
  have "coherent collate cast (rd_store r) home ?c" if calm: "rd_unheard r = 0" "\<not> rd_overtaken r" "\<not> overtaken_by f r"
  proof (cases "dc_bypassed (rd_cache r)")
    case True
    then show ?thesis using call_stores(6) by (simp add: store_decisions_bypassed reader_ok_def)
  next
    case False
    then have "a = rd_store r" "b = rd_store r" "d = rd_store r"
      using calm(1,3) call_stores(3) by (auto simp: overtaken_by_def)
    then show ?thesis
      using stored_coherent [OF assms ok _ call_stores(5)] call_stores(4,6) calm by (simp add: reader_ok_def)
  qed
  moreover have "dc_store ?c = []" if "dc_bypassed ?c"
    using that call_stores(6) by (simp add: store_decisions_bypass_flag store_decisions_bypassed reader_ok_def)
  moreover have "\<forall>g\<in>set (without_flight k (rd_flights r)). flight_ok home g"
    using call_stores(6) set_without_flight [of k "rd_flights r"] by (auto simp: reader_ok_def)
  ultimately show ?case by (simp add: reader_ok_def)
next
  case (call_leaves r k)
  then show ?case using set_without_flight [of k "rd_flights r"] by (auto simp: reader_ok_def)
qed (auto simp: reader_ok_def coherent_def listener_notification_def listener_degrade_def listener_started_def
    flush_all_def set_bypassed_def)

interpretation gfs_reader: inductive_invariant reader_initial "reader_step collate cast home"
  "\<lambda>r. uuid_conversion cast \<longrightarrow> reader_ok collate cast home r" for collate cast home
proof (unfold_locales, goal_cases)
  case (1 r)
  then show ?case by (simp add: reader_initial_def reader_ok_def)
next
  case (2 r r')
  then show ?case using reader_step_ok by blast
qed

lemma current_answers:
  assumes "uuid_conversion cast" and "reach reader_initial (reader_step collate cast home) r"
    and "rd_unheard r = 0 \<or> dc_bypassed (rd_cache r)" and "\<not> rd_overtaken r" and "undisturbed (rd_store r) w"
    and "plain_subjects (zx_subjects ctx)" and "names_drive home ctx requests"
    and "authorize_many collate cast w ctx requests (Some (rd_cache r)) = (c', log, Inr ds)"
  shows "list_all2 (\<lambda>req dec. gd_allowed dec \<longleftrightarrow>
    zx_isOperator ctx \<or> may_access cast (rd_store r) (zx_drive ctx) (zx_subjects ctx) req) requests ds"
proof (cases "zx_isOperator ctx")
  case True
  then have "ds = map (\<lambda>_. operator_decision (zx_subjects ctx)) requests"
    using assms(8) audited_decisions [of w ctx requests "map (\<lambda>_. operator_decision (zx_subjects ctx)) requests" ds]
    by (auto simp: authorize_many_def split: if_splits)
  then show ?thesis using True by (simp add: list_all2_conv_all_nth operator_decision_def allowed_by_def)
next
  case False
  have "reader_ok collate cast home r" using gfs_reader.invar_reach [OF assms(2)] assms(1) by blast
  then have "coherent collate cast (rd_store r) home (rd_cache r)" using assms(3,4) by (auto simp: reader_ok_def)
  from authorize_many_right [OF assms(1,5) this assms(6) False assms(8,7)]
  have "list_all2 (\<lambda>req dec. \<exists>via. dec =
      (store_decision collate cast (rd_store r) (zx_drive ctx) (zx_subjects ctx) req)\<lparr>gd_via := via\<rparr>) requests ds" by blast
  then show ?thesis by (rule list_all2_mono) (auto simp: store_decision_allowed False)
qed

section \<open>Answers from the cache\<close>

text \<open>A decision a call had to read is in the cache when the call ends, whatever happened to the cache meanwhile.\<close>

lemma cache_set_get:
  "\<not> dc_bypassed c \<Longrightarrow> js_get (dc_store (cache_set k d now c)) k = Some \<lparr>ce_decision = d, ce_expiresAtMs = now + dc_ttlMs c\<rparr>"
  by (simp add: cache_set_def Let_def)

lemma missed_request_is_stored:
  assumes "\<not> zx_isOperator ctx" and "k = cache_key (subjects_key_of (zx_subjects ctx)) (zr_resourceId req) (zr_op req)"
    and "snd (cache_get k (zw_lookupAt w) c) = None" and "\<not> dc_bypassed (zw_others w (fst (cache_get k (zw_lookupAt w) c)))"
    and "authorize_many collate cast w ctx [req] (Some c) = (c', log, Inr ds)"
  shows "\<exists>c1 d. c' = Some c1 \<and> ds = [d] \<and> \<not> dc_bypassed c1 \<and>
    js_get (dc_store c1) k = Some \<lparr>ce_decision = d,
      ce_expiresAtMs = zw_storeAt w + dc_ttlMs (zw_others w (fst (cache_get k (zw_lookupAt w) c)))\<rparr> \<and>
    (\<exists>m grants shares. read_snapshot cast w ctx [req] = Inr (m, grants, shares) \<and>
       d = decide_request collate m grants shares (zx_subjects ctx) req)"
proof -
  obtain c0 where g: "cache_get k (zw_lookupAt w) c = (c0, None)" using assms(3) by (metis prod.collapse)
  have h: "cached_decisions (subjects_key_of (zx_subjects ctx)) (zw_lookupAt w) [req] (Some c) = (Some c0, [None])"
    using g assms(2) by simp
  obtain m grants shares where snap: "read_snapshot cast w ctx [req] = Inr (m, grants, shares)"
    using assms(1,5) h by (cases "read_snapshot cast w ctx [req]") (auto simp: authorize_many_def)
  let ?d = "decide_request collate m grants shares (zx_subjects ctx) req"
  have "c' = Some (cache_set k ?d (zw_storeAt w) (zw_others w c0))" "audited w ctx [req] [?d] = (log, Inr ds)"
    using assms(1,2,5) h snap by (simp_all add: authorize_many_def Let_def store_decisions_def)
  moreover have "ds = [?d]" using calculation(2) audited_decisions [of w ctx "[req]" "[?d]" ds] by simp
  ultimately show ?thesis using assms(4) g snap by (auto simp: cache_set_get)
qed

text \<open>A decision in the cache is served until it expires, to every caller with the key, without a read of the store.\<close>

lemma stored_decision_is_served:
  assumes "js_get (dc_store c) (cache_key (subjects_key_of (zx_subjects ctx)) (zr_resourceId req) (zr_op req)) = Some e"
    and "\<not> dc_bypassed c" and "zw_lookupAt w < ce_expiresAtMs e" and "\<not> zx_isOperator ctx" and "zw_auditFails w = (\<lambda>_. None)"
  shows "snd (snd (authorize_many collate cast w ctx [req] (Some c))) = Inr [(ce_decision e)\<lparr>gd_via := Some ViaCache\<rparr>]"
proof -
  have "cached_decisions (subjects_key_of (zx_subjects ctx)) (zw_lookupAt w) [req] (Some c) =
      (Some c, [Some ((ce_decision e)\<lparr>gd_via := Some ViaCache\<rparr>)])"
    using assms(1-3) by (simp add: cache_get_def)
  then show ?thesis using assms(4,5) by (simp add: authorize_many_def audited_def)
qed

lemma cache_get_ttl [simp]: "dc_ttlMs (fst (cache_get k now c)) = dc_ttlMs c"
  by (simp add: cache_get_def split: option.splits)

text \<open>A flight that began makes its three reads of an unchanged store.\<close>

lemma flight_reads:
  assumes "reach reader_initial (reader_step collate cast home) r" and "rd_flights r = f # fs" and "fl_seen f = []"
  shows "reach reader_initial (reader_step collate cast home)
    (r\<lparr>rd_flights := f\<lparr>fl_seen := [rd_store r, rd_store r, rd_store r]\<rparr> # fs\<rparr>)"
proof -
  let ?st = "rd_store r"
  let ?r = "\<lambda>seen. r\<lparr>rd_flights := f\<lparr>fl_seen := seen\<rparr> # fs\<rparr>"
  have step: "reader_step collate cast home (?r seen) (?r (seen @ [?st]))" if "length seen < 3" for seen
    using call_reads [of 0 "?r seen" "f\<lparr>fl_seen := seen\<rparr>" collate cast home] that by simp
  have "?r [] = r" using assms(2,3) by (cases r; cases f) simp
  with assms(1) have "reach reader_initial (reader_step collate cast home) (?r [])" by simp
  from reach_step [OF reach_step [OF reach_step [OF this step] step] step] show ?thesis by simp
qed

lemma ancestors_known:
  "cast (zr_resourceId req) \<noteq> None \<Longrightarrow> zw_reads w = Inr (a, b, d) \<Longrightarrow> \<exists>m gs ss. read_snapshot cast w ctx [req] = Inr (m, gs, ss)"
  by (auto simp: read_snapshot_def ancestors_many_def Let_def)

section \<open>Properties\<close>

text \<open>C5: a revocation heard is a revocation in force. Take any run of a reader: calls of any number overlap at
  their awaits, tables change, messages arrive, the listening connection is lost and restored. If in the state it
  reaches each committed change has been announced, or the connection is known to be lost, and no decision is
  cached that a call had read before a change and stored after its announcement, then a call served without
  interruption allows exactly what it should: everything to an operator, and otherwise the requests for which the
  current store has a grant or share for one of the caller's subjects, on the resource or inherited from a live
  ancestor. This rests on three assumptions: subjects have no comma or NUL, callers with the same subjects ask
  for a resource under one drive, and the database tells uuids apart by their hexadecimal digits.\<close>

theorem heard_revocations_are_in_force:
  assumes "uuid_conversion cast" and "reach reader_initial (reader_step collate cast home) r"
    and "rd_unheard r = 0 \<or> dc_bypassed (rd_cache r)" and "\<not> rd_overtaken r" and "undisturbed (rd_store r) w"
    and "plain_subjects (zx_subjects ctx)" and "names_drive home ctx requests"
    and "authorize_many collate cast w ctx requests (Some (rd_cache r)) = (c', log, Inr ds)"
  shows "list_all2 (\<lambda>req dec. gd_allowed dec \<longleftrightarrow>
    zx_isOperator ctx \<or> may_access cast (rd_store r) (zx_drive ctx) (zx_subjects ctx) req) requests ds"
  using assms by (rule current_answers)


text \<open>C33: the cache does not know the drive. When a call under one drive was not answered from the cache and may
  access a resource there, then until the entry's time to live is over the same request under any other drive is
  allowed from the cache, although the store denies it because the resource is not on that drive.\<close>

theorem cached_allow_crosses_drives:
  assumes "uuid_conversion cast" and "zw_others w = id" and "zw_reads w = Inr (st, st, st)" and "\<not> dc_bypassed c"
    and "\<not> zx_isOperator ctx" and "\<not> zx_isOperator ctx'" and "zx_subjects ctx' = zx_subjects ctx"
    and "snd (cache_get (cache_key (subjects_key_of (zx_subjects ctx)) (zr_resourceId req) (zr_op req)) (zw_lookupAt w) c) = None"
    and "authorize_many collate cast w ctx [req] (Some c) = (Some c1, log, Inr ds)"
    and "may_access cast st (zx_drive ctx) (zx_subjects ctx) req"
    and "\<forall>u. cast (zr_resourceId req) = Some u \<longrightarrow> live_row (st_resources st) (zx_drive ctx') u = None"
    and "zw_lookupAt w' < zw_storeAt w + dc_ttlMs c" and "zw_auditFails w' = (\<lambda>_. None)"
  shows "(\<exists>d. snd (snd (authorize_many collate cast w' ctx' [req] (Some c1))) = Inr [d] \<and> gd_allowed d) \<and>
    \<not> may_access cast st (zx_drive ctx') (zx_subjects ctx') req"
proof -
  let ?k = "cache_key (subjects_key_of (zx_subjects ctx)) (zr_resourceId req) (zr_op req)"
  have live: "\<not> dc_bypassed (zw_others w (fst (cache_get ?k (zw_lookupAt w) c)))" using assms(2,4) by simp
  from missed_request_is_stored [OF assms(5) refl assms(8) live assms(9)] assms(2) obtain d m gs ss where
    d: "\<not> dc_bypassed c1" "js_get (dc_store c1) ?k = Some \<lparr>ce_decision = d, ce_expiresAtMs = zw_storeAt w + dc_ttlMs c\<rparr>"
    "read_snapshot cast w ctx [req] = Inr (m, gs, ss)" "d = decide_request collate m gs ss (zx_subjects ctx) req"
    by auto
  have "gd_allowed d"
    using decide_request_store [OF assms(1,3) d(3)] d(4) assms(10) by (simp add: store_decision_allowed)
  then show ?thesis
    using stored_decision_is_served [of c1 ctx' req] d(1,2) assms(6,7,11-13) by (auto simp: may_access_def)
qed

section \<open>Concrete instances\<close>

definition demo_home :: drive_of where
  "demo_home subjects rid = ''d1''"

definition demo_reader :: gfs_reader where
  "demo_reader = \<lparr>rd_store = demo_store [demo_acl], rd_cache = demo_cache, rd_unheard = 0, rd_flights = [], rd_overtaken = False\<rparr>"

lemma demo_reader_reached: "reach reader_initial (reader_step demo_collate demo_cast demo_home) demo_reader"
  by (rule reach_initial) (simp add: reader_initial_def demo_reader_def demo_cache_def)

lemma demo_access:
  "may_access demo_cast (demo_store [demo_acl]) ''d1'' [''user:u''] demo_req"
  "\<not> may_access demo_cast (demo_store []) ''d1'' [''user:u''] demo_req"
  unfolding store_decision_allowed [where collate = demo_collate, symmetric] by code_simp+

lemma demo_ctx_simps [simp]:
  "zx_drive (demo_ctx d) = d" "zx_subjects (demo_ctx d) = [''user:u'']" "zx_isOperator (demo_ctx d) = False"
  by (simp_all add: demo_ctx_def)

lemma demo_ctx_ok: "plain_subjects [''user:u'']" "names_drive demo_home (demo_ctx ''d1'') [demo_req]"
  by (simp_all add: plain_subjects_def NUL_def names_drive_def demo_home_def)

lemma demo_misses: "snd (cache_get k t demo_cache) = None"
  by (simp add: cache_get_def demo_cache_def)

lemma heard_revocations_are_in_force_witness:
  "list_all2 (\<lambda>req dec. gd_allowed dec \<longleftrightarrow> may_access demo_cast (demo_store []) ''d1'' [''user:u''] req)
     [demo_req] [denied]"
proof -
  let ?next = "reader_step demo_collate demo_cast demo_home"
  let ?r1 = "demo_reader\<lparr>rd_store := demo_store [], rd_unheard := 1\<rparr>"
  let ?r2 = "demo_reader\<lparr>rd_store := demo_store [], rd_cache := flush_all demo_cache\<rparr>"
  have "?next demo_reader ?r1"
    using committed [of demo_collate demo_cast demo_home demo_reader "demo_store []"] by (simp add: demo_reader_def)
  moreover have "?next ?r1 ?r2"
    using notified [of ?r1 0 demo_collate demo_cast demo_home]
    by (simp add: demo_reader_def demo_cache_def listener_notification_def)
  ultimately have reach: "reach reader_initial ?next ?r2" using demo_reader_reached by (blast intro: reach_step)
  have run: "snd (snd (authorize_many demo_collate demo_cast (demo_world (demo_store []) 1 id) (demo_ctx ''d1'') [demo_req]
      (Some (rd_cache ?r2)))) = Inr [denied]"
    by code_simp
  obtain c' log where "authorize_many demo_collate demo_cast (demo_world (demo_store []) 1 id) (demo_ctx ''d1'') [demo_req]
      (Some (rd_cache ?r2)) = (c', log, Inr [denied])"
    using run by (metis prod.collapse)
  from heard_revocations_are_in_force [OF demo_cast_uuid reach _ _ _ _ demo_ctx_ok(2) this] show ?thesis
    using demo_ctx_ok(1) by (simp add: undisturbed_def demo_world_def demo_reader_def)
qed


lemma cached_allow_crosses_drives_witness:
  "\<exists>c1 d. snd (snd (authorize_many demo_collate demo_cast (demo_world (demo_store [demo_acl]) 500 id) (demo_ctx ''d2'') [demo_req]
     (Some c1))) = Inr [d] \<and> gd_allowed d \<and> \<not> may_access demo_cast (demo_store [demo_acl]) ''d2'' [''user:u''] demo_req"
proof -
  let ?first = "authorize_many demo_collate demo_cast (demo_world (demo_store [demo_acl]) 0 id) (demo_ctx ''d1'') [demo_req] (Some demo_cache)"
  have "case ?first of (Some _, _, Inr _) \<Rightarrow> True | _ \<Rightarrow> False" by code_simp
  then obtain c1 log ds where first: "?first = (Some c1, log, Inr ds)"
    by (auto split: prod.splits option.splits sum.splits)
  have c: "\<not> dc_bypassed demo_cache" "dc_ttlMs demo_cache = 1000" by (simp_all add: demo_cache_def)
  have "\<forall>u. demo_cast (zr_resourceId demo_req) = Some u \<longrightarrow> live_row (st_resources (demo_store [demo_acl])) ''d2'' u = None"
    by (simp add: demo_store_def live_row_def)
  from cached_allow_crosses_drives [OF demo_cast_uuid _ _ c(1) _ _ _ _ first, of "demo_store [demo_acl]" "demo_ctx ''d2''"
      "demo_world (demo_store [demo_acl]) 500 id"] this demo_access(1) demo_misses c(2)
  show ?thesis by (simp add: demo_world_def) blast
qed

end
