(* ===== verification/GfsTokens.thy ===== *)
theory GfsTokens
  imports GfsReader
begin

text \<open>
  Callers of the file service: token verification (\<open>gfs-controller/src/auth/verify.ts\<close>) and the
  resolution of a verified principal to its subjects (\<open>gfs-controller/src/authz/subjectResolver.ts\<close>).
  The JWT library is the pair of parameters \<open>jwt_decode\<close> and \<open>jwt_verify\<close>; the identity tables are
  lists of rows, and the database's conversion of texts to uuids is the parameter \<open>cast\<close> as before.
\<close>

section \<open>Verified claims\<close>

datatype gfs_auth_error = GfsAuthError string | JsTypeError

record brokered_authority =
  br_desktopUserId :: string
  br_controlAdminId :: string
  br_linkLineageId :: "string option"
  br_linkGeneration :: "int option"
  br_desktopUserGeneration :: "int option"

datatype principal_type = UserPrincipal | ControlAdminPrincipal

record verified_claims =
  vc_sub :: string
  vc_drive :: string
  vc_scopes :: "string list"
  vc_pathBindings :: "path_binding list"
  vc_authGeneration :: "int option"
  vc_brokeredAuthority :: "brokered_authority option"
  vc_principalType :: "principal_type option"
  vc_iat :: int
  vc_exp :: int

definition VALID_SCOPES :: "string set" where
  "VALID_SCOPES = {''gfs.read'', ''gfs.write'', ''gfs.delete'', ''gfs.manage_acl'', ''gfs.share''}"

definition MAX_SAFE_INTEGER :: int where
  "MAX_SAFE_INTEGER = 2 ^ 53 - 1"

fun safe_integer :: "json option \<Rightarrow> int option" where
  "safe_integer (Some (JInt n)) = (if \<bar>n\<bar> \<le> MAX_SAFE_INTEGER then Some n else None)"
| "safe_integer _ = None"

text \<open>An absent field is no generation; anything but a positive integer is refused.\<close>

definition parse_generation :: "json option \<Rightarrow> string \<Rightarrow> gfs_auth_error + int option" where
  "parse_generation value field =
     (case value of
        None \<Rightarrow> Inr None
      | Some _ \<Rightarrow>
          (case safe_integer value of
             Some n \<Rightarrow> (if n < 1 then Inl (GfsAuthError (''brokeredAuthority.'' @ field @ '' must be a positive integer''))
                       else Inr (Some n))
           | None \<Rightarrow> Inl (GfsAuthError (''brokeredAuthority.'' @ field @ '' must be a positive integer''))))"

definition BROKERED_KEYS :: "string set" where
  "BROKERED_KEYS = {''authoritySource'', ''controlAdminId'', ''desktopUserId'', ''linkLineageId'', ''linkGeneration'',
     ''desktopUserGeneration''}"

fun uuid_field :: "json option \<Rightarrow> string option" where
  "uuid_field (Some (JStr s)) = (if is_uuid s then Some s else None)"
| "uuid_field _ = None"

definition parse_brokered_record ::
  "(string \<times> json) list \<Rightarrow> string \<Rightarrow> gfs_auth_error + brokered_authority" where
  "parse_brokered_record fs sub =
     (if \<exists>k\<in>set (map fst fs). k \<notin> BROKERED_KEYS then
        Inl (GfsAuthError ''brokeredAuthority must contain exactly the supported fields'')
      else
        (case uuid_field (map_of fs ''desktopUserId'') of
           None \<Rightarrow> Inl (GfsAuthError ''brokeredAuthority.desktopUserId must be a UUID'')
         | Some desktopUserId \<Rightarrow>
        (case uuid_field (map_of fs ''controlAdminId'') of
           None \<Rightarrow> Inl (GfsAuthError ''brokeredAuthority.controlAdminId must be a UUID'')
         | Some controlAdminId \<Rightarrow>
             (if map_of fs ''authoritySource'' \<noteq> Some (JStr ''linked-admin'') then
                Inl (GfsAuthError ''brokeredAuthority.authoritySource is invalid'')
              else if js_lower sub \<noteq> js_lower controlAdminId then
                Inl (GfsAuthError ''brokeredAuthority control admin must match token sub'')
              else if map_of fs ''linkLineageId'' \<noteq> None \<and> uuid_field (map_of fs ''linkLineageId'') = None then
                Inl (GfsAuthError ''brokeredAuthority.linkLineageId must be a UUID'')
              else
                (case parse_generation (map_of fs ''linkGeneration'') ''linkGeneration'' of
                   Inl e \<Rightarrow> Inl e
                 | Inr linkGeneration \<Rightarrow>
                (case parse_generation (map_of fs ''desktopUserGeneration'') ''desktopUserGeneration'' of
                   Inl e \<Rightarrow> Inl e
                 | Inr userGeneration \<Rightarrow>
                     Inr \<lparr>br_desktopUserId = js_lower desktopUserId, br_controlAdminId = js_lower controlAdminId,
                          br_linkLineageId = map_option js_lower (uuid_field (map_of fs ''linkLineageId'')),
                          br_linkGeneration = linkGeneration, br_desktopUserGeneration = userGeneration\<rparr>))))))"

definition parse_brokered_authority :: "json option \<Rightarrow> string \<Rightarrow> gfs_auth_error + brokered_authority option" where
  "parse_brokered_authority raw sub =
     (case raw of
        None \<Rightarrow> Inr None
      | Some JNull \<Rightarrow> Inr None
      | Some (JObj fs) \<Rightarrow> (case parse_brokered_record fs sub of Inl e \<Rightarrow> Inl e | Inr b \<Rightarrow> Inr (Some b))
      | _ \<Rightarrow> Inl (GfsAuthError ''brokeredAuthority must be an object''))"

definition binding_error :: "nat \<Rightarrow> string \<Rightarrow> gfs_auth_error" where
  "binding_error i msg = GfsAuthError (''pathBindings['' @ string_of_nat i @ '']'' @ msg)"

definition normalize_binding_path :: "string \<Rightarrow> nat \<Rightarrow> gfs_auth_error + string" where
  "normalize_binding_path path i =
     (if path = [] \<or> js_trim path \<noteq> path then Inl (binding_error i ''.path must be a canonical absolute path'')
      else if hd path \<noteq> CHR ''/'' then Inl (binding_error i ''.path must be absolute'')
      else if path \<noteq> ''/'' \<and> list_all (\<lambda>c. c = CHR ''/'') path then Inl (binding_error i ''.path must not be slash-only'')
      else
        (let normalized = (if length path > 1 then rev (dropWhile (\<lambda>c. c = CHR ''/'') (rev path)) else path)
         in if normalized = ''/'' then Inr normalized
            else if \<exists>s\<in>set (js_split CHR ''/'' (tl normalized)). s = [] \<or> s = ''.'' \<or> s = ''..''
            then Inl (binding_error i ''.path contains an invalid segment'')
            else Inr normalized))"

fun strings_only :: "json list \<Rightarrow> string list option" where
  "strings_only [] = Some []"
| "strings_only (JStr s # vs) = map_option (\<lambda>ss. s # ss) (strings_only vs)"
| "strings_only (_ # vs) = None"

definition parse_binding :: "json \<Rightarrow> nat \<Rightarrow> gfs_auth_error + path_binding" where
  "parse_binding e i =
     (if e = JNull then Inl JsTypeError
      else
        (case json_field e ''path'' of
           Some (JStr path) \<Rightarrow>
             (case json_field e ''permissions'' of
                Some (JArr ps) \<Rightarrow>
                  (case strings_only ps of
                     None \<Rightarrow> Inl (binding_error i ''.permissions must be a string[]'')
                   | Some permissions \<Rightarrow>
                       (case normalize_binding_path path i of
                          Inl err \<Rightarrow> Inl err
                        | Inr p \<Rightarrow> Inr \<lparr>pb_path = p, pb_permissions = permissions\<rparr>))
              | _ \<Rightarrow> Inl (binding_error i ''.permissions must be a string[]''))
         | _ \<Rightarrow> Inl (binding_error i ''.path must be a string'')))"

fun parse_bindings :: "json list \<Rightarrow> nat \<Rightarrow> gfs_auth_error + path_binding list" where
  "parse_bindings [] i = Inr []"
| "parse_bindings (e # es) i =
     (case parse_binding e i of
        Inl err \<Rightarrow> Inl err
      | Inr b \<Rightarrow> (case parse_bindings es (Suc i) of Inl err \<Rightarrow> Inl err | Inr bs \<Rightarrow> Inr (b # bs)))"

definition parse_path_bindings :: "json option \<Rightarrow> gfs_auth_error + path_binding list" where
  "parse_path_bindings raw =
     (case raw of
        None \<Rightarrow> Inr []
      | Some JNull \<Rightarrow> Inr []
      | Some (JArr es) \<Rightarrow> parse_bindings es 0
      | _ \<Rightarrow> Inl (GfsAuthError ''pathBindings must be an array''))"

fun parse_scopes :: "json list \<Rightarrow> gfs_auth_error + string list" where
  "parse_scopes [] = Inr []"
| "parse_scopes (v # vs) =
     (case v of
        JStr s \<Rightarrow>
          (if s \<in> VALID_SCOPES
           then (case parse_scopes vs of Inl e \<Rightarrow> Inl e | Inr ss \<Rightarrow> Inr (s # ss))
           else Inl (GfsAuthError (''invalid scope: '' @ s)))
      | _ \<Rightarrow> Inl (GfsAuthError (''invalid scope: '' @ js_string_of v)))"

definition principal_type_of :: "json option \<Rightarrow> gfs_auth_error + principal_type option" where
  "principal_type_of v =
     (case v of
        None \<Rightarrow> Inr None
      | Some (JStr s) \<Rightarrow>
          (if s = ''user'' then Inr (Some UserPrincipal)
           else if s = ''control-admin'' then Inr (Some ControlAdminPrincipal)
           else Inl (GfsAuthError ''invalid principalType''))
      | Some _ \<Rightarrow> Inl (GfsAuthError ''invalid principalType''))"

definition auth_generation_of :: "json option \<Rightarrow> principal_type option \<Rightarrow> gfs_auth_error + int option" where
  "auth_generation_of v ptype =
     (case v of
        None \<Rightarrow> Inr None
      | Some _ \<Rightarrow>
          (case safe_integer v of
             None \<Rightarrow> Inl (GfsAuthError ''invalid authGeneration'')
           | Some n \<Rightarrow>
               (if n < 0 then Inl (GfsAuthError ''invalid authGeneration'')
                else if ptype \<noteq> None \<and> n < 1 then Inl (GfsAuthError ''human principal authGeneration must be positive'')
                else Inr (Some n))))"

fun nonempty_text :: "json option \<Rightarrow> string option" where
  "nonempty_text (Some (JStr s)) = (if s = [] then None else Some s)"
| "nonempty_text _ = None"

definition claims_of :: "json \<Rightarrow> gfs_auth_error + verified_claims" where
  "claims_of payload =
     (case nonempty_text (json_field payload ''sub'') of
        None \<Rightarrow> Inl (GfsAuthError ''missing sub'')
      | Some sub \<Rightarrow>
     (case nonempty_text (json_field payload ''drive'') of
        None \<Rightarrow> Inl (GfsAuthError ''missing drive'')
      | Some drive \<Rightarrow>
     (case json_field payload ''scopes'' of
        Some (JArr rawScopes) \<Rightarrow>
     (case safe_integer (json_field payload ''iat'') of
        None \<Rightarrow> Inl (GfsAuthError ''missing or invalid iat'')
      | Some iat \<Rightarrow>
     (case safe_integer (json_field payload ''exp'') of
        None \<Rightarrow> Inl (GfsAuthError ''missing or invalid exp'')
      | Some expiry \<Rightarrow>
     (case principal_type_of (json_field payload ''principalType'') of
        Inl e \<Rightarrow> Inl e
      | Inr ptype \<Rightarrow>
     (case auth_generation_of (json_field payload ''authGeneration'') ptype of
        Inl e \<Rightarrow> Inl e
      | Inr generation \<Rightarrow>
     (if expiry \<le> iat then Inl (GfsAuthError ''token exp must be after iat'')
      else case parse_scopes rawScopes of
        Inl e \<Rightarrow> Inl e
      | Inr scopes \<Rightarrow>
     (case parse_brokered_authority (json_field payload ''brokeredAuthority'') sub of
        Inl e \<Rightarrow> Inl e
      | Inr brokered \<Rightarrow>
     (if brokered \<noteq> None \<and> ptype \<noteq> Some ControlAdminPrincipal
      then Inl (GfsAuthError ''brokeredAuthority requires control-admin principalType'')
      else case parse_path_bindings (json_field payload ''pathBindings'') of
        Inl e \<Rightarrow> Inl e
      | Inr bindings \<Rightarrow>
          Inr \<lparr>vc_sub = sub, vc_drive = drive, vc_scopes = scopes, vc_pathBindings = bindings,
               vc_authGeneration = generation, vc_brokeredAuthority = brokered, vc_principalType = ptype,
               vc_iat = iat, vc_exp = expiry\<rparr>)))))))
      | _ \<Rightarrow> Inl (GfsAuthError ''missing scopes''))))"

text \<open>
  The JWT library: \<open>jwt_decode\<close> gives the header of a token, when it is one with an object payload;
  \<open>jwt_verify\<close> gives the payload under the key, audience and issuer, or the message it throws.
\<close>

record verify_options =
  vo_keyId :: string
  vo_publicKey :: string
  vo_audience :: string
  vo_issuer :: "string option"

definition verify_gfs_token ::
  "(string \<Rightarrow> json option) \<Rightarrow> (string \<Rightarrow> string \<Rightarrow> string \<Rightarrow> string \<Rightarrow> string + json) \<Rightarrow> string \<Rightarrow> verify_options \<Rightarrow>
   gfs_auth_error + verified_claims" where
  "verify_gfs_token jwt_decode jwt_verify token opts =
     (case jwt_decode token of
        None \<Rightarrow> Inl (GfsAuthError ''malformed token'')
      | Some header \<Rightarrow>
          (if json_field header ''kid'' \<noteq> Some (JStr (vo_keyId opts))
           then Inl (GfsAuthError ''token kid does not match the configured signing key'')
           else
             (case jwt_verify token (vo_publicKey opts) (vo_audience opts)
                     (case vo_issuer opts of None \<Rightarrow> ''control-api'' | Some i \<Rightarrow> i) of
                Inl msg \<Rightarrow> Inl (GfsAuthError msg)
              | Inr (JStr _) \<Rightarrow> Inl (GfsAuthError ''unexpected string payload'')
              | Inr payload \<Rightarrow> claims_of payload)))"

section \<open>Subjects of a principal\<close>

datatype db_value = DbNull | DbInt int | DbText string

record admin_row =
  ad_id :: string
  ad_status :: string
  ad_sessionVersion :: db_value

record user_row =
  us_id :: string
  us_lifecycleState :: string
  us_lifecycleVersion :: db_value

record operator_link_row =
  lk_userId :: string
  lk_controlAdminId :: string
  lk_state :: string
  lk_source :: string
  lk_lineageId :: db_value
  lk_generation :: db_value

record member_row =
  tm_teamId :: string
  tm_userId :: string
  tm_status :: string

datatype identity_table = AdminTable | UserTable | LinkTable | MemberTable

record identity_db =
  id_admins :: "admin_row list"
  id_users :: "user_row list"
  id_links :: "operator_link_row list"
  id_members :: "member_row list"
  id_up :: "identity_table \<Rightarrow> bool"

datatype resolution_error = SubjectDenied string | IdentityStoreError

text \<open>A query by a uuid column fails when the table cannot be read or the text is no uuid.\<close>

definition query_key :: "(string \<Rightarrow> string option) \<Rightarrow> identity_db \<Rightarrow> identity_table \<Rightarrow> string \<Rightarrow> resolution_error + string" where
  "query_key cast db table i =
     (if \<not> id_up db table then Inl IdentityStoreError
      else case cast i of None \<Rightarrow> Inl IdentityStoreError | Some u \<Rightarrow> Inr u)"

definition read_active_admin ::
  "(string \<Rightarrow> string option) \<Rightarrow> identity_db \<Rightarrow> string \<Rightarrow> resolution_error + admin_row option" where
  "read_active_admin cast db adminId =
     (case query_key cast db AdminTable adminId of
        Inl e \<Rightarrow> Inl e
      | Inr u \<Rightarrow> Inr (case find (\<lambda>r. ad_id r = u) (id_admins db) of
                        Some r \<Rightarrow> (if ad_status r = ''active'' then Some r else None) | None \<Rightarrow> None))"

definition read_active_user ::
  "(string \<Rightarrow> string option) \<Rightarrow> identity_db \<Rightarrow> string \<Rightarrow> resolution_error + user_row option" where
  "read_active_user cast db userId =
     (case query_key cast db UserTable userId of
        Inl e \<Rightarrow> Inl e
      | Inr u \<Rightarrow> Inr (case find (\<lambda>r. us_id r = u) (id_users db) of
                        Some r \<Rightarrow> (if us_lifecycleState r = ''active'' then Some r else None) | None \<Rightarrow> None))"

definition read_link ::
  "(string \<Rightarrow> string option) \<Rightarrow> identity_db \<Rightarrow> string \<Rightarrow> string \<Rightarrow> resolution_error + operator_link_row option" where
  "read_link cast db userId adminId =
     (case query_key cast db LinkTable userId of
        Inl e \<Rightarrow> Inl e
      | Inr u \<Rightarrow>
          (case query_key cast db LinkTable adminId of
             Inl e \<Rightarrow> Inl e
           | Inr a \<Rightarrow> Inr (find (\<lambda>r. lk_userId r = u \<and> lk_controlAdminId r = a \<and> lk_state r = ''active'' \<and>
                                     lk_source r = ''initial_setup'') (id_links db))))"

definition read_teams :: "(string \<Rightarrow> string option) \<Rightarrow> identity_db \<Rightarrow> string \<Rightarrow> resolution_error + string list" where
  "read_teams cast db userId =
     (case query_key cast db MemberTable userId of
        Inl e \<Rightarrow> Inl e
      | Inr u \<Rightarrow> Inr (map tm_teamId (filter (\<lambda>r. tm_userId r = u \<and> tm_status r = ''active'') (id_members db))))"

fun positive_generation :: "db_value \<Rightarrow> int option" where
  "positive_generation (DbInt n) = (if n > 0 \<and> n \<le> MAX_SAFE_INTEGER then Some n else None)"
| "positive_generation (DbText s) =
     (if s \<noteq> [] \<and> list_all is_digit s \<and> hd s \<noteq> CHR ''0'' \<and> digits_value 10 s \<le> MAX_SAFE_INTEGER
      then Some (digits_value 10 s) else None)"
| "positive_generation DbNull = None"

definition generation_matches :: "db_value \<Rightarrow> int \<Rightarrow> bool" where
  "generation_matches v expected \<longleftrightarrow>
     positive_generation v \<noteq> None \<and> positive_generation v = positive_generation (DbInt expected)"

fun db_text :: "db_value \<Rightarrow> string" where
  "db_text DbNull = ''null''"
| "db_text (DbInt n) = string_of_int n"
| "db_text (DbText s) = s"

definition is_k8s_char :: "char \<Rightarrow> bool" where
  "is_k8s_char c \<longleftrightarrow> is_digit c \<or> (of_char c :: nat) \<in> {97..122}"

definition is_k8s_name :: "string \<Rightarrow> bool" where
  "is_k8s_name s \<longleftrightarrow> s \<noteq> [] \<and> is_k8s_char (hd s) \<and> is_k8s_char (last s) \<and> list_all (\<lambda>c. is_k8s_char c \<or> c = CHR ''-'') s"

definition is_host_sub :: "string \<Rightarrow> bool" where
  "is_host_sub sub \<longleftrightarrow>
     (starts_with sub ''host:1st:'' \<or> starts_with sub ''host:3rd:'') \<and>
     (let ps = js_split CHR ''/'' (drop 9 sub) in length ps = 2 \<and> list_all is_k8s_name ps)"

definition resolve_linked_admin ::
  "(string \<Rightarrow> string option) \<Rightarrow> identity_db \<Rightarrow> verified_claims \<Rightarrow> brokered_authority \<Rightarrow> string \<Rightarrow> string option \<Rightarrow>
   resolution_error + authz_context" where
  "resolve_linked_admin cast db claims brokered canonicalSub requestId =
     (let adminId = js_lower (br_controlAdminId brokered);
          userId = (if is_uuid (br_desktopUserId brokered) then js_lower (br_desktopUserId brokered)
                    else br_desktopUserId brokered)
      in case (vc_authGeneration claims, br_linkLineageId brokered, br_linkGeneration brokered,
               br_desktopUserGeneration brokered) of
           (Some authGen, Some lineage, Some linkGen, Some userGen) \<Rightarrow>
             (if adminId \<noteq> canonicalSub then Inl (SubjectDenied ''linked admin token is missing current generation metadata'')
              else
                (case read_active_admin cast db adminId of
                   Inl e \<Rightarrow> Inl e
                 | Inr None \<Rightarrow> Inl (SubjectDenied ''linked admin is not active'')
                 | Inr (Some admin) \<Rightarrow>
                     (if \<not> generation_matches (ad_sessionVersion admin) authGen
                      then Inl (SubjectDenied ''linked admin is not active'')
                      else
                (case read_active_user cast db userId of
                   Inl e \<Rightarrow> Inl e
                 | Inr None \<Rightarrow> Inl (SubjectDenied ''linked Desktop user is retired or stale'')
                 | Inr (Some user) \<Rightarrow>
                     (if \<not> generation_matches (us_lifecycleVersion user) userGen
                      then Inl (SubjectDenied ''linked Desktop user is retired or stale'')
                      else
                (case read_link cast db userId adminId of
                   Inl e \<Rightarrow> Inl e
                 | Inr None \<Rightarrow> Inl (SubjectDenied ''linked Desktop operator generation is not active'')
                 | Inr (Some link) \<Rightarrow>
                     (if js_lower (db_text (lk_lineageId link)) \<noteq> js_lower lineage \<or>
                         \<not> generation_matches (lk_generation link) linkGen
                      then Inl (SubjectDenied ''linked Desktop operator generation is not active'')
                      else Inr \<lparr>zx_drive = vc_drive claims, zx_subjects = [''operator:''], zx_isOperator = True,
                                zx_primarySubject = canonicalSub, zx_requestId = requestId,
                                zx_desktopUserId = Some userId, zx_effectiveControlAdminId = Some adminId,
                                zx_authoritySource = Some ''linked-admin''\<rparr>)))))))
         | _ \<Rightarrow> Inl (SubjectDenied ''linked admin token is missing current generation metadata''))"

definition plain_context :: "verified_claims \<Rightarrow> string list \<Rightarrow> bool \<Rightarrow> string \<Rightarrow> string option \<Rightarrow> authz_context" where
  "plain_context claims subjects isOperator primary requestId =
     \<lparr>zx_drive = vc_drive claims, zx_subjects = subjects, zx_isOperator = isOperator, zx_primarySubject = primary,
      zx_requestId = requestId, zx_desktopUserId = None, zx_effectiveControlAdminId = None, zx_authoritySource = None\<rparr>"

definition resolve_authz_context ::
  "(string \<Rightarrow> string option) \<Rightarrow> identity_db \<Rightarrow> verified_claims \<Rightarrow> string option \<Rightarrow> resolution_error + authz_context" where
  "resolve_authz_context cast db claims requestId =
     (let sub = vc_sub claims;
          canonicalSub = (if is_uuid sub then js_lower sub else sub)
      in case vc_brokeredAuthority claims of
           Some brokered \<Rightarrow> resolve_linked_admin cast db claims brokered canonicalSub requestId
         | None \<Rightarrow>
             (if is_host_sub sub then Inr (plain_context claims [sub] False sub requestId)
              else if vc_principalType claims = Some ControlAdminPrincipal then
                (case vc_authGeneration claims of
                   None \<Rightarrow> Inl (SubjectDenied ''control admin token is missing generation'')
                 | Some gen \<Rightarrow>
                     (case read_active_admin cast db canonicalSub of
                        Inl e \<Rightarrow> Inl e
                      | Inr None \<Rightarrow> Inl (SubjectDenied ''control admin is not active'')
                      | Inr (Some admin) \<Rightarrow>
                          (if \<not> generation_matches (ad_sessionVersion admin) gen
                           then Inl (SubjectDenied ''control admin is not active'')
                           else Inr (plain_context claims [''operator:''] True canonicalSub requestId))))
              else if \<not> is_uuid canonicalSub then Inl (SubjectDenied ''user principal must be a UUID'')
              else
                (case vc_authGeneration claims of
                   None \<Rightarrow> Inl (SubjectDenied ''user token is missing generation'')
                 | Some gen \<Rightarrow>
                     (case read_active_user cast db canonicalSub of
                        Inl e \<Rightarrow> Inl e
                      | Inr None \<Rightarrow> Inl (SubjectDenied ''user is retired or token generation is stale'')
                      | Inr (Some user) \<Rightarrow>
                          (if \<not> generation_matches (us_lifecycleVersion user) gen
                           then Inl (SubjectDenied ''user is retired or token generation is stale'')
                           else
                             (case read_teams cast db canonicalSub of
                                Inl e \<Rightarrow> Inl e
                              | Inr teams \<Rightarrow>
                                  Inr ((plain_context claims
                                          (rev (remdups (rev ((''user:'' @ canonicalSub) # map (\<lambda>t. ''team:'' @ t) teams))))
                                          False canonicalSub requestId)
                                       \<lparr>zx_desktopUserId := Some canonicalSub,
                                        zx_authoritySource := Some ''user-session''\<rparr>)))))))"

section \<open>What a verified token is\<close>

definition canonical_path :: "string \<Rightarrow> bool" where
  "canonical_path p \<longleftrightarrow>
     p = ''/'' \<or> (\<exists>q. p = CHR ''/'' # q \<and> (\<forall>s\<in>set (js_split CHR ''/'' q). s \<noteq> [] \<and> s \<noteq> ''.'' \<and> s \<noteq> ''..''))"

definition uuid_in_lower_case :: "string \<Rightarrow> bool" where
  "uuid_in_lower_case s \<longleftrightarrow> is_uuid s \<and> js_lower s = s"

definition brokered_wf :: "brokered_authority \<Rightarrow> bool" where
  "brokered_wf b \<longleftrightarrow>
     uuid_in_lower_case (br_desktopUserId b) \<and> uuid_in_lower_case (br_controlAdminId b) \<and>
     (\<forall>l. br_linkLineageId b = Some l \<longrightarrow> uuid_in_lower_case l) \<and>
     (\<forall>g. br_linkGeneration b = Some g \<longrightarrow> 1 \<le> g \<and> g \<le> MAX_SAFE_INTEGER) \<and>
     (\<forall>g. br_desktopUserGeneration b = Some g \<longrightarrow> 1 \<le> g \<and> g \<le> MAX_SAFE_INTEGER)"

definition claims_wf :: "verified_claims \<Rightarrow> bool" where
  "claims_wf c \<longleftrightarrow>
     vc_sub c \<noteq> [] \<and> vc_drive c \<noteq> [] \<and> set (vc_scopes c) \<subseteq> VALID_SCOPES \<and> vc_iat c < vc_exp c \<and>
     (\<forall>b\<in>set (vc_pathBindings c). canonical_path (pb_path b)) \<and>
     (\<forall>g. vc_authGeneration c = Some g \<longrightarrow> 0 \<le> g \<and> g \<le> MAX_SAFE_INTEGER \<and> (vc_principalType c \<noteq> None \<longrightarrow> 1 \<le> g)) \<and>
     (\<forall>b. vc_brokeredAuthority c = Some b \<longrightarrow>
        vc_principalType c = Some ControlAdminPrincipal \<and> br_controlAdminId b = js_lower (vc_sub c) \<and> brokered_wf b)"

lemma trailing_slashes:
  assumes "hd path = CHR ''/''" and "path \<noteq> []" and "\<not> list_all (\<lambda>c. c = CHR ''/'') path"
  shows "\<exists>q. rev (dropWhile (\<lambda>c. c = CHR ''/'') (rev path)) = CHR ''/'' # q"
proof -
  obtain c where c: "c \<in> set path" "c \<noteq> CHR ''/''" using assms(3) by (auto simp: list_all_iff)
  obtain p where p: "path = CHR ''/'' # p" using assms(1,2) by (cases path) auto
  have "dropWhile (\<lambda>c. c = CHR ''/'') (rev p @ [CHR ''/'']) = dropWhile (\<lambda>c. c = CHR ''/'') (rev p) @ [CHR ''/'']"
    using c p by (intro dropWhile_append1 [of c]) auto
  then show ?thesis using p by simp
qed

lemma normalize_binding_canonical: "normalize_binding_path path i = Inr p \<Longrightarrow> canonical_path p"
proof -
  assume r: "normalize_binding_path path i = Inr p"
  show "canonical_path p"
  proof (cases "path = ''/''")
    case True
    then show ?thesis using r by (simp add: normalize_binding_path_def canonical_path_def split: if_splits)
  next
    case False
    have h: "path \<noteq> []" "hd path = CHR ''/''" "\<not> list_all (\<lambda>c. c = CHR ''/'') path" "length path > 1"
      using r False by (cases path; auto simp: normalize_binding_path_def split: if_splits)+
    from trailing_slashes [OF h(2,1,3)] obtain q where
      q: "rev (dropWhile (\<lambda>c. c = CHR ''/'') (rev path)) = CHR ''/'' # q" by blast
    show ?thesis using r h q by (auto simp: normalize_binding_path_def canonical_path_def Let_def split: if_splits)
  qed
qed

lemma parse_bindings_canonical: "parse_bindings es i = Inr bs \<Longrightarrow> b \<in> set bs \<Longrightarrow> canonical_path (pb_path b)"
proof (induction es i arbitrary: bs rule: parse_bindings.induct)
  case (2 e es i)
  obtain b' bs' where b: "parse_binding e i = Inr b'" "parse_bindings es (Suc i) = Inr bs'" "bs = b' # bs'"
    using 2(2) by (auto split: sum.splits)
  have "canonical_path (pb_path b')"
    using b(1) by (auto simp: parse_binding_def normalize_binding_canonical split: if_splits option.splits json.splits sum.splits)
  then show ?case using 2(1) [OF b(1,2)] 2(3) b(3) by auto
qed simp

lemma parse_scopes_valid: "parse_scopes vs = Inr ss \<Longrightarrow> set ss \<subseteq> VALID_SCOPES"
  by (induction vs arbitrary: ss) (auto split: json.splits if_splits sum.splits)

lemma safe_integer_bound: "safe_integer v = Some n \<Longrightarrow> \<bar>n\<bar> \<le> MAX_SAFE_INTEGER"
  by (induction v rule: safe_integer.induct) (auto split: if_splits)

lemma parse_generation_range: "parse_generation v field = Inr (Some g) \<Longrightarrow> 1 \<le> g \<and> g \<le> MAX_SAFE_INTEGER"
  by (auto simp: parse_generation_def split: option.splits if_splits dest!: safe_integer_bound)

lemma uuid_field_uuid: "uuid_field v = Some s \<Longrightarrow> is_uuid s"
  by (induction v rule: uuid_field.induct) (auto split: if_splits)

lemma lowered_uuid: "uuid_field v = Some s \<Longrightarrow> uuid_in_lower_case (js_lower s)"
  using uuid_field_uuid js_lower_uuid by (simp add: uuid_in_lower_case_def)

lemma brokered_record_wf:
  assumes "parse_brokered_record fs sub = Inr b"
  shows "br_controlAdminId b = js_lower sub \<and> brokered_wf b"
proof -
  obtain d a where d: "uuid_field (map_of fs ''desktopUserId'') = Some d" and a: "uuid_field (map_of fs ''controlAdminId'') = Some a"
    using assms by (auto simp: parse_brokered_record_def split: if_splits option.splits)
  obtain lg ug where lg: "parse_generation (map_of fs ''linkGeneration'') ''linkGeneration'' = Inr lg"
    and ug: "parse_generation (map_of fs ''desktopUserGeneration'') ''desktopUserGeneration'' = Inr ug"
    and b: "b = \<lparr>br_desktopUserId = js_lower d, br_controlAdminId = js_lower a,
      br_linkLineageId = map_option js_lower (uuid_field (map_of fs ''linkLineageId'')), br_linkGeneration = lg,
      br_desktopUserGeneration = ug\<rparr>" and sub: "js_lower sub = js_lower a"
    using assms d a by (auto simp: parse_brokered_record_def split: if_splits sum.splits)
  show ?thesis
    using lowered_uuid [OF d] lowered_uuid [OF a] lowered_uuid [of "map_of fs ''linkLineageId''"] sub
      parse_generation_range [of _ "''linkGeneration''"] parse_generation_range [of _ "''desktopUserGeneration''"] lg ug
    by (auto simp: b brokered_wf_def)
qed

lemma brokered_parsed_wf:
  "parse_brokered_authority raw sub = Inr (Some b) \<Longrightarrow> br_controlAdminId b = js_lower sub \<and> brokered_wf b"
  using brokered_record_wf by (auto simp: parse_brokered_authority_def split: option.splits json.splits sum.splits)

lemma auth_generation_range:
  "auth_generation_of v pt = Inr (Some g) \<Longrightarrow> 0 \<le> g \<and> g \<le> MAX_SAFE_INTEGER \<and> (pt \<noteq> None \<longrightarrow> 1 \<le> g)"
  by (auto simp: auth_generation_of_def split: option.splits if_splits dest!: safe_integer_bound)

lemma path_bindings_canonical: "parse_path_bindings raw = Inr bs \<Longrightarrow> b \<in> set bs \<Longrightarrow> canonical_path (pb_path b)"
  using parse_bindings_canonical by (auto simp: parse_path_bindings_def split: option.splits json.splits)

lemma nonempty_text_ne: "nonempty_text v = Some s \<Longrightarrow> s \<noteq> []"
  by (induction v rule: nonempty_text.induct) (auto split: if_splits)

lemma claims_of_cases:
  assumes "claims_of payload = Inr c"
  shows "nonempty_text (json_field payload ''sub'') = Some (vc_sub c) \<and>
    nonempty_text (json_field payload ''drive'') = Some (vc_drive c) \<and>
    (\<exists>vs. parse_scopes vs = Inr (vc_scopes c)) \<and> vc_iat c < vc_exp c \<and>
    auth_generation_of (json_field payload ''authGeneration'') (vc_principalType c) = Inr (vc_authGeneration c) \<and>
    parse_brokered_authority (json_field payload ''brokeredAuthority'') (vc_sub c) = Inr (vc_brokeredAuthority c) \<and>
    (vc_brokeredAuthority c \<noteq> None \<longrightarrow> vc_principalType c = Some ControlAdminPrincipal) \<and>
    parse_path_bindings (json_field payload ''pathBindings'') = Inr (vc_pathBindings c)"
  using assms unfolding claims_of_def
  by (auto simp del: not_None_eq split: option.splits json.splits sum.splits if_splits)

lemma claims_of_wf: "claims_of payload = Inr c \<Longrightarrow> claims_wf c"
  using claims_of_cases [of payload c] nonempty_text_ne parse_scopes_valid auth_generation_range
    path_bindings_canonical brokered_parsed_wf
  unfolding claims_wf_def by (metis option.distinct(1))

section \<open>What a resolved principal may be\<close>

definition canonical_sub :: "verified_claims \<Rightarrow> string" where
  "canonical_sub c = (if is_uuid (vc_sub c) then js_lower (vc_sub c) else vc_sub c)"

definition active_admin :: "(string \<Rightarrow> string option) \<Rightarrow> identity_db \<Rightarrow> string \<Rightarrow> int \<Rightarrow> bool" where
  "active_admin cast db i gen \<longleftrightarrow>
     (\<exists>admin\<in>set (id_admins db). cast i = Some (ad_id admin) \<and> ad_status admin = ''active'' \<and>
        generation_matches (ad_sessionVersion admin) gen)"

definition active_user :: "(string \<Rightarrow> string option) \<Rightarrow> identity_db \<Rightarrow> string \<Rightarrow> int \<Rightarrow> bool" where
  "active_user cast db i gen \<longleftrightarrow>
     (\<exists>user\<in>set (id_users db). cast i = Some (us_id user) \<and> us_lifecycleState user = ''active'' \<and>
        generation_matches (us_lifecycleVersion user) gen)"

definition active_link :: "(string \<Rightarrow> string option) \<Rightarrow> identity_db \<Rightarrow> string \<Rightarrow> string \<Rightarrow> string \<Rightarrow> int \<Rightarrow> bool" where
  "active_link cast db userId adminId lineage gen \<longleftrightarrow>
     (\<exists>link\<in>set (id_links db). cast userId = Some (lk_userId link) \<and> cast adminId = Some (lk_controlAdminId link) \<and>
        lk_state link = ''active'' \<and> lk_source link = ''initial_setup'' \<and>
        js_lower (db_text (lk_lineageId link)) = js_lower lineage \<and> generation_matches (lk_generation link) gen)"

lemma query_keyD: "query_key cast db table i = Inr u \<Longrightarrow> cast i = Some u"
  by (auto simp: query_key_def split: if_splits option.splits)

lemma read_active_adminD:
  "read_active_admin cast db i = Inr (Some admin) \<Longrightarrow> generation_matches (ad_sessionVersion admin) gen \<Longrightarrow>
   active_admin cast db i gen"
  by (auto simp: read_active_admin_def active_admin_def split: sum.splits option.splits if_splits
      dest!: query_keyD find_SomeD)

lemma read_active_userD:
  "read_active_user cast db i = Inr (Some user) \<Longrightarrow> generation_matches (us_lifecycleVersion user) gen \<Longrightarrow>
   active_user cast db i gen"
  by (auto simp: read_active_user_def active_user_def split: sum.splits option.splits if_splits
      dest!: query_keyD find_SomeD)

lemma read_linkD:
  "read_link cast db u a = Inr (Some link) \<Longrightarrow> js_lower (db_text (lk_lineageId link)) = js_lower lineage \<Longrightarrow>
   generation_matches (lk_generation link) gen \<Longrightarrow> active_link cast db u a lineage gen"
  by (auto simp: read_link_def active_link_def split: sum.splits dest!: query_keyD find_SomeD sym [of _ "find _ _"])

definition link_current :: "(string \<Rightarrow> string option) \<Rightarrow> identity_db \<Rightarrow> brokered_authority \<Rightarrow> string \<Rightarrow> string \<Rightarrow> bool" where
  "link_current cast db b userId adminId \<longleftrightarrow>
     (\<exists>ug lineage lg. br_desktopUserGeneration b = Some ug \<and> active_user cast db userId ug \<and>
        br_linkLineageId b = Some lineage \<and> br_linkGeneration b = Some lg \<and> active_link cast db userId adminId lineage lg)"

lemma linked_admin_current:
  assumes "resolve_linked_admin cast db claims b sub rid = Inr ctx"
  shows "zx_subjects ctx = [''operator:''] \<and> zx_isOperator ctx \<and> js_lower (br_controlAdminId b) = sub \<and>
    (\<exists>g. vc_authGeneration claims = Some g \<and> active_admin cast db sub g) \<and>
    zx_desktopUserId ctx = Some (if is_uuid (br_desktopUserId b) then js_lower (br_desktopUserId b) else br_desktopUserId b) \<and>
    link_current cast db b (if is_uuid (br_desktopUserId b) then js_lower (br_desktopUserId b) else br_desktopUserId b) sub"
proof -
  let ?u = "if is_uuid (br_desktopUserId b) then js_lower (br_desktopUserId b) else br_desktopUserId b"
  obtain g lineage lg ug where m: "vc_authGeneration claims = Some g" "br_linkLineageId b = Some lineage"
    "br_linkGeneration b = Some lg" "br_desktopUserGeneration b = Some ug"
    using assms unfolding resolve_linked_admin_def Let_def by (auto split: option.splits)
  note r = assms [unfolded resolve_linked_admin_def Let_def m prod.case option.case]
  have sub: "js_lower (br_controlAdminId b) = sub" using r by (auto split: if_splits)
  obtain admin where admin: "read_active_admin cast db sub = Inr (Some admin)" "generation_matches (ad_sessionVersion admin) g"
    using r sub by (auto split: sum.splits option.splits if_splits)
  obtain user where user: "read_active_user cast db ?u = Inr (Some user)" "generation_matches (us_lifecycleVersion user) ug"
    using r sub admin by (auto split: sum.splits option.splits if_splits)
  obtain link where link: "read_link cast db ?u sub = Inr (Some link)"
    "js_lower (db_text (lk_lineageId link)) = js_lower lineage" "generation_matches (lk_generation link) lg"
    using r sub admin user by (auto split: sum.splits option.splits if_splits)
  have "zx_subjects ctx = [''operator:''] \<and> zx_isOperator ctx \<and> zx_desktopUserId ctx = Some ?u"
    using r sub admin user link by (auto split: if_splits)
  then show ?thesis
    using m sub read_active_adminD [OF admin] read_active_userD [OF user] read_linkD [OF link] by (auto simp: link_current_def)
qed

text \<open>The outcomes of a resolution: a linked admin, a host, a control admin or a user.\<close>

lemma resolve_cases:
  assumes "resolve_authz_context cast db claims rid = Inr ctx"
  shows "zx_drive ctx = vc_drive claims \<and>
    (case vc_brokeredAuthority claims of
       Some b \<Rightarrow> resolve_linked_admin cast db claims b (canonical_sub claims) rid = Inr ctx
     | None \<Rightarrow>
         is_host_sub (vc_sub claims) \<and> zx_subjects ctx = [vc_sub claims] \<and> \<not> zx_isOperator ctx \<or>
         vc_principalType claims = Some ControlAdminPrincipal \<and> zx_subjects ctx = [''operator:''] \<and> zx_isOperator ctx \<and>
           (\<exists>g. vc_authGeneration claims = Some g \<and> active_admin cast db (canonical_sub claims) g) \<or>
         is_uuid (canonical_sub claims) \<and> \<not> zx_isOperator ctx \<and>
           (\<exists>g. vc_authGeneration claims = Some g \<and> active_user cast db (canonical_sub claims) g) \<and>
           (\<exists>teams. read_teams cast db (canonical_sub claims) = Inr teams \<and>
              set (zx_subjects ctx) = insert (''user:'' @ canonical_sub claims) ((\<lambda>t. ''team:'' @ t) ` set teams)))"
proof (cases "vc_brokeredAuthority claims")
  case (Some b)
  then have r: "resolve_linked_admin cast db claims b (canonical_sub claims) rid = Inr ctx"
    using assms by (simp add: resolve_authz_context_def canonical_sub_def Let_def)
  moreover have "zx_drive ctx = vc_drive claims"
    using r unfolding resolve_linked_admin_def Let_def by (auto split: option.splits sum.splits if_splits)
  ultimately show ?thesis using Some by simp
next
  case None
  note r = assms [unfolded resolve_authz_context_def Let_def canonical_sub_def [symmetric] None option.case]
  show ?thesis
  proof (cases "is_host_sub (vc_sub claims)")
    case True
    then show ?thesis using r None by (auto simp: plain_context_def)
  next
    case host: False
    show ?thesis
    proof (cases "vc_principalType claims = Some ControlAdminPrincipal")
      case True
      then show ?thesis using r None host read_active_adminD
        by (auto simp: plain_context_def split: option.splits sum.splits if_splits)
    next
      case False
      then have uuid: "is_uuid (canonical_sub claims)" using r host by (simp split: if_splits)
      obtain g where g: "vc_authGeneration claims = Some g" using r host False uuid by (auto split: option.splits)
      obtain user where user: "read_active_user cast db (canonical_sub claims) = Inr (Some user)"
        "generation_matches (us_lifecycleVersion user) g"
        using r host False uuid g by (auto split: sum.splits option.splits if_splits)
      obtain teams where teams: "read_teams cast db (canonical_sub claims) = Inr teams"
        using r host False uuid g user by (auto split: sum.splits)
      have "zx_drive ctx = vc_drive claims \<and> \<not> zx_isOperator ctx \<and>
          set (zx_subjects ctx) = insert (''user:'' @ canonical_sub claims) ((\<lambda>t. ''team:'' @ t) ` set teams)"
        using r host False uuid g user teams by (auto simp: plain_context_def)
      then show ?thesis using None uuid g teams read_active_userD [OF user] by simp
    qed
  qed
qed

lemma split_chars: "c \<in> set s \<Longrightarrow> c = d \<or> (\<exists>p\<in>set (js_split d s). c \<in> set p)"
  using js_join_set [of d "js_split d s"] by auto

lemma is_uuid_chars: "is_uuid s \<Longrightarrow> c \<in> set s \<Longrightarrow> is_hex c \<or> c = CHR ''-''"
  using split_chars [of c s "CHR ''-''"] unfolding is_uuid_def Let_def list_all_iff by blast

lemma host_sub_chars: "is_host_sub s \<Longrightarrow> c \<in> set s \<Longrightarrow> is_k8s_char c \<or> c \<in> {CHR ''-'', CHR '':'', CHR ''/''}"
proof -
  assume h: "is_host_sub s" and c: "c \<in> set s"
  then obtain r where s: "s = ''host:1st:'' @ r \<or> s = ''host:3rd:'' @ r"
    unfolding is_host_sub_def starts_with_iff by blast
  then have "drop 9 s = r" by auto
  then have parts: "\<forall>p\<in>set (js_split CHR ''/'' r). is_k8s_name p"
    using h unfolding is_host_sub_def Let_def list_all_iff by simp
  have "is_k8s_char c \<or> c \<in> {CHR ''-'', CHR ''/''}" if "c \<in> set r"
    using split_chars [OF that, of "CHR ''/''"] parts unfolding is_k8s_name_def list_all_iff by blast
  moreover have "\<forall>c\<in>set ''host:1st:'' \<union> set ''host:3rd:''. is_k8s_char c \<or> c = CHR '':''"
    by (simp add: is_k8s_char_def is_digit_def)
  ultimately show ?thesis using s c by (metis Un_iff insert_iff set_append)
qed

lemma plain_chars [simp]:
  "\<not> is_hex CHR '',''" "\<not> is_hex NUL" "\<not> is_k8s_char CHR '',''" "\<not> is_k8s_char NUL" "\<not> is_hex CHR '':''"
  by (simp_all add: is_hex_def is_k8s_char_def is_digit_def NUL_def)

lemma nul_distinct [simp]: "CHR ''-'' \<noteq> NUL" "CHR '':'' \<noteq> NUL" "CHR ''/'' \<noteq> NUL" "NUL \<noteq> CHR ''-''" "NUL \<noteq> CHR '':''"
  "NUL \<noteq> CHR ''/''" "NUL \<notin> set ''operator:''"
  "NUL \<notin> set ''user:''" "NUL \<notin> set ''team:''"
  by (simp_all add: NUL_def)

definition plain_text :: "string \<Rightarrow> bool" where
  "plain_text s \<longleftrightarrow> CHR '','' \<notin> set s \<and> NUL \<notin> set s"

lemma plain_subjects_text: "plain_subjects S \<longleftrightarrow> S \<noteq> [] \<and> (\<forall>s\<in>set S. plain_text s)"
  by (simp add: plain_subjects_def plain_text_def)

lemma plain_text_append: "plain_text p \<Longrightarrow> plain_text s \<Longrightarrow> plain_text (p @ s)"
  by (simp add: plain_text_def)

lemma plain_prefixes: "plain_text ''operator:''" "plain_text ''user:''" "plain_text ''team:''"
  by (simp_all add: plain_text_def NUL_def)

lemma plain_uuid: "is_uuid s \<Longrightarrow> plain_text s"
  unfolding plain_text_def using is_uuid_chars [of s "CHR '',''"] is_uuid_chars [of s NUL] by auto

lemma plain_host: "is_host_sub s \<Longrightarrow> plain_text s"
  unfolding plain_text_def using host_sub_chars [of s "CHR '',''"] host_sub_chars [of s NUL] by auto

lemma resolved_subjects_plain:
  assumes "resolve_authz_context cast db claims rid = Inr ctx"
    and "\<forall>m\<in>set (id_members db). CHR '','' \<notin> set (tm_teamId m) \<and> NUL \<notin> set (tm_teamId m)"
  shows "plain_subjects (zx_subjects ctx)"
proof -
  have op: "plain_subjects [''operator:'']" by (simp add: plain_subjects_text plain_prefixes)
  have user: "plain_subjects (zx_subjects ctx)"
    if u: "is_uuid (canonical_sub claims)" "read_teams cast db (canonical_sub claims) = Inr teams"
      "set (zx_subjects ctx) = insert (''user:'' @ canonical_sub claims) ((\<lambda>t. ''team:'' @ t) ` set teams)" for teams
  proof -
    have "\<forall>t\<in>set teams. plain_text t"
      using u(2) assms(2) unfolding read_teams_def plain_text_def by (auto split: sum.splits)
    then have "\<forall>s\<in>set (zx_subjects ctx). plain_text s"
      unfolding u(3) using plain_uuid [OF u(1)] plain_prefixes plain_text_append by blast
    moreover have "zx_subjects ctx \<noteq> []" using u(3) by (metis insert_not_empty list.set(1))
    ultimately show ?thesis by (simp add: plain_subjects_text)
  qed
  note r = resolve_cases [OF assms(1), THEN conjunct2]
  show ?thesis
  proof (cases "vc_brokeredAuthority claims")
    case None
    from r [unfolded None option.case] show ?thesis
    proof (elim conjE disjE exE)
      assume "is_host_sub (vc_sub claims)" "zx_subjects ctx = [vc_sub claims]"
      then show ?thesis by (simp add: plain_subjects_text plain_host)
    next
      assume "zx_subjects ctx = [''operator:'']"
      then show ?thesis using op by simp
    qed (rule user)
  next
    case (Some b)
    then have "resolve_linked_admin cast db claims b (canonical_sub claims) rid = Inr ctx" using r by simp
    then show ?thesis using linked_admin_current op by metis
  qed
qed

lemma verified_tokens_lemma: "verify_gfs_token jwt_decode jwt_verify token opts = Inr claims \<Longrightarrow> claims_wf claims"
  using claims_of_wf by (auto simp: verify_gfs_token_def split: option.splits if_splits sum.splits json.splits)

section \<open>Properties\<close>

text \<open>C35: a verified token is well-formed: whatever the JWT library accepts, claims that pass verification
  carry the key id of the configured key, a non-empty subject and drive, known scopes only, an expiry
  after the issue time, binding paths that are absolute with no empty or dot segments, a generation that is a
  safe integer and positive for humans, and a linked admin only for a control admin whose id is the subject;
  its ids are uuids in lower case and its link and Desktop-user generations positive safe integers.\<close>

theorem verified_tokens_are_well_formed:
  assumes "verify_gfs_token jwt_decode jwt_verify token opts = Inr claims"
  shows "claims_wf claims \<and> (\<exists>header. jwt_decode token = Some header \<and> json_field header ''kid'' = Some (JStr (vo_keyId opts)))"
  using assms claims_of_wf
  by (auto simp: verify_gfs_token_def split: option.splits if_splits sum.splits json.splits)

text \<open>C6: operator authority is current and explicit: a principal resolved from a verified token is an
  operator exactly when its subjects contain the operator key, and then the token says control admin,
  the admin's row is active with the token's generation, and for a linked admin also the row of the Desktop user
  the token names is active with the token's generation, and so is the link between that user and the admin, with
  the token's lineage and generation.\<close>

theorem operator_authority_is_current:
  assumes "verify_gfs_token jwt_decode jwt_verify token opts = Inr claims"
    and "resolve_authz_context cast db claims rid = Inr ctx"
  shows "(zx_isOperator ctx \<longleftrightarrow> ''operator:'' \<in> set (zx_subjects ctx)) \<and>
    (zx_isOperator ctx \<longrightarrow> vc_principalType claims = Some ControlAdminPrincipal \<and>
       (\<exists>g. vc_authGeneration claims = Some g \<and> active_admin cast db (canonical_sub claims) g) \<and>
       (\<forall>b. vc_brokeredAuthority claims = Some b \<longrightarrow> zx_desktopUserId ctx = Some (br_desktopUserId b) \<and>
          (\<exists>ug lineage lg. br_desktopUserGeneration b = Some ug \<and> active_user cast db (br_desktopUserId b) ug \<and>
             br_linkLineageId b = Some lineage \<and> br_linkGeneration b = Some lg \<and>
             active_link cast db (br_desktopUserId b) (canonical_sub claims) lineage lg)))"
proof -
  have wf: "claims_wf claims" using verified_tokens_lemma [OF assms(1)] .
  have "\<not> is_host_sub ''operator:''" by (simp add: is_host_sub_def)
  note r = resolve_cases [OF assms(2)]
  show ?thesis
  proof (cases "vc_brokeredAuthority claims")
    case None
    from r [unfolded None option.case] show ?thesis
    proof (elim conjE disjE)
      assume "is_host_sub (vc_sub claims)" "zx_subjects ctx = [vc_sub claims]" "\<not> zx_isOperator ctx"
      then show ?thesis using \<open>\<not> is_host_sub ''operator:''\<close> by (cases "vc_sub claims = ''operator:''") simp_all
    next
      assume "zx_subjects ctx = [''operator:'']" "zx_isOperator ctx" "vc_principalType claims = Some ControlAdminPrincipal"
        "\<exists>g. vc_authGeneration claims = Some g \<and> active_admin cast db (canonical_sub claims) g"
      then show ?thesis using None by simp
    next
      assume no: "\<not> zx_isOperator ctx" and
        "\<exists>teams. read_teams cast db (canonical_sub claims) = Inr teams \<and>
           set (zx_subjects ctx) = insert (''user:'' @ canonical_sub claims) ((\<lambda>t. ''team:'' @ t) ` set teams)"
      then obtain teams where
        "set (zx_subjects ctx) = insert (''user:'' @ canonical_sub claims) ((\<lambda>t. ''team:'' @ t) ` set teams)"
        by blast
      then have "''operator:'' \<notin> set (zx_subjects ctx)" by (simp add: image_iff)
      then show ?thesis using no by simp
    qed
  next
    case (Some b)
    then have "resolve_linked_admin cast db claims b (canonical_sub claims) rid = Inr ctx" using r by simp
    note l = linked_admin_current [OF this]
    have w: "vc_principalType claims = Some ControlAdminPrincipal" "uuid_in_lower_case (br_desktopUserId b)"
      using wf Some by (simp_all add: claims_wf_def brokered_wf_def)
    then have "(if is_uuid (br_desktopUserId b) then js_lower (br_desktopUserId b) else br_desktopUserId b) = br_desktopUserId b"
      by (simp add: uuid_in_lower_case_def)
    then show ?thesis using l w(1) Some by (auto simp: link_current_def)
  qed
qed

text \<open>C7: a verified caller gets what the store grants its current subjects. Take a token that passes verification
  and resolves to a principal without operator authority, and a reader after any run, in which every change has been
  announced or the connection is known to be lost and no decision is cached that was read before a change and
  stored after its announcement. A call of the principal served without interruption allows exactly what the store
  grants its subjects, and those are the host itself or an active user with its current teams. Team ids are
  uuids, as their column says; callers with the same subjects ask for a resource under one drive, and the database
  tells uuids apart by their hexadecimal digits.\<close>

theorem verified_caller_gets_current_access:
  assumes "uuid_conversion cast" and "reach reader_initial (reader_step collate cast home) r"
    and "rd_unheard r = 0 \<or> dc_bypassed (rd_cache r)" and "\<not> rd_overtaken r" and "undisturbed (rd_store r) w"
    and "verify_gfs_token jwt_decode jwt_verify token opts = Inr claims"
    and "resolve_authz_context cast db claims rid = Inr ctx" and "\<not> zx_isOperator ctx"
    and "\<forall>m\<in>set (id_members db). is_uuid (tm_teamId m)" and "names_drive home ctx requests"
    and "authorize_many collate cast w ctx requests (Some (rd_cache r)) = (c', log, Inr ds)"
  shows "list_all2 (\<lambda>req dec. gd_allowed dec \<longleftrightarrow>
           may_access cast (rd_store r) (vc_drive claims) (zx_subjects ctx) req) requests ds \<and>
    (zx_subjects ctx = [vc_sub claims] \<and> is_host_sub (vc_sub claims) \<or>
     (\<exists>g u teams. vc_authGeneration claims = Some g \<and> active_user cast db (canonical_sub claims) g \<and>
        cast (canonical_sub claims) = Some u \<and>
        teams = {tm_teamId m |m. m \<in> set (id_members db) \<and> tm_userId m = u \<and> tm_status m = ''active''} \<and>
        set (zx_subjects ctx) = insert (''user:'' @ canonical_sub claims) ((\<lambda>t. ''team:'' @ t) ` teams)))"
proof -
  have drive: "zx_drive ctx = vc_drive claims" using resolve_cases [OF assms(7)] by blast
  note rc = resolve_cases [OF assms(7), THEN conjunct2]
  have none: "vc_brokeredAuthority claims = None"
  proof (cases "vc_brokeredAuthority claims")
    case (Some b)
    then have "resolve_linked_admin cast db claims b (canonical_sub claims) rid = Inr ctx" using rc by simp
    then show ?thesis using linked_admin_current assms(8) by blast
  qed simp
  have teams: "\<exists>u. cast (canonical_sub claims) = Some u \<and>
      set ts = {tm_teamId m |m. m \<in> set (id_members db) \<and> tm_userId m = u \<and> tm_status m = ''active''}"
    if "read_teams cast db (canonical_sub claims) = Inr ts" for ts
    using that unfolding read_teams_def by (auto split: sum.splits dest!: query_keyD)
  have plain: "\<forall>m\<in>set (id_members db). CHR '','' \<notin> set (tm_teamId m) \<and> NUL \<notin> set (tm_teamId m)"
    using assms(9) plain_uuid by (simp add: plain_text_def)
  have served: "list_all2 (\<lambda>req dec. gd_allowed dec \<longleftrightarrow>
      may_access cast (rd_store r) (vc_drive claims) (zx_subjects ctx) req) requests ds"
    using current_answers [OF assms(1-5) resolved_subjects_plain [OF assms(7) plain] assms(10,11)] assms(8) drive by simp
  from rc [unfolded none option.case] show ?thesis
  proof (elim conjE disjE exE)
    assume "is_host_sub (vc_sub claims)" "zx_subjects ctx = [vc_sub claims]"
    then show ?thesis using served by simp
  next
    fix g ts assume u: "vc_authGeneration claims = Some g" "active_user cast db (canonical_sub claims) g"
      "read_teams cast db (canonical_sub claims) = Inr ts"
      "set (zx_subjects ctx) = insert (''user:'' @ canonical_sub claims) ((\<lambda>t. ''team:'' @ t) ` set ts)"
    from teams [OF u(3)] show ?thesis using served u by blast
  qed (use assms(8) in blast)
qed

section \<open>Concrete instances\<close>

definition demo_uuid :: string where
  "demo_uuid = ''0000000a-0000-4000-8000-00000000000b''"

definition demo_team_id :: string where
  "demo_team_id = ''0000000c-0000-4000-8000-00000000000d''"

definition token_cast :: "string \<Rightarrow> string option" where
  "token_cast s = (if s = ''r1'' \<or> s = demo_uuid then Some s else None)"

lemma token_cast_uuid: "uuid_conversion token_cast"
proof -
  have "resource_lookup_key ''r1'' \<noteq> resource_lookup_key demo_uuid" "NUL \<notin> set demo_uuid" by code_simp+
  then show ?thesis by (auto simp add: uuid_conversion_def token_cast_def NUL_def)
qed

definition demo_payload :: "string \<Rightarrow> json" where
  "demo_payload ptype =
     JObj [(''sub'', JStr demo_uuid), (''drive'', JStr ''d1''), (''scopes'', JArr [JStr ''gfs.read'']),
           (''iat'', JInt 1), (''exp'', JInt 2), (''principalType'', JStr ptype), (''authGeneration'', JInt 3)]"

definition demo_identities :: identity_db where
  "demo_identities =
     \<lparr>id_admins = [\<lparr>ad_id = demo_uuid, ad_status = ''active'', ad_sessionVersion = DbInt 3\<rparr>],
      id_users = [\<lparr>us_id = demo_uuid, us_lifecycleState = ''active'', us_lifecycleVersion = DbText ''3''\<rparr>],
      id_links = [], id_members = [\<lparr>tm_teamId = demo_team_id, tm_userId = demo_uuid, tm_status = ''active''\<rparr>],
      id_up = (\<lambda>_. True)\<rparr>"

definition demo_options :: verify_options where
  "demo_options = \<lparr>vo_keyId = ''k'', vo_publicKey = ''pem'', vo_audience = ''gfs'', vo_issuer = None\<rparr>"

definition demo_verify :: "string \<Rightarrow> gfs_auth_error + verified_claims" where
  "demo_verify ptype =
     verify_gfs_token (\<lambda>_. Some (JObj [(''kid'', JStr ''k'')])) (\<lambda>_ _ _ _. Inr (demo_payload ptype)) ''t'' demo_options"

definition demo_claims :: "string \<Rightarrow> verified_claims" where
  "demo_claims ptype =
     \<lparr>vc_sub = demo_uuid, vc_drive = ''d1'', vc_scopes = [''gfs.read''], vc_pathBindings = [],
      vc_authGeneration = Some 3, vc_brokeredAuthority = None,
      vc_principalType = Some (if ptype = ''user'' then UserPrincipal else ControlAdminPrincipal), vc_iat = 1, vc_exp = 2\<rparr>"

lemma demo_verified:
  "demo_verify ''user'' = Inr (demo_claims ''user'')" "demo_verify ''control-admin'' = Inr (demo_claims ''control-admin'')"
  by code_simp+

lemma verified_tokens_are_well_formed_witness: "claims_wf (demo_claims ''user'')"
  by (rule verified_tokens_are_well_formed [THEN conjunct1, OF demo_verified(1) [unfolded demo_verify_def]])

lemma operator_authority_is_current_witness: "\<exists>g. active_admin token_cast demo_identities demo_uuid g"
proof -
  have ok: "case resolve_authz_context token_cast demo_identities (demo_claims ''control-admin'') None of
      Inl _ \<Rightarrow> False | Inr ctx \<Rightarrow> zx_isOperator ctx"
    by code_simp
  then obtain ctx where
    "resolve_authz_context token_cast demo_identities (demo_claims ''control-admin'') None = Inr ctx" "zx_isOperator ctx"
    by (auto split: sum.splits)
  moreover have "canonical_sub (demo_claims ''control-admin'') = demo_uuid" by code_simp
  ultimately show ?thesis
    using operator_authority_is_current [OF demo_verified(2) [unfolded demo_verify_def], of token_cast demo_identities None ctx]
    by auto
qed

definition demo_principal :: authz_context where
  "demo_principal =
     \<lparr>zx_drive = ''d1'', zx_subjects = [''user:'' @ demo_uuid, ''team:'' @ demo_team_id], zx_isOperator = False,
      zx_primarySubject = demo_uuid, zx_requestId = None, zx_desktopUserId = Some demo_uuid,
      zx_effectiveControlAdminId = None, zx_authoritySource = Some ''user-session''\<rparr>"

definition team_store :: gfs_store where
  "team_store = demo_store [demo_acl\<lparr>al_subjectType := ''team'', al_subjectId := Some demo_team_id\<rparr>]"

lemma verified_caller_gets_current_access_witness:
  "may_access token_cast team_store ''d1'' [''user:'' @ demo_uuid, ''team:'' @ demo_team_id] demo_req"
proof -
  let ?r = "\<lparr>rd_store = team_store, rd_cache = demo_cache, rd_unheard = 0, rd_flights = [], rd_overtaken = False\<rparr>"
  let ?allowed = "allowed_by ViaGrant (Some (''team:'' @ demo_team_id)) DirectGrant"
  have drive: "vc_drive (demo_claims ''user'') = ''d1''" by (simp add: demo_claims_def)
  have reach: "reach reader_initial (reader_step demo_collate token_cast demo_home) ?r"
    by (rule reach_initial) (simp add: reader_initial_def demo_cache_def)
  have ctx: "resolve_authz_context token_cast demo_identities (demo_claims ''user'') None = Inr demo_principal"
    by code_simp
  have run: "snd (snd (authorize_many demo_collate token_cast (demo_world team_store 1 id) demo_principal [demo_req]
      (Some (rd_cache ?r)))) = Inr [?allowed]"
    by code_simp
  obtain c' log where run: "authorize_many demo_collate token_cast (demo_world team_store 1 id) demo_principal [demo_req]
      (Some (rd_cache ?r)) = (c', log, Inr [?allowed])"
    using run by (metis prod.collapse)
  have calm: "undisturbed (rd_store ?r) (demo_world team_store 1 id)" by (simp add: undisturbed_def demo_world_def)
  have team: "is_uuid demo_team_id" by code_simp
  have named: "names_drive demo_home demo_principal [demo_req]" by (simp add: names_drive_def demo_home_def demo_principal_def)
  from verified_caller_gets_current_access [OF token_cast_uuid reach _ _ calm demo_verified(1) [unfolded demo_verify_def]
      ctx _ _ named run] team show ?thesis
    by (simp add: demo_principal_def demo_identities_def drive allowed_by_def)
qed

end
