(* ===== verification/GfsLimits.thy ===== *)
theory GfsLimits
  imports Prelude
begin

text \<open>
  Quotas of the file service, \<open>gfs-controller/src/quota\<close>: the sliding-window rate limiter
  (\<open>rateLimit.ts\<close>) and the byte and object ceilings (\<open>bytes.ts\<close>, \<open>objects.ts\<close>). The clock reading is an
  argument. The limiter, with its lazily advanced head, compaction and periodic sweep, is shown
  equivalent to a reference that keeps every accepted hit and counts those inside the window.
\<close>

section \<open>Quotas\<close>

datatype quota_error = ByteQuotaExceeded int int int | ObjectQuotaExceeded int int int | RateLimited int

definition assert_byte_quota :: "int \<Rightarrow> int \<Rightarrow> int \<Rightarrow> quota_error option" where
  "assert_byte_quota currentBytes delta lim =
     (if lim \<ge> 0 \<and> currentBytes + delta > lim then Some (ByteQuotaExceeded currentBytes delta lim) else None)"

definition assert_object_quota :: "int \<Rightarrow> int \<Rightarrow> int \<Rightarrow> quota_error option" where
  "assert_object_quota currentCount addCount lim =
     (if lim \<ge> 0 \<and> currentCount + addCount > lim then Some (ObjectQuotaExceeded currentCount addCount lim) else None)"

section \<open>The rate limiter\<close>

record subject_window =
  sw_times :: "instant list"
  sw_head :: nat

record rate_limiter =
  rl_hits :: "(string, subject_window) js_map"
  rl_limit :: nat
  rl_windowMs :: millis
  rl_lastSweep :: instant

definition new_rate_limiter :: "nat \<Rightarrow> millis \<Rightarrow> instant \<Rightarrow> rate_limiter option" where
  "new_rate_limiter lim windowMs now =
     (if \<not> lim > 0 \<or> \<not> windowMs > 0 then None
      else Some \<lparr>rl_hits = [], rl_limit = lim, rl_windowMs = windowMs, rl_lastSweep = now\<rparr>)"

text \<open>The sweep forgets each subject whose newest hit has left the window; comparing a missing newest hit
  is false in the source.\<close>

definition swept :: "instant \<Rightarrow> subject_window \<Rightarrow> bool" where
  "swept cutoff w \<longleftrightarrow> sw_times w \<noteq> [] \<and> last (sw_times w) \<le> cutoff"

definition evict_expired :: "instant \<Rightarrow> instant \<Rightarrow> rate_limiter \<Rightarrow> rate_limiter" where
  "evict_expired now cutoff r =
     (if now - rl_lastSweep r < rl_windowMs r then r
      else r\<lparr>rl_hits := filter (\<lambda>(s, w). \<not> swept cutoff w) (rl_hits r), rl_lastSweep := now\<rparr>)"

text \<open>\<open>while (head < times.length && times[head] <= cutoff) head += 1\<close>.\<close>

function advance_head :: "instant \<Rightarrow> instant list \<Rightarrow> nat \<Rightarrow> nat" where
  "advance_head cutoff hs head =
     (if head < length hs \<and> hs ! head \<le> cutoff then advance_head cutoff hs (head + 1) else head)"
  by pat_completeness auto

termination
  by (relation "measure (\<lambda>(cutoff, hs, head). length hs - head)") auto

declare advance_head.simps [simp del]

definition compact :: "subject_window \<Rightarrow> subject_window" where
  "compact w =
     (if sw_head w > 0 \<and> sw_head w * 2 \<ge> length (sw_times w)
      then \<lparr>sw_times = drop (sw_head w) (sw_times w), sw_head = 0\<rparr> else w)"

definition ceil_seconds :: "millis \<Rightarrow> int" where
  "ceil_seconds ms = - ((- ms) div 1000)"

definition check :: "string \<Rightarrow> instant \<Rightarrow> rate_limiter \<Rightarrow> rate_limiter \<times> quota_error option" where
  "check subject now r0 =
     (let cutoff = now - rl_windowMs r0;
          r = evict_expired now cutoff r0;
          w0 = (case js_get (rl_hits r) subject of None \<Rightarrow> \<lparr>sw_times = [], sw_head = 0\<rparr> | Some w \<Rightarrow> w);
          w = compact (w0\<lparr>sw_head := advance_head cutoff (sw_times w0) (sw_head w0)\<rparr>)
      in if length (sw_times w) - sw_head w \<ge> rl_limit r then
           (r\<lparr>rl_hits := js_set subject w (rl_hits r)\<rparr>,
            Some (RateLimited
              (min (ceil_seconds (rl_windowMs r))
                 (max 1 (ceil_seconds (sw_times w ! sw_head w + rl_windowMs r - now))))))
         else (r\<lparr>rl_hits := js_set subject (w\<lparr>sw_times := sw_times w @ [now]\<rparr>) (rl_hits r)\<rparr>, None))"

text \<open>The limiters of the agents' reads and writes: one-minute windows.\<close>

definition build_agent_rate_limits :: "nat \<Rightarrow> nat \<Rightarrow> instant \<Rightarrow> rate_limiter option \<times> rate_limiter option" where
  "build_agent_rate_limits readsPerMin writesPerMin now =
     (new_rate_limiter readsPerMin 60000 now, new_rate_limiter writesPerMin 60000 now)"

text \<open>A run of checks: the answers, oldest first.\<close>

fun check_all :: "(string \<times> instant) list \<Rightarrow> rate_limiter \<Rightarrow> rate_limiter \<times> quota_error option list" where
  "check_all [] r = (r, [])"
| "check_all ((s, now) # cs) r =
     (let (r1, a) = check s now r; (r2, as) = check_all cs r1 in (r2, a # as))"

section \<open>The reference\<close>

text \<open>Accepted hits so far, oldest first; a hit is accepted when fewer than the limit of the subject's
  accepted hits lie inside the window.\<close>

definition hits_of :: "string \<Rightarrow> (string \<times> instant) list \<Rightarrow> instant list" where
  "hits_of s h = map snd (filter (\<lambda>p. fst p = s) h)"

definition in_window :: "millis \<Rightarrow> instant \<Rightarrow> string \<Rightarrow> (string \<times> instant) list \<Rightarrow> instant list" where
  "in_window windowMs now s h = filter (\<lambda>t. now - windowMs < t) (hits_of s h)"

fun reference_run :: "nat \<Rightarrow> millis \<Rightarrow> (string \<times> instant) list \<Rightarrow> (string \<times> instant) list \<Rightarrow> bool list" where
  "reference_run lim windowMs [] h = []"
| "reference_run lim windowMs ((s, now) # cs) h =
     (let ok = length (in_window windowMs now s h) < lim
      in ok # reference_run lim windowMs cs (if ok then h @ [(s, now)] else h))"

section \<open>The window a limiter keeps\<close>

lemma advance_head_bounds: "head \<le> length hs \<Longrightarrow> advance_head c hs head \<le> length hs"
  by (induction c hs head rule: advance_head.induct) (subst advance_head.simps, auto)

lemma advance_head_drop:
  "drop (advance_head c hs head) hs = dropWhile (\<lambda>t. t \<le> c) (drop head hs)"
proof (induction c hs head rule: advance_head.induct)
  case (1 c hs head)
  show ?case
  proof (cases "head < length hs")
    case True
    then have "drop head hs = hs ! head # drop (Suc head) hs" by (rule Cons_nth_drop_Suc [symmetric])
    then show ?thesis using 1 True by (subst advance_head.simps) simp
  next
    case False
    then show ?thesis by (subst advance_head.simps) simp
  qed
qed

text \<open>The hits a window still counts.\<close>

definition live_hits :: "subject_window \<Rightarrow> instant list" where
  "live_hits w = drop (sw_head w) (sw_times w)"

lemma live_compact [simp]: "live_hits (compact w) = live_hits w"
  by (simp add: live_hits_def compact_def)

lemma head_compact: "sw_head w \<le> length (sw_times w) \<Longrightarrow> sw_head (compact w) \<le> length (sw_times (compact w))"
  by (simp add: compact_def)

definition kept :: "rate_limiter \<Rightarrow> string \<Rightarrow> instant list" where
  "kept r s = (case js_get (rl_hits r) s of None \<Rightarrow> [] | Some w \<Rightarrow> live_hits w)"

text \<open>The limiter at time \<open>now\<close> stands for the accepted hits \<open>h\<close>: of each subject it keeps a suffix that
  has all hits still inside the window.\<close>

definition stands_for :: "rate_limiter \<Rightarrow> instant \<Rightarrow> (string \<times> instant) list \<Rightarrow> bool" where
  "stands_for r now h \<longleftrightarrow>
     js_distinct (rl_hits r) \<and>
     (\<forall>s w. js_get (rl_hits r) s = Some w \<longrightarrow> sw_head w \<le> length (sw_times w)) \<and>
     (\<forall>s. \<exists>old. hits_of s h = old @ kept r s \<and> (\<forall>t\<in>set old. t \<le> now - rl_windowMs r)) \<and>
     (\<forall>s. sorted (hits_of s h)) \<and> (\<forall>s. \<forall>t\<in>set (hits_of s h). t \<le> now)"

lemma dropWhile_sorted: "sorted xs \<Longrightarrow> dropWhile (\<lambda>t. t \<le> (c :: int)) xs = filter (\<lambda>t. c < t) xs"
  by (induction xs) (auto simp: filter_id_conv intro!: filter_True [symmetric])

lemma stands_for_window:
  assumes "stands_for r now h" and "now \<le> now'"
  shows "dropWhile (\<lambda>t. t \<le> now' - rl_windowMs r) (kept r s) = in_window (rl_windowMs r) now' s h"
proof -
  obtain old where o: "hits_of s h = old @ kept r s" "\<forall>t\<in>set old. t \<le> now - rl_windowMs r"
    using assms(1) unfolding stands_for_def by blast
  have "sorted (hits_of s h)" using assms(1) unfolding stands_for_def by blast
  then have "sorted (kept r s)" using o(1) by (simp add: sorted_append)
  moreover have "filter (\<lambda>t. now' - rl_windowMs r < t) old = []" using o(2) assms(2) by (auto simp: filter_empty_conv)
  ultimately show ?thesis using o(1) by (simp add: in_window_def dropWhile_sorted)
qed

section \<open>One check\<close>

lemma stands_for_mono: "stands_for r now h \<Longrightarrow> now \<le> now' \<Longrightarrow> stands_for r now' h"
  unfolding stands_for_def by (meson diff_right_mono order_trans)

lemma js_get_filter:
  "js_distinct m \<Longrightarrow> js_get (filter (\<lambda>(k, v). P v) m) k = (case js_get m k of None \<Rightarrow> None | Some v \<Rightarrow> if P v then Some v else None)"
  by (induction m) (auto simp: map_of_eq_None_iff split: option.splits)

lemma kept_last: "sw_head w \<le> length (sw_times w) \<Longrightarrow> live_hits w \<noteq> [] \<Longrightarrow> last (live_hits w) = last (sw_times w)"
  by (simp add: live_hits_def)

lemma sorted_le_last: "sorted xs \<Longrightarrow> x \<in> set xs \<Longrightarrow> x \<le> last xs"
  by (induction xs) (auto split: if_splits)

lemma evict_stands_for:
  assumes "stands_for r now h" and "cutoff = now - rl_windowMs r"
  shows "stands_for (evict_expired now cutoff r) now h \<and> rl_windowMs (evict_expired now cutoff r) = rl_windowMs r \<and>
         rl_limit (evict_expired now cutoff r) = rl_limit r"
proof -
  let ?r = "r\<lparr>rl_hits := filter (\<lambda>(s, w). \<not> swept cutoff w) (rl_hits r), rl_lastSweep := now\<rparr>"
  note st = assms(1) [unfolded stands_for_def]
  have get: "js_get (rl_hits ?r) s = (case js_get (rl_hits r) s of None \<Rightarrow> None
      | Some w \<Rightarrow> if \<not> swept cutoff w then Some w else None)" for s
    using st js_get_filter [of "rl_hits r" "\<lambda>w. \<not> swept cutoff w" s] by simp
  have "\<exists>old. hits_of s h = old @ kept ?r s \<and> (\<forall>t\<in>set old. t \<le> cutoff)" for s
  proof -
    obtain old where o: "hits_of s h = old @ kept r s" "\<forall>t\<in>set old. t \<le> cutoff" using st assms(2) by blast
    show ?thesis
    proof (cases "js_get (rl_hits r) s")
      case None
      then show ?thesis using o get [of s] by (auto simp: kept_def)
    next
      case (Some w)
      show ?thesis
      proof (cases "swept cutoff w")
        case True
        have "\<forall>t\<in>set (kept r s). t \<le> cutoff"
        proof (cases "live_hits w = []")
          case False
          have "sorted (kept r s)" using st o(1) by (metis sorted_append)
          moreover have "last (kept r s) \<le> cutoff"
            using True False Some st kept_last [of w] by (auto simp: swept_def kept_def)
          ultimately show ?thesis using sorted_le_last by fastforce
        qed (use Some in \<open>simp add: kept_def\<close>)
        then show ?thesis using o True Some get [of s]
          by (intro exI [of _ "hits_of s h"]) (auto simp: kept_def)
      next
        case False
        then show ?thesis using o Some get [of s] by (auto simp: kept_def)
      qed
    qed
  qed
  moreover have "js_distinct (rl_hits ?r)" using st by (simp add: distinct_map_filter)
  moreover have "\<forall>s w. js_get (rl_hits ?r) s = Some w \<longrightarrow> sw_head w \<le> length (sw_times w)"
    using st get by (auto split: option.splits if_splits)
  ultimately have "stands_for ?r now h" using st assms(2) unfolding stands_for_def by simp
  then show ?thesis using assms(1) by (simp add: evict_expired_def)
qed

lemma stands_for_put:
  assumes "stands_for r now h" and "sw_head w \<le> length (sw_times w)"
    and "hits_of s h' = old @ live_hits w" and "\<forall>t\<in>set old. t \<le> now - rl_windowMs r"
    and "\<forall>s'. s' \<noteq> s \<longrightarrow> hits_of s' h' = hits_of s' h"
    and "sorted (hits_of s h')" and "\<forall>t\<in>set (hits_of s h'). t \<le> now"
  shows "stands_for (r\<lparr>rl_hits := js_set s w (rl_hits r)\<rparr>) now h'"
proof -
  have each: "sorted (hits_of s' h') \<and> (\<forall>t\<in>set (hits_of s' h'). t \<le> now)" for s'
    using assms(1,5-7) unfolding stands_for_def by (cases "s' = s") auto
  have "\<exists>old. hits_of s' h' = old @ kept (r\<lparr>rl_hits := js_set s w (rl_hits r)\<rparr>) s' \<and>
      (\<forall>t\<in>set old. t \<le> now - rl_windowMs r)" for s'
  proof (cases "s' = s")
    case True
    then show ?thesis using assms(3,4) by (auto simp: kept_def)
  next
    case False
    then show ?thesis using assms(1,5) unfolding stands_for_def by (simp add: kept_def)
  qed
  then show ?thesis using each assms(1,2) unfolding stands_for_def by simp
qed

lemma check_simulates:
  fixes s :: string
  assumes "stands_for r now0 h" and "now0 \<le> now" and "0 < rl_limit r"
  defines "win \<equiv> in_window (rl_windowMs r) now s h"
  shows "(snd (check s now r) = None \<longleftrightarrow> length win < rl_limit r) \<and>
    (length win \<ge> rl_limit r \<longrightarrow> snd (check s now r) = Some (RateLimited (min (ceil_seconds (rl_windowMs r))
        (max 1 (ceil_seconds (hd win + rl_windowMs r - now)))))) \<and>
    stands_for (fst (check s now r)) now (if length win < rl_limit r then h @ [(s, now)] else h) \<and>
    rl_limit (fst (check s now r)) = rl_limit r \<and> rl_windowMs (fst (check s now r)) = rl_windowMs r"
proof -
  let ?c = "now - rl_windowMs r"
  define r1 where "r1 = evict_expired now ?c r"
  have r1: "stands_for r1 now h" "rl_windowMs r1 = rl_windowMs r" "rl_limit r1 = rl_limit r"
    using evict_stands_for [OF stands_for_mono [OF assms(1,2)] refl] by (simp_all add: r1_def)
  define w0 where "w0 = (case js_get (rl_hits r1) s of None \<Rightarrow> \<lparr>sw_times = [], sw_head = 0\<rparr> | Some w \<Rightarrow> w)"
  define w where "w = compact (w0\<lparr>sw_head := advance_head ?c (sw_times w0) (sw_head w0)\<rparr>)"
  have w0: "sw_head w0 \<le> length (sw_times w0)" "live_hits w0 = kept r1 s"
    using r1(1) by (auto simp: w0_def stands_for_def kept_def live_hits_def split: option.splits)
  have live: "live_hits w = win"
    using stands_for_window [OF r1(1) order_refl, of s] w0(2) r1(2)
    by (simp add: w_def win_def live_hits_def [of "w0\<lparr>sw_head := _\<rparr>"] advance_head_drop) (simp add: live_hits_def)
  have head: "sw_head w \<le> length (sw_times w)"
    unfolding w_def by (rule head_compact) (use advance_head_bounds [OF w0(1)] in simp)
  have len: "length (sw_times w) - sw_head w = length win" using live [symmetric] by (simp add: live_hits_def)
  have check: "check s now r = (if length win \<ge> rl_limit r
      then (r1\<lparr>rl_hits := js_set s w (rl_hits r1)\<rparr>, Some (RateLimited (min (ceil_seconds (rl_windowMs r))
             (max 1 (ceil_seconds (sw_times w ! sw_head w + rl_windowMs r - now))))))
      else (r1\<lparr>rl_hits := js_set s (w\<lparr>sw_times := sw_times w @ [now]\<rparr>) (rl_hits r1)\<rparr>, None))"
    by (simp add: check_def Let_def r1_def [symmetric] w0_def [symmetric] w_def [symmetric] r1(2,3) len)
  obtain old where old: "hits_of s h = old @ win" "\<forall>t\<in>set old. t \<le> now - rl_windowMs r"
  proof -
    obtain o1 where o1: "hits_of s h = o1 @ kept r1 s" "\<forall>t\<in>set o1. t \<le> ?c"
      using r1 unfolding stands_for_def by metis
    have "win = dropWhile (\<lambda>t. t \<le> ?c) (kept r1 s)" using stands_for_window [OF r1(1) order_refl, of s] r1(2) win_def by simp
    then have "hits_of s h = (o1 @ takeWhile (\<lambda>t. t \<le> ?c) (kept r1 s)) @ win" using o1(1) by simp
    moreover have "\<forall>t\<in>set (o1 @ takeWhile (\<lambda>t. t \<le> ?c) (kept r1 s)). t \<le> ?c" using o1(2) by (auto dest: set_takeWhileD)
    ultimately show thesis using that by blast
  qed
  have hs: "sorted (hits_of s h)" "\<forall>t\<in>set (hits_of s h). t \<le> now" using r1(1) unfolding stands_for_def by blast+
  show ?thesis
  proof (cases "length win < rl_limit r")
    case True
    have "stands_for (r1\<lparr>rl_hits := js_set s (w\<lparr>sw_times := sw_times w @ [now]\<rparr>) (rl_hits r1)\<rparr>) now (h @ [(s, now)])"
      by (rule stands_for_put [OF r1(1), of _ _ _ old])
        (use head live old hs r1(2) in \<open>auto simp: hits_of_def live_hits_def sorted_append\<close>)
    then show ?thesis using True check r1 by simp
  next
    case False
    have "stands_for (r1\<lparr>rl_hits := js_set s w (rl_hits r1)\<rparr>) now h"
      by (rule stands_for_put [OF r1(1) head, of _ _ old]) (use live old hs r1(2) in auto)
    moreover have "sw_times w ! sw_head w = hd win"
    proof -
      have "win \<noteq> []" using False assms(3) by auto
      then show ?thesis using live by (auto simp: live_hits_def hd_drop_conv_nth)
    qed
    ultimately show ?thesis using False check r1 by simp
  qed
qed

text \<open>No window, now or later, holds more than the limit of accepted hits.\<close>

definition within_budget :: "nat \<Rightarrow> millis \<Rightarrow> instant \<Rightarrow> (string \<times> instant) list \<Rightarrow> bool" where
  "within_budget lim windowMs now h \<longleftrightarrow>
     (\<forall>s later. now \<le> later \<longrightarrow> length (in_window windowMs later s h) \<le> lim)"

lemma in_window_mono: "now \<le> later \<Longrightarrow> length (in_window windowMs later s h) \<le> length (in_window windowMs now s h)"
proof -
  assume "now \<le> later"
  then have "in_window windowMs later s h = filter (\<lambda>t. later - windowMs < t) (in_window windowMs now s h)"
    by (auto simp: in_window_def intro!: filter_cong)
  then show ?thesis by (metis length_filter_le)
qed

lemma in_window_accept:
  "in_window windowMs later s' (h @ [(s, now)]) =
     in_window windowMs later s' h @ (if s' = s \<and> later - windowMs < now then [now] else [])"
  by (simp add: in_window_def hits_of_def)

lemma within_budget_step:
  assumes "within_budget lim windowMs now0 h" and "now0 \<le> now"
  shows "within_budget lim windowMs now (if length (in_window windowMs now s h) < lim then h @ [(s, now)] else h)"
proof -
  have "length (in_window windowMs later s' (h @ [(s, now)])) \<le> lim"
    if "length (in_window windowMs now s h) < lim" "now \<le> later" for s' later
  proof (cases "s' = s")
    case True
    then show ?thesis using that in_window_mono [OF that(2), of windowMs s h] by (simp add: in_window_accept)
  next
    case False
    then show ?thesis using assms that(2) by (simp add: in_window_accept within_budget_def)
  qed
  then show ?thesis using assms by (simp add: within_budget_def)
qed

lemma new_stands_for: "new_rate_limiter lim windowMs t0 = Some r \<Longrightarrow>
    stands_for r t0 [] \<and> within_budget lim windowMs t0 [] \<and> rl_limit r = lim \<and> rl_windowMs r = windowMs \<and> 0 < lim \<and> 0 < windowMs"
  by (auto simp: new_rate_limiter_def stands_for_def within_budget_def in_window_def hits_of_def kept_def split: if_splits)

lemma check_all_reference:
  assumes "stands_for r t0 h" and "sorted (t0 # map snd cs)" and "0 < rl_limit r"
    and "within_budget (rl_limit r) (rl_windowMs r) t0 h"
  shows "map (\<lambda>a. a = None) (snd (check_all cs r)) = reference_run (rl_limit r) (rl_windowMs r) cs h \<and>
    (\<exists>h' t. stands_for (fst (check_all cs r)) t h' \<and> t \<le> last (t0 # map snd cs) \<and>
       within_budget (rl_limit r) (rl_windowMs r) t h') \<and>
    rl_limit (fst (check_all cs r)) = rl_limit r \<and> rl_windowMs (fst (check_all cs r)) = rl_windowMs r"
  using assms
proof (induction cs arbitrary: r t0 h)
  case (Cons c cs)
  obtain s now where c: "c = (s, now)" by (cases c)
  have le: "t0 \<le> now" "sorted (now # map snd cs)" using Cons.prems(2) c by simp_all
  note step = check_simulates [OF Cons.prems(1) le(1) Cons.prems(3), of s]
  let ?h = "if length (in_window (rl_windowMs r) now s h) < rl_limit r then h @ [(s, now)] else h"
  have "stands_for (fst (check s now r)) now ?h" "0 < rl_limit (fst (check s now r))"
    "within_budget (rl_limit (fst (check s now r))) (rl_windowMs (fst (check s now r))) now ?h"
    using step Cons.prems(3) within_budget_step [OF Cons.prems(4) le(1)] by auto
  from Cons.IH [OF this(1) le(2) this(2,3)] show ?case
    using step by (auto simp: c case_prod_beta Let_def)
qed auto

lemma ceil_seconds_le: "ms \<le> 1000 * n \<longleftrightarrow> ceil_seconds ms \<le> n"
proof -
  have "- ms = 1000 * ((- ms) div 1000) + (- ms) mod 1000" "0 \<le> (- ms) mod 1000" "(- ms) mod 1000 < 1000" by simp_all
  then show ?thesis unfolding ceil_seconds_def by linarith
qed

lemma ceil_seconds_mono: "a \<le> b \<Longrightarrow> ceil_seconds a \<le> ceil_seconds b"
  using ceil_seconds_le [of b "ceil_seconds b"] ceil_seconds_le [of a "ceil_seconds b"] by simp

section \<open>Properties\<close>

text \<open>C34: the limiter is a sliding-window counter: for any sequence of checks in time order, the answers
  of the limiter, with its lazily advanced head, its compaction and its periodic sweep, are those of
  the reference that keeps every accepted hit and accepts when fewer than the limit of them lie in
  the window.\<close>

theorem rate_limiter_equals_reference:
  assumes "new_rate_limiter lim windowMs t0 = Some r" and "sorted (t0 # map snd cs)"
  shows "map (\<lambda>a. a = None) (snd (check_all cs r)) = reference_run lim windowMs cs []"
  using check_all_reference [of r t0 "[]" cs] new_stands_for [OF assms(1)] assms(2) by auto

text \<open>The stated wait is enough and never longer than the window: after any checks in time order, a
  denied caller is told to wait at least one second and at most the window, and when it comes back
  after that wait it is admitted.\<close>

theorem denied_caller_is_admitted_after_the_stated_wait:
  assumes "new_rate_limiter lim windowMs t0 = Some r" and "sorted (t0 # map snd cs)"
    and "last (t0 # map snd cs) \<le> now" and "check s now (fst (check_all cs r)) = (r', Some e)"
  shows "\<exists>n. e = RateLimited n \<and> 1 \<le> n \<and> n \<le> ceil_seconds windowMs \<and>
           (\<forall>later \<ge> now + 1000 * n. snd (check s later r') = None)"
proof -
  let ?r = "fst (check_all cs r)"
  have new: "stands_for r t0 []" "within_budget lim windowMs t0 []" "rl_limit r = lim" "rl_windowMs r = windowMs" "0 < lim" "0 < windowMs"
    using new_stands_for [OF assms(1)] by simp_all
  obtain h t where h: "stands_for ?r t h" "t \<le> now" "within_budget lim windowMs t h"
    and p: "rl_limit ?r = lim" "rl_windowMs ?r = windowMs"
    using check_all_reference [OF new(1) assms(2)] new assms(3) by force
  let ?win = "in_window windowMs now s h"
  have step: "length ?win \<ge> lim" "e = RateLimited (min (ceil_seconds windowMs) (max 1 (ceil_seconds (hd ?win + windowMs - now))))"
    "stands_for r' now h" "rl_limit r' = lim" "rl_windowMs r' = windowMs"
    using check_simulates [OF h(1,2), of s] p new(5) assms(4) by (auto split: if_splits)
  let ?n = "min (ceil_seconds windowMs) (max 1 (ceil_seconds (hd ?win + windowMs - now)))"
  have ne: "?win \<noteq> []" using step(1) new(5) by auto
  have "\<forall>t\<in>set (hits_of s h). t \<le> now" using step(3) unfolding stands_for_def by blast
  then have hd: "hd ?win \<le> now" "now - windowMs < hd ?win"
    using hd_in_set [OF ne] by (auto simp: in_window_def)
  have one: "1 \<le> ceil_seconds windowMs" using new(6) ceil_seconds_le [of windowMs 0] by simp
  have n: "1 \<le> ?n" "?n \<le> ceil_seconds windowMs" using one by simp_all
  have wait: "hd ?win + windowMs - now \<le> 1000 * ?n"
    using ceil_seconds_mono [of "hd ?win + windowMs - now" windowMs] hd(1) by (simp add: ceil_seconds_le)
  have "snd (check s later r') = None" if "now + 1000 * ?n \<le> later" for later
  proof -
    have le: "now \<le> later" "hd ?win \<le> later - windowMs" using that n(1) wait by linarith+
    have "in_window windowMs later s h = filter (\<lambda>t. later - windowMs < t) (tl ?win)"
    proof -
      have "in_window windowMs later s h = filter (\<lambda>t. later - windowMs < t) ?win"
        using le(1) by (auto simp: in_window_def intro!: filter_cong)
      then show ?thesis using ne le(2) by (cases ?win) simp_all
    qed
    then have "length (in_window windowMs later s h) \<le> length (tl ?win)" by (metis length_filter_le)
    also have "\<dots> < length ?win" using ne by (cases ?win) simp_all
    finally have less: "length (in_window windowMs later s h) < length ?win" .
    have "length ?win \<le> lim" using h(2,3) by (simp add: within_budget_def)
    then show ?thesis
      using check_simulates [OF step(3) le(1), of s] step(4,5) new(5) less by auto
  qed
  then show ?thesis using step(2) n by blast
qed

section \<open>Concrete instances\<close>

definition demo_limiter :: rate_limiter where
  "demo_limiter = \<lparr>rl_hits = [], rl_limit = 1, rl_windowMs = 1500, rl_lastSweep = 0\<rparr>"

lemma demo_limiter_new: "new_rate_limiter 1 1500 0 = Some demo_limiter"
  by (simp add: new_rate_limiter_def demo_limiter_def)

lemma rate_limiter_equals_reference_witness:
  "map (\<lambda>a. a = None) (snd (check_all [(''a'', 10), (''b'', 20), (''a'', 30), (''a'', 1600)] demo_limiter)) =
     [True, True, False, True]"
proof -
  have "sorted (0 # map snd [(''a'', 10 :: int), (''b'', 20), (''a'', 30), (''a'', 1600)])" by simp
  from rate_limiter_equals_reference [OF demo_limiter_new this] show ?thesis
    by (simp add: in_window_def hits_of_def)
qed

lemma denied_caller_is_admitted_after_the_stated_wait_witness:
  "\<exists>n. snd (check ''a'' 30 (fst (check_all [(''a'', 10)] demo_limiter))) = Some (RateLimited n) \<and> 1 \<le> n \<and> n \<le> 2"
proof -
  have c: "ceil_seconds 1500 = 2" by (simp add: ceil_seconds_def)
  have "snd (check ''a'' 30 (fst (check_all [(''a'', 10)] demo_limiter))) = Some (RateLimited 2)" by code_simp
  then obtain r' where run: "check ''a'' 30 (fst (check_all [(''a'', 10)] demo_limiter)) = (r', Some (RateLimited 2))"
    by (metis prod.collapse)
  have "sorted (0 # map snd [(''a'', 10 :: int)])" "last (0 # map snd [(''a'', 10 :: int)]) \<le> 30" by simp_all
  from denied_caller_is_admitted_after_the_stated_wait [OF demo_limiter_new this run] show ?thesis
    using run c by auto
qed

end
