(* ===== verification/GfsAudit.thy ===== *)
theory GfsAudit
  imports Prelude
begin

text \<open>
  The hash chain of the audit log (\<open>gfs-controller/src/audit/chain.ts\<close>): rows, their hash, the next
  row and the verification of a chain. The hash function is the parameter \<open>H\<close> (SHA-256 in hex in the
  code). Absent and \<open>null\<close> fields are both \<open>None\<close>: the code reads them with \<open>??\<close> alone.
\<close>

section \<open>Rows and their hash\<close>

record audit_content =
  ac_subject :: string
  ac_actorOnBehalfOf :: "string option"
  ac_op :: string
  ac_gfsUri :: "string option"
  ac_outcome :: string
  ac_requestId :: "string option"

record audit_row = audit_content +
  aw_sequenceNo :: int
  aw_prevHash :: "string option"
  aw_rowHash :: string

definition text_or_blank :: "string option \<Rightarrow> string" where
  "text_or_blank v = (case v of None \<Rightarrow> [] | Some s \<Rightarrow> s)"

definition canonical_fields :: "int \<Rightarrow> string option \<Rightarrow> 'a audit_content_scheme \<Rightarrow> string list" where
  "canonical_fields sequenceNo prevHash c =
     [string_of_int sequenceNo, text_or_blank prevHash, ac_subject c, text_or_blank (ac_actorOnBehalfOf c), ac_op c,
      text_or_blank (ac_gfsUri c), ac_outcome c, text_or_blank (ac_requestId c)]"

definition hash_row :: "(string \<Rightarrow> string) \<Rightarrow> int \<Rightarrow> string option \<Rightarrow> 'a audit_content_scheme \<Rightarrow> string" where
  "hash_row H sequenceNo prevHash c = H (js_join NUL (canonical_fields sequenceNo prevHash c))"

definition append_row :: "(string \<Rightarrow> string) \<Rightarrow> audit_row option \<Rightarrow> audit_content \<Rightarrow> audit_row" where
  "append_row H prev content =
     (let sequenceNo = (case prev of None \<Rightarrow> 1 | Some p \<Rightarrow> aw_sequenceNo p + 1);
          prevHash = map_option aw_rowHash prev
      in audit_content.extend content
           \<lparr>aw_sequenceNo = sequenceNo, aw_prevHash = prevHash, aw_rowHash = hash_row H sequenceNo prevHash content\<rparr>)"

section \<open>Verification\<close>

datatype break_reason = SequenceGapOrReorder | PrevHashMismatch | RowHashMismatch

datatype chain_verification = ChainValid | ChainBroken int break_reason

fun verify_from :: "(string \<Rightarrow> string) \<Rightarrow> audit_row option \<Rightarrow> audit_row list \<Rightarrow> chain_verification" where
  "verify_from H prev [] = ChainValid"
| "verify_from H prev (row # rows) =
     (if aw_sequenceNo row \<noteq> (case prev of None \<Rightarrow> 1 | Some p \<Rightarrow> aw_sequenceNo p + 1)
      then ChainBroken (aw_sequenceNo row) SequenceGapOrReorder
      else if aw_prevHash row \<noteq> map_option aw_rowHash prev
      then ChainBroken (aw_sequenceNo row) PrevHashMismatch
      else if hash_row H (aw_sequenceNo row) (aw_prevHash row) row \<noteq> aw_rowHash row
      then ChainBroken (aw_sequenceNo row) RowHashMismatch
      else verify_from H (Some row) rows)"

definition verify_chain :: "(string \<Rightarrow> string) \<Rightarrow> audit_row list \<Rightarrow> chain_verification" where
  "verify_chain H rows = verify_from H None rows"

text \<open>The rows a writer appends for a list of contents, after the row \<open>prev\<close>.\<close>

fun written_after :: "(string \<Rightarrow> string) \<Rightarrow> audit_row option \<Rightarrow> audit_content list \<Rightarrow> audit_row list" where
  "written_after H prev [] = []"
| "written_after H prev (c # cs) = append_row H prev c # written_after H (Some (append_row H prev c)) cs"

text \<open>A row with its blank texts taken as absent.\<close>

definition blank_as_absent :: "string option \<Rightarrow> string option" where
  "blank_as_absent v = (if v = Some [] then None else v)"

definition unblanked :: "audit_row \<Rightarrow> audit_row" where
  "unblanked r = r\<lparr>ac_actorOnBehalfOf := blank_as_absent (ac_actorOnBehalfOf r), ac_gfsUri := blank_as_absent (ac_gfsUri r),
     ac_requestId := blank_as_absent (ac_requestId r)\<rparr>"

definition nul_free_row :: "audit_row \<Rightarrow> bool" where
  "nul_free_row r \<longleftrightarrow> NUL \<notin> set (ac_subject r) \<union> set (text_or_blank (ac_actorOnBehalfOf r)) \<union> set (ac_op r) \<union>
     set (text_or_blank (ac_gfsUri r)) \<union> set (ac_outcome r) \<union> set (text_or_blank (ac_requestId r))"

definition canonical_text :: "audit_row \<Rightarrow> string" where
  "canonical_text r = js_join NUL (canonical_fields (aw_sequenceNo r) (aw_prevHash r) r)"

definition collision_free :: "(string \<Rightarrow> string) \<Rightarrow> audit_row list \<Rightarrow> audit_row list \<Rightarrow> bool" where
  "collision_free H rows rows' \<longleftrightarrow>
     (\<forall>r\<in>set rows. \<forall>r'\<in>set rows'. H (canonical_text r) = H (canonical_text r') \<longrightarrow> canonical_text r = canonical_text r')"

section \<open>Lemmas\<close>

lemma append_row_fields [simp]:
  "aw_sequenceNo (append_row H prev c) = (case prev of None \<Rightarrow> 1 | Some p \<Rightarrow> aw_sequenceNo p + 1)"
  "aw_prevHash (append_row H prev c) = map_option aw_rowHash prev"
  "canonical_fields n h (append_row H prev c) = canonical_fields n h c"
  "aw_rowHash (append_row H prev c) = hash_row H (aw_sequenceNo (append_row H prev c)) (map_option aw_rowHash prev) c"
  by (simp_all add: append_row_def audit_content.defs canonical_fields_def Let_def)

lemma written_verifies: "verify_from H prev (written_after H prev cs) = ChainValid"
  by (induction H prev cs rule: written_after.induct) (simp_all add: hash_row_def)

lemma verify_from_prefix: "verify_from H prev (rows @ rest) = ChainValid \<Longrightarrow> verify_from H prev rows = ChainValid"
  by (induction H prev rows rule: verify_from.induct) (auto split: if_splits)

lemma verify_from_snoc:
  "verify_from H prev (rows @ [r]) = ChainValid \<longleftrightarrow>
     verify_from H prev rows = ChainValid \<and>
     aw_sequenceNo r = (case (if rows = [] then prev else Some (last rows)) of None \<Rightarrow> 1 | Some p \<Rightarrow> aw_sequenceNo p + 1) \<and>
     aw_prevHash r = map_option aw_rowHash (if rows = [] then prev else Some (last rows)) \<and>
     aw_rowHash r = H (canonical_text r)"
  by (induction H prev rows rule: verify_from.induct) (auto simp: hash_row_def canonical_text_def)

lemma verified_sequence:
  "verify_chain H rows = ChainValid \<Longrightarrow> rows \<noteq> [] \<Longrightarrow> aw_sequenceNo (last rows) = int (length rows)"
proof (induction rows rule: rev_induct)
  case (snoc r rows)
  then show ?case by (cases "rows = []") (auto simp: verify_chain_def verify_from_snoc split: if_splits)
qed simp

lemma verified_hashes:
  "verify_chain H rows = ChainValid \<Longrightarrow> r \<in> set rows \<Longrightarrow> aw_rowHash r = H (canonical_text r) \<and> 0 < aw_sequenceNo r"
proof (induction rows rule: rev_induct)
  case (snoc x rows)
  have "aw_sequenceNo x = int (length (rows @ [x]))" using verified_sequence [OF snoc.prems(1)] by simp
  then show ?case using snoc by (auto simp: verify_chain_def verify_from_snoc)
qed simp

lemma digits_nul_free: "0 < n \<Longrightarrow> NUL \<notin> set (string_of_int n)"
proof -
  assume "0 < n"
  then have "string_of_int n = string_of_nat (nat n)" by (simp add: string_of_int_def)
  then show ?thesis using string_of_nat_digits [of "nat n"] by (auto simp: list_all_iff is_digit_def NUL_def)
qed

lemma text_or_blank_inj: "text_or_blank v = text_or_blank w \<longleftrightarrow> blank_as_absent v = blank_as_absent w"
  by (cases v; cases w) (auto simp: text_or_blank_def blank_as_absent_def)

text \<open>Without \<open>NUL\<close> in the fields the canonical text determines them, blank and absent taken alike.\<close>

lemma canonical_text_inj:
  assumes "canonical_text r = canonical_text r'" and "nul_free_row r" "nul_free_row r'"
    and "0 < aw_sequenceNo r" "0 < aw_sequenceNo r'"
    and "NUL \<notin> set (text_or_blank (aw_prevHash r))" "NUL \<notin> set (text_or_blank (aw_prevHash r'))"
  shows "canonical_fields (aw_sequenceNo r) (aw_prevHash r) r = canonical_fields (aw_sequenceNo r') (aw_prevHash r') r'"
proof -
  have free: "\<forall>s\<in>set (canonical_fields (aw_sequenceNo x) (aw_prevHash x) x). NUL \<notin> set s"
    if "nul_free_row x" "0 < aw_sequenceNo x" "NUL \<notin> set (text_or_blank (aw_prevHash x))" for x :: audit_row
    using that digits_nul_free by (simp add: canonical_fields_def nul_free_row_def)
  have split: "js_split NUL (canonical_text x) = canonical_fields (aw_sequenceNo x) (aw_prevHash x) x"
    if "nul_free_row x" "0 < aw_sequenceNo x" "NUL \<notin> set (text_or_blank (aw_prevHash x))" for x :: audit_row
    unfolding canonical_text_def by (rule js_split_join [OF _ free [OF that]]) (simp add: canonical_fields_def)
  show ?thesis using split [OF assms(2,4,6)] split [OF assms(3,5,7)] assms(1) by simp
qed

text \<open>Chains are compared from the last row back.\<close>

lemma chains_agree:
  assumes "verify_chain H rows = ChainValid" "verify_chain H rows' = ChainValid" and "rows \<noteq> []" "rows' \<noteq> []"
    and "aw_rowHash (last rows) = aw_rowHash (last rows')"
    and "collision_free H rows rows'"
    and "\<forall>t. NUL \<notin> set (H t)" and "list_all nul_free_row (rows @ rows')"
  shows "map unblanked rows = map unblanked rows'"
  using assms
proof (induction rows arbitrary: rows' rule: rev_induct)
  case (snoc r rows)
  obtain rs r' where rows': "rows' = rs @ [r']" using snoc.prems(4) by (cases rows' rule: rev_cases) auto
  note v = snoc.prems(1,2) [unfolded rows']
  have h: "aw_rowHash r = aw_rowHash r'" using snoc.prems(5) rows' by simp
  have hashes: "aw_rowHash r = H (canonical_text r)" "aw_rowHash r' = H (canonical_text r')"
    "0 < aw_sequenceNo r" "0 < aw_sequenceNo r'"
    using verified_hashes [OF v(1), of r] verified_hashes [OF v(2), of r'] by simp_all
  have same_text: "canonical_text r = canonical_text r'"
    using snoc.prems(6) h hashes(1,2) rows' by (simp add: collision_free_def)
  have prev: "aw_prevHash x = map_option aw_rowHash (if xs = [] then None else Some (last xs))"
    if "verify_chain H (xs @ [x]) = ChainValid" for x :: audit_row and xs
    using that by (simp add: verify_chain_def verify_from_snoc)
  have free: "NUL \<notin> set (text_or_blank (aw_prevHash x))"
    if "verify_chain H (xs @ [x]) = ChainValid" for x :: audit_row and xs
  proof (cases xs rule: rev_cases)
    case (snoc ys y)
    then have "aw_rowHash y = H (canonical_text y)" using verified_hashes [OF that, of y] by simp
    then show ?thesis using prev [OF that] snoc snoc.prems(7) by (simp add: text_or_blank_def)
  qed (use prev [OF that] in \<open>simp add: text_or_blank_def\<close>)
  have fields: "canonical_fields (aw_sequenceNo r) (aw_prevHash r) r = canonical_fields (aw_sequenceNo r') (aw_prevHash r') r'"
    using canonical_text_inj [OF same_text _ _ hashes(3,4) free [OF v(1)] free [OF v(2)]] snoc.prems(8) rows' by simp
  have len: "int (length (rows @ [r])) = aw_sequenceNo r" "int (length (rs @ [r'])) = aw_sequenceNo r'"
    using verified_sequence [OF v(1)] verified_sequence [OF v(2)] by simp_all
  have seq: "aw_sequenceNo r = aw_sequenceNo r'"
    using fields len string_of_nat_inj string_of_int_of_nat unfolding canonical_fields_def by (metis list.inject)
  then have same_length: "length rows = length rs" using len by simp
  have prevs: "aw_prevHash r = aw_prevHash r'"
  proof (cases "rows = []")
    case False
    then have "rs \<noteq> []" using same_length by auto
    then show ?thesis
      using fields prev [OF v(1)] prev [OF v(2)] False by (simp add: canonical_fields_def text_or_blank_def)
  qed (use same_length prev [OF v(1)] prev [OF v(2)] in simp)
  have last: "unblanked r = unblanked r'"
    using fields seq prevs h by (simp add: canonical_fields_def unblanked_def text_or_blank_inj)
  show ?case
  proof (cases "rows = []")
    case True
    then show ?thesis using same_length last rows' by simp
  next
    case False
    then have "rs \<noteq> []" using same_length by auto
    moreover have "verify_chain H rows = ChainValid" "verify_chain H rs = ChainValid"
      using v by (simp_all add: verify_chain_def verify_from_snoc)
    moreover have "aw_rowHash (last rows) = aw_rowHash (last rs)"
      using prevs prev [OF v(1)] prev [OF v(2)] False \<open>rs \<noteq> []\<close> by simp
    ultimately have "map unblanked rows = map unblanked rs"
      using snoc.IH [of rs] False snoc.prems(6-8) rows' by (simp add: collision_free_def)
    then show ?thesis using last rows' by simp
  qed
qed simp

lemma changed_row_differs:
  assumes "map unblanked rows \<noteq> map unblanked rows'" and "verify_chain H rows = ChainValid" and "rows \<noteq> []" "rows' \<noteq> []"
    and "aw_rowHash (last rows) = aw_rowHash (last rows')"
    and "collision_free H rows rows'"
    and "\<forall>t. NUL \<notin> set (H t)" and "list_all nul_free_row (rows @ rows')"
  shows "verify_chain H rows' \<noteq> ChainValid"
proof
  assume "verify_chain H rows' = ChainValid"
  from chains_agree [OF assms(2) this assms(3-8)] show False using assms(1) by simp
qed

section \<open>Properties\<close>

text \<open>C37: a tampered audit log is detected up to its last hash: a written log verifies, and any other
  non-empty list of rows that ends in the same row hash, whatever rows were edited, deleted, inserted
  or reordered, fails verification, unless it differs only in absent against empty fields. The hash
  must not collide on the rows at hand, and no text contains the separator.\<close>

theorem tampering_is_detected:
  assumes "cs \<noteq> []" and "rows \<noteq> []" and "map unblanked rows \<noteq> map unblanked (written_after H None cs)"
    and "aw_rowHash (last rows) = aw_rowHash (last (written_after H None cs))"
    and "collision_free H (written_after H None cs) rows"
    and "\<forall>t. NUL \<notin> set (H t)" and "list_all nul_free_row (written_after H None cs @ rows)"
  shows "verify_chain H (written_after H None cs) = ChainValid \<and> verify_chain H rows \<noteq> ChainValid"
proof -
  have ok: "verify_chain H (written_after H None cs) = ChainValid" by (simp add: verify_chain_def written_verifies)
  moreover have "written_after H None cs \<noteq> []" using assms(1) by (cases cs) simp_all
  ultimately show ?thesis
    using changed_row_differs [OF assms(3) [symmetric] ok _ assms(2) assms(4) [symmetric] assms(5-7)] by simp
qed

text \<open>What verification of the audit log cannot see: deleting rows from the end of a written log
  leaves a valid chain, and so does replacing an absent resource, actor or request id of a row by an
  empty text, whatever the hash function.\<close>

theorem verification_misses_tail_and_blanks:
  "verify_chain H (take n (written_after H None cs)) = ChainValid \<and>
   verify_from H prev rows = verify_from H prev (map unblanked rows)"
proof
  show "verify_chain H (take n (written_after H None cs)) = ChainValid"
    using verify_from_prefix [of H None "take n (written_after H None cs)" "drop n (written_after H None cs)"]
    by (simp add: verify_chain_def written_verifies)
  have same [simp]: "hash_row H k h (unblanked r) = hash_row H k h r" for k h r
    by (simp add: hash_row_def canonical_fields_def unblanked_def text_or_blank_def blank_as_absent_def)
  have step [simp]: "aw_sequenceNo (unblanked r) = aw_sequenceNo r" "aw_prevHash (unblanked r) = aw_prevHash r"
    "aw_rowHash (unblanked r) = aw_rowHash r" for r
    by (simp_all add: unblanked_def)
  have "verify_from H (map_option unblanked prev) (map unblanked rows) = verify_from H prev rows" for prev
  proof (induction rows arbitrary: prev)
    case (Cons r rows)
    show ?case using Cons [of "Some r"] by (cases prev) simp_all
  qed simp
  moreover have "verify_from H (map_option unblanked prev) rs = verify_from H prev rs" for prev rs
    by (cases rs; cases prev) simp_all
  ultimately show "verify_from H prev rows = verify_from H prev (map unblanked rows)" by metis
qed

section \<open>Concrete instances\<close>

definition demo_content :: "string \<Rightarrow> audit_content" where
  "demo_content op = \<lparr>ac_subject = ''u'', ac_actorOnBehalfOf = None, ac_op = op, ac_gfsUri = None, ac_outcome = ''allow'',
     ac_requestId = None\<rparr>"

definition demo_hash :: "string \<Rightarrow> string" where
  "demo_hash t = map (\<lambda>c. if c = NUL then CHR ''|'' else c) t"

lemma tampering_is_detected_witness:
  "verify_chain demo_hash (written_after demo_hash None [demo_content ''read'']) = ChainValid \<and>
   verify_chain demo_hash ((\<lambda>r. [r\<lparr>ac_op := ''write''\<rparr>]) (append_row demo_hash None (demo_content ''read''))) \<noteq> ChainValid"
proof -
  let ?row = "append_row demo_hash None (demo_content ''read'')"
  let ?log = "written_after demo_hash None [demo_content ''read'']"
  have log: "?log = [?row]" by simp
  have facts: "map unblanked [?row\<lparr>ac_op := ''write''\<rparr>] \<noteq> map unblanked ?log"
    "aw_rowHash (last [?row\<lparr>ac_op := ''write''\<rparr>]) = aw_rowHash (last ?log)"
    "collision_free demo_hash ?log [?row\<lparr>ac_op := ''write''\<rparr>]" "list_all nul_free_row (?log @ [?row\<lparr>ac_op := ''write''\<rparr>])"
    unfolding log by code_simp+
  have "\<forall>t. NUL \<notin> set (demo_hash t)" by (auto simp: demo_hash_def NUL_def)
  from tampering_is_detected [OF _ _ facts(1-3) this facts(4)] show ?thesis by simp
qed

end
