(* ===== verification/UploadGeometry.thy ===== *)
theory UploadGeometry
  imports Prelude
begin

text \<open>
  The geometry of resumable uploads, \<open>gfs-controller/src/upload/protocol.ts\<close>: a file of known size is cut
  into parts of equal size, the last one shorter. Byte counts are integers; a value is refused when it is
  not a safe integer of the platform. The lemmas show that the parts tile the file.
\<close>

section \<open>Constants\<close>

definition GFS_UPLOAD_V2_PROTOCOL_MAX_BYTES :: int where
  "GFS_UPLOAD_V2_PROTOCOL_MAX_BYTES = 1073741824"

definition GFS_UPLOAD_V2_MAX_PART_BYTES :: int where
  "GFS_UPLOAD_V2_MAX_PART_BYTES = 16 * 1024 * 1024"

definition GFS_UPLOAD_V2_MIN_PART_BYTES :: int where
  "GFS_UPLOAD_V2_MIN_PART_BYTES = 1 * 1024 * 1024"

definition GFS_UPLOAD_V2_MAX_PART_COUNT :: int where
  "GFS_UPLOAD_V2_MAX_PART_COUNT = 1024"

definition is_safe_integer :: "int \<Rightarrow> bool" where
  "is_safe_integer n \<longleftrightarrow> \<bar>n\<bar> \<le> 2 ^ 53 - 1"

section \<open>Geometry\<close>

record upload_geometry =
  ug_expectedBytes :: int
  ug_partBytes :: int

record part_geometry =
  pg_partNumber :: int
  pg_offsetBytes :: int
  pg_lengthBytes :: int

datatype geometry_error =
    InvalidExpectedBytes | InvalidPartBytes | PartCountExceeded | InvalidPartNumber
  | InvalidPartOffset | InvalidPartLength | PartOffsetMismatch | PartLengthMismatch

text \<open>\<open>Math.ceil\<close> of a quotient.\<close>

definition ceil_div :: "int \<Rightarrow> int \<Rightarrow> int" where
  "ceil_div a b = - ((- a) div b)"

definition validate_geometry :: "upload_geometry \<Rightarrow> geometry_error option" where
  "validate_geometry g =
     (let e = ug_expectedBytes g; p = ug_partBytes g
      in if \<not> is_safe_integer e \<or> e < 0 \<or> e > GFS_UPLOAD_V2_PROTOCOL_MAX_BYTES then Some InvalidExpectedBytes
         else if \<not> is_safe_integer p \<or> p < GFS_UPLOAD_V2_MIN_PART_BYTES \<or> p > GFS_UPLOAD_V2_MAX_PART_BYTES
              then Some InvalidPartBytes
         else if (if e = 0 then 0 else ceil_div e p) > GFS_UPLOAD_V2_MAX_PART_COUNT then Some PartCountExceeded
         else None)"

definition part_count_for :: "upload_geometry \<Rightarrow> geometry_error + int" where
  "part_count_for g =
     (case validate_geometry g of
        Some e \<Rightarrow> Inl e
      | None \<Rightarrow> Inr (if ug_expectedBytes g = 0 then 0 else ceil_div (ug_expectedBytes g) (ug_partBytes g)))"

definition part_geometry_of :: "upload_geometry \<Rightarrow> int \<Rightarrow> geometry_error + part_geometry" where
  "part_geometry_of g n =
     (case part_count_for g of
        Inl e \<Rightarrow> Inl e
      | Inr parts \<Rightarrow>
          (if \<not> is_safe_integer n \<or> n < 0 \<or> n \<ge> parts then Inl InvalidPartNumber
           else (let offset = n * ug_partBytes g
                 in if offset \<ge> ug_expectedBytes g then Inl InvalidPartOffset
                    else (let len = min (ug_partBytes g) (ug_expectedBytes g - offset)
                          in if len \<le> 0 \<or> len > GFS_UPLOAD_V2_MAX_PART_BYTES then Inl InvalidPartLength
                             else Inr \<lparr>pg_partNumber = n, pg_offsetBytes = offset, pg_lengthBytes = len\<rparr>))))"

definition validate_part_geometry :: "upload_geometry \<Rightarrow> part_geometry \<Rightarrow> geometry_error option" where
  "validate_part_geometry g part =
     (if \<not> is_safe_integer (pg_partNumber part) \<or> pg_partNumber part < 0 then Some InvalidPartNumber
      else if \<not> is_safe_integer (pg_offsetBytes part) \<or> pg_offsetBytes part < 0 then Some InvalidPartOffset
      else if \<not> is_safe_integer (pg_lengthBytes part) \<or> pg_lengthBytes part \<le> 0 then Some InvalidPartLength
      else (case part_geometry_of g (pg_partNumber part) of
              Inl e \<Rightarrow> Some e
            | Inr expected \<Rightarrow>
                (if pg_offsetBytes part \<noteq> pg_offsetBytes expected then Some PartOffsetMismatch
                 else if pg_lengthBytes part \<noteq> pg_lengthBytes expected then Some PartLengthMismatch
                 else None)))"

section \<open>Routes\<close>

definition is_upload_item_suffix :: "string \<Rightarrow> bool" where
  "is_upload_item_suffix s \<longleftrightarrow>
     (let t = js_lower s
      in t \<in> {[], ''/status'', ''/pause'', ''/resume'', ''/complete''} \<or>
         starts_with t ''/parts/'' \<and> drop 7 t \<noteq> [] \<and> list_all is_digit (drop 7 t))"

definition is_gfs_upload_v2_route :: "string \<Rightarrow> bool" where
  "is_gfs_upload_v2_route pathname \<longleftrightarrow>
     pathname = ''/v1/capabilities'' \<or> pathname = ''/v1/uploads'' \<or>
     (starts_with (js_lower pathname) ''/v1/uploads/'' \<and> is_uuid (take 36 (drop 12 pathname)) \<and>
      is_upload_item_suffix (drop 48 pathname))"

section \<open>Parts tile the file\<close>

lemmas upload_limits = GFS_UPLOAD_V2_PROTOCOL_MAX_BYTES_def GFS_UPLOAD_V2_MAX_PART_BYTES_def
  GFS_UPLOAD_V2_MIN_PART_BYTES_def GFS_UPLOAD_V2_MAX_PART_COUNT_def

definition valid_geometry :: "upload_geometry \<Rightarrow> bool" where
  "valid_geometry g \<longleftrightarrow> 0 \<le> ug_expectedBytes g \<and> ug_expectedBytes g \<le> GFS_UPLOAD_V2_PROTOCOL_MAX_BYTES \<and>
     GFS_UPLOAD_V2_MIN_PART_BYTES \<le> ug_partBytes g \<and> ug_partBytes g \<le> GFS_UPLOAD_V2_MAX_PART_BYTES"

definition part_count :: "upload_geometry \<Rightarrow> int" where
  "part_count g = ceil_div (ug_expectedBytes g) (ug_partBytes g)"

definition part_length :: "upload_geometry \<Rightarrow> int \<Rightarrow> int" where
  "part_length g n = min (ug_partBytes g) (ug_expectedBytes g - n * ug_partBytes g)"

text \<open>A number of parts is enough exactly when it is at least the rounded-up quotient.\<close>

lemma le_div_iff_int: "(0 :: int) < b \<Longrightarrow> n \<le> a div b \<longleftrightarrow> n * b \<le> a"
proof
  assume b: "0 < b" and "n \<le> a div b"
  then have "n * b \<le> a div b * b" by (simp add: mult_right_mono)
  also have "\<dots> \<le> a" using b by (metis pos_mod_sign mult_div_mod_eq add_increasing2 order_refl mult.commute)
  finally show "n * b \<le> a" .
next
  assume b: "0 < b" and "n * b \<le> a"
  then have "n * b div b \<le> a div b" by (intro zdiv_mono1)
  then show "n \<le> a div b" using b by simp
qed

lemma ceil_div_le: "0 < b \<Longrightarrow> ceil_div a b \<le> n \<longleftrightarrow> a \<le> n * b"
  using le_div_iff_int [of b "- n" "- a"] by (auto simp: ceil_div_def)

lemma part_count_bounds:
  assumes "valid_geometry g"
  shows "0 \<le> part_count g" and "part_count g \<le> GFS_UPLOAD_V2_MAX_PART_COUNT"
    and "n < part_count g \<longleftrightarrow> n * ug_partBytes g < ug_expectedBytes g"
proof -
  have b: "0 < ug_partBytes g" using assms by (simp add: valid_geometry_def upload_limits)
  show lt: "n < part_count g \<longleftrightarrow> n * ug_partBytes g < ug_expectedBytes g" for n
    using ceil_div_le [OF b, of "ug_expectedBytes g" n] by (simp add: part_count_def not_le [symmetric])
  show "0 \<le> part_count g"
    using lt [of "-1"] b assms by (simp add: valid_geometry_def)
  have "ug_expectedBytes g \<le> 1024 * ug_partBytes g"
    using assms by (simp add: valid_geometry_def upload_limits)
  then show "part_count g \<le> GFS_UPLOAD_V2_MAX_PART_COUNT"
    using ceil_div_le [OF b, of "ug_expectedBytes g" 1024] by (simp add: part_count_def upload_limits)
qed

lemma part_count_le_safe: "valid_geometry g \<Longrightarrow> n < part_count g \<Longrightarrow> 0 \<le> n \<Longrightarrow> is_safe_integer n"
  using part_count_bounds(2) [of g] by (simp add: is_safe_integer_def upload_limits)

lemma validate_geometry_iff: "validate_geometry g = None \<longleftrightarrow> valid_geometry g"
proof -
  have parts: "(if ug_expectedBytes g = 0 then 0 else ceil_div (ug_expectedBytes g) (ug_partBytes g)) = part_count g"
    by (simp add: part_count_def ceil_div_def)
  show ?thesis
  proof (cases "valid_geometry g")
    case True
    with part_count_bounds(2) [OF True] show ?thesis
      unfolding validate_geometry_def Let_def parts
      by (simp add: valid_geometry_def is_safe_integer_def upload_limits)
  next
    case False
    then show ?thesis by (auto simp: validate_geometry_def Let_def valid_geometry_def not_le)
  qed
qed

lemma part_count_for_valid: "part_count_for g = (if valid_geometry g then Inr (part_count g) else Inl (the (validate_geometry g)))"
  using validate_geometry_iff [of g]
  by (auto simp: part_count_for_def part_count_def ceil_div_def split: option.splits)

lemma part_length_pos: "valid_geometry g \<Longrightarrow> n < part_count g \<Longrightarrow> 0 < part_length g n"
  using part_count_bounds(3) [of g n] by (auto simp: part_length_def valid_geometry_def upload_limits)

lemma part_geometry_valid:
  assumes "valid_geometry g"
  shows "part_geometry_of g n = (if 0 \<le> n \<and> n < part_count g
    then Inr \<lparr>pg_partNumber = n, pg_offsetBytes = n * ug_partBytes g, pg_lengthBytes = part_length g n\<rparr>
    else Inl InvalidPartNumber)"
  using assms part_count_bounds(3) [OF assms, of n] part_count_le_safe [OF assms, of n] part_length_pos [OF assms, of n]
  by (auto simp: part_geometry_of_def part_count_for_valid Let_def part_length_def valid_geometry_def upload_limits)

lemma validate_part_iff:
  assumes "valid_geometry g"
  shows "validate_part_geometry g part = None \<longleftrightarrow> 0 \<le> pg_partNumber part \<and> pg_partNumber part < part_count g \<and>
    pg_offsetBytes part = pg_partNumber part * ug_partBytes g \<and> pg_lengthBytes part = part_length g (pg_partNumber part)"
proof -
  let ?n = "pg_partNumber part"
  have "is_safe_integer (?n * ug_partBytes g) \<and> is_safe_integer (part_length g ?n) \<and> 0 \<le> ?n * ug_partBytes g"
    if "0 \<le> ?n" "?n < part_count g"
    using that assms part_count_bounds(3) [OF assms, of ?n] part_length_pos [OF assms that(2)]
    by (auto simp: is_safe_integer_def part_length_def valid_geometry_def upload_limits)
  then show ?thesis
    using part_count_le_safe [OF assms, of ?n] part_length_pos [OF assms, of ?n]
    by (cases "0 \<le> ?n") (auto simp: validate_part_geometry_def part_geometry_valid [OF assms])
qed

text \<open>The lengths of the first parts add up to the offset of the next, capped by the size of the file.\<close>

lemma sum_part_lengths:
  assumes "valid_geometry g"
  shows "int k \<le> part_count g \<Longrightarrow>
    (\<Sum>n<k. part_length g (int n)) = min (ug_expectedBytes g) (int k * ug_partBytes g)"
proof (induction k)
  case 0
  then show ?case using assms by (simp add: valid_geometry_def)
next
  case (Suc k)
  have "int k * ug_partBytes g < ug_expectedBytes g" using Suc.prems part_count_bounds(3) [OF assms, of "int k"] by simp
  then show ?case using Suc by (simp add: part_length_def algebra_simps)
qed

lemma sum_all_lengths:
  assumes "valid_geometry g"
  shows "(\<Sum>n<nat (part_count g). part_length g (int n)) = ug_expectedBytes g"
proof -
  have "\<not> part_count g * ug_partBytes g < ug_expectedBytes g" using part_count_bounds(3) [OF assms] by blast
  then show ?thesis using sum_part_lengths [OF assms, of "nat (part_count g)"] part_count_bounds(1) [OF assms] by simp
qed

text \<open>The parts of an upload tile the file: for an accepted geometry there are at most 1024 parts, each
  byte of the file lies in exactly one of them, and a part is accepted exactly when it is one of them.\<close>

theorem parts_tile_the_file:
  assumes "part_count_for g = Inr k"
  shows "0 \<le> k \<and> k \<le> 1024 \<and>
    (\<forall>b. 0 \<le> b \<and> b < ug_expectedBytes g \<longrightarrow> (\<exists>!n. \<exists>p. part_geometry_of g n = Inr p \<and>
       pg_offsetBytes p \<le> b \<and> b < pg_offsetBytes p + pg_lengthBytes p)) \<and>
    (\<forall>part. validate_part_geometry g part = None \<longleftrightarrow> part_geometry_of g (pg_partNumber part) = Inr part)"
proof -
  have g: "valid_geometry g" and k: "k = part_count g"
    using assms by (auto simp: part_count_for_valid split: if_splits)
  have pos: "0 < ug_partBytes g" using g by (simp add: valid_geometry_def upload_limits)
  have "\<exists>!n. \<exists>p. part_geometry_of g n = Inr p \<and> pg_offsetBytes p \<le> b \<and> b < pg_offsetBytes p + pg_lengthBytes p"
    if b: "0 \<le> b" "b < ug_expectedBytes g" for b
  proof -
    have char: "(\<exists>p. part_geometry_of g n = Inr p \<and> pg_offsetBytes p \<le> b \<and> b < pg_offsetBytes p + pg_lengthBytes p) \<longleftrightarrow>
        n * ug_partBytes g \<le> b \<and> b < (n + 1) * ug_partBytes g" for n
    proof -
      have "0 \<le> n \<and> n < part_count g" if "n * ug_partBytes g \<le> b" "b < (n + 1) * ug_partBytes g"
      proof -
        have "0 < (n + 1) * ug_partBytes g" using that(2) b(1) by linarith
        then have "0 \<le> n" using pos by (simp add: zero_less_mult_iff)
        then show ?thesis using that(1) b(2) part_count_bounds(3) [OF g, of n] by simp
      qed
      then show ?thesis using b by (auto simp: part_geometry_valid [OF g] part_length_def algebra_simps)
    qed
    have "n * ug_partBytes g \<le> b \<and> b < (n + 1) * ug_partBytes g \<longleftrightarrow> n = b div ug_partBytes g" for n
      using le_div_iff_int [OF pos, of n b] le_div_iff_int [OF pos, of "n + 1" b] by (auto simp: not_le [symmetric])
    then show ?thesis unfolding char by simp
  qed
  moreover have "validate_part_geometry g part = None \<longleftrightarrow> part_geometry_of g (pg_partNumber part) = Inr part" for part
    by (cases part) (auto simp: validate_part_iff [OF g] part_geometry_valid [OF g])
  ultimately show ?thesis using part_count_bounds(1,2) [OF g] k by (simp add: upload_limits)
qed

lemma parts_tile_the_file_witness:
  "\<exists>!n. \<exists>p. part_geometry_of \<lparr>ug_expectedBytes = 9000000, ug_partBytes = 8388608\<rparr> n = Inr p \<and>
     pg_offsetBytes p \<le> 8999999 \<and> 8999999 < pg_offsetBytes p + pg_lengthBytes p"
proof -
  have "part_count_for \<lparr>ug_expectedBytes = 9000000, ug_partBytes = 8388608\<rparr> = Inr 2" by code_simp
  from parts_tile_the_file [OF this] show ?thesis by simp
qed

end
