(* ===== verification/UploadSession.thy ===== *)
theory UploadSession
  imports UploadGeometry GfsDecision
begin

text \<open>
  The data and the transactions of resumable uploads, \<open>gfs-controller/src/upload/uploadSession.ts\<close>, with the
  error table of \<open>api/errors.ts\<close>, the names of \<open>api/resourceName.ts\<close> and the resource ids of
  \<open>storage/paths.ts\<close>. A session row carries its part rows (their table has the session as key and is
  cleared with it). Each function is what the code does between two awaits: one transaction, one check,
  or one file operation; their interleaving is the subject of \<open>UploadProtocol\<close>. File contents are
  strings of bytes, the file system a map from paths, the storage root an absolute normalized path; the
  hash, the Unicode normal form, the authorization callback and fresh uuids are arguments.
\<close>

section \<open>Errors\<close>

datatype gfs_error_code =
    GePathInvalid | GeNotFound | GeGone | GeAlreadyExists | GeNotADirectory | GeIsADirectory | GeNotEmpty
  | GePreconditionFailed | GePayloadTooLarge | GeQuotaExceeded | GeRateLimited | GeConflict
  | GeIdempotencyConflict | GeUploadIncomplete | GeUploadFinalizing | GeUploadCompleted | GeUploadAborted
  | GeUploadExpired | GeChecksumMismatch | GeInsufficientStorage | GeCrossBoundary | GeForbidden
  | GeUnauthorized | GeNotMounted | GeInternal

fun HTTP_STATUS :: "gfs_error_code \<Rightarrow> nat" where
  "HTTP_STATUS GePathInvalid = 400"
| "HTTP_STATUS GeNotFound = 404"
| "HTTP_STATUS GeGone = 410"
| "HTTP_STATUS GeAlreadyExists = 409"
| "HTTP_STATUS GeNotADirectory = 409"
| "HTTP_STATUS GeIsADirectory = 409"
| "HTTP_STATUS GeNotEmpty = 409"
| "HTTP_STATUS GePreconditionFailed = 412"
| "HTTP_STATUS GePayloadTooLarge = 413"
| "HTTP_STATUS GeQuotaExceeded = 429"
| "HTTP_STATUS GeRateLimited = 429"
| "HTTP_STATUS GeConflict = 409"
| "HTTP_STATUS GeIdempotencyConflict = 409"
| "HTTP_STATUS GeUploadIncomplete = 409"
| "HTTP_STATUS GeUploadFinalizing = 409"
| "HTTP_STATUS GeUploadCompleted = 409"
| "HTTP_STATUS GeUploadAborted = 410"
| "HTTP_STATUS GeUploadExpired = 410"
| "HTTP_STATUS GeChecksumMismatch = 422"
| "HTTP_STATUS GeInsufficientStorage = 507"
| "HTTP_STATUS GeCrossBoundary = 409"
| "HTTP_STATUS GeForbidden = 403"
| "HTTP_STATUS GeUnauthorized = 401"
| "HTTP_STATUS GeNotMounted = 503"
| "HTTP_STATUS GeInternal = 500"

datatype gfs_error = GfsError gfs_error_code | QuotaError string int | GeometryRefused geometry_error

section \<open>Sessions, parts, configuration\<close>

datatype upload_operation = CreateUpload | ReplaceUpload

datatype upload_phase =
  UpInitiated | UpUploading | UpPaused | UpFinalizing | UpCompleted | UpAborted | UpExpired | UpFailed

datatype part_state = PartReserved | PartCommitted | PartFailed

record upload_principal =
  pr_drive :: string
  pr_ownerSubject :: string
  pr_primarySubject :: string

record upload_fingerprint =
  fp_owner :: string
  fp_drive :: string
  fp_operation :: upload_operation
  fp_parentRid :: "string option"
  fp_resourceRid :: "string option"
  fp_name :: "string option"
  fp_sizeBytes :: int
  fp_ifMatch :: "int option"
  fp_wholeSha256 :: "string option"
  fp_partBytes :: int
  fp_partCount :: int

record upload_part =
  up_partNumber :: int
  up_offsetBytes :: int
  up_lengthBytes :: int
  up_sha256 :: string
  up_state :: part_state
  up_stagingPath :: string
  up_leaseEpoch :: int
  up_leaseStartedAt :: instant
  up_committedAt :: "instant option"

type_synonym part_table = "(int, upload_part) js_map"

record upload_session =
  us_uploadId :: string
  us_idempotencyKey :: string
  us_drive :: string
  us_ownerSubject :: string
  us_primarySubject :: string
  us_operation :: upload_operation
  us_requestFingerprint :: upload_fingerprint
  us_parentRid :: "string option"
  us_resourceRid :: "string option"
  us_resourceName :: "string option"
  us_ifMatch :: "int option"
  us_expectedBytes :: int
  us_partBytes :: int
  us_partCount :: int
  us_wholeSha256 :: "string option"
  us_committedBytes :: int
  us_contiguousBytes :: int
  us_committedPartCount :: int
  us_activePartCount :: int
  us_finalizingStartedAt :: "instant option"
  us_sessionEpoch :: int
  us_state :: upload_phase
  us_resultResourceId :: "string option"
  us_resultVersion :: "int option"
  us_resultSha256 :: "string option"
  us_failureCode :: "string option"
  us_expiresAt :: instant
  us_cleanupAt :: "instant option"
  us_parts :: part_table

record upload_config =
  uc_enabled :: bool
  uc_productMaxFileBytes :: int
  uc_preferredPartBytes :: int
  uc_maxPartBytes :: int
  uc_maxPartCount :: int
  uc_maxConcurrentPartsPerSession :: int
  uc_maxConcurrentPartStreamsGlobal :: int
  uc_maxActivePerSubject :: int
  uc_maxActiveGlobal :: int
  uc_maxConcurrentFinalizations :: int
  uc_minFreeBytes :: int
  uc_sessionTtlSeconds :: int
  uc_partTimeoutMs :: millis
  uc_finalizeTimeoutMs :: millis
  uc_stalePartLeaseMs :: millis
  uc_receiptRetentionSeconds :: int
  uc_fallbackConcurrency :: int
  uc_instabilityFailureThreshold :: int

definition is_live :: "upload_phase \<Rightarrow> bool" where
  "is_live st \<longleftrightarrow> st \<in> {UpInitiated, UpUploading, UpPaused, UpFinalizing}"

definition geometry_of :: "upload_session \<Rightarrow> upload_geometry" where
  "geometry_of s = \<lparr>ug_expectedBytes = us_expectedBytes s, ug_partBytes = us_partBytes s\<rparr>"

definition target_rid :: "upload_session \<Rightarrow> string option" where
  "target_rid s = (if us_operation s = CreateUpload then us_parentRid s else us_resourceRid s)"

section \<open>Checks of values\<close>

definition require_uuid :: "string \<Rightarrow> gfs_error + string" where
  "require_uuid v = (if is_uuid v then Inr (js_lower v) else Inl (GfsError GePathInvalid))"

definition require_checksum :: "string option \<Rightarrow> gfs_error + string" where
  "require_checksum v =
     (case v of
        None \<Rightarrow> Inl (GfsError GePathInvalid)
      | Some s \<Rightarrow> (if length s = 64 \<and> list_all is_hex s then Inr (js_lower s) else Inl (GfsError GePathInvalid)))"

definition require_enabled :: "upload_config \<Rightarrow> gfs_error option" where
  "require_enabled cfg = (if uc_enabled cfg then None else Some (GfsError GeForbidden))"

definition is_control_char :: "char \<Rightarrow> bool" where
  "is_control_char c \<longleftrightarrow> (of_char c :: nat) \<le> 31 \<or> (of_char c :: nat) = 127"

definition normalize_resource_name :: "(string \<Rightarrow> string) \<Rightarrow> string \<Rightarrow> string option" where
  "normalize_resource_name nfc raw =
     (let name = nfc raw
      in if name = [] \<or> length name > 255 \<or> name = ''.'' \<or> name = ''..'' \<or> CHR ''/'' \<in> set name \<or>
            list_ex is_control_char name
         then None else Some name)"

definition normalized_name :: "(string \<Rightarrow> string) \<Rightarrow> string option \<Rightarrow> gfs_error + string option" where
  "normalized_name nfc v =
     (case v of
        None \<Rightarrow> Inr None
      | Some raw \<Rightarrow> (case normalize_resource_name nfc raw of
                      None \<Rightarrow> Inl (GfsError GePathInvalid)
                    | Some name \<Rightarrow> Inr (Some name)))"

definition is_lower_hex :: "char \<Rightarrow> bool" where
  "is_lower_hex c \<longleftrightarrow> is_digit c \<or> (of_char c :: nat) \<in> {97..102}"

definition normalize_resource_id :: "string \<Rightarrow> string option" where
  "normalize_resource_id raw =
     (let v = js_lower (js_trim raw)
      in if is_uuid v then Some (filter (\<lambda>c. c \<noteq> CHR ''-'') v)
         else if length v = 32 \<and> list_all is_lower_hex v then Some v
         else None)"

definition normalized_rid :: "string option \<Rightarrow> gfs_error + string option" where
  "normalized_rid v =
     (case v of
        None \<Rightarrow> Inr None
      | Some raw \<Rightarrow> (case normalize_resource_id raw of
                      None \<Rightarrow> Inl (GfsError GePathInvalid)
                    | Some rid \<Rightarrow> Inr (Some rid)))"

section \<open>Paths\<close>

definition uploads_dir :: "string \<Rightarrow> string \<Rightarrow> string" where
  "uploads_dir root uploadId = root @ ''/.uploads/'' @ uploadId @ ''/''"

definition session_path :: "string \<Rightarrow> string \<Rightarrow> int \<Rightarrow> string \<Rightarrow> string" where
  "session_path root uploadId n suffix =
     uploads_dir root uploadId @ ''parts/'' @ string_of_int n @ ''.part'' @ suffix"

definition temp_suffix :: "string \<Rightarrow> string" where
  "temp_suffix tmp = ''.tmp-'' @ tmp"

text \<open>\<open>TEMP_PART_RE\<close> on the last segment: digits of the part number, \<open>.part.tmp-\<close>, a uuid, in either case.
  Candidates are absolute normalized paths, and every directory on the way is one.\<close>

definition is_temp_name :: "int \<Rightarrow> string \<Rightarrow> bool" where
  "is_temp_name n name \<longleftrightarrow>
     (let digits = takeWhile is_digit name; tail = drop (length digits) name
      in digits \<noteq> [] \<and> digits_value 10 digits = n \<and> starts_with (js_lower tail) ''.part.tmp-'' \<and> is_uuid (drop 10 tail))"

definition validated_temp_path :: "string \<Rightarrow> string \<Rightarrow> int \<Rightarrow> string \<Rightarrow> bool" where
  "validated_temp_path root uploadId n candidate \<longleftrightarrow>
     (let prefix = uploads_dir root (js_lower uploadId) @ ''parts/''
      in starts_with candidate prefix \<and> is_temp_name n (drop (length prefix) candidate))"

section \<open>The state of the writer\<close>

text \<open>What a running \<open>putPart\<close> holds between two awaits.\<close>

record part_lease =
  pl_sessionEpoch :: int
  pl_leaseEpoch :: int
  pl_partCount :: int
  pl_stagingPath :: string

datatype flight_stage =
    AwaitingReservation
  | Replaying upload_part int
  | Reserved part_lease
  | Receiving part_lease
  | Verified part_lease
  | Renamed part_lease
  | Failing part_lease bool

record upload_flight =
  uf_uploadId :: string
  uf_principal :: upload_principal
  uf_part :: part_geometry
  uf_checksum :: string
  uf_stage :: flight_stage

record upload_finalizer =
  fz_principal :: upload_principal
  fz_session :: upload_session
  fz_parts :: "upload_part list"

record publication =
  pb_uploadId :: string
  pb_sessionEpoch :: int
  pb_expectedBytes :: int
  pb_content :: string

record upload_system =
  ut_sessions :: "(string, upload_session) js_map"
  ut_files :: "(string, string) js_map"
  ut_inFlight :: "(string, upload_flight) js_map"
  ut_inFlightFinalizers :: "(string, upload_finalizer) js_map"
  ut_pauseRequested :: "string set"
  ut_canceledUploads :: "string set"
  ut_published :: "publication list"

definition flight_key :: "string \<Rightarrow> int \<Rightarrow> string" where
  "flight_key uploadId n = uploadId @ '':'' @ string_of_int n"

definition flights_of :: "string \<Rightarrow> upload_system \<Rightarrow> bool" where
  "flights_of uploadId st \<longleftrightarrow> list_ex (\<lambda>k. starts_with k (uploadId @ '':'')) (js_keys (ut_inFlight st))"

definition has_in_flight :: "string \<Rightarrow> upload_system \<Rightarrow> bool" where
  "has_in_flight uploadId st \<longleftrightarrow> flights_of uploadId st \<or> js_get (ut_inFlightFinalizers st) uploadId \<noteq> None"

definition put_session :: "string \<Rightarrow> upload_session \<Rightarrow> upload_system \<Rightarrow> upload_system" where
  "put_session u s st = st\<lparr>ut_sessions := js_set u s (ut_sessions st)\<rparr>"

definition set_stage :: "string \<Rightarrow> flight_stage \<Rightarrow> upload_system \<Rightarrow> upload_system" where
  "set_stage key stage st =
     (case js_get (ut_inFlight st) key of
        None \<Rightarrow> st
      | Some f \<Rightarrow> st\<lparr>ut_inFlight := js_set key (f\<lparr>uf_stage := stage\<rparr>) (ut_inFlight st)\<rparr>)"

definition drop_flight :: "string \<Rightarrow> upload_system \<Rightarrow> upload_system" where
  "drop_flight key st = st\<lparr>ut_inFlight := js_delete key (ut_inFlight st)\<rparr>"

text \<open>The uuid column of the tables compares and renders ids in lower case.\<close>

definition lock_session :: "string \<Rightarrow> upload_principal \<Rightarrow> upload_system \<Rightarrow> gfs_error + upload_session" where
  "lock_session uploadId prin st =
     (case js_get (ut_sessions st) (js_lower uploadId) of
        None \<Rightarrow> Inl (GfsError GeNotFound)
      | Some s \<Rightarrow> (if us_drive s = pr_drive prin \<and> us_ownerSubject s = pr_ownerSubject prin then Inr s
                   else Inl (GfsError GeNotFound)))"

definition assert_not_expired :: "upload_session \<Rightarrow> instant \<Rightarrow> gfs_error option" where
  "assert_not_expired s now =
     (if us_expiresAt s \<le> now \<and> us_state s \<notin> {UpCompleted, UpAborted, UpExpired} then Some (GfsError GeUploadExpired) else None)"

definition load_owned :: "instant \<Rightarrow> string \<Rightarrow> upload_principal \<Rightarrow> upload_system \<Rightarrow> gfs_error + upload_session" where
  "load_owned now uploadId prin st =
     (if \<not> is_uuid uploadId then Inl (GfsError GePathInvalid)
      else (case lock_session uploadId prin st of
              Inl e \<Rightarrow> Inl e
            | Inr s \<Rightarrow> (case assert_not_expired s now of Some e \<Rightarrow> Inl e | None \<Rightarrow> Inr s)))"

section \<open>Counting parts\<close>

definition parts_in :: "part_state \<Rightarrow> part_table \<Rightarrow> upload_part list" where
  "parts_in st m = filter (\<lambda>p. up_state p = st) (map snd m)"

definition reserved_count :: "part_table \<Rightarrow> int" where
  "reserved_count m = int (length (parts_in PartReserved m))"

definition committed_part :: "part_table \<Rightarrow> int \<Rightarrow> bool" where
  "committed_part m n \<longleftrightarrow> (case js_get m n of Some p \<Rightarrow> up_state p = PartCommitted | None \<Rightarrow> False)"

text \<open>\<open>MIN\<close> over \<open>generate_series(0, partCount - 1)\<close> of the missing numbers.\<close>

definition first_missing :: "int \<Rightarrow> part_table \<Rightarrow> int" where
  "first_missing partCount m =
     (case filter (\<lambda>n. \<not> committed_part m n) [0..partCount - 1] of [] \<Rightarrow> partCount | n # _ \<Rightarrow> n)"

definition contiguous_bytes :: "int \<Rightarrow> part_table \<Rightarrow> int" where
  "contiguous_bytes partCount m =
     sum_list (map up_lengthBytes (filter (\<lambda>p. up_partNumber p < first_missing partCount m) (parts_in PartCommitted m)))"

definition drive_reserved :: "string \<Rightarrow> (string, upload_session) js_map \<Rightarrow> int" where
  "drive_reserved drive m = sum_list (map (\<lambda>(u, s). if us_drive s = drive then reserved_count (us_parts s) else 0) m)"

definition with_active_count :: "upload_session \<Rightarrow> upload_session" where
  "with_active_count s = s\<lparr>us_activePartCount := reserved_count (us_parts s)\<rparr>"

section \<open>Creating a session\<close>

record create_input =
  ci_principal :: upload_principal
  ci_uploadId :: "string option"
  ci_idempotencyKey :: string
  ci_operation :: upload_operation
  ci_parentRid :: "string option"
  ci_resourceRid :: "string option"
  ci_name :: "string option"
  ci_ifMatch :: "int option"
  ci_sizeBytes :: int
  ci_wholeSha256 :: "string option"

text \<open>The validated input, with the geometry of the configuration.\<close>

definition canonical_fingerprint :: "create_input \<Rightarrow> int \<Rightarrow> int \<Rightarrow> upload_fingerprint" where
  "canonical_fingerprint inp partBytes partCount = \<lparr>
     fp_owner = pr_ownerSubject (ci_principal inp), fp_drive = pr_drive (ci_principal inp),
     fp_operation = ci_operation inp, fp_parentRid = ci_parentRid inp, fp_resourceRid = ci_resourceRid inp,
     fp_name = ci_name inp, fp_sizeBytes = ci_sizeBytes inp, fp_ifMatch = ci_ifMatch inp,
     fp_wholeSha256 = ci_wholeSha256 inp, fp_partBytes = partBytes, fp_partCount = partCount\<rparr>"

record prepared_upload =
  pu_input :: create_input
  pu_partCount :: int
  pu_fingerprint :: upload_fingerprint

type_synonym authorizer = "upload_principal \<Rightarrow> upload_operation \<Rightarrow> string option \<Rightarrow> gfs_error option"

definition create_prepare ::
  "upload_config \<Rightarrow> (string \<Rightarrow> string) \<Rightarrow> authorizer \<Rightarrow> create_input \<Rightarrow> gfs_error + prepared_upload" where
  "create_prepare cfg nfc authorize inp =
     (case require_enabled cfg of Some e \<Rightarrow> Inl e | None \<Rightarrow>
      case require_uuid (ci_idempotencyKey inp) of Inl e \<Rightarrow> Inl e | Inr key \<Rightarrow>
      if \<not> is_safe_integer (ci_sizeBytes inp) \<or> ci_sizeBytes inp < 0 \<or> ci_sizeBytes inp > GFS_UPLOAD_V2_PROTOCOL_MAX_BYTES
      then Inl (GfsError GePayloadTooLarge) else
      case normalized_name nfc (ci_name inp) of Inl e \<Rightarrow> Inl e | Inr name \<Rightarrow>
      case normalized_rid (ci_parentRid inp) of Inl e \<Rightarrow> Inl e | Inr parentRid \<Rightarrow>
      case normalized_rid (ci_resourceRid inp) of Inl e \<Rightarrow> Inl e | Inr resourceRid \<Rightarrow>
      if ci_operation inp = CreateUpload \<and> (parentRid = None \<or> name = None) then Inl (GfsError GePathInvalid) else
      if ci_operation inp = ReplaceUpload \<and> resourceRid = None then Inl (GfsError GePathInvalid) else
      case (case ci_wholeSha256 inp of None \<Rightarrow> Inr None | Some h \<Rightarrow> map_sum id Some (require_checksum (Some h))) of
        Inl e \<Rightarrow> Inl e | Inr whole \<Rightarrow>
      case authorize (ci_principal inp) (ci_operation inp) (if ci_operation inp = CreateUpload then parentRid else resourceRid) of
        Some e \<Rightarrow> Inl e | None \<Rightarrow>
      case part_count_for \<lparr>ug_expectedBytes = ci_sizeBytes inp, ug_partBytes = uc_preferredPartBytes cfg\<rparr> of
        Inl e \<Rightarrow> Inl (GeometryRefused e) | Inr partCount \<Rightarrow>
      (let canonical = inp\<lparr>ci_idempotencyKey := key, ci_name := name, ci_parentRid := parentRid,
             ci_resourceRid := resourceRid, ci_wholeSha256 := whole\<rparr>
       in Inr \<lparr>pu_input = canonical, pu_partCount = partCount,
               pu_fingerprint = canonical_fingerprint canonical (uc_preferredPartBytes cfg) partCount\<rparr>))"

definition same_request :: "prepared_upload \<Rightarrow> upload_session \<Rightarrow> bool" where
  "same_request pu s \<longleftrightarrow> us_ownerSubject s = pr_ownerSubject (ci_principal (pu_input pu)) \<and>
     us_drive s = pr_drive (ci_principal (pu_input pu)) \<and> us_idempotencyKey s = ci_idempotencyKey (pu_input pu)"

definition find_request :: "prepared_upload \<Rightarrow> upload_system \<Rightarrow> upload_session option" where
  "find_request pu st = find (same_request pu) (map snd (ut_sessions st))"

definition replay_request :: "prepared_upload \<Rightarrow> upload_session \<Rightarrow> gfs_error + bool \<times> upload_session" where
  "replay_request pu s =
     (if us_requestFingerprint s \<noteq> pu_fingerprint pu then Inl (GfsError GeIdempotencyConflict) else Inr (False, s))"

definition active_at :: "instant \<Rightarrow> upload_session \<Rightarrow> bool" where
  "active_at now s \<longleftrightarrow> is_live (us_state s) \<and> us_expiresAt s > now"

definition reserved_bytes :: "instant \<Rightarrow> string \<Rightarrow> (string, upload_session) js_map \<Rightarrow> int" where
  "reserved_bytes now drive m =
     sum_list (map (\<lambda>s. (us_expectedBytes s - us_committedBytes s) + us_expectedBytes s)
                 (filter (\<lambda>s. us_drive s = drive \<and> active_at now s) (map snd m)))"

definition new_session :: "upload_config \<Rightarrow> instant \<Rightarrow> string \<Rightarrow> prepared_upload \<Rightarrow> upload_session" where
  "new_session cfg now uploadId pu =
     (let inp = pu_input pu in \<lparr>
       us_uploadId = js_lower uploadId, us_idempotencyKey = ci_idempotencyKey inp,
       us_drive = pr_drive (ci_principal inp), us_ownerSubject = pr_ownerSubject (ci_principal inp),
       us_primarySubject = pr_primarySubject (ci_principal inp), us_operation = ci_operation inp,
       us_requestFingerprint = pu_fingerprint pu, us_parentRid = ci_parentRid inp, us_resourceRid = ci_resourceRid inp,
       us_resourceName = ci_name inp, us_ifMatch = ci_ifMatch inp, us_expectedBytes = ci_sizeBytes inp,
       us_partBytes = uc_preferredPartBytes cfg, us_partCount = pu_partCount pu, us_wholeSha256 = ci_wholeSha256 inp,
       us_committedBytes = 0, us_contiguousBytes = 0, us_committedPartCount = 0, us_activePartCount = 0,
       us_finalizingStartedAt = None, us_sessionEpoch = 0, us_state = UpInitiated, us_resultResourceId = None,
       us_resultVersion = None, us_resultSha256 = None, us_failureCode = None,
       us_expiresAt = now + uc_sessionTtlSeconds cfg * 1000, us_cleanupAt = None, us_parts = []\<rparr>)"

text \<open>The admission transaction: quotas, storage, insert. \<open>dbNow\<close> is the database's clock, \<open>now\<close> the writer's.\<close>

definition create_admit ::
  "upload_config \<Rightarrow> instant \<Rightarrow> instant \<Rightarrow> string \<Rightarrow> int option \<Rightarrow> prepared_upload \<Rightarrow> upload_system \<Rightarrow>
   upload_system \<times> (gfs_error + bool \<times> upload_session)" where
  "create_admit cfg now dbNow uploadId available pu st =
     (let inp = pu_input pu; drive = pr_drive (ci_principal inp); owner = pr_ownerSubject (ci_principal inp);
          rows = map snd (ut_sessions st);
          subjectActive = length (filter (\<lambda>s. us_drive s = drive \<and> us_ownerSubject s = owner \<and> active_at dbNow s) rows);
          globalActive = length (filter (active_at dbNow) rows)
      in if int subjectActive \<ge> uc_maxActivePerSubject cfg
         then (st, Inl (QuotaError ''active_sessions_subject'' (uc_maxActivePerSubject cfg)))
         else if int globalActive \<ge> uc_maxActiveGlobal cfg
         then (st, Inl (QuotaError ''active_sessions_global'' (uc_maxActiveGlobal cfg)))
         else if (case available of None \<Rightarrow> False
                  | Some a \<Rightarrow> reserved_bytes dbNow drive (ut_sessions st) + ci_sizeBytes inp * 2 + uc_minFreeBytes cfg > a)
         then (st, Inl (GfsError GeInsufficientStorage))
         else if js_get (ut_sessions st) (js_lower uploadId) \<noteq> None \<or> find_request pu st \<noteq> None
         then (st, (case find_request pu st of None \<Rightarrow> Inl (GfsError GeInternal) | Some s \<Rightarrow> replay_request pu s))
         else (let s = new_session cfg now uploadId pu in (put_session (js_lower uploadId) s st, Inr (True, s))))"

definition create_upload ::
  "upload_config \<Rightarrow> (string \<Rightarrow> string) \<Rightarrow> authorizer \<Rightarrow> instant \<Rightarrow> instant \<Rightarrow> string \<Rightarrow> int option \<Rightarrow> create_input \<Rightarrow>
   upload_system \<Rightarrow> upload_system \<times> (gfs_error + bool \<times> upload_session)" where
  "create_upload cfg nfc authorize now dbNow fresh available inp st =
     (case create_prepare cfg nfc authorize inp of
        Inl e \<Rightarrow> (st, Inl e)
      | Inr pu \<Rightarrow>
          (case find_request pu st of
             Some s \<Rightarrow> (st, replay_request pu s)
           | None \<Rightarrow>
               (if ci_sizeBytes inp > uc_productMaxFileBytes cfg then (st, Inl (GfsError GePayloadTooLarge))
                else if pu_partCount pu > uc_maxPartCount cfg then (st, Inl (GfsError GePayloadTooLarge))
                else (case require_uuid (case ci_uploadId inp of None \<Rightarrow> fresh | Some u \<Rightarrow> u) of
                        Inl e \<Rightarrow> (st, Inl e)
                      | Inr uploadId \<Rightarrow> create_admit cfg now dbNow uploadId available pu st))))"

section \<open>Reading a session\<close>

definition get_upload :: "upload_config \<Rightarrow> instant \<Rightarrow> string \<Rightarrow> upload_principal \<Rightarrow> upload_system \<Rightarrow> gfs_error + upload_session" where
  "get_upload cfg now uploadId prin st =
     (case require_enabled cfg of Some e \<Rightarrow> Inl e | None \<Rightarrow>
      case load_owned now uploadId prin st of Inl e \<Rightarrow> Inl e | Inr s \<Rightarrow>
      if us_state s = UpExpired then Inl (GfsError GeUploadExpired)
      else if us_state s = UpAborted then Inl (GfsError GeUploadAborted)
      else Inr s)"

record status_page =
  sp_session :: upload_session
  sp_activePartNumbers :: "int list"
  sp_parts :: "upload_part list"
  sp_nextCursor :: "int option"

text \<open>\<open>ORDER BY part_number\<close>.\<close>

definition ordered_parts :: "part_table \<Rightarrow> upload_part list" where
  "ordered_parts m = sort_key up_partNumber (parts_in PartCommitted m)"

text \<open>A page of the status; the cursor has been read as a number, -1 when there is none.\<close>

definition upload_status ::
  "upload_config \<Rightarrow> instant \<Rightarrow> string \<Rightarrow> upload_principal \<Rightarrow> int \<Rightarrow> int \<Rightarrow> upload_system \<Rightarrow> gfs_error + status_page" where
  "upload_status cfg now uploadId prin cursor lim st =
     (case require_enabled cfg of Some e \<Rightarrow> Inl e | None \<Rightarrow>
      if \<not> is_uuid uploadId then Inl (GfsError GePathInvalid) else
      if lim < 1 \<or> lim > 256 then Inl (GfsError GePathInvalid) else
      case lock_session uploadId prin st of Inl e \<Rightarrow> Inl e | Inr s \<Rightarrow>
      case assert_not_expired s now of Some e \<Rightarrow> Inl e | None \<Rightarrow>
      (let result = take (nat lim + 1) (filter (\<lambda>p. up_partNumber p > cursor) (ordered_parts (us_parts s)));
           active = map up_partNumber (sort_key up_partNumber (parts_in PartReserved (us_parts s)));
           hasMore = (length result > nat lim);
           rows = (if hasMore then take (nat lim) result else result)
       in Inr \<lparr>sp_session = s\<lparr>us_activePartCount := int (length active)\<rparr>, sp_activePartNumbers = active,
               sp_parts = rows,
               sp_nextCursor = (if hasMore \<and> rows \<noteq> [] then Some (up_partNumber (last rows)) else None)\<rparr>))"

section \<open>Uploading a part\<close>

definition put_part_checks ::
  "upload_config \<Rightarrow> authorizer \<Rightarrow> instant \<Rightarrow> string \<Rightarrow> part_geometry \<Rightarrow> string option \<Rightarrow> upload_principal \<Rightarrow> upload_system \<Rightarrow>
   gfs_error + string \<times> upload_session" where
  "put_part_checks cfg authorize now uploadId part checksum prin st =
     (case require_enabled cfg of Some e \<Rightarrow> Inl e | None \<Rightarrow>
      case require_checksum checksum of Inl e \<Rightarrow> Inl e | Inr expected \<Rightarrow>
      case load_owned now uploadId prin st of Inl e \<Rightarrow> Inl e | Inr s \<Rightarrow>
      case authorize prin (us_operation s) (target_rid s) of Some e \<Rightarrow> Inl e | None \<Rightarrow>
      if uploadId \<in> ut_pauseRequested st then Inl (GfsError GeConflict) else
      case assert_not_expired s now of Some e \<Rightarrow> Inl e | None \<Rightarrow>
      if us_state s = UpPaused then Inl (GfsError GeConflict) else
      if us_state s \<in> {UpFinalizing, UpCompleted} then Inl (GfsError GeUploadCompleted) else
      if us_state s \<in> {UpAborted, UpExpired, UpFailed} then Inl (GfsError GeUploadAborted) else
      case validate_part_geometry (geometry_of s) part of Some e \<Rightarrow> Inl (GfsError GePathInvalid) | None \<Rightarrow>
      if js_get (ut_inFlight st) (flight_key uploadId (pg_partNumber part)) \<noteq> None then Inl (GfsError GeConflict)
      else Inr (expected, s))"

text \<open>The accepted request registers its flight before the reservation.\<close>

definition put_part_begin ::
  "upload_config \<Rightarrow> authorizer \<Rightarrow> instant \<Rightarrow> string \<Rightarrow> part_geometry \<Rightarrow> string option \<Rightarrow> upload_principal \<Rightarrow> upload_system \<Rightarrow>
   upload_system \<times> gfs_error option" where
  "put_part_begin cfg authorize now uploadId part checksum prin st =
     (case put_part_checks cfg authorize now uploadId part checksum prin st of
        Inl e \<Rightarrow> (st, Some e)
      | Inr (expected, s) \<Rightarrow>
          (st\<lparr>ut_inFlight := js_set (flight_key uploadId (pg_partNumber part))
                \<lparr>uf_uploadId = uploadId, uf_principal = prin, uf_part = part, uf_checksum = expected,
                 uf_stage = AwaitingReservation\<rparr> (ut_inFlight st)\<rparr>, None))"

definition reserved_row :: "instant \<Rightarrow> upload_flight \<Rightarrow> string \<Rightarrow> int \<Rightarrow> upload_part" where
  "reserved_row dbNow f stagingPath leaseEpoch = \<lparr>
     up_partNumber = pg_partNumber (uf_part f), up_offsetBytes = pg_offsetBytes (uf_part f),
     up_lengthBytes = pg_lengthBytes (uf_part f), up_sha256 = uf_checksum f, up_state = PartReserved,
     up_stagingPath = stagingPath, up_leaseEpoch = leaseEpoch, up_leaseStartedAt = dbNow, up_committedAt = None\<rparr>"

definition next_lease :: "upload_session \<Rightarrow> int \<Rightarrow> int" where
  "next_lease s n =
     (let previous = (case js_get (us_parts s) n of Some p \<Rightarrow> up_leaseEpoch p | None \<Rightarrow> us_sessionEpoch s)
      in max (us_sessionEpoch s + 1) (previous + 1))"

definition reserve_transaction ::
  "upload_config \<Rightarrow> string \<Rightarrow> instant \<Rightarrow> string \<Rightarrow> upload_flight \<Rightarrow> upload_system \<Rightarrow>
   gfs_error + upload_session option \<times> flight_stage" where
  "reserve_transaction cfg root dbNow tmp f st =
     (case lock_session (uf_uploadId f) (uf_principal f) st of Inl e \<Rightarrow> Inl e | Inr s \<Rightarrow>
      if uf_uploadId f \<in> ut_pauseRequested st then Inl (GfsError GeConflict) else
      if us_state s = UpPaused then Inl (GfsError GeConflict) else
      if us_state s \<noteq> UpInitiated \<and> us_state s \<noteq> UpUploading then Inl (GfsError GeUploadAborted) else
      (let n = pg_partNumber (uf_part f); existing = js_get (us_parts s) n
       in case map_option up_state existing of
            Some PartCommitted \<Rightarrow> Inr (None, Replaying (the existing) (us_sessionEpoch s))
          | Some PartReserved \<Rightarrow> Inl (GfsError GeConflict)
          | _ \<Rightarrow>
              if drive_reserved (us_drive s) (ut_sessions st) \<ge> uc_maxConcurrentPartStreamsGlobal cfg
              then Inl (QuotaError ''active_part_streams_global'' (uc_maxConcurrentPartStreamsGlobal cfg))
              else if reserved_count (us_parts s) \<ge> uc_maxConcurrentPartsPerSession cfg
              then Inl (QuotaError ''active_part_streams_session'' (uc_maxConcurrentPartsPerSession cfg))
              else (let path = session_path root (uf_uploadId f) n (temp_suffix tmp); lease = next_lease s n;
                        s' = with_active_count (s\<lparr>us_parts := js_set n (reserved_row dbNow f path lease) (us_parts s),
                               us_state := UpUploading\<rparr>)
                    in Inr (Some s', Reserved \<lparr>pl_sessionEpoch = us_sessionEpoch s', pl_leaseEpoch = lease,
                                        pl_partCount = us_partCount s', pl_stagingPath = path\<rparr>))))"

definition put_part_reserve ::
  "upload_config \<Rightarrow> string \<Rightarrow> instant \<Rightarrow> string \<Rightarrow> string \<Rightarrow> upload_flight \<Rightarrow> upload_system \<Rightarrow> upload_system \<times> gfs_error option" where
  "put_part_reserve cfg root dbNow tmp key f st =
     (case reserve_transaction cfg root dbNow tmp f st of
        Inl e \<Rightarrow> (drop_flight key st, Some e)
      | Inr (row, stage) \<Rightarrow>
          (set_stage key stage (case row of None \<Rightarrow> st | Some s \<Rightarrow> put_session (js_lower (uf_uploadId f)) s st), None))"

text \<open>The check after the reservation, before the first byte is read.\<close>

definition session_unchanged :: "int \<Rightarrow> upload_flight \<Rightarrow> upload_system \<Rightarrow> bool" where
  "session_unchanged epoch f st \<longleftrightarrow> uf_uploadId f \<notin> ut_canceledUploads st \<and>
     (case lock_session (uf_uploadId f) (uf_principal f) st of
        Inl e \<Rightarrow> False
      | Inr s \<Rightarrow> us_state s \<noteq> UpAborted \<and> us_sessionEpoch s = epoch)"

text \<open>\<open>readPartBody\<close> over the chunks of a request that ends without an abort.\<close>

fun collect_chunks :: "int \<Rightarrow> int \<Rightarrow> string \<Rightarrow> string list \<Rightarrow> gfs_error + string" where
  "collect_chunks expected maxLength got [] =
     (if int (length got) \<noteq> expected then Inl (GfsError GePathInvalid) else Inr got)"
| "collect_chunks expected maxLength got (c # cs) =
     (let got' = got @ c
      in if int (length got') > expected \<or> int (length got') > maxLength then Inl (GfsError GePayloadTooLarge)
         else collect_chunks expected maxLength got' cs)"

definition read_part_body :: "int \<Rightarrow> int \<Rightarrow> string list \<Rightarrow> gfs_error + string" where
  "read_part_body expected maxLength chunks =
     (if \<not> is_safe_integer expected \<or> expected \<le> 0 \<or> expected > maxLength then Inl (GfsError GePayloadTooLarge)
      else collect_chunks expected maxLength [] chunks)"

text \<open>The answer to a part that was committed before: the same bytes are accepted again.\<close>

definition replay_part ::
  "upload_config \<Rightarrow> (string \<Rightarrow> string) \<Rightarrow> string list \<Rightarrow> upload_part \<Rightarrow> upload_flight \<Rightarrow> upload_system \<Rightarrow> gfs_error option" where
  "replay_part cfg H chunks p f st =
     (case read_part_body (up_lengthBytes p) (uc_maxPartBytes cfg) chunks of
        Inl e \<Rightarrow> Some e
      | Inr content \<Rightarrow>
          (if H content \<noteq> up_sha256 p \<or> int (length content) \<noteq> up_lengthBytes p \<or> uf_checksum f \<noteq> up_sha256 p
           then Some (GfsError GeConflict)
           else if uf_uploadId f \<in> ut_canceledUploads st then Some (GfsError GeUploadAborted) else None))"

text \<open>The body goes to the temporary file, which is removed again when the body is refused.\<close>

definition receive_part ::
  "upload_config \<Rightarrow> (string \<Rightarrow> string) \<Rightarrow> string list \<Rightarrow> string \<Rightarrow> upload_flight \<Rightarrow> part_lease \<Rightarrow> upload_system \<Rightarrow> upload_system" where
  "receive_part cfg H chunks key f l st =
     (if js_get (ut_files st) (pl_stagingPath l) \<noteq> None then set_stage key (Failing l False) st
      else (case read_part_body (pg_lengthBytes (uf_part f)) (uc_maxPartBytes cfg) chunks of
              Inl e \<Rightarrow> set_stage key (Failing l False) st
            | Inr content \<Rightarrow>
                (let st' = st\<lparr>ut_files := js_set (pl_stagingPath l) content (ut_files st)\<rparr>
                 in if H content \<noteq> uf_checksum f then set_stage key (Failing l False) st'
                    else set_stage key (Verified l) st')))"

definition final_path :: "string \<Rightarrow> upload_flight \<Rightarrow> string" where
  "final_path root f = session_path root (uf_uploadId f) (pg_partNumber (uf_part f)) []"

definition rename_part :: "string \<Rightarrow> string \<Rightarrow> upload_flight \<Rightarrow> part_lease \<Rightarrow> upload_system \<Rightarrow> upload_system" where
  "rename_part root key f l st =
     (if js_get (ut_files st) (final_path root f) \<noteq> None then set_stage key (Failing l True) st
      else (case js_get (ut_files st) (pl_stagingPath l) of
              None \<Rightarrow> set_stage key (Failing l True) st
            | Some content \<Rightarrow>
                set_stage key (Renamed l)
                  (st\<lparr>ut_files := js_set (final_path root f) content (js_delete (pl_stagingPath l) (ut_files st))\<rparr>)))"

definition committed_row :: "string \<Rightarrow> instant \<Rightarrow> upload_part \<Rightarrow> upload_part" where
  "committed_row path dbNow p = p\<lparr>up_state := PartCommitted, up_stagingPath := path, up_committedAt := Some dbNow\<rparr>"

definition commit_transaction ::
  "string \<Rightarrow> instant \<Rightarrow> upload_flight \<Rightarrow> part_lease \<Rightarrow> upload_system \<Rightarrow> gfs_error + upload_session" where
  "commit_transaction root dbNow f l st =
     (case lock_session (uf_uploadId f) (uf_principal f) st of Inl e \<Rightarrow> Inl e | Inr s \<Rightarrow>
      (let n = pg_partNumber (uf_part f)
       in case js_get (us_parts s) n of
            None \<Rightarrow> Inl (GfsError GeUploadAborted)
          | Some p \<Rightarrow>
              if up_state p \<noteq> PartReserved \<or> up_leaseEpoch p \<noteq> pl_leaseEpoch l \<or>
                 us_sessionEpoch s \<noteq> pl_sessionEpoch l \<or> us_state s \<noteq> UpUploading
              then Inl (GfsError GeUploadAborted)
              else (let parts = js_set n (committed_row (final_path root f) dbNow p) (us_parts s)
                    in Inr (with_active_count (s\<lparr>us_parts := parts,
                         us_committedBytes := us_committedBytes s + pg_lengthBytes (uf_part f),
                         us_committedPartCount := us_committedPartCount s + 1,
                         us_contiguousBytes := contiguous_bytes (pl_partCount l) parts\<rparr>)))))"

text \<open>The outcome of a commit the client of the database did not see is unknown: the row may be written and
  the request still take the way of a failure.\<close>

definition commit_part ::
  "string \<Rightarrow> instant \<Rightarrow> bool \<Rightarrow> string \<Rightarrow> upload_flight \<Rightarrow> part_lease \<Rightarrow> upload_system \<Rightarrow> upload_system" where
  "commit_part root dbNow outcomeSeen key f l st =
     (case commit_transaction root dbNow f l st of
        Inl e \<Rightarrow> set_stage key (Failing l True) st
      | Inr s \<Rightarrow>
          (let st' = put_session (js_lower (uf_uploadId f)) s st
           in if outcomeSeen then drop_flight key st' else set_stage key (Failing l True) st'))"

text \<open>\<open>reconcileCommittedPart\<close>: was the part committed after all?\<close>

definition reconcile_committed_part :: "string \<Rightarrow> upload_flight \<Rightarrow> part_lease \<Rightarrow> upload_system \<Rightarrow> (upload_part \<times> upload_session) option" where
  "reconcile_committed_part root f l st =
     (case Option.bind (js_get (ut_sessions st) (js_lower (uf_uploadId f))) (\<lambda>s. js_get (us_parts s) (pg_partNumber (uf_part f))) of
        None \<Rightarrow> None
      | Some p \<Rightarrow>
          (if up_state p \<noteq> PartCommitted \<or> up_sha256 p \<noteq> uf_checksum f \<or> up_offsetBytes p \<noteq> pg_offsetBytes (uf_part f) \<or>
              up_lengthBytes p \<noteq> pg_lengthBytes (uf_part f) \<or> up_leaseEpoch p \<noteq> pl_leaseEpoch l \<or>
              up_stagingPath p \<noteq> final_path root f
           then None
           else (case lock_session (uf_uploadId f) (uf_principal f) st of
                   Inl e \<Rightarrow> None
                 | Inr s \<Rightarrow> (if us_state s \<in> {UpAborted, UpExpired, UpFailed} then None else Some (p, s)))))"

text \<open>The recovery transaction: only a row still reserved under this lease loses its final file and fails.\<close>

definition fail_transaction :: "string \<Rightarrow> upload_flight \<Rightarrow> part_lease \<Rightarrow> bool \<Rightarrow> upload_system \<Rightarrow> upload_system" where
  "fail_transaction root f l hasFinal st =
     (let u = js_lower (uf_uploadId f); n = pg_partNumber (uf_part f)
      in case js_get (ut_sessions st) u of
           None \<Rightarrow> st
         | Some s \<Rightarrow>
             (case js_get (us_parts s) n of
                None \<Rightarrow> st
              | Some p \<Rightarrow>
                  (if up_state p \<noteq> PartReserved \<or> up_leaseEpoch p \<noteq> pl_leaseEpoch l then st
                   else put_session u (with_active_count (s\<lparr>us_parts :=
                            js_set n (p\<lparr>up_state := PartFailed, up_committedAt := None\<rparr>) (us_parts s)\<rparr>))
                          (if hasFinal then st\<lparr>ut_files := js_delete (final_path root f) (ut_files st)\<rparr> else st))))"

text \<open>The failure path of \<open>putPart\<close>. The flags say whether the committed row could be read back, whether the
  temporary file could be removed, and whether the recovery transaction went through.\<close>

definition fail_part ::
  "string \<Rightarrow> bool \<Rightarrow> bool \<Rightarrow> bool \<Rightarrow> string \<Rightarrow> upload_flight \<Rightarrow> part_lease \<Rightarrow> bool \<Rightarrow> upload_system \<Rightarrow> upload_system \<times> bool" where
  "fail_part root readable tempRemoved recovered key f l hasFinal st =
     (if hasFinal \<and> readable \<and> reconcile_committed_part root f l st \<noteq> None then (drop_flight key st, True)
      else (let st1 = (if tempRemoved then st\<lparr>ut_files := js_delete (pl_stagingPath l) (ut_files st)\<rparr> else st);
                st2 = (if recovered then fail_transaction root f l hasFinal st1 else st1)
            in (drop_flight key st2, False)))"

section \<open>Pause and resume\<close>

definition pause_begin ::
  "upload_config \<Rightarrow> authorizer \<Rightarrow> instant \<Rightarrow> string \<Rightarrow> upload_principal \<Rightarrow> upload_system \<Rightarrow>
   upload_system \<times> (gfs_error + upload_session option)" where
  "pause_begin cfg authorize now uploadId prin st =
     (case require_enabled cfg of Some e \<Rightarrow> (st, Inl e) | None \<Rightarrow>
      case load_owned now uploadId prin st of Inl e \<Rightarrow> (st, Inl e) | Inr s \<Rightarrow>
      case authorize prin (us_operation s) (target_rid s) of Some e \<Rightarrow> (st, Inl e) | None \<Rightarrow>
      if us_state s = UpPaused then (st, Inr (Some s))
      else if us_state s \<noteq> UpInitiated \<and> us_state s \<noteq> UpUploading then (st, Inl (GfsError GeConflict))
      else if uploadId \<in> ut_pauseRequested st then (st, Inl (GfsError GeConflict))
      else (st\<lparr>ut_pauseRequested := insert uploadId (ut_pauseRequested st)\<rparr>, Inr None))"

text \<open>One round of the drain loop: it ends with the paused session or an error, or waits for another round.\<close>

definition pause_round ::
  "instant \<Rightarrow> instant \<Rightarrow> string \<Rightarrow> upload_principal \<Rightarrow> upload_system \<Rightarrow> upload_system \<times> (gfs_error + upload_session) option" where
  "pause_round now deadline uploadId prin st =
     (let release = (\<lambda>t. t\<lparr>ut_pauseRequested := ut_pauseRequested t - {uploadId}\<rparr>);
          again = (if now \<ge> deadline then (release st, Some (Inl (GfsError GePreconditionFailed))) else (st, None))
      in case load_owned now uploadId prin st of
           Inl e \<Rightarrow> (release st, Some (Inl e))
         | Inr s \<Rightarrow>
             (if us_state s \<noteq> UpInitiated \<and> us_state s \<noteq> UpUploading
              then (release st, Some (if us_state s = UpPaused then Inr s else Inl (GfsError GeConflict)))
              else if us_activePartCount s = 0 \<and> \<not> flights_of uploadId st
              then (let s' = s\<lparr>us_state := UpPaused\<rparr> in (release (put_session (js_lower uploadId) s' st), Some (Inr s')))
              else again))"

definition resume_checks ::
  "upload_config \<Rightarrow> authorizer \<Rightarrow> instant \<Rightarrow> string \<Rightarrow> upload_principal \<Rightarrow> upload_system \<Rightarrow> gfs_error + upload_session option" where
  "resume_checks cfg authorize now uploadId prin st =
     (case require_enabled cfg of Some e \<Rightarrow> Inl e | None \<Rightarrow>
      case load_owned now uploadId prin st of Inl e \<Rightarrow> Inl e | Inr s \<Rightarrow>
      case assert_not_expired s now of Some e \<Rightarrow> Inl e | None \<Rightarrow>
      case authorize prin (us_operation s) (target_rid s) of Some e \<Rightarrow> Inl e | None \<Rightarrow>
      if uploadId \<in> ut_pauseRequested st then Inl (GfsError GeConflict)
      else if us_state s = UpUploading \<or> us_state s = UpInitiated then Inr (Some s)
      else if us_state s \<noteq> UpPaused then Inl (GfsError GeConflict)
      else Inr None)"

text \<open>The transaction of \<open>resume\<close> after its checks: the update asks for a paused row, the receipt does not.\<close>

definition resume_transaction :: "string \<Rightarrow> upload_principal \<Rightarrow> upload_system \<Rightarrow> upload_system \<times> (gfs_error + upload_session)" where
  "resume_transaction uploadId prin st =
     (case lock_session uploadId prin st of
        Inl e \<Rightarrow> (st, Inl e)
      | Inr s \<Rightarrow>
          ((if us_state s = UpPaused then put_session (js_lower uploadId) (s\<lparr>us_state := UpUploading\<rparr>) st else st),
           Inr (s\<lparr>us_state := UpUploading\<rparr>)))"

section \<open>Cancel\<close>

definition cancel_checks ::
  "upload_config \<Rightarrow> authorizer \<Rightarrow> instant \<Rightarrow> string \<Rightarrow> upload_principal \<Rightarrow> upload_system \<Rightarrow> gfs_error + bool" where
  "cancel_checks cfg authorize now uploadId prin st =
     (case require_enabled cfg of Some e \<Rightarrow> Inl e | None \<Rightarrow>
      case load_owned now uploadId prin st of Inl e \<Rightarrow> Inl e | Inr s \<Rightarrow>
      case authorize prin (us_operation s) (target_rid s) of Some e \<Rightarrow> Inl e | None \<Rightarrow>
      if us_state s = UpCompleted then Inl (GfsError GeUploadCompleted)
      else if us_state s = UpFinalizing then Inl (GfsError GeUploadFinalizing)
      else Inr (us_state s \<noteq> UpAborted))"

definition fail_reserved :: "part_table \<Rightarrow> part_table" where
  "fail_reserved m = map (\<lambda>(n, p). (n, if up_state p = PartReserved then p\<lparr>up_state := PartFailed\<rparr> else p)) m"

definition aborted_session :: "upload_session \<Rightarrow> upload_session" where
  "aborted_session s = s\<lparr>us_state := UpAborted, us_sessionEpoch := us_sessionEpoch s + 1, us_activePartCount := 0,
     us_parts := fail_reserved (us_parts s)\<rparr>"

definition cancel_transaction :: "string \<Rightarrow> upload_principal \<Rightarrow> upload_system \<Rightarrow> upload_system \<times> gfs_error option" where
  "cancel_transaction uploadId prin st =
     (case lock_session uploadId prin st of
        Inl e \<Rightarrow> (st, Some e)
      | Inr s \<Rightarrow>
          (if us_state s = UpFinalizing then (st, Some (GfsError GeUploadFinalizing))
           else if us_state s = UpCompleted then (st, Some (GfsError GeUploadCompleted))
           else (put_session (js_lower uploadId) (aborted_session s)
                   (st\<lparr>ut_canceledUploads := insert uploadId (ut_canceledUploads st)\<rparr>), None)))"

definition without_directory :: "string \<Rightarrow> string \<Rightarrow> (string, string) js_map \<Rightarrow> (string, string) js_map" where
  "without_directory root u files = filter (\<lambda>(p, c). \<not> starts_with p (uploads_dir root u)) files"

text \<open>The end of a cancellation, once nothing of the upload is in flight in this process. The directory may
  fail to be removed; the part rows are gone either way.\<close>

definition cancel_cleanup :: "string \<Rightarrow> instant \<Rightarrow> bool \<Rightarrow> string \<Rightarrow> upload_system \<Rightarrow> upload_system" where
  "cancel_cleanup root dbNow removed uploadId st =
     (let u = js_lower uploadId
      in case js_get (ut_sessions st) u of
           None \<Rightarrow> st\<lparr>ut_canceledUploads := ut_canceledUploads st - {uploadId}\<rparr>
         | Some s \<Rightarrow>
             put_session u ((if removed \<and> us_state s = UpAborted then s\<lparr>us_cleanupAt := Some dbNow\<rparr> else s)\<lparr>us_parts := []\<rparr>)
               (st\<lparr>ut_files := (if removed then without_directory root u (ut_files st) else ut_files st),
                  ut_canceledUploads := ut_canceledUploads st - {uploadId}\<rparr>))"

section \<open>Reconciliation\<close>

text \<open>Rows of one pass, each under its row lock. What could be removed of a stale part's files is an argument:
  the row is failed only when both the temporary and a renamed file are gone.\<close>

datatype removal = RemovedNothing | RemovedTemporary | RemovedBoth

definition is_stale_part :: "upload_config \<Rightarrow> instant \<Rightarrow> upload_part \<Rightarrow> bool" where
  "is_stale_part cfg dbNow p \<longleftrightarrow> up_state p = PartReserved \<and> up_leaseStartedAt p < dbNow - uc_stalePartLeaseMs cfg"

definition reconcile_stale_part ::
  "upload_config \<Rightarrow> string \<Rightarrow> instant \<Rightarrow> removal \<Rightarrow> string \<Rightarrow> int \<Rightarrow> upload_system \<Rightarrow> upload_system" where
  "reconcile_stale_part cfg root dbNow removed u n st =
     (case js_get (ut_sessions st) u of
        None \<Rightarrow> st
      | Some s \<Rightarrow>
          (case js_get (us_parts s) n of
             None \<Rightarrow> st
           | Some p \<Rightarrow>
               (if \<not> is_stale_part cfg dbNow p \<or> \<not> validated_temp_path root u n (up_stagingPath p) then st
                else (case removed of
                        RemovedNothing \<Rightarrow> st
                      | RemovedTemporary \<Rightarrow> st\<lparr>ut_files := js_delete (up_stagingPath p) (ut_files st)\<rparr>
                      | RemovedBoth \<Rightarrow>
                          put_session u (with_active_count (s\<lparr>us_parts :=
                              js_set n (p\<lparr>up_state := PartFailed, up_committedAt := None\<rparr>) (us_parts s)\<rparr>))
                            (st\<lparr>ut_files := js_delete (session_path root u n []) (js_delete (up_stagingPath p) (ut_files st))\<rparr>)))))"

definition reconcile_stale_finalizer :: "upload_config \<Rightarrow> instant \<Rightarrow> string \<Rightarrow> upload_system \<Rightarrow> upload_system" where
  "reconcile_stale_finalizer cfg dbNow u st =
     (case js_get (ut_sessions st) u of
        None \<Rightarrow> st
      | Some s \<Rightarrow>
          (case us_finalizingStartedAt s of
             None \<Rightarrow> st
           | Some t \<Rightarrow>
               (if us_state s = UpFinalizing \<and> t < dbNow - uc_finalizeTimeoutMs cfg \<and> js_get (ut_inFlightFinalizers st) u = None
                then put_session u (s\<lparr>us_state := UpUploading, us_sessionEpoch := us_sessionEpoch s + 1,
                       us_finalizingStartedAt := None,
                       us_expiresAt := max (us_expiresAt s) (dbNow + uc_sessionTtlSeconds cfg * 1000)\<rparr>) st
                else st)))"

definition reconcile_expired :: "instant \<Rightarrow> string \<Rightarrow> upload_system \<Rightarrow> upload_system" where
  "reconcile_expired dbNow u st =
     (case js_get (ut_sessions st) u of
        None \<Rightarrow> st
      | Some s \<Rightarrow>
          (if us_expiresAt s \<le> dbNow \<and>
              (us_state s \<in> {UpInitiated, UpUploading, UpPaused} \<or> us_state s = UpFinalizing \<and> us_finalizingStartedAt s = None) \<and>
              js_get (ut_inFlightFinalizers st) u = None
           then put_session u (s\<lparr>us_state := UpExpired, us_sessionEpoch := us_sessionEpoch s + 1, us_activePartCount := 0,
                  us_parts := []\<rparr>) (st\<lparr>ut_canceledUploads := insert u (ut_canceledUploads st)\<rparr>)
           else st))"

definition committed_part_file_present :: "string \<Rightarrow> string \<Rightarrow> upload_part \<Rightarrow> (string, string) js_map \<Rightarrow> bool" where
  "committed_part_file_present root u p files \<longleftrightarrow>
     up_stagingPath p = session_path root u (up_partNumber p) [] \<and> js_get files (up_stagingPath p) \<noteq> None"

definition reconcile_committed :: "string \<Rightarrow> string \<Rightarrow> int \<Rightarrow> upload_system \<Rightarrow> upload_system" where
  "reconcile_committed root u n st =
     (case js_get (ut_sessions st) u of
        None \<Rightarrow> st
      | Some s \<Rightarrow>
          (case js_get (us_parts s) n of
             None \<Rightarrow> st
           | Some p \<Rightarrow>
               (if up_state p = PartCommitted \<and> us_state s \<in> {UpUploading, UpPaused, UpFinalizing} \<and>
                   \<not> committed_part_file_present root u p (ut_files st)
                then put_session u (s\<lparr>us_state := UpFailed, us_failureCode := Some ''corrupt_part_missing'',
                       us_sessionEpoch := us_sessionEpoch s + 1, us_activePartCount := 0\<rparr>)
                     (st\<lparr>ut_canceledUploads := insert u (ut_canceledUploads st)\<rparr>)
                else st)))"

text \<open>The directory of a terminal session is removed once nothing of it is in flight in this process.\<close>

definition reconcile_cleanup :: "string \<Rightarrow> instant \<Rightarrow> string \<Rightarrow> upload_system \<Rightarrow> upload_system" where
  "reconcile_cleanup root dbNow u st =
     (case js_get (ut_sessions st) u of
        None \<Rightarrow> st
      | Some s \<Rightarrow>
          (if is_live (us_state s) \<or> has_in_flight u st then st
           else put_session u (s\<lparr>us_parts := [], us_cleanupAt := Some dbNow\<rparr>)
                  (st\<lparr>ut_files := without_directory root u (ut_files st),
                     ut_canceledUploads := ut_canceledUploads st - {u}\<rparr>)))"

definition reconcile_purge :: "upload_config \<Rightarrow> string \<Rightarrow> instant \<Rightarrow> string \<Rightarrow> upload_system \<Rightarrow> upload_system" where
  "reconcile_purge cfg root dbNow u st =
     (case js_get (ut_sessions st) u of
        None \<Rightarrow> st
      | Some s \<Rightarrow>
          (case us_cleanupAt s of
             None \<Rightarrow> st
           | Some t \<Rightarrow>
               (if us_state s = UpCompleted \<and> t \<le> dbNow - uc_receiptRetentionSeconds cfg * 1000 \<and> \<not> has_in_flight u st
                then st\<lparr>ut_sessions := js_delete u (ut_sessions st), ut_files := without_directory root u (ut_files st),
                       ut_canceledUploads := ut_canceledUploads st - {u}\<rparr>
                else st)))"

section \<open>Completion\<close>

definition complete_checks ::
  "upload_config \<Rightarrow> authorizer \<Rightarrow> instant \<Rightarrow> bool \<Rightarrow> string \<Rightarrow> upload_principal \<Rightarrow> string option \<Rightarrow> upload_system \<Rightarrow>
   gfs_error + upload_session option \<times> string option" where
  "complete_checks cfg authorize now mounted uploadId prin whole st =
     (case require_enabled cfg of Some e \<Rightarrow> Inl e | None \<Rightarrow>
      case load_owned now uploadId prin st of Inl e \<Rightarrow> Inl e | Inr s \<Rightarrow>
      case assert_not_expired s now of Some e \<Rightarrow> Inl e | None \<Rightarrow>
      case authorize prin (us_operation s) (target_rid s) of Some e \<Rightarrow> Inl e | None \<Rightarrow>
      if uploadId \<in> ut_pauseRequested st then Inl (GfsError GeConflict)
      else if us_state s = UpCompleted then Inr (Some s, None)
      else if us_state s = UpFinalizing then Inl (GfsError GeUploadFinalizing)
      else if \<not> mounted then Inl (GfsError GeNotMounted)
      else (case whole of
              None \<Rightarrow> Inr (None, us_wholeSha256 s)
            | Some h \<Rightarrow> map_sum id (\<lambda>x. (None, Some x)) (require_checksum (Some h))))"

definition part_matches :: "upload_geometry \<Rightarrow> int \<Rightarrow> upload_part \<Rightarrow> bool" where
  "part_matches g n p =
     (case part_geometry_of g n of
        Inl e \<Rightarrow> False
      | Inr expected \<Rightarrow> up_partNumber p = pg_partNumber expected \<and> up_offsetBytes p = pg_offsetBytes expected \<and>
                        up_lengthBytes p = pg_lengthBytes expected)"

definition finalizing_count :: "(string, upload_session) js_map \<Rightarrow> int" where
  "finalizing_count m = int (length (filter (\<lambda>(u, s). us_state s = UpFinalizing) m))"

datatype complete_start = AlreadyCompleted upload_session | FinalizeNow upload_session "upload_part list"

definition complete_transaction ::
  "upload_config \<Rightarrow> instant \<Rightarrow> string \<Rightarrow> upload_principal \<Rightarrow> string option \<Rightarrow> upload_system \<Rightarrow> gfs_error + complete_start" where
  "complete_transaction cfg dbNow uploadId prin expectedWhole st =
     (case lock_session uploadId prin st of Inl e \<Rightarrow> Inl e | Inr s \<Rightarrow>
      if uploadId \<in> ut_pauseRequested st then Inl (GfsError GeConflict)
      else if us_state s = UpCompleted then Inr (AlreadyCompleted s)
      else if us_state s = UpFinalizing then Inl (GfsError GeUploadFinalizing)
      else if us_state s = UpAborted then Inl (GfsError GeUploadAborted)
      else if us_state s = UpExpired then Inl (GfsError GeUploadExpired)
      else if us_state s = UpFailed then Inl (GfsError GeConflict)
      else if us_wholeSha256 s \<noteq> None \<and> expectedWhole \<noteq> None \<and> us_wholeSha256 s \<noteq> expectedWhole then Inl (GfsError GeConflict)
      else (let parts = ordered_parts (us_parts s)
            in if int (length parts) \<noteq> us_partCount s then Inl (GfsError GeUploadIncomplete)
               else if \<not> list_all2 (part_matches (geometry_of s)) [0..us_partCount s - 1] parts
               then Inl (GfsError GeUploadIncomplete)
               else if us_activePartCount s \<noteq> 0 \<or> us_committedPartCount s \<noteq> us_partCount s \<or>
                       us_committedBytes s \<noteq> us_expectedBytes s then Inl (GfsError GeUploadIncomplete)
               else if finalizing_count (ut_sessions st) \<ge> uc_maxConcurrentFinalizations cfg
               then Inl (QuotaError ''active_finalizations'' (uc_maxConcurrentFinalizations cfg))
               else Inr (FinalizeNow (s\<lparr>us_state := UpFinalizing,
                      us_wholeSha256 := (case us_wholeSha256 s of None \<Rightarrow> expectedWhole | Some h \<Rightarrow> Some h),
                      us_finalizingStartedAt := Some dbNow,
                      us_expiresAt := max (us_expiresAt s) (dbNow + uc_finalizeTimeoutMs cfg)\<rparr>) parts)))"

text \<open>The transaction and the registration of the finalizer; a finalizer of the same upload that is still
  running in this process keeps its place and the request is refused after the transaction.\<close>

definition complete_begin ::
  "upload_config \<Rightarrow> instant \<Rightarrow> string \<Rightarrow> upload_principal \<Rightarrow> string option \<Rightarrow> upload_system \<Rightarrow>
   upload_system \<times> (gfs_error + upload_session option)" where
  "complete_begin cfg dbNow uploadId prin expectedWhole st =
     (case complete_transaction cfg dbNow uploadId prin expectedWhole st of
        Inl e \<Rightarrow> (st, Inl e)
      | Inr (AlreadyCompleted s) \<Rightarrow> (st, Inr (Some s))
      | Inr (FinalizeNow s parts) \<Rightarrow>
          (let st' = put_session (js_lower uploadId) s st
           in if js_get (ut_inFlightFinalizers st) uploadId \<noteq> None then (st', Inl (GfsError GeUploadFinalizing))
              else (st'\<lparr>ut_inFlightFinalizers := js_set uploadId
                      \<lparr>fz_principal = prin, fz_session = s, fz_parts = parts\<rparr> (ut_inFlightFinalizers st')\<rparr>, Inr None)))"

text \<open>The ordered stream of the staged parts, each verified against its row (\<open>uploadFinalizer.ts\<close>).\<close>

fun upload_stream :: "(string \<Rightarrow> string) \<Rightarrow> string \<Rightarrow> string \<Rightarrow> (string, string) js_map \<Rightarrow> upload_part list \<Rightarrow> gfs_error + string" where
  "upload_stream H root u files [] = Inr []"
| "upload_stream H root u files (p # ps) =
     (if up_stagingPath p \<noteq> session_path root u (up_partNumber p) [] then Inl (GfsError GePathInvalid)
      else (case js_get files (up_stagingPath p) of
              None \<Rightarrow> Inl (GfsError GeInternal)
            | Some content \<Rightarrow>
                (if int (length content) \<noteq> up_lengthBytes p \<or> H content \<noteq> up_sha256 p then Inl (GfsError GeChecksumMismatch)
                 else map_sum id (\<lambda>rest. content @ rest) (upload_stream H root u files ps))))"

text \<open>
  What a publication meets outside the tables of uploads: an error while the bytes are staged (the deadline, an
  abort, the blob store), the resource tables of the write service (which refuse the name or the version, or
  give the resource id and version), the permission epochs of \<open>PermissionClient\<close> when the finalizer
  starts, before and after it authorizes, the clock and the abort signal at each look, the caller's
  authorization context and the decision for the target, and an error before the commit (the audit row, an
  abort, the commit itself; one whose outcome stays unknown is left out).
\<close>

record publication_world =
  pw_staging :: "gfs_error option"
  pw_target :: "gfs_error + string \<times> int"
  pw_captured :: permission_epoch
  pw_before :: permission_epoch
  pw_after :: permission_epoch
  pw_deadlineAtMs :: "instant option"
  pw_now :: "nat \<Rightarrow> instant"
  pw_aborted :: "nat \<Rightarrow> gfs_error option"
  pw_context :: "gfs_error option"
  pw_decision :: "gfs_error + bool"
  pw_commit :: "gfs_error option"

definition publication_late :: "publication_world \<Rightarrow> nat \<Rightarrow> bool" where
  "publication_late w k \<longleftrightarrow> (case pw_deadlineAtMs w of None \<Rightarrow> False | Some d \<Rightarrow> d \<le> pw_now w k)"

definition upload_target :: "upload_session \<Rightarrow> string option" where
  "upload_target s = (if us_operation s = CreateUpload then us_parentRid s else us_resourceRid s)"

text \<open>The checks of \<open>onPublished\<close>, in their order, up to its update of the session.\<close>

definition on_published_error :: "publication_world \<Rightarrow> upload_session \<Rightarrow> gfs_error option" where
  "on_published_error w s0 =
     (case pw_aborted w 0 of Some e \<Rightarrow> Some e | None \<Rightarrow>
      if publication_late w 0 then Some (GfsError GePreconditionFailed)
      else if ep_bypassed (pw_captured w) \<or> ep_bypassed (pw_before w) \<or>
              ep_generation (pw_before w) \<noteq> ep_generation (pw_captured w) then Some (GfsError GePreconditionFailed)
      else if upload_target s0 \<in> {None, Some []} then Some (GfsError GePathInvalid)
      else (case pw_context w of Some e \<Rightarrow> Some e | None \<Rightarrow>
            case pw_decision w of Inl e \<Rightarrow> Some e | Inr allowed \<Rightarrow>
            case pw_aborted w 1 of Some e \<Rightarrow> Some e | None \<Rightarrow>
            if publication_late w 1 then Some (GfsError GePreconditionFailed)
            else if ep_bypassed (pw_after w) \<or> ep_generation (pw_after w) \<noteq> ep_generation (pw_captured w)
            then Some (GfsError GePreconditionFailed)
            else if \<not> allowed then Some (GfsError GeForbidden)
            else None))"

text \<open>Publication: the bytes are staged and compared with the declared size and checksum, and the resource is
  published in the transaction that completes the session under its epoch; an error rolls it back.\<close>

definition finalize_publish ::
  "(string \<Rightarrow> string) \<Rightarrow> string \<Rightarrow> publication_world \<Rightarrow> upload_finalizer \<Rightarrow> upload_system \<Rightarrow> upload_system \<times> gfs_error option" where
  "finalize_publish H root w z st =
     (let s0 = fz_session z; u = us_uploadId s0
      in case pw_staging w of Some e \<Rightarrow> (st, Some e) | None \<Rightarrow>
         case upload_stream H root u (ut_files st) (sort_key up_partNumber (fz_parts z)) of
           Inl e \<Rightarrow> (st, Some e)
         | Inr content \<Rightarrow>
             (if int (length content) \<noteq> us_expectedBytes s0 \<or>
                 (case us_wholeSha256 s0 of None \<Rightarrow> False | Some h \<Rightarrow> H content \<noteq> h)
              then (st, Some (GfsError GeChecksumMismatch))
              else (case pw_target w of
                      Inl e \<Rightarrow> (st, Some e)
                    | Inr (rid, version) \<Rightarrow>
                        (case on_published_error w s0 of Some e \<Rightarrow> (st, Some e) | None \<Rightarrow>
                         case pw_aborted w 2 of Some e \<Rightarrow> (st, Some e) | None \<Rightarrow>
                         case js_get (ut_sessions st) u of
                           None \<Rightarrow> (st, Some (GfsError GeUploadAborted))
                         | Some s \<Rightarrow>
                             (if us_state s \<noteq> UpFinalizing \<or> us_sessionEpoch s \<noteq> us_sessionEpoch s0
                              then (st, Some (GfsError GeUploadAborted))
                              else (case pw_commit w of Some e \<Rightarrow> (st, Some e) | None \<Rightarrow>
                                    ((put_session u (s\<lparr>us_state := UpCompleted, us_resultResourceId := Some rid,
                                        us_resultVersion := Some version, us_resultSha256 := Some (H content)\<rparr>) st)
                                      \<lparr>ut_published := ut_published st @ [\<lparr>pb_uploadId = u, pb_sessionEpoch = us_sessionEpoch s0,
                                         pb_expectedBytes = us_expectedBytes s0, pb_content = content\<rparr>]\<rparr>, None)))))))"

definition release_finalizer :: "string \<Rightarrow> upload_system \<Rightarrow> upload_system" where
  "release_finalizer uploadId st = st\<lparr>ut_inFlightFinalizers := js_delete uploadId (ut_inFlightFinalizers st)\<rparr>"

text \<open>A finalizer that failed: its session fails with it unless the session's epoch has moved on.\<close>

definition finalize_fail :: "string \<Rightarrow> string \<Rightarrow> upload_finalizer \<Rightarrow> upload_system \<Rightarrow> upload_system" where
  "finalize_fail failureCode uploadId z st =
     (case lock_session uploadId (fz_principal z) st of
        Inl e \<Rightarrow> release_finalizer uploadId st
      | Inr s \<Rightarrow>
          (if us_state s = UpFinalizing \<and> us_sessionEpoch s = us_sessionEpoch (fz_session z)
           then release_finalizer uploadId (put_session (js_lower uploadId) (s\<lparr>us_state := UpFailed,
                  us_failureCode := Some failureCode, us_activePartCount := 0, us_finalizingStartedAt := None\<rparr>) st)
           else release_finalizer uploadId st))"

text \<open>After publication: the receipt, or an error when the session moved on in between.\<close>

definition complete_receipt :: "string \<Rightarrow> upload_principal \<Rightarrow> upload_system \<Rightarrow> gfs_error + upload_session" where
  "complete_receipt uploadId prin st =
     (case lock_session uploadId prin st of
        Inl e \<Rightarrow> Inl e
      | Inr s \<Rightarrow> (if us_state s = UpCompleted then Inr s else Inl (GfsError GeUploadAborted)))"

definition complete_cleanup :: "string \<Rightarrow> instant \<Rightarrow> string \<Rightarrow> upload_system \<Rightarrow> upload_system" where
  "complete_cleanup root dbNow uploadId st =
     (let u = js_lower uploadId
      in case js_get (ut_sessions st) u of
           None \<Rightarrow> st
         | Some s \<Rightarrow>
             (if us_state s = UpCompleted
              then put_session u (s\<lparr>us_parts := [], us_cleanupAt := Some dbNow\<rparr>)
                     (st\<lparr>ut_files := without_directory root u (ut_files st)\<rparr>)
              else st))"

section \<open>Capabilities\<close>

record capability_limits =
  cl_maxConcurrentPartsPerSession :: int
  cl_fallbackConcurrency :: int
  cl_maxConcurrentPartStreamsGlobal :: int
  cl_instabilityFailureThreshold :: int
  cl_sessionTtlSeconds :: int
  cl_checksumAlgorithms :: "string list"
  cl_wholeFileChecksumRequired :: bool

record upload_capability =
  cp_enabled :: bool
  cp_maxFileBytes :: int
  cp_preferredChunkBytes :: int
  cp_maxChunkBytes :: int
  cp_limits :: "capability_limits option"

definition disabled_capability :: upload_capability where
  "disabled_capability = \<lparr>cp_enabled = False, cp_maxFileBytes = 0, cp_preferredChunkBytes = 0, cp_maxChunkBytes = 0, cp_limits = None\<rparr>"

text \<open>The largest file of the older surface, and the capability of this one.\<close>

definition upload_capabilities :: "bool \<Rightarrow> upload_config \<Rightarrow> int \<times> upload_capability" where
  "upload_capabilities enabled cfg =
     (16 * 1024 * 1024,
      if \<not> enabled then disabled_capability
      else \<lparr>cp_enabled = True, cp_maxFileBytes = uc_productMaxFileBytes cfg,
            cp_preferredChunkBytes = uc_preferredPartBytes cfg, cp_maxChunkBytes = uc_maxPartBytes cfg,
            cp_limits = Some \<lparr>cl_maxConcurrentPartsPerSession = uc_maxConcurrentPartsPerSession cfg,
              cl_fallbackConcurrency = uc_fallbackConcurrency cfg,
              cl_maxConcurrentPartStreamsGlobal = uc_maxConcurrentPartStreamsGlobal cfg,
              cl_instabilityFailureThreshold = uc_instabilityFailureThreshold cfg,
              cl_sessionTtlSeconds = uc_sessionTtlSeconds cfg, cl_checksumAlgorithms = [''sha256''],
              cl_wholeFileChecksumRequired = False\<rparr>\<rparr>)"

end
