(* ===== verification/UploadCounters.thy ===== *)
theory UploadCounters
  imports UploadSession
begin

text \<open>
  Well-formedness of upload sessions and its preservation by every change of a row: parts lie on the
  session's geometry, and while a session is live its counters are what its part rows say. The
  contiguous byte count, a correlated query in the code, is the length of the longest committed prefix.
\<close>

section \<open>Sums over the rows of a table\<close>

definition sum_of :: "('v \<Rightarrow> int) \<Rightarrow> ('k, 'v) js_map \<Rightarrow> int" where
  "sum_of w m = sum_list (map (\<lambda>(n, p). w p) m)"

lemma sum_of_Cons [simp]: "sum_of w ((n, p) # m) = w p + sum_of w m"
  by (simp add: sum_of_def)

lemma sum_of_Nil [simp]: "sum_of w [] = 0"
  by (simp add: sum_of_def)

lemma sum_of_set:
  "js_distinct m \<Longrightarrow> sum_of w (js_set n p m) = sum_of w m + w p - (case js_get m n of None \<Rightarrow> 0 | Some q \<Rightarrow> w q)"
proof (induction m)
  case (Cons a m)
  obtain k q where a: "a = (k, q)" by (cases a)
  show ?case
  proof (cases "k = n")
    case True
    then have "js_get m n = None" using Cons.prems a by (simp add: js_get_None_iff)
    then show ?thesis using True a by simp
  qed (use Cons a in \<open>auto split: option.splits\<close>)
qed simp

lemma sum_of_filter:
  "sum_list (map w (filter Q (map snd m))) = sum_of (\<lambda>p. if Q p then w p else 0) m"
  by (induction m) (auto simp: sum_of_def)

definition is_state :: "part_state \<Rightarrow> upload_part \<Rightarrow> int" where
  "is_state st p = (if up_state p = st then 1 else 0)"

lemma reserved_count_sum: "reserved_count m = sum_of (is_state PartReserved) m"
  by (induction m) (auto simp: reserved_count_def parts_in_def is_state_def)

lemma reserved_count_nonneg: "0 \<le> reserved_count m"
  by (simp add: reserved_count_def)

lemma sum_of_nonneg: "(\<And>p. 0 \<le> w p) \<Longrightarrow> 0 \<le> sum_of w m"
  by (induction m) auto

lemma reserved_count_pos: "js_get m n = Some p \<Longrightarrow> up_state p = PartReserved \<Longrightarrow> 0 < reserved_count m"
proof (induction m)
  case (Cons a m)
  obtain k q where "a = (k, q)" by (cases a)
  with Cons show ?case using reserved_count_nonneg [of m]
    by (auto simp: reserved_count_sum is_state_def split: if_splits)
qed simp

lemma reserved_count_Nil [simp]: "reserved_count [] = 0"
  by (simp add: reserved_count_def parts_in_def)

definition committed_length :: "upload_part \<Rightarrow> int" where
  "committed_length p = (if up_state p = PartCommitted then up_lengthBytes p else 0)"

section \<open>Well-formed sessions\<close>

definition row_fits :: "upload_session \<Rightarrow> int \<Rightarrow> upload_part \<Rightarrow> bool" where
  "row_fits s n p \<longleftrightarrow> 0 \<le> n \<and> n < us_partCount s \<and> up_partNumber p = n \<and> up_offsetBytes p = n * us_partBytes s \<and>
     up_lengthBytes p = part_length (geometry_of s) n"

definition rows_fit :: "upload_session \<Rightarrow> bool" where
  "rows_fit s \<longleftrightarrow> js_distinct (us_parts s) \<and> valid_geometry (geometry_of s) \<and> us_partCount s = part_count (geometry_of s) \<and>
     (\<forall>n p. js_get (us_parts s) n = Some p \<longrightarrow> row_fits s n p)"

definition counters_fit :: "upload_session \<Rightarrow> bool" where
  "counters_fit s \<longleftrightarrow>
     us_activePartCount s = reserved_count (us_parts s) \<and>
     us_committedPartCount s = sum_of (is_state PartCommitted) (us_parts s) \<and>
     us_committedBytes s = sum_of committed_length (us_parts s) \<and>
     us_contiguousBytes s = contiguous_bytes (us_partCount s) (us_parts s)"

definition session_wf :: "upload_session \<Rightarrow> bool" where
  "session_wf s \<longleftrightarrow> rows_fit s \<and> (is_live (us_state s) \<longrightarrow> counters_fit s) \<and>
     (us_state s \<in> {UpPaused, UpFinalizing} \<longrightarrow> reserved_count (us_parts s) = 0) \<and>
     (us_state s = UpFinalizing \<longrightarrow> us_committedPartCount s = us_partCount s)"

lemma session_wfD:
  assumes "session_wf s"
  shows "rows_fit s" and "is_live (us_state s) \<Longrightarrow> counters_fit s"
    and "us_state s \<in> {UpPaused, UpFinalizing} \<Longrightarrow> reserved_count (us_parts s) = 0"
  using assms by (auto simp: session_wf_def)

lemma row_geometry: "rows_fit s \<Longrightarrow> js_get (us_parts s) n = Some p \<Longrightarrow> row_fits s n p"
  by (simp add: rows_fit_def)

section \<open>The contiguous prefix\<close>

lemma upto_filter_head:
  fixes i j :: int
  assumes "filter P [i..j] = n # ns"
  shows "P n \<and> i \<le> n \<and> n \<le> j \<and> (\<forall>k. i \<le> k \<and> k < n \<longrightarrow> \<not> P k)"
proof -
  from assms obtain us vs where xs: "[i..j] = us @ n # vs" and us: "\<forall>u \<in> set us. \<not> P u" and n: "P n"
    by (auto dest!: filter_eq_ConsD)
  have mem: "k \<in> set us \<union> {n} \<union> set vs \<longleftrightarrow> i \<le> k \<and> k \<le> j" for k
    using arg_cong [OF xs, of set] by (auto simp: set_eq_iff)
  have "sorted [i..j]" by simp
  then have "\<forall>v \<in> set vs. n \<le> v" unfolding xs by (simp add: sorted_append)
  then have "k \<in> set us" if "i \<le> k" "k < n" for k using mem [of k] mem [of n] that by auto
  then show ?thesis using us n mem [of n] by blast
qed

lemma first_missing_bounds:
  assumes "0 \<le> k"
  shows "0 \<le> first_missing k m \<and> first_missing k m \<le> k"
proof (cases "filter (\<lambda>n. \<not> committed_part m n) [0..k - 1]")
  case (Cons n ns)
  then show ?thesis using upto_filter_head [OF Cons] by (simp add: first_missing_def)
qed (use assms in \<open>simp add: first_missing_def\<close>)

lemma first_missing_committed:
  assumes "0 \<le> i" and "i < first_missing k m"
  shows "committed_part m i"
proof (cases "filter (\<lambda>n. \<not> committed_part m n) [0..k - 1]")
  case Nil
  then show ?thesis using assms by (auto simp: first_missing_def filter_empty_conv)
next
  case (Cons n ns)
  then show ?thesis using assms upto_filter_head [OF Cons] by (auto simp: first_missing_def)
qed

lemma first_missing_not_committed: "first_missing k m < k \<Longrightarrow> \<not> committed_part m (first_missing k m)"
  by (cases "filter (\<lambda>n. \<not> committed_part m n) [0..k - 1]") (auto simp: first_missing_def dest: upto_filter_head)

lemma first_missing_cong: "(\<And>n. committed_part m n \<longleftrightarrow> committed_part m' n) \<Longrightarrow> first_missing k m = first_missing k m'"
  by (simp add: first_missing_def)

lemma sum_of_distinct: "js_distinct m \<Longrightarrow> sum_of w m = (\<Sum>n\<in>fst ` set m. w (the (js_get m n)))"
proof (induction m)
  case (Cons a m)
  obtain k q where a: "a = (k, q)" by (cases a)
  have "k \<notin> fst ` set m" using Cons.prems a by simp
  then have "(\<Sum>n\<in>fst ` set m. w (the (js_get ((k, q) # m) n))) = (\<Sum>n\<in>fst ` set m. w (the (js_get m n)))"
    by (intro sum.cong) auto
  then show ?case using Cons a \<open>k \<notin> fst ` set m\<close> by simp
qed simp

lemma contiguous_bytes_prefix:
  assumes "rows_fit s"
  shows "contiguous_bytes (us_partCount s) (us_parts s) =
    min (us_expectedBytes s) (first_missing (us_partCount s) (us_parts s) * us_partBytes s)"
proof -
  let ?m = "us_parts s" and ?k = "us_partCount s"
  let ?f = "first_missing ?k ?m"
  let ?w = "\<lambda>p. if up_state p = PartCommitted \<and> up_partNumber p < ?f then up_lengthBytes p else 0"
  note fit = assms [unfolded rows_fit_def]
  have k: "0 \<le> ?k" using fit part_count_bounds(1) [of "geometry_of s"] by simp
  note fb = first_missing_bounds [OF k, of ?m]
  have "contiguous_bytes ?k ?m = sum_of ?w ?m"
    by (simp add: contiguous_bytes_def parts_in_def sum_of_filter conj_commute)
  also have "\<dots> = (\<Sum>n\<in>fst ` set ?m. ?w (the (js_get ?m n)))" using fit by (intro sum_of_distinct) simp
  also have "\<dots> = (\<Sum>n\<in>{0..<?f}. part_length (geometry_of s) n)"
  proof (rule sum.mono_neutral_cong_right)
    show "{0..<?f} \<subseteq> fst ` set ?m"
    proof
      fix n assume "n \<in> {0..<?f}"
      then have "committed_part ?m n" by (intro first_missing_committed) auto
      then show "n \<in> fst ` set ?m" using js_get_None_iff [of ?m n] by (auto simp: committed_part_def split: option.splits)
    qed
    show "\<forall>n \<in> fst ` set ?m - {0..<?f}. ?w (the (js_get ?m n)) = 0"
    proof
      fix n assume n: "n \<in> fst ` set ?m - {0..<?f}"
      then obtain p where p: "js_get ?m n = Some p" by (metis DiffD1 js_get_None_iff not_None_eq set_map)
      then have "row_fits s n p" using assms by (intro row_geometry)
      then show "?w (the (js_get ?m n)) = 0" using n p by (auto simp: row_fits_def)
    qed
    fix n assume n: "n \<in> {0..<?f}"
    then have "committed_part ?m n" by (intro first_missing_committed) auto
    then obtain p where p: "js_get ?m n = Some p" "up_state p = PartCommitted" by (auto simp: committed_part_def split: option.splits)
    have "row_fits s n p" using assms p(1) by (intro row_geometry)
    then show "?w (the (js_get ?m n)) = part_length (geometry_of s) n" using p n by (auto simp: row_fits_def)
  qed simp
  also have "\<dots> = (\<Sum>i<nat ?f. part_length (geometry_of s) (int i))"
    by (rule sum.reindex_bij_witness [of _ int nat]) auto
  also have "\<dots> = min (us_expectedBytes s) (?f * us_partBytes s)"
    using sum_part_lengths [of "geometry_of s" "nat ?f"] fit fb by (simp add: geometry_of_def)
  finally show ?thesis .
qed

section \<open>Changing one row\<close>

lemma committed_part_set: "committed_part (js_set n p m) k \<longleftrightarrow> (if k = n then up_state p = PartCommitted else committed_part m k)"
  by (simp add: committed_part_def)

lemma with_active_count_simps [simp]:
  "us_parts (with_active_count s) = us_parts s" "us_partCount (with_active_count s) = us_partCount s"
  "us_state (with_active_count s) = us_state s" "us_committedBytes (with_active_count s) = us_committedBytes s"
  "us_committedPartCount (with_active_count s) = us_committedPartCount s"
  "us_contiguousBytes (with_active_count s) = us_contiguousBytes s"
  "us_activePartCount (with_active_count s) = reserved_count (us_parts s)"
  "us_expectedBytes (with_active_count s) = us_expectedBytes s" "us_partBytes (with_active_count s) = us_partBytes s"
  "geometry_of (with_active_count s) = geometry_of s" "us_uploadId (with_active_count s) = us_uploadId s"
  "us_sessionEpoch (with_active_count s) = us_sessionEpoch s" "us_drive (with_active_count s) = us_drive s"
  "us_ownerSubject (with_active_count s) = us_ownerSubject s"
  by (simp_all add: with_active_count_def geometry_of_def)

lemma rows_fit_set:
  assumes "rows_fit s" and "row_fits s n p"
    and "us_parts s' = js_set n p (us_parts s)" and "geometry_of s' = geometry_of s" and "us_partCount s' = us_partCount s"
  shows "rows_fit s'"
proof -
  have "us_partBytes s' = us_partBytes s" using assms(4) by (simp add: geometry_of_def)
  then have "row_fits s' k q \<longleftrightarrow> row_fits s k q" for k q using assms(4,5) by (simp add: row_fits_def)
  then show ?thesis using assms by (auto simp: rows_fit_def split: if_splits)
qed

text \<open>A row that is not committed before or after leaves the committed counters alone.\<close>

lemma uncommitted_row_change:
  assumes fit: "rows_fit s" and live: "is_live (us_state s)" "counters_fit s" and row: "row_fits s n p"
    and new: "up_state p \<noteq> PartCommitted" and old: "\<not> committed_part (us_parts s) n"
    and s': "us_parts s' = js_set n p (us_parts s)" "geometry_of s' = geometry_of s" "us_partCount s' = us_partCount s"
      "us_committedBytes s' = us_committedBytes s" "us_committedPartCount s' = us_committedPartCount s"
      "us_contiguousBytes s' = us_contiguousBytes s" "us_activePartCount s' = reserved_count (us_parts s')"
  shows "rows_fit s' \<and> counters_fit s'"
proof -
  note fit' = rows_fit_set [OF fit row s'(1-3)]
  have d: "js_distinct (us_parts s)" using fit by (simp add: rows_fit_def)
  have oldw: "(case js_get (us_parts s) n of None \<Rightarrow> 0 | Some q \<Rightarrow> w q) = 0"
    if "\<And>q. up_state q \<noteq> PartCommitted \<Longrightarrow> w q = 0" for w :: "upload_part \<Rightarrow> int"
    using old that by (auto simp: committed_part_def split: option.splits)
  have sums: "sum_of (is_state PartCommitted) (us_parts s') = sum_of (is_state PartCommitted) (us_parts s)"
    "sum_of committed_length (us_parts s') = sum_of committed_length (us_parts s)"
    unfolding s'(1) sum_of_set [OF d] using new by (simp_all add: oldw is_state_def committed_length_def)
  have fm: "first_missing k (us_parts s') = first_missing k (us_parts s)" for k
    using new old by (intro first_missing_cong) (simp add: s'(1) committed_part_set)
  have "us_expectedBytes s' = us_expectedBytes s" "us_partBytes s' = us_partBytes s"
    using s'(2) by (simp_all add: geometry_of_def)
  then have "contiguous_bytes (us_partCount s') (us_parts s') = contiguous_bytes (us_partCount s) (us_parts s)"
    using contiguous_bytes_prefix [OF fit] contiguous_bytes_prefix [OF fit'] fm s'(3) by simp
  then show ?thesis using fit' live(2) s' sums by (simp add: counters_fit_def)
qed

lemma reserve_row_wf:
  assumes "session_wf s" and "us_state s \<in> {UpInitiated, UpUploading}" and "row_fits s n p"
    and "up_state p = PartReserved" and "\<not> committed_part (us_parts s) n"
  shows "session_wf (with_active_count (s\<lparr>us_parts := js_set n p (us_parts s), us_state := UpUploading\<rparr>))"
proof -
  have live: "is_live (us_state s)" using assms(2) by (auto simp: is_live_def)
  have "rows_fit (with_active_count (s\<lparr>us_parts := js_set n p (us_parts s), us_state := UpUploading\<rparr>)) \<and>
      counters_fit (with_active_count (s\<lparr>us_parts := js_set n p (us_parts s), us_state := UpUploading\<rparr>))"
    by (rule uncommitted_row_change [OF session_wfD(1) [OF assms(1)] live session_wfD(2) [OF assms(1) live] assms(3) _ assms(5)])
      (use assms(4) in \<open>simp_all add: geometry_of_def\<close>)
  then show ?thesis by (simp add: session_wf_def)
qed

lemma fail_row_wf:
  assumes "session_wf s" and "js_get (us_parts s) n = Some p" and "up_state p = PartReserved"
  shows "session_wf (with_active_count (s\<lparr>us_parts := js_set n (p\<lparr>up_state := PartFailed, up_committedAt := t\<rparr>) (us_parts s)\<rparr>))"
proof -
  let ?p = "p\<lparr>up_state := PartFailed, up_committedAt := t\<rparr>"
  let ?s = "with_active_count (s\<lparr>us_parts := js_set n ?p (us_parts s)\<rparr>)"
  have fit: "rows_fit s" using assms(1) by (rule session_wfD)
  have row: "row_fits s n ?p" using row_geometry [OF fit assms(2)] by (simp add: row_fits_def)
  have old: "\<not> committed_part (us_parts s) n" using assms(2,3) by (simp add: committed_part_def)
  have st: "us_state s \<notin> {UpPaused, UpFinalizing}"
    using session_wfD(3) [OF assms(1)] reserved_count_pos [OF assms(2,3)] by fastforce
  have "rows_fit ?s" by (rule rows_fit_set [OF fit row]) (simp_all add: geometry_of_def)
  moreover have "counters_fit ?s" if live: "is_live (us_state s)"
    by (rule conjunct2 [OF uncommitted_row_change [OF fit live session_wfD(2) [OF assms(1) live] row _ old]])
      (simp_all add: geometry_of_def)
  ultimately show ?thesis using st by (simp add: session_wf_def)
qed

lemma commit_row_wf:
  assumes "session_wf s" and "js_get (us_parts s) n = Some p" and "up_state p = PartReserved"
    and "us_state s = UpUploading" and "len = up_lengthBytes p" and "k = us_partCount s"
  shows "session_wf (with_active_count (s\<lparr>us_parts := js_set n (committed_row path t p) (us_parts s),
    us_committedBytes := us_committedBytes s + len, us_committedPartCount := us_committedPartCount s + 1,
    us_contiguousBytes := contiguous_bytes k (js_set n (committed_row path t p) (us_parts s))\<rparr>))"
    (is "session_wf ?s")
proof -
  have fit: "rows_fit s" using assms(1) by (rule session_wfD)
  have c: "counters_fit s" using assms(1,4) by (intro session_wfD) (simp_all add: is_live_def)
  have row: "row_fits s n (committed_row path t p)"
    using row_geometry [OF fit assms(2)] by (simp add: row_fits_def committed_row_def)
  have "rows_fit ?s" by (rule rows_fit_set [OF fit row]) (simp_all add: geometry_of_def)
  moreover have "counters_fit ?s"
    using c fit assms(2,3,5,6)
    by (simp add: counters_fit_def rows_fit_def sum_of_set is_state_def committed_length_def committed_row_def)
  ultimately show ?thesis using assms(4) by (simp add: session_wf_def)
qed

section \<open>Changing the state of a session\<close>

text \<open>Two rows that agree on parts, geometry and counters.\<close>

definition same_books :: "upload_session \<Rightarrow> upload_session \<Rightarrow> bool" where
  "same_books s s' \<longleftrightarrow> us_parts s' = us_parts s \<and> geometry_of s' = geometry_of s \<and> us_partCount s' = us_partCount s \<and>
     us_committedBytes s' = us_committedBytes s \<and> us_committedPartCount s' = us_committedPartCount s \<and>
     us_contiguousBytes s' = us_contiguousBytes s \<and> us_activePartCount s' = us_activePartCount s"

lemma rows_fit_books:
  assumes "rows_fit s" and "us_parts s' = us_parts s" and "geometry_of s' = geometry_of s" and "us_partCount s' = us_partCount s"
  shows "rows_fit s'"
proof -
  have "us_partBytes s' = us_partBytes s" using assms(3) by (simp add: geometry_of_def)
  then have "row_fits s' = row_fits s" using assms(3,4) by (simp add: fun_eq_iff row_fits_def)
  then show ?thesis using assms unfolding rows_fit_def by simp
qed

lemma state_change_wf:
  assumes "session_wf s" and "same_books s s'" and "is_live (us_state s') \<Longrightarrow> is_live (us_state s)"
    and "us_state s' \<in> {UpPaused, UpFinalizing} \<Longrightarrow> reserved_count (us_parts s) = 0"
    and "us_state s' = UpFinalizing \<Longrightarrow> us_committedPartCount s = us_partCount s"
  shows "session_wf s'"
proof -
  have "rows_fit s'"
    by (rule rows_fit_books [OF session_wfD(1) [OF assms(1)]]) (use assms(2) in \<open>simp_all add: same_books_def\<close>)
  moreover have "counters_fit s'" if "is_live (us_state s')"
    using session_wfD(2) [OF assms(1) assms(3) [OF that]] assms(2) by (simp add: counters_fit_def same_books_def)
  moreover have "us_parts s' = us_parts s" "us_committedPartCount s' = us_committedPartCount s" "us_partCount s' = us_partCount s"
    using assms(2) by (simp_all add: same_books_def)
  ultimately show ?thesis using assms(4,5) unfolding session_wf_def by simp
qed

lemma not_live_wf: "rows_fit s \<Longrightarrow> \<not> is_live (us_state s) \<Longrightarrow> session_wf s"
  unfolding session_wf_def is_live_def by simp

lemma terminal_wf:
  assumes "session_wf s" and "\<not> is_live (us_state s')" and "us_parts s' = us_parts s" and "geometry_of s' = geometry_of s"
    and "us_partCount s' = us_partCount s"
  shows "session_wf s'"
  using rows_fit_books [OF session_wfD(1) [OF assms(1)] assms(3-5)] assms(2) by (rule not_live_wf)

lemma cleared_wf:
  assumes "session_wf s" and "\<not> is_live (us_state s')" and "us_parts s' = []" and "geometry_of s' = geometry_of s"
    and "us_partCount s' = us_partCount s"
  shows "session_wf s'"
proof (rule not_live_wf)
  show "rows_fit s'" using session_wfD(1) [OF assms(1)] assms(3-5) by (simp add: rows_fit_def)
qed (rule assms(2))

lemma fail_reserved_get: "js_get (fail_reserved m) n =
    map_option (\<lambda>p. if up_state p = PartReserved then p\<lparr>up_state := PartFailed\<rparr> else p) (js_get m n)"
  by (induction m) (auto simp: fail_reserved_def)

lemma fail_reserved_keys: "js_keys (fail_reserved m) = js_keys m"
  by (simp add: fail_reserved_def comp_def case_prod_beta)

lemma aborted_wf:
  assumes "session_wf s"
  shows "session_wf (aborted_session s)"
proof (rule not_live_wf)
  note fit = session_wfD(1) [OF assms]
  have "row_fits (aborted_session s) n p" if "js_get (fail_reserved (us_parts s)) n = Some p" for n p
  proof -
    from that obtain q where q: "js_get (us_parts s) n = Some q"
      "p = (if up_state q = PartReserved then q\<lparr>up_state := PartFailed\<rparr> else q)"
      by (auto simp: fail_reserved_get)
    then show ?thesis using row_geometry [OF fit q(1)] by (simp add: row_fits_def aborted_session_def geometry_of_def)
  qed
  then show "rows_fit (aborted_session s)"
    using fit by (simp add: rows_fit_def fail_reserved_keys aborted_session_def geometry_of_def)
qed (simp add: aborted_session_def is_live_def)

lemma create_prepare_geometry:
  assumes "create_prepare cfg nfc authorize inp = Inr pu"
  shows "valid_geometry \<lparr>ug_expectedBytes = ci_sizeBytes (pu_input pu), ug_partBytes = uc_preferredPartBytes cfg\<rparr> \<and>
    pu_partCount pu = part_count \<lparr>ug_expectedBytes = ci_sizeBytes (pu_input pu), ug_partBytes = uc_preferredPartBytes cfg\<rparr>"
  using assms by (auto simp: create_prepare_def Let_def part_count_for_valid split: option.splits sum.splits if_splits)

lemma new_session_wf:
  assumes "create_prepare cfg nfc authorize inp = Inr pu"
  shows "session_wf (new_session cfg now u pu)"
proof -
  let ?g = "\<lparr>ug_expectedBytes = ci_sizeBytes (pu_input pu), ug_partBytes = uc_preferredPartBytes cfg\<rparr>"
  from create_prepare_geometry [OF assms] have g: "valid_geometry ?g" "pu_partCount pu = part_count ?g" by simp_all
  have "contiguous_bytes (part_count ?g) [] = 0" by (simp add: contiguous_bytes_def parts_in_def)
  then show ?thesis
    using g by (simp add: session_wf_def rows_fit_def counters_fit_def new_session_def Let_def geometry_of_def)
qed

end
