(* ===== verification/UploadPaths.thy ===== *)
theory UploadPaths
  imports UploadSession
begin

text \<open>
  Staging paths tell uploads, parts and attempts apart: the paths of two uploads whose ids are uuids never
  meet, whatever their spelling, and within an upload a path determines the part number and the suffix.
\<close>

section \<open>Identifiers\<close>

lemma length_js_split: "sum_list (map length (js_split c s)) + length (js_split c s) = Suc (length s)"
  by (induction s) (auto split: list.splits)

lemma uuid_length: "is_uuid s \<Longrightarrow> length s = 36"
proof -
  assume "is_uuid s"
  then have m: "map length (js_split CHR ''-'' s) = [8, 4, 4, 4, 12]" by (simp add: is_uuid_def Let_def)
  have "length (js_split CHR ''-'' s) = 5" using arg_cong [OF m, of length] by simp
  then show "length s = 36" using length_js_split [of "CHR ''-''" s] m by simp
qed

section \<open>Staging paths\<close>

lemma append_at_separator:
  assumes "c \<notin> set xs" and "c \<notin> set ys" and "xs @ c # as = ys @ c # bs"
  shows "xs = ys \<and> as = bs"
proof -
  have "takeWhile (\<lambda>x. x \<noteq> c) (zs @ c # cs) = zs" if "c \<notin> set zs" for zs cs using that by (induction zs) auto
  then have "xs = ys" using assms by metis
  then show ?thesis using assms(3) by simp
qed

lemma string_of_int_chars: "CHR ''.'' \<notin> set (string_of_int n)"
  using string_of_nat_digits [of "nat n"] string_of_nat_digits [of "nat (- n)"]
  by (auto simp: string_of_int_def list_all_iff is_digit_def)

lemma string_of_int_inj: "string_of_int n = string_of_int m \<longleftrightarrow> n = m"
proof -
  have digits: "string_of_nat k \<noteq> CHR ''-'' # xs" for k xs
    using string_of_nat_digits [of k] by (auto simp: is_digit_def)
  show ?thesis
    using digits string_of_nat_inj [of "nat n" "nat m"] string_of_nat_inj [of "nat (- n)" "nat (- m)"]
    by (auto simp: string_of_int_def eq_commute [of "CHR ''-'' # _"])
qed

lemma session_path_eq:
  assumes "length a = length b"
  shows "session_path root a n s = session_path root b m t \<longleftrightarrow> a = b \<and> n = m \<and> s = t"
proof
  assume eq: "session_path root a n s = session_path root b m t"
  then have "a @ ''/'' @ ''parts/'' @ string_of_int n @ ''.part'' @ s = b @ ''/'' @ ''parts/'' @ string_of_int m @ ''.part'' @ t"
    by (simp add: session_path_def uploads_dir_def)
  then have a: "a = b" and "string_of_int n @ CHR ''.'' # ''part'' @ s = string_of_int m @ CHR ''.'' # ''part'' @ t"
    using assms(1) by simp_all
  then have "string_of_int n = string_of_int m \<and> ''part'' @ s = ''part'' @ t"
    using append_at_separator [OF string_of_int_chars string_of_int_chars] by blast
  then show "a = b \<and> n = m \<and> s = t" using string_of_int_inj a by simp
qed simp

lemma uploads_dir_prefix:
  assumes "length a = length b"
  shows "starts_with (session_path root a n s) (uploads_dir root b) \<longleftrightarrow> a = b"
proof
  assume "starts_with (session_path root a n s) (uploads_dir root b)"
  then obtain t where "uploads_dir root a @ ''parts/'' @ string_of_int n @ ''.part'' @ s = uploads_dir root b @ t"
    by (auto simp: starts_with_iff session_path_def)
  then show "a = b" using assms by (simp add: uploads_dir_def)
qed (simp add: session_path_def)

text \<open>A path that is no final name of any part of any upload.\<close>

definition never_final :: "string \<Rightarrow> string \<Rightarrow> bool" where
  "never_final root path \<longleftrightarrow> (\<forall>raw n. length raw = 36 \<longrightarrow> session_path root raw n [] \<noteq> path)"

lemma temp_never_final: "length a = 36 \<Longrightarrow> never_final root (session_path root a n (temp_suffix x))"
  by (simp add: never_final_def session_path_eq temp_suffix_def)

lemma takeWhile_digits: "list_all is_digit ds \<Longrightarrow> takeWhile is_digit (ds @ CHR ''.'' # r) = ds"
  by (induction ds) (auto simp: is_digit_def)

lemma final_not_temp_name: "\<not> is_temp_name n (string_of_int m @ ''.part'')"
proof
  assume temp: "is_temp_name n (string_of_int m @ ''.part'')"
  show False
  proof (cases "m < 0")
    case True
    then show ?thesis using temp by (simp add: is_temp_name_def string_of_int_def Let_def is_digit_def)
  next
    case False
    then have "takeWhile is_digit (string_of_int m @ ''.part'') = string_of_int m"
      using takeWhile_digits [of "string_of_int m" "''part''"] string_of_nat_digits by (simp add: string_of_int_def)
    then show ?thesis using temp by (auto simp: is_temp_name_def Let_def dest!: uuid_length)
  qed
qed

lemma validated_never_final:
  assumes "validated_temp_path root u n path" and "js_lower u = u" and "length u = 36"
  shows "never_final root path"
  unfolding never_final_def
proof (intro allI impI notI)
  fix raw m assume raw: "length raw = 36" and eq: "session_path root raw m [] = path"
  have "starts_with path (uploads_dir root u @ ''parts/'')" using assms(1,2) by (simp add: validated_temp_path_def Let_def)
  then have "starts_with (session_path root raw m []) (uploads_dir root u)" unfolding eq by (auto simp: starts_with_iff)
  then have "raw = u" using raw assms(3) by (simp add: uploads_dir_prefix)
  then show False using assms(1,2) final_not_temp_name [of n m]
    by (simp add: eq [symmetric] validated_temp_path_def Let_def session_path_def)
qed

lemma temp_suffix_not_Nil [simp]: "temp_suffix x \<noteq> []" "[] \<noteq> temp_suffix x"
  by (simp_all add: temp_suffix_def)

lemma without_directory_get:
  "js_get (without_directory root u files) path = (if starts_with path (uploads_dir root u) then None else js_get files path)"
  by (induction files) (auto simp: without_directory_def)

end
