(* ===== verification/UploadRows.thy ===== *)
theory UploadRows
  imports UploadCounters UploadPaths
begin

text \<open>
  What may happen to one session row: the automaton of its phases, and the changes of its part rows the
  transactions make. Every operation of \<open>UploadSession\<close> changes at most one row of the table, by one of
  these changes, so that an invariant of sessions is proved for the changes once.
\<close>

section \<open>The phases\<close>

text \<open>The phase a session may pass to, as the comments of the service and its schema describe it.\<close>

fun phase_edge :: "upload_phase \<Rightarrow> upload_phase \<Rightarrow> bool" where
  "phase_edge UpInitiated q = (q \<in> {UpUploading, UpPaused, UpFinalizing, UpAborted, UpExpired})"
| "phase_edge UpUploading q = (q \<in> {UpPaused, UpFinalizing, UpAborted, UpExpired, UpFailed})"
| "phase_edge UpPaused q = (q \<in> {UpUploading, UpFinalizing, UpAborted, UpExpired, UpFailed})"
| "phase_edge UpFinalizing q = (q \<in> {UpUploading, UpCompleted, UpExpired, UpFailed})"
| "phase_edge UpCompleted q = False"
| "phase_edge UpAborted q = False"
| "phase_edge UpExpired q = (q = UpAborted)"
| "phase_edge UpFailed q = (q = UpAborted)"

definition phase_moves :: "upload_phase \<Rightarrow> upload_phase \<Rightarrow> bool" where
  "phase_moves p q \<longleftrightarrow> p = q \<or> phase_edge p q"

lemma phase_moves_live: "phase_moves p q \<Longrightarrow> is_live q \<Longrightarrow> is_live p"
  by (cases p; auto simp: phase_moves_def is_live_def)

lemma phase_moves_completed: "phase_moves UpCompleted q \<Longrightarrow> q = UpCompleted"
  by (simp add: phase_moves_def)

lemma phase_moves_refl [simp]: "phase_moves p p"
  by (simp add: phase_moves_def)

section \<open>Changes of a row\<close>

text \<open>What identifies an upload never changes. The changes marked as calm leave every part row alone that they do
  not fail or clear; the others, a reservation and a commit, may be told apart by their flag.\<close>

definition same_upload :: "upload_session \<Rightarrow> upload_session \<Rightarrow> bool" where
  "same_upload s s' \<longleftrightarrow> us_uploadId s' = us_uploadId s \<and> us_drive s' = us_drive s \<and> us_ownerSubject s' = us_ownerSubject s \<and>
     us_operation s' = us_operation s \<and> us_requestFingerprint s' = us_requestFingerprint s \<and>
     us_expectedBytes s' = us_expectedBytes s \<and> us_partBytes s' = us_partBytes s \<and> us_partCount s' = us_partCount s"

lemma same_upload_geometry:
  "same_upload s s' \<Longrightarrow> geometry_of s' = geometry_of s \<and> us_partCount s' = us_partCount s"
  by (simp add: same_upload_def geometry_of_def)

inductive row_change :: "bool \<Rightarrow> upload_session \<Rightarrow> upload_session \<Rightarrow> bool" where
  rc_same: "row_change c s s"
| rc_reserve: "us_state s \<in> {UpInitiated, UpUploading} \<Longrightarrow> row_fits s n p \<Longrightarrow> up_state p = PartReserved \<Longrightarrow>
    (\<forall>q. js_get (us_parts s) n = Some q \<longrightarrow> up_state q = PartFailed \<and> up_leaseEpoch q < up_leaseEpoch p) \<Longrightarrow>
    row_change False s (with_active_count (s\<lparr>us_parts := js_set n p (us_parts s), us_state := UpUploading\<rparr>))"
| rc_fail: "js_get (us_parts s) n = Some p \<Longrightarrow> up_state p = PartReserved \<Longrightarrow>
    row_change c s (with_active_count (s\<lparr>us_parts := js_set n (p\<lparr>up_state := PartFailed, up_committedAt := t\<rparr>) (us_parts s)\<rparr>))"
| rc_commit: "js_get (us_parts s) n = Some p \<Longrightarrow> up_state p = PartReserved \<Longrightarrow> us_state s = UpUploading \<Longrightarrow>
    row_change False s (with_active_count (s\<lparr>us_parts := js_set n (committed_row path t p) (us_parts s),
      us_committedBytes := us_committedBytes s + up_lengthBytes p, us_committedPartCount := us_committedPartCount s + 1,
      us_contiguousBytes := contiguous_bytes (us_partCount s) (js_set n (committed_row path t p) (us_parts s))\<rparr>))"
| rc_phase: "same_upload s s' \<Longrightarrow> same_books s s' \<Longrightarrow> phase_moves (us_state s) (us_state s') \<Longrightarrow>
    us_sessionEpoch s \<le> us_sessionEpoch s' \<Longrightarrow>
    (us_state s = UpFinalizing \<and> us_state s' = UpUploading \<longrightarrow> us_sessionEpoch s < us_sessionEpoch s') \<Longrightarrow>
    (us_state s' \<in> {UpPaused, UpFinalizing} \<longrightarrow> reserved_count (us_parts s) = 0) \<Longrightarrow>
    (us_state s' = UpFinalizing \<longrightarrow> us_committedPartCount s = us_partCount s) \<Longrightarrow> row_change c s s'"
| rc_end: "same_upload s s' \<Longrightarrow> phase_moves (us_state s) (us_state s') \<Longrightarrow> us_sessionEpoch s \<le> us_sessionEpoch s' \<Longrightarrow>
    \<not> is_live (us_state s') \<Longrightarrow> us_parts s' \<in> {us_parts s, [], fail_reserved (us_parts s)} \<Longrightarrow> row_change c s s'"

lemma fail_reserved_fits:
  assumes "rows_fit s" and "us_parts s' = fail_reserved (us_parts s)" and "same_upload s s'"
  shows "rows_fit s'"
proof -
  have "row_fits s' n p" if "js_get (fail_reserved (us_parts s)) n = Some p" for n p
  proof -
    from that obtain q where q: "js_get (us_parts s) n = Some q"
      "p = (if up_state q = PartReserved then q\<lparr>up_state := PartFailed\<rparr> else q)"
      by (auto simp: fail_reserved_get)
    then show ?thesis using row_geometry [OF assms(1) q(1)] assms(3)
      by (simp add: row_fits_def same_upload_def geometry_of_def)
  qed
  then show ?thesis using assms(1) same_upload_geometry [OF assms(3)]
    by (simp add: rows_fit_def fail_reserved_keys assms(2))
qed

lemma row_change_wf:
  assumes "row_change c s s'" and "session_wf s"
  shows "session_wf s'"
  using assms
proof cases
  case (rc_reserve n p)
  then have "\<not> committed_part (us_parts s) n" by (auto simp: committed_part_def split: option.splits)
  then show ?thesis using rc_reserve reserve_row_wf [OF assms(2), of n p] by simp
next
  case rc_fail
  then show ?thesis using fail_row_wf [OF assms(2)] by simp
next
  case rc_commit
  then show ?thesis using commit_row_wf [OF assms(2) _ _ _ refl refl] by simp
next
  case rc_phase
  show ?thesis
    by (rule state_change_wf [OF assms(2) rc_phase(2)]) (use rc_phase phase_moves_live in blast)+
next
  case rc_end
  then consider "us_parts s' = us_parts s" | "us_parts s' = []" | "us_parts s' = fail_reserved (us_parts s)" by auto
  then show ?thesis
  proof cases
    case 1
    then show ?thesis using terminal_wf [OF assms(2) rc_end(4)] same_upload_geometry [OF rc_end(1)] by simp
  next
    case 2
    then show ?thesis using cleared_wf [OF assms(2) rc_end(4)] same_upload_geometry [OF rc_end(1)] by simp
  next
    case 3
    then show ?thesis using fail_reserved_fits [OF session_wfD(1) [OF assms(2)] _ rc_end(1)] rc_end(4) not_live_wf by blast
  qed
qed simp

lemma row_change_upload: "row_change c s s' \<Longrightarrow> same_upload s s'"
  by (erule row_change.cases) (simp_all add: same_upload_def with_active_count_def)

lemma row_change_phase: "row_change c s s' \<Longrightarrow> phase_moves (us_state s) (us_state s')"
  by (erule row_change.cases) (auto simp: phase_moves_def)

lemma row_change_epoch: "row_change c s s' \<Longrightarrow> us_sessionEpoch s \<le> us_sessionEpoch s'"
  by (erule row_change.cases) simp_all

lemma calm_rows:
  assumes "row_change True s s'" and "is_live (us_state s')" and "js_get (us_parts s') n = Some p'"
  shows "up_state p' = PartFailed \<or> js_get (us_parts s) n = Some p'"
  using assms(1)
proof cases
  case (rc_fail k q t)
  then show ?thesis using assms(3) by (cases "n = k") auto
next
  case rc_phase
  then show ?thesis using assms(3) by (simp add: same_books_def)
next
  case rc_end
  then show ?thesis using assms(2) by simp
qed (use assms in auto)

text \<open>A live session keeps every part row and its lease only grows.\<close>

definition row_grows :: "upload_part \<Rightarrow> upload_part \<Rightarrow> bool" where
  "row_grows p p' \<longleftrightarrow> up_leaseEpoch p \<le> up_leaseEpoch p' \<and>
     (up_leaseEpoch p = up_leaseEpoch p' \<longrightarrow> up_sha256 p' = up_sha256 p) \<and> (up_state p = PartCommitted \<longrightarrow> p' = p)"

lemma row_grows_refl [simp]: "row_grows p p"
  by (simp add: row_grows_def)

lemma row_change_rows:
  assumes "row_change c s s'" and "is_live (us_state s')" and "js_get (us_parts s) n = Some p"
  shows "\<exists>p'. js_get (us_parts s') n = Some p' \<and> row_grows p p'"
  using assms(1)
proof cases
  case (rc_reserve k q)
  show ?thesis
  proof (cases "n = k")
    case True
    then have "row_grows p q" using rc_reserve(6) assms(3) by (simp add: row_grows_def)
    then show ?thesis using True rc_reserve(2) by simp
  qed (use rc_reserve(2) assms(3) in simp)
next
  case (rc_fail k q t)
  have "row_grows q (q\<lparr>up_state := PartFailed, up_committedAt := t\<rparr>)" using rc_fail(3) by (simp add: row_grows_def)
  then show ?thesis using rc_fail(1,2) assms(3) by (cases "n = k") simp_all
next
  case (rc_commit k q path t)
  have "row_grows q (committed_row path t q)" using rc_commit(4) by (simp add: row_grows_def committed_row_def)
  then show ?thesis using rc_commit(2,3) assms(3) by (cases "n = k") simp_all
next
  case rc_phase
  have "us_parts s' = us_parts s" using rc_phase(2) by (simp add: same_books_def)
  then show ?thesis using assms(3) by simp
next
  case rc_end
  then show ?thesis using assms(2) by simp
qed (use assms(3) in simp)

text \<open>While a session stays live and its epoch does not move, its finalization goes on with the same parts.\<close>

lemma finalizing_row_stays:
  assumes "row_change c s s'" and "session_wf s" and "us_state s = UpFinalizing" and "is_live (us_state s')"
    and "us_sessionEpoch s' = us_sessionEpoch s"
  shows "us_state s' = UpFinalizing \<and> us_parts s' = us_parts s"
proof -
  have none: "reserved_count (us_parts s) = 0" using assms(2,3) by (simp add: session_wfD(3))
  from assms(1) show ?thesis
  proof cases
    case (rc_fail n p t)
    then show ?thesis using none reserved_count_pos [of "us_parts s" n p] by simp
  next
    case rc_phase
    have "us_state s' \<noteq> UpUploading" using rc_phase(5) assms(3,5) by auto
    then show ?thesis using rc_phase(2,3) assms(3,4) by (auto simp: phase_moves_def same_books_def is_live_def)
  qed (use assms in auto)
qed

end
