(* ===== verification/UploadProtocol.thy ===== *)
theory UploadProtocol
  imports UploadRows
begin

text \<open>
  The writer as a transition system: requests, the failures they may run into, the maintenance pass, a
  crash of the process, in any interleaving of the steps of \<open>UploadSession\<close>. A step may be taken whenever
  the code could be at it; timeouts and aborts may strike at any moment. A maintenance transaction is taken
  row by row, and one that is rolled back after it removed files is not modelled.
\<close>

section \<open>Steps\<close>

record upload_env =
  ue_config :: upload_config
  ue_root :: string
  ue_hash :: "string \<Rightarrow> string"
  ue_nfc :: "string \<Rightarrow> string"
  ue_authorize :: authorizer

definition upload_initial :: "upload_system \<Rightarrow> bool" where
  "upload_initial st \<longleftrightarrow> st = \<lparr>ut_sessions = [], ut_files = [], ut_inFlight = [], ut_inFlightFinalizers = [],
     ut_pauseRequested = {}, ut_canceledUploads = {}, ut_published = []\<rparr>"

definition process_restart :: "upload_system \<Rightarrow> upload_system" where
  "process_restart st = st\<lparr>ut_inFlight := [], ut_inFlightFinalizers := [], ut_pauseRequested := {}, ut_canceledUploads := {}\<rparr>"

text \<open>A fresh uuid occurs nowhere in the state.\<close>

definition unused_id :: "upload_system \<Rightarrow> string \<Rightarrow> bool" where
  "unused_id st u \<longleftrightarrow> u \<notin> pb_uploadId ` set (ut_published st) \<and>
     list_all (\<lambda>(key, f). js_lower (uf_uploadId f) \<noteq> u) (ut_inFlight st) \<and>
     list_all (\<lambda>(key, z). us_uploadId (fz_session z) \<noteq> u) (ut_inFlightFinalizers st)"

text \<open>The stage of a flight.\<close>

abbreviation at_stage :: "upload_system \<Rightarrow> string \<Rightarrow> upload_flight \<Rightarrow> flight_stage \<Rightarrow> bool" where
  "at_stage st key f stage \<equiv> js_get (ut_inFlight st) key = Some f \<and> uf_stage f = stage"

inductive upload_step :: "upload_env \<Rightarrow> upload_system \<Rightarrow> upload_system \<Rightarrow> bool" for e :: upload_env where
  step_create: "is_uuid fresh \<Longrightarrow> unused_id st (js_lower fresh) \<Longrightarrow> ci_uploadId inp = None \<Longrightarrow>
    upload_step e st (fst (create_upload (ue_config e) (ue_nfc e) (ue_authorize e) now dbNow fresh available inp st))"
| step_begin: "upload_step e st
    (fst (put_part_begin (ue_config e) (ue_authorize e) now uploadId part checksum prin st))"
| step_reserve: "at_stage st key f AwaitingReservation \<Longrightarrow>
    upload_step e st (fst (put_part_reserve (ue_config e) (ue_root e) dbNow tmp key f st))"
| step_replayed: "at_stage st key f (Replaying p epoch) \<Longrightarrow> upload_step e st (drop_flight key st)"
| step_proceed: "at_stage st key f (Reserved l) \<Longrightarrow> session_unchanged (pl_sessionEpoch l) f st \<Longrightarrow>
    upload_step e st (set_stage key (Receiving l) st)"
| step_abort: "at_stage st key f (Reserved l) \<or> at_stage st key f (Receiving l) \<Longrightarrow>
    upload_step e st (set_stage key (Failing l False) st)"
| step_receive: "at_stage st key f (Receiving l) \<Longrightarrow>
    upload_step e st (receive_part (ue_config e) (ue_hash e) chunks key f l st)"
| step_rename: "at_stage st key f (Verified l) \<Longrightarrow> upload_step e st (rename_part (ue_root e) key f l st)"
| step_commit: "at_stage st key f (Renamed l) \<Longrightarrow> upload_step e st (commit_part (ue_root e) dbNow seen key f l st)"
| step_fail: "at_stage st key f (Failing l hasFinal) \<Longrightarrow>
    upload_step e st (fst (fail_part (ue_root e) readable removed recovered key f l hasFinal st))"
| step_pause_begin: "upload_step e st (fst (pause_begin (ue_config e) (ue_authorize e) now uploadId prin st))"
| step_pause_round: "uploadId \<in> ut_pauseRequested st \<Longrightarrow> upload_step e st (fst (pause_round now deadline uploadId prin st))"
| step_resume: "upload_step e st (fst (resume_transaction uploadId prin st))"
| step_cancel: "upload_step e st (fst (cancel_transaction uploadId prin st))"
| step_cancel_cleanup: "\<not> has_in_flight uploadId st \<Longrightarrow>
    (\<forall>s. js_get (ut_sessions st) (js_lower uploadId) = Some s \<longrightarrow> us_state s = UpAborted) \<Longrightarrow>
    upload_step e st (cancel_cleanup (ue_root e) dbNow removed uploadId st)"
| step_stale_part: "upload_step e st (reconcile_stale_part (ue_config e) (ue_root e) dbNow what u n st)"
| step_stale_finalizer: "upload_step e st (reconcile_stale_finalizer (ue_config e) dbNow u st)"
| step_expired: "upload_step e st (reconcile_expired dbNow u st)"
| step_committed: "upload_step e st (reconcile_committed (ue_root e) u n st)"
| step_cleanup: "upload_step e st (reconcile_cleanup (ue_root e) dbNow u st)"
| step_purge: "upload_step e st (reconcile_purge (ue_config e) (ue_root e) dbNow u st)"
| step_complete: "upload_step e st (fst (complete_begin (ue_config e) dbNow uploadId prin whole st))"
| step_publish: "js_get (ut_inFlightFinalizers st) uploadId = Some z \<Longrightarrow>
    upload_step e st (fst (finalize_publish (ue_hash e) (ue_root e) w z st))"
| step_finalize_fail: "js_get (ut_inFlightFinalizers st) uploadId = Some z \<Longrightarrow>
    upload_step e st (finalize_fail code uploadId z st)"
| step_release: "upload_step e st (release_finalizer uploadId st)"
| step_complete_cleanup: "upload_step e st (complete_cleanup (ue_root e) dbNow uploadId st)"
| step_restart: "upload_step e st (process_restart st)"

section \<open>The table of sessions\<close>

lemma set_stage_simps [simp]:
  "ut_sessions (set_stage key stage st) = ut_sessions st" "ut_files (set_stage key stage st) = ut_files st"
  "ut_published (set_stage key stage st) = ut_published st"
  "ut_inFlightFinalizers (set_stage key stage st) = ut_inFlightFinalizers st"
  by (simp_all add: set_stage_def split: option.splits)

lemma drop_flight_simps [simp]:
  "ut_sessions (drop_flight key st) = ut_sessions st" "ut_files (drop_flight key st) = ut_files st"
  "ut_published (drop_flight key st) = ut_published st"
  "ut_inFlightFinalizers (drop_flight key st) = ut_inFlightFinalizers st"
  "ut_inFlight (drop_flight key st) = js_delete key (ut_inFlight st)"
  by (simp_all add: drop_flight_def)

lemma put_session_simps [simp]:
  "ut_sessions (put_session u s st) = js_set u s (ut_sessions st)" "ut_files (put_session u s st) = ut_files st"
  "ut_published (put_session u s st) = ut_published st" "ut_inFlight (put_session u s st) = ut_inFlight st"
  "ut_inFlightFinalizers (put_session u s st) = ut_inFlightFinalizers st"
  "ut_pauseRequested (put_session u s st) = ut_pauseRequested st"
  "ut_canceledUploads (put_session u s st) = ut_canceledUploads st"
  by (simp_all add: put_session_def)

lemma process_restart_simps [simp]:
  "ut_sessions (process_restart st) = ut_sessions st" "ut_files (process_restart st) = ut_files st"
  "ut_published (process_restart st) = ut_published st" "ut_inFlight (process_restart st) = []"
  "ut_inFlightFinalizers (process_restart st) = []"
  by (simp_all add: process_restart_def)

lemma lock_sessionD: "lock_session uploadId prin st = Inr s \<Longrightarrow> js_get (ut_sessions st) (js_lower uploadId) = Some s"
  by (auto simp: lock_session_def split: option.splits if_splits)

lemma load_ownedD:
  assumes "load_owned now uploadId prin st = Inr s"
  shows "js_get (ut_sessions st) (js_lower uploadId) = Some s" and "is_uuid uploadId"
  using assms by (auto simp: load_owned_def split: sum.splits option.splits if_splits dest: lock_sessionD)

inductive table_change :: "bool \<Rightarrow> upload_system \<Rightarrow> upload_system \<Rightarrow> bool" for c :: bool and st :: upload_system where
  tc_same: "ut_sessions st' = ut_sessions st \<Longrightarrow> table_change c st st'"
| tc_row: "js_get (ut_sessions st) u = Some s \<Longrightarrow> row_change c s s' \<Longrightarrow> ut_sessions st' = js_set u s' (ut_sessions st) \<Longrightarrow>
    table_change c st st'"
| tc_new: "js_get (ut_sessions st) u = None \<Longrightarrow> unused_id st u \<Longrightarrow> session_wf s \<Longrightarrow> us_uploadId s = u \<Longrightarrow>
    js_lower u = u \<Longrightarrow> length u = 36 \<Longrightarrow> us_state s = UpInitiated \<Longrightarrow> us_parts s = [] \<Longrightarrow> ut_sessions st' = js_set u s (ut_sessions st) \<Longrightarrow> table_change c st st'"
| tc_purge: "js_get (ut_sessions st) u = Some s \<Longrightarrow> us_state s = UpCompleted \<Longrightarrow>
    ut_sessions st' = js_delete u (ut_sessions st) \<Longrightarrow> table_change c st st'"

definition sessions_wf :: "upload_system \<Rightarrow> bool" where
  "sessions_wf st \<longleftrightarrow> js_distinct (ut_sessions st) \<and>
     (\<forall>u s. js_get (ut_sessions st) u = Some s \<longrightarrow> session_wf s \<and> us_uploadId s = u \<and>
        js_lower u = u \<and> length u = 36)"

lemma sessions_wfD:
  assumes "sessions_wf st" and "js_get (ut_sessions st) u = Some s"
  shows "session_wf s" and "us_uploadId s = u" and "js_lower u = u" and "length u = 36"
  using assms by (auto simp: sessions_wf_def)

lemma table_change_wf:
  assumes "table_change c st st'" and "sessions_wf st"
  shows "sessions_wf st'"
  using assms(1)
proof cases
  case (tc_row u s s')
  have "session_wf s'" using tc_row(1,2) assms(2) by (blast intro: row_change_wf sessions_wfD)
  moreover have "us_uploadId s' = u \<and> js_lower u = u \<and> length u = 36"
    using row_change_upload [OF tc_row(2)] sessions_wfD(2-4) [OF assms(2) tc_row(1)] by (simp add: same_upload_def)
  ultimately show ?thesis using tc_row(3) assms(2) by (simp add: sessions_wf_def)
qed (use assms(2) in \<open>auto simp: sessions_wf_def\<close>)

text \<open>A row there is after a step comes from a row there was, or is new.\<close>

lemma table_change_get:
  assumes "table_change c st st'" and "js_get (ut_sessions st') u = Some s'"
  shows "(\<exists>s. js_get (ut_sessions st) u = Some s \<and> row_change c s s') \<or>
    js_get (ut_sessions st) u = None \<and> unused_id st u \<and> session_wf s' \<and> us_state s' = UpInitiated \<and> us_parts s' = []"
  using assms by cases (auto split: if_splits intro: rc_same)

section \<open>Requests in flight\<close>

definition flights_wf :: "upload_system \<Rightarrow> bool" where
  "flights_wf st \<longleftrightarrow> (\<forall>key f. js_get (ut_inFlight st) key = Some f \<longrightarrow>
     is_uuid (uf_uploadId f) \<and> key = flight_key (uf_uploadId f) (pg_partNumber (uf_part f)))"

fun stage_lease :: "flight_stage \<Rightarrow> part_lease option" where
  "stage_lease AwaitingReservation = None"
| "stage_lease (Replaying p epoch) = None"
| "stage_lease (Reserved l) = Some l"
| "stage_lease (Receiving l) = Some l"
| "stage_lease (Verified l) = Some l"
| "stage_lease (Renamed l) = Some l"
| "stage_lease (Failing l hasFinal) = Some l"

text \<open>A flight was checked against its session's geometry, which never changes.\<close>

definition flight_fits :: "upload_session \<Rightarrow> upload_flight \<Rightarrow> bool" where
  "flight_fits s f \<longleftrightarrow>
     0 \<le> pg_partNumber (uf_part f) \<and> pg_partNumber (uf_part f) < us_partCount s \<and>
     pg_offsetBytes (uf_part f) = pg_partNumber (uf_part f) * us_partBytes s \<and>
     pg_lengthBytes (uf_part f) = part_length (geometry_of s) (pg_partNumber (uf_part f)) \<and>
     (\<forall>l. stage_lease (uf_stage f) = Some l \<longrightarrow> pl_partCount l = us_partCount s)"

definition flights_fit :: "upload_system \<Rightarrow> bool" where
  "flights_fit st \<longleftrightarrow> (\<forall>key f s. js_get (ut_inFlight st) key = Some f \<longrightarrow>
     js_get (ut_sessions st) (js_lower (uf_uploadId f)) = Some s \<longrightarrow> flight_fits s f)"

lemma flight_fits_upload: "same_upload s s' \<Longrightarrow> flight_fits s' f \<longleftrightarrow> flight_fits s f"
  by (simp add: flight_fits_def same_upload_def geometry_of_def)

fun holds_content :: "flight_stage \<Rightarrow> bool" where
  "holds_content (Verified l) = True"
| "holds_content (Renamed l) = True"
| "holds_content stage = False"

definition same_flight :: "upload_flight \<Rightarrow> upload_flight \<Rightarrow> bool" where
  "same_flight f f' \<longleftrightarrow> uf_uploadId f' = uf_uploadId f \<and> uf_principal f' = uf_principal f \<and> uf_part f' = uf_part f \<and>
     uf_checksum f' = uf_checksum f"

text \<open>Where a flight of the next state comes from: one that was there, at a stage with the same lease or none,
  or one checked against its session in this step.\<close>

definition flight_from :: "bool \<Rightarrow> upload_system \<Rightarrow> string \<Rightarrow> upload_flight \<Rightarrow> bool" where
  "flight_from c st key f' \<longleftrightarrow>
     (\<exists>f. js_get (ut_inFlight st) key = Some f \<and> same_flight f f' \<and>
        (stage_lease (uf_stage f') = None \<or> stage_lease (uf_stage f') = stage_lease (uf_stage f)) \<and>
        (c \<longrightarrow> uf_stage f' = uf_stage f \<or> \<not> holds_content (uf_stage f'))) \<or>
     (\<exists>s. js_get (ut_sessions st) (js_lower (uf_uploadId f')) = Some s \<and> flight_fits s f' \<and> is_uuid (uf_uploadId f') \<and>
        (c \<longrightarrow> stage_lease (uf_stage f') = None) \<and> key = flight_key (uf_uploadId f') (pg_partNumber (uf_part f')))"

definition flights_from :: "bool \<Rightarrow> upload_system \<Rightarrow> upload_system \<Rightarrow> bool" where
  "flights_from c st st' \<longleftrightarrow> (\<forall>key f'. js_get (ut_inFlight st') key = Some f' \<longrightarrow> flight_from c st key f')"

lemma same_flight_refl [simp]: "same_flight f f"
  by (simp add: same_flight_def)

lemma flight_from_same: "js_get (ut_inFlight st) key = Some f \<Longrightarrow> flight_from c st key f"
  by (auto simp: flight_from_def same_flight_def)

lemma flights_from_same: "ut_inFlight st' = ut_inFlight st \<Longrightarrow> flights_from c st st'"
  by (simp add: flights_from_def flight_from_same)

lemma flights_from_drop: "flights_from c st st' \<Longrightarrow> flights_from c st (drop_flight key st')"
  by (simp add: flights_from_def)

lemma set_stage_get: "js_get (ut_inFlight (set_stage key stage st)) k =
    (if k = key then map_option (\<lambda>f. f\<lparr>uf_stage := stage\<rparr>) (js_get (ut_inFlight st) key) else js_get (ut_inFlight st) k)"
  by (simp add: set_stage_def split: option.splits)

lemma flights_from_stage:
  assumes "js_get (ut_inFlight st) key = Some f" and "ut_inFlight st' = ut_inFlight st"
    and "stage_lease stage = None \<or> stage_lease stage = stage_lease (uf_stage f)"
    and "c \<Longrightarrow> \<not> holds_content stage"
  shows "flights_from c st (set_stage key stage st')"
proof -
  have "flight_from c st key (f\<lparr>uf_stage := stage\<rparr>)" using assms by (auto simp: flight_from_def same_flight_def)
  then show ?thesis using assms(1,2) by (simp add: flights_from_def set_stage_get flight_from_same)
qed

lemma unused_flight: "unused_id st u \<Longrightarrow> js_get (ut_inFlight st) key = Some f \<Longrightarrow> js_lower (uf_uploadId f) \<noteq> u"
  by (auto simp: unused_id_def list_all_iff dest!: map_of_SomeD)

lemma flight_from_wf:
  assumes "flight_from c st key f'" and "flights_wf st"
  shows "is_uuid (uf_uploadId f') \<and> key = flight_key (uf_uploadId f') (pg_partNumber (uf_part f'))"
proof -
  from assms(1) consider
    f where "js_get (ut_inFlight st) key = Some f" "same_flight f f'"
  | "is_uuid (uf_uploadId f')" "key = flight_key (uf_uploadId f') (pg_partNumber (uf_part f'))"
    by (auto simp: flight_from_def)
  then show ?thesis using assms(2) by cases (simp_all add: flights_wf_def same_flight_def)
qed

lemma flight_from_fits:
  assumes "flight_from c st key f'" and "flights_fit st" and "table_change c st st'"
    and "js_get (ut_sessions st') (js_lower (uf_uploadId f')) = Some s'"
  shows "flight_fits s' f'"
proof -
  let ?u = "js_lower (uf_uploadId f')"
  from assms(1) consider
    f where "js_get (ut_inFlight st) key = Some f" "same_flight f f'"
      "stage_lease (uf_stage f') = None \<or> stage_lease (uf_stage f') = stage_lease (uf_stage f)"
  | s where "js_get (ut_sessions st) ?u = Some s" "flight_fits s f'"
    by (auto simp: flight_from_def)
  then show ?thesis
  proof cases
    case (1 f)
    have eq: "uf_uploadId f' = uf_uploadId f" "uf_part f' = uf_part f"
      using 1(2) by (simp_all add: same_flight_def)
    from table_change_get [OF assms(3,4)] unused_flight [OF _ 1(1)]
    obtain s where s: "js_get (ut_sessions st) ?u = Some s" "row_change c s s'" using eq by auto
    then have "flight_fits s f" using assms(2) 1(1) eq by (simp add: flights_fit_def)
    then have "flight_fits s f'" using 1(3) eq by (auto simp: flight_fits_def)
    then show ?thesis using flight_fits_upload [OF row_change_upload [OF s(2)]] by simp
  next
    case (2 s)
    from table_change_get [OF assms(3,4)] 2(1) have "row_change c s s'" by auto
    then show ?thesis using 2(2) flight_fits_upload [OF row_change_upload] by blast
  qed
qed

text \<open>A step is a change of the table with flights that come from the state before.\<close>

definition evolves :: "bool \<Rightarrow> upload_system \<Rightarrow> upload_system \<Rightarrow> bool" where
  "evolves c st st' \<longleftrightarrow> table_change c st st' \<and> flights_from c st st'"

definition books_wf :: "upload_system \<Rightarrow> bool" where
  "books_wf st \<longleftrightarrow> sessions_wf st \<and> flights_wf st \<and> flights_fit st"

lemma evolves_books:
  assumes "evolves c st st'" and "books_wf st"
  shows "books_wf st'"
proof -
  have tc: "table_change c st st'" and ff: "flights_from c st st'" using assms(1) by (simp_all add: evolves_def)
  have bk: "sessions_wf st" "flights_wf st" "flights_fit st" using assms(2) by (simp_all add: books_wf_def)
  have "flights_wf st'" unfolding flights_wf_def
    using ff flight_from_wf [OF _ bk(2)] unfolding flights_from_def by blast
  moreover have "flights_fit st'" unfolding flights_fit_def
    using ff flight_from_fits [OF _ bk(3) tc] unfolding flights_from_def by blast
  ultimately show ?thesis using table_change_wf [OF tc bk(1)] by (simp add: books_wf_def)
qed

lemma evolves_row:
  assumes "js_get (ut_sessions st) u = Some s" and "row_change c s s'" and "ut_sessions st' = js_set u s' (ut_sessions st)"
    and "flights_from c st st'"
  shows "evolves c st st'"
  using assms by (auto simp: evolves_def intro: tc_row)

lemma evolves_quiet: "ut_sessions st' = ut_sessions st \<Longrightarrow> flights_from c st st' \<Longrightarrow> evolves c st st'"
  by (simp add: evolves_def tc_same)

lemma evolves_refl: "evolves c st st"
  by (simp add: evolves_quiet flights_from_same)

section \<open>Each operation is such a step\<close>

text \<open>A change of a row without a change of the flights, as most operations make it.\<close>

lemma evolves_put:
  "js_get (ut_sessions st) u = Some s \<Longrightarrow> row_change c s s' \<Longrightarrow> ut_sessions st' = js_set u s' (ut_sessions st) \<Longrightarrow>
   ut_inFlight st' = ut_inFlight st \<Longrightarrow> evolves c st st'"
  by (simp add: evolves_row flights_from_same)

lemma evolves_quiet_same: "ut_sessions st' = ut_sessions st \<Longrightarrow> ut_inFlight st' = ut_inFlight st \<Longrightarrow> evolves c st st'"
  by (simp add: evolves_quiet flights_from_same)

lemma create_evolves:
  assumes "unused_id st (js_lower fresh)" and "ci_uploadId inp = None" and "is_uuid fresh"
  shows "evolves c st (fst (create_upload cfg nfc authorize now dbNow fresh available inp st))"
proof -
  let ?st' = "fst (create_upload cfg nfc authorize now dbNow fresh available inp st)"
  have admit: "fst (create_admit cfg now dbNow (js_lower fresh) available pu st) \<in>
      {st, put_session (js_lower fresh) (new_session cfg now (js_lower fresh) pu) st}" for pu
    by (simp add: create_admit_def Let_def)
  have idle: "fst (create_admit cfg now dbNow (js_lower fresh) available pu st) = st"
    if "js_get (ut_sessions st) (js_lower fresh) \<noteq> None" for pu
    using that by (simp add: create_admit_def Let_def)
  have "?st' = st \<or> (\<exists>pu. create_prepare cfg nfc authorize inp = Inr pu \<and>
      ?st' = fst (create_admit cfg now dbNow (js_lower fresh) available pu st))"
    using assms(2)
    by (cases "create_prepare cfg nfc authorize inp") (simp_all add: create_upload_def require_uuid_def split: option.split)
  then consider "?st' = st"
  | pu where "create_prepare cfg nfc authorize inp = Inr pu" "js_get (ut_sessions st) (js_lower fresh) = None"
      "?st' = put_session (js_lower fresh) (new_session cfg now (js_lower fresh) pu) st"
    using admit idle by (metis empty_iff insert_iff)
  then show ?thesis
  proof cases
    case 1
    then show ?thesis by (simp only: evolves_refl)
  next
    case (2 pu)
    have "table_change c st ?st'"
      by (rule tc_new [OF 2(2) assms(1) new_session_wf [OF 2(1)]]) (simp_all add: 2(3) new_session_def Let_def uuid_length [OF assms(3)])
    then show ?thesis using 2(3) by (simp add: evolves_def flights_from_same)
  qed
qed

lemma put_part_checksD:
  assumes "put_part_checks cfg authorize now uploadId part checksum prin st = Inr (expected, s)"
  shows "js_get (ut_sessions st) (js_lower uploadId) = Some s" and "is_uuid uploadId"
    and "validate_part_geometry (geometry_of s) part = None"
    and "js_get (ut_inFlight st) (flight_key uploadId (pg_partNumber part)) = None"
  using assms by (auto simp: put_part_checks_def split: sum.splits option.splits if_splits dest: load_ownedD)

lemma begin_evolves:
  assumes "sessions_wf st"
  shows "evolves c st (fst (put_part_begin cfg authorize now uploadId part checksum prin st))"
proof (cases "put_part_checks cfg authorize now uploadId part checksum prin st")
  case (Inl e)
  then show ?thesis by (simp add: put_part_begin_def evolves_refl)
next
  case (Inr r)
  obtain expected s where r: "r = (expected, s)" by (cases r)
  note c = put_part_checksD [OF Inr [unfolded r]]
  have "valid_geometry (geometry_of s)" "us_partCount s = part_count (geometry_of s)"
    using session_wfD(1) [OF sessions_wfD(1) [OF assms c(1)]] by (simp_all add: rows_fit_def)
  with c(3) validate_part_iff have "flight_fits s \<lparr>uf_uploadId = uploadId, uf_principal = prin, uf_part = part,
      uf_checksum = expected, uf_stage = AwaitingReservation\<rparr>"
    by (auto simp: flight_fits_def geometry_of_def)
  then show ?thesis
    using Inr r c(1,2)
    by (auto simp: put_part_begin_def flights_from_def flight_from_def intro!: evolves_quiet split: if_splits)
qed

lemma reserve_transactionD:
  assumes "reserve_transaction cfg root dbNow tmp f st = Inr (row, stage)"
  obtains (replay) p epoch where "row = None" and "stage = Replaying p epoch"
  | (reserve) s n path lease s' where "js_get (ut_sessions st) (js_lower (uf_uploadId f)) = Some s"
      and "us_state s \<in> {UpInitiated, UpUploading}" and "n = pg_partNumber (uf_part f)"
      and "path = session_path root (uf_uploadId f) n (temp_suffix tmp)" and "lease = next_lease s n"
      and "\<forall>q. js_get (us_parts s) n = Some q \<longrightarrow> up_state q = PartFailed \<and> up_leaseEpoch q < lease"
      and "s' = with_active_count (s\<lparr>us_parts := js_set n (reserved_row dbNow f path lease) (us_parts s), us_state := UpUploading\<rparr>)"
      and "row = Some s'"
      and "stage = Reserved \<lparr>pl_sessionEpoch = us_sessionEpoch s', pl_leaseEpoch = lease, pl_partCount = us_partCount s', pl_stagingPath = path\<rparr>"
      and "reserved_count (us_parts s) < uc_maxConcurrentPartsPerSession cfg"
      and "drive_reserved (us_drive s) (ut_sessions st) < uc_maxConcurrentPartStreamsGlobal cfg"
proof -
  let ?n = "pg_partNumber (uf_part f)"
  have lease: "up_leaseEpoch q < next_lease s ?n" if "js_get (us_parts s) ?n = Some q" for s q
    using that by (simp add: next_lease_def Let_def)
  from assms obtain s where s: "lock_session (uf_uploadId f) (uf_principal f) st = Inr s"
    by (auto simp: reserve_transaction_def split: sum.splits)
  show ?thesis
  proof (cases "js_get (us_parts s) ?n")
    case None
    then show ?thesis using assms s lock_sessionD [OF s]
      by (intro reserve [OF _ _ refl refl refl]) (auto simp: reserve_transaction_def Let_def split: if_splits)
  next
    case (Some q)
    show ?thesis
    proof (cases "up_state q")
      case PartFailed
      then show ?thesis using assms s lock_sessionD [OF s] Some lease [OF Some]
        by (intro reserve [OF _ _ refl refl refl]) (auto simp: reserve_transaction_def Let_def split: if_splits)
    qed (use assms s Some replay in \<open>auto simp: reserve_transaction_def Let_def split: if_splits\<close>)
  qed
qed

lemma reserve_evolves:
  assumes "js_get (ut_inFlight st) key = Some f" and "books_wf st"
  shows "evolves False st (fst (put_part_reserve cfg root dbNow tmp key f st))"
proof (cases "reserve_transaction cfg root dbNow tmp f st")
  case (Inl e)
  then show ?thesis by (simp add: put_part_reserve_def evolves_quiet flights_from_drop flights_from_same)
next
  case (Inr r)
  obtain row stage where "r = (row, stage)" by (cases r)
  note tx = Inr [unfolded this]
  from tx show ?thesis
  proof (cases rule: reserve_transactionD)
    case (replay p epoch)
    then show ?thesis using tx assms(1)
      by (simp add: put_part_reserve_def evolves_quiet flights_from_stage)
  next
    case (reserve s n path lease s')
    have bk: "sessions_wf st" "flights_wf st" "flights_fit st" using assms(2) by (simp_all add: books_wf_def)
    have fits: "flight_fits s f" using bk(3) assms(1) reserve(1) by (auto simp: flights_fit_def)
    have row: "row_fits s n (reserved_row dbNow f path lease)"
      using fits reserve(3) by (simp add: row_fits_def reserved_row_def flight_fits_def)
    have change: "row_change False s s'" unfolding reserve(7)
      by (rule rc_reserve [OF reserve(2) row]) (use reserve(6) in \<open>simp_all add: reserved_row_def\<close>)
    let ?st' = "set_stage key stage (put_session (js_lower (uf_uploadId f)) s' st)"
    have pc: "us_partCount s' = us_partCount s" by (simp add: reserve(7))
    have new: "flight_from False st key (f\<lparr>uf_stage := stage\<rparr>)"
    proof -
      have "flight_fits s (f\<lparr>uf_stage := stage\<rparr>)" using fits pc by (simp add: flight_fits_def reserve(9))
      moreover have "is_uuid (uf_uploadId f) \<and> key = flight_key (uf_uploadId f) (pg_partNumber (uf_part f))"
        using bk(2) assms(1) by (simp add: flights_wf_def)
      ultimately show ?thesis using reserve(1) unfolding flight_from_def by force
    qed
    have "flights_from False st ?st'"
      using new assms(1) by (simp add: flights_from_def set_stage_get flight_from_same)
    then have "evolves False st ?st'" by (intro evolves_row [OF reserve(1) change]) simp_all
    then show ?thesis using tx reserve(8) by (simp add: put_part_reserve_def)
  qed
qed

lemma receive_evolves:
  assumes "js_get (ut_inFlight st) key = Some f" and "uf_stage f = Receiving l"
  shows "evolves False st (receive_part cfg H chunks key f l st)"
proof -
  have "flights_from False st (set_stage key stage st')" if "ut_inFlight st' = ut_inFlight st" "stage_lease stage = Some l" for stage st'
    using assms that by (intro flights_from_stage [OF assms(1)]) simp_all
  then show ?thesis by (intro evolves_quiet) (simp_all add: receive_part_def Let_def split: sum.split)
qed

lemma rename_evolves:
  assumes "js_get (ut_inFlight st) key = Some f" and "uf_stage f = Verified l"
  shows "evolves False st (rename_part root key f l st)"
proof -
  have "flights_from False st (set_stage key stage st')" if "ut_inFlight st' = ut_inFlight st" "stage_lease stage = Some l" for stage st'
    using assms that by (intro flights_from_stage [OF assms(1)]) simp_all
  then show ?thesis by (intro evolves_quiet) (simp_all add: rename_part_def split: option.split)
qed

lemma commit_transactionD:
  assumes "commit_transaction root dbNow f l st = Inr s'"
  obtains s n p where "js_get (ut_sessions st) (js_lower (uf_uploadId f)) = Some s" and "n = pg_partNumber (uf_part f)"
    and "js_get (us_parts s) n = Some p" and "up_state p = PartReserved" and "up_leaseEpoch p = pl_leaseEpoch l"
    and "us_state s = UpUploading" and "us_sessionEpoch s = pl_sessionEpoch l"
    and "s' = with_active_count (s\<lparr>us_parts := js_set n (committed_row (final_path root f) dbNow p) (us_parts s),
           us_committedBytes := us_committedBytes s + pg_lengthBytes (uf_part f),
           us_committedPartCount := us_committedPartCount s + 1,
           us_contiguousBytes := contiguous_bytes (pl_partCount l) (js_set n (committed_row (final_path root f) dbNow p) (us_parts s))\<rparr>)"
  using assms
  by (auto simp: commit_transaction_def Let_def split: sum.splits option.splits if_splits dest!: lock_sessionD)

lemma commit_row_change:
  assumes "commit_transaction root dbNow f l st = Inr s'" and "js_get (ut_inFlight st) key = Some f"
    and "stage_lease (uf_stage f) = Some l" and "books_wf st"
  obtains s where "js_get (ut_sessions st) (js_lower (uf_uploadId f)) = Some s" and "row_change False s s'"
  using assms(1)
proof (rule commit_transactionD)
  fix s n p
  assume s: "js_get (ut_sessions st) (js_lower (uf_uploadId f)) = Some s" and n: "n = pg_partNumber (uf_part f)"
    and p: "js_get (us_parts s) n = Some p" "up_state p = PartReserved" and st: "us_state s = UpUploading"
    and s': "s' = with_active_count (s\<lparr>us_parts := js_set n (committed_row (final_path root f) dbNow p) (us_parts s),
           us_committedBytes := us_committedBytes s + pg_lengthBytes (uf_part f),
           us_committedPartCount := us_committedPartCount s + 1,
           us_contiguousBytes := contiguous_bytes (pl_partCount l) (js_set n (committed_row (final_path root f) dbNow p) (us_parts s))\<rparr>)"
  have bk: "sessions_wf st" "flights_fit st" using assms(4) by (simp_all add: books_wf_def)
  have "flight_fits s f" using bk(2) assms(2) s by (auto simp: flights_fit_def)
  moreover have "row_fits s n p" using session_wfD(1) [OF sessions_wfD(1) [OF bk(1) s]] p(1) by (rule row_geometry)
  ultimately have "pg_lengthBytes (uf_part f) = up_lengthBytes p" "pl_partCount l = us_partCount s"
    using assms(3) n by (simp_all add: flight_fits_def row_fits_def)
  then have "row_change False s s'" unfolding s' using rc_commit [OF p st] by simp
  then show thesis using that s by blast
qed

lemma commit_evolves:
  assumes "js_get (ut_inFlight st) key = Some f" and "uf_stage f = Renamed l" and "books_wf st"
  shows "evolves False st (commit_part root dbNow seen key f l st)"
proof (cases "commit_transaction root dbNow f l st")
  case (Inl e)
  have "flights_from False st (set_stage key (Failing l True) st)" using assms(1,2) by (intro flights_from_stage [OF assms(1)]) simp_all
  then show ?thesis using Inl by (simp add: commit_part_def evolves_quiet)
next
  case (Inr s')
  obtain s where s: "js_get (ut_sessions st) (js_lower (uf_uploadId f)) = Some s" "row_change False s s'"
    using commit_row_change [OF Inr assms(1) _ assms(3)] assms(2) by auto
  have "flights_from False st (set_stage key (Failing l True) (put_session (js_lower (uf_uploadId f)) s' st))"
    using assms(1,2) by (intro flights_from_stage [OF assms(1)]) simp_all
  then show ?thesis using Inr
    by (cases seen) (simp_all add: commit_part_def evolves_row [OF s] flights_from_drop flights_from_same)
qed

lemma fail_transaction_cases:
  obtains (none) "fail_transaction root f l hasFinal st = st"
  | (failed) s n p where "js_get (ut_sessions st) (js_lower (uf_uploadId f)) = Some s" and "n = pg_partNumber (uf_part f)"
      and "js_get (us_parts s) n = Some p" and "up_state p = PartReserved" and "up_leaseEpoch p = pl_leaseEpoch l"
      and "fail_transaction root f l hasFinal st = put_session (js_lower (uf_uploadId f))
             (with_active_count (s\<lparr>us_parts := js_set n (p\<lparr>up_state := PartFailed, up_committedAt := None\<rparr>) (us_parts s)\<rparr>))
             (if hasFinal then st\<lparr>ut_files := js_delete (final_path root f) (ut_files st)\<rparr> else st)"
proof (cases "js_get (ut_sessions st) (js_lower (uf_uploadId f))")
  case (Some s)
  show ?thesis
  proof (cases "js_get (us_parts s) (pg_partNumber (uf_part f))")
    case (Some p)
    with \<open>js_get (ut_sessions st) (js_lower (uf_uploadId f)) = Some s\<close> show ?thesis
      using none failed [OF _ refl Some]
      by (cases "up_state p \<noteq> PartReserved \<or> up_leaseEpoch p \<noteq> pl_leaseEpoch l") (auto simp: fail_transaction_def Let_def)
  qed (use Some none in \<open>simp add: fail_transaction_def Let_def\<close>)
qed (use none in \<open>simp add: fail_transaction_def Let_def\<close>)

lemma fail_transaction_evolves:
  assumes "ut_sessions st1 = ut_sessions st" and "ut_inFlight st1 = ut_inFlight st"
  shows "evolves c st (fail_transaction root f l hasFinal st1)"
proof (rule fail_transaction_cases [of root f l hasFinal st1])
  assume "fail_transaction root f l hasFinal st1 = st1"
  then show ?thesis using assms by (simp add: evolves_quiet_same)
next
  fix s n p
  assume "js_get (ut_sessions st1) (js_lower (uf_uploadId f)) = Some s" "js_get (us_parts s) n = Some p" "up_state p = PartReserved"
    and eq: "fail_transaction root f l hasFinal st1 = put_session (js_lower (uf_uploadId f))
             (with_active_count (s\<lparr>us_parts := js_set n (p\<lparr>up_state := PartFailed, up_committedAt := None\<rparr>) (us_parts s)\<rparr>))
             (if hasFinal then st1\<lparr>ut_files := js_delete (final_path root f) (ut_files st1)\<rparr> else st1)"
  then show ?thesis unfolding eq using assms
    by (intro evolves_put [OF _ rc_fail]) simp_all
qed

lemma evolves_drop: "evolves c st st' \<Longrightarrow> evolves c st (drop_flight key st')"
proof -
  have "table_change c st (drop_flight key st')" if "table_change c st st'"
    using that by (auto elim!: table_change.cases intro: table_change.intros)
  then show "evolves c st st' \<Longrightarrow> evolves c st (drop_flight key st')" by (simp add: evolves_def flights_from_drop)
qed

lemma fail_evolves: "evolves c st (fst (fail_part root readable removed recovered key f l hasFinal st))"
  by (auto simp: fail_part_def Let_def intro!: evolves_drop evolves_quiet_same fail_transaction_evolves)

text \<open>Requests that change the phase, and the maintenance pass.\<close>

lemma pause_begin_quiet:
  "ut_sessions (fst (pause_begin cfg authorize now uploadId prin st)) = ut_sessions st"
  "ut_inFlight (fst (pause_begin cfg authorize now uploadId prin st)) = ut_inFlight st"
  "ut_files (fst (pause_begin cfg authorize now uploadId prin st)) = ut_files st"
  "ut_inFlightFinalizers (fst (pause_begin cfg authorize now uploadId prin st)) = ut_inFlightFinalizers st"
  "ut_published (fst (pause_begin cfg authorize now uploadId prin st)) = ut_published st"
  by (simp_all add: pause_begin_def split: option.split sum.split)

lemma counters_live: "session_wf s \<Longrightarrow> is_live (us_state s) \<Longrightarrow> us_activePartCount s = reserved_count (us_parts s)"
  using session_wfD(2) by (simp add: counters_fit_def)

lemma pause_round_evolves:
  assumes "sessions_wf st"
  shows "evolves c st (fst (pause_round now deadline uploadId prin st))"
proof (cases "load_owned now uploadId prin st")
  case (Inl e)
  then show ?thesis by (simp add: pause_round_def Let_def evolves_quiet_same)
next
  case (Inr s)
  note s = load_ownedD(1) [OF Inr]
  have "row_change c s (s\<lparr>us_state := UpPaused\<rparr>)" if "us_state s \<in> {UpInitiated, UpUploading}" "us_activePartCount s = 0"
    by (rule rc_phase)
      (use that counters_live [OF sessions_wfD(1) [OF assms s]]
        in \<open>auto simp: same_upload_def same_books_def geometry_of_def phase_moves_def is_live_def\<close>)
  then have "evolves c st (put_session (js_lower uploadId) (s\<lparr>us_state := UpPaused\<rparr>) st\<lparr>ut_pauseRequested := P\<rparr>)"
    if "us_state s \<in> {UpInitiated, UpUploading}" "us_activePartCount s = 0" for P
    using that by (intro evolves_put [OF s]) simp_all
  then show ?thesis using Inr
    by (simp add: pause_round_def Let_def evolves_quiet_same)
qed

lemma resume_evolves: "evolves c st (fst (resume_transaction uploadId prin st))"
proof (cases "lock_session uploadId prin st")
  case (Inr s)
  have "row_change c s (s\<lparr>us_state := UpUploading\<rparr>)" if "us_state s = UpPaused"
    by (rule rc_phase) (use that in \<open>simp_all add: same_upload_def same_books_def geometry_of_def phase_moves_def\<close>)
  then show ?thesis using Inr
    by (auto simp: resume_transaction_def intro!: evolves_put [OF lock_sessionD [OF Inr]] evolves_refl)
qed (simp add: resume_transaction_def evolves_refl)

lemma aborted_change: "us_state s \<noteq> UpFinalizing \<Longrightarrow> us_state s \<noteq> UpCompleted \<Longrightarrow> row_change c s (aborted_session s)"
  by (rule rc_end) (cases "us_state s"; simp add: same_upload_def aborted_session_def phase_moves_def is_live_def)+

lemma cancel_evolves: "evolves c st (fst (cancel_transaction uploadId prin st))"
proof (cases "lock_session uploadId prin st")
  case (Inr s)
  then show ?thesis
    by (auto simp: cancel_transaction_def intro!: evolves_put [OF lock_sessionD [OF Inr] aborted_change] evolves_refl)
qed (simp add: cancel_transaction_def evolves_refl)

lemma cleared_change:
  "\<not> is_live (us_state s) \<Longrightarrow> row_change c s ((if b then s\<lparr>us_cleanupAt := t\<rparr> else s)\<lparr>us_parts := []\<rparr>)"
  by (rule rc_end) (auto simp: same_upload_def)

lemma cancel_cleanup_evolves:
  assumes "\<forall>s. js_get (ut_sessions st) (js_lower uploadId) = Some s \<longrightarrow> us_state s = UpAborted"
  shows "evolves c st (cancel_cleanup root dbNow removed uploadId st)"
proof (cases "js_get (ut_sessions st) (js_lower uploadId)")
  case (Some s)
  have "\<not> is_live (us_state s)" using assms Some by (simp add: is_live_def)
  then show ?thesis using Some
    by (simp add: cancel_cleanup_def Let_def evolves_put [OF Some cleared_change])
qed (simp add: cancel_cleanup_def Let_def evolves_quiet_same)

lemma stale_part_cases:
  obtains (none) "reconcile_stale_part cfg root dbNow removed u n st = st"
  | (temp) s p where "js_get (ut_sessions st) u = Some s" and "js_get (us_parts s) n = Some p" and "up_state p = PartReserved"
      and "validated_temp_path root u n (up_stagingPath p)"
      and "reconcile_stale_part cfg root dbNow removed u n st = st\<lparr>ut_files := js_delete (up_stagingPath p) (ut_files st)\<rparr>"
  | (both) s p where "js_get (ut_sessions st) u = Some s" and "js_get (us_parts s) n = Some p" and "up_state p = PartReserved"
      and "validated_temp_path root u n (up_stagingPath p)"
      and "reconcile_stale_part cfg root dbNow removed u n st =
        put_session u (with_active_count (s\<lparr>us_parts := js_set n (p\<lparr>up_state := PartFailed, up_committedAt := None\<rparr>) (us_parts s)\<rparr>))
          (st\<lparr>ut_files := js_delete (session_path root u n []) (js_delete (up_stagingPath p) (ut_files st))\<rparr>)"
proof (cases "js_get (ut_sessions st) u")
  case (Some s)
  show ?thesis
  proof (cases "js_get (us_parts s) n")
    case (Some p)
    show ?thesis
    proof (cases "is_stale_part cfg dbNow p \<and> validated_temp_path root u n (up_stagingPath p)")
      case True
      then have "up_state p = PartReserved" by (simp add: is_stale_part_def)
      with True \<open>js_get (ut_sessions st) u = Some s\<close> Some none temp both show ?thesis
        by (cases removed) (auto simp: reconcile_stale_part_def)
    qed (use \<open>js_get (ut_sessions st) u = Some s\<close> Some none in \<open>auto simp: reconcile_stale_part_def\<close>)
  qed (use Some none in \<open>simp add: reconcile_stale_part_def\<close>)
qed (use none in \<open>simp add: reconcile_stale_part_def\<close>)

lemma stale_part_evolves: "evolves c st (reconcile_stale_part cfg root dbNow removed u n st)"
  by (rule stale_part_cases [of cfg root dbNow removed u n st])
    (simp_all add: evolves_refl evolves_quiet_same evolves_put [OF _ rc_fail])

lemma stale_finalizer_evolves: "evolves c st (reconcile_stale_finalizer cfg dbNow u st)"
proof (cases "js_get (ut_sessions st) u")
  case (Some s)
  have "row_change c s (s\<lparr>us_state := UpUploading, us_sessionEpoch := us_sessionEpoch s + 1, us_finalizingStartedAt := None,
      us_expiresAt := t\<rparr>)" if "us_state s = UpFinalizing" for t
    by (rule rc_phase) (use that in \<open>simp_all add: same_upload_def same_books_def geometry_of_def phase_moves_def\<close>)
  then show ?thesis using Some
    by (auto simp: reconcile_stale_finalizer_def evolves_refl intro!: evolves_put [OF Some] split: option.split)
qed (simp add: reconcile_stale_finalizer_def evolves_refl)

lemma expired_evolves: "evolves c st (reconcile_expired dbNow u st)"
proof (cases "js_get (ut_sessions st) u")
  case (Some s)
  have "row_change c s (s\<lparr>us_state := UpExpired, us_sessionEpoch := us_sessionEpoch s + 1, us_activePartCount := 0, us_parts := []\<rparr>)"
    if "is_live (us_state s)"
    by (rule rc_end) (use that in \<open>auto simp: same_upload_def phase_moves_def is_live_def\<close>)
  then show ?thesis using Some
    by (auto simp: reconcile_expired_def is_live_def intro!: evolves_put [OF Some] evolves_refl)
qed (simp add: reconcile_expired_def evolves_refl)

lemma committed_evolves: "evolves c st (reconcile_committed root u n st)"
proof (cases "js_get (ut_sessions st) u")
  case (Some s)
  have "row_change c s (s\<lparr>us_state := UpFailed, us_failureCode := code, us_sessionEpoch := us_sessionEpoch s + 1, us_activePartCount := 0\<rparr>)"
    if "us_state s \<in> {UpUploading, UpPaused, UpFinalizing}" for code
    by (rule rc_end) (use that in \<open>auto simp: same_upload_def phase_moves_def is_live_def\<close>)
  then show ?thesis using Some
    by (cases "js_get (us_parts s) n") (auto simp: reconcile_committed_def intro!: evolves_put [OF Some] evolves_refl)
qed (simp add: reconcile_committed_def evolves_refl)

lemma cleanup_evolves: "evolves c st (reconcile_cleanup root dbNow u st)"
proof (cases "js_get (ut_sessions st) u")
  case (Some s)
  have "row_change c s (s\<lparr>us_parts := [], us_cleanupAt := t\<rparr>)" if "\<not> is_live (us_state s)" for t
    by (rule rc_end) (use that in \<open>simp_all add: same_upload_def\<close>)
  then show ?thesis using Some
    by (auto simp: reconcile_cleanup_def intro!: evolves_put [OF Some] evolves_refl)
qed (simp add: reconcile_cleanup_def evolves_refl)

lemma purge_evolves: "evolves c st (reconcile_purge cfg root dbNow u st)"
proof (cases "js_get (ut_sessions st) u")
  case (Some s)
  have "evolves c st st'" if "us_state s = UpCompleted" "ut_sessions st' = js_delete u (ut_sessions st)"
    "ut_inFlight st' = ut_inFlight st" for st'
    using tc_purge [OF Some that(1,2)] that(3) by (simp add: evolves_def flights_from_same)
  then show ?thesis using Some
    by (auto simp: reconcile_purge_def evolves_refl split: option.split)
qed (simp add: reconcile_purge_def evolves_refl)

lemma complete_cleanup_evolves: "evolves c st (complete_cleanup root dbNow uploadId st)"
proof (cases "js_get (ut_sessions st) (js_lower uploadId)")
  case (Some s)
  have "row_change c s (s\<lparr>us_parts := [], us_cleanupAt := t\<rparr>)" if "us_state s = UpCompleted" for t
    by (rule rc_end) (use that in \<open>simp_all add: same_upload_def is_live_def\<close>)
  then show ?thesis using Some
    by (auto simp: complete_cleanup_def Let_def intro!: evolves_put [OF Some] evolves_refl)
qed (simp add: complete_cleanup_def evolves_refl)

lemma complete_transactionD:
  assumes "complete_transaction cfg dbNow uploadId prin whole st = Inr (FinalizeNow s' parts)"
  obtains s where "js_get (ut_sessions st) (js_lower uploadId) = Some s" and "us_state s \<in> {UpInitiated, UpUploading, UpPaused}"
    and "parts = ordered_parts (us_parts s)" and "int (length parts) = us_partCount s"
    and "list_all2 (part_matches (geometry_of s)) [0..us_partCount s - 1] parts"
    and "us_activePartCount s = 0" and "us_committedPartCount s = us_partCount s" and "us_committedBytes s = us_expectedBytes s"
    and "finalizing_count (ut_sessions st) < uc_maxConcurrentFinalizations cfg"
    and "s' = s\<lparr>us_state := UpFinalizing, us_wholeSha256 := (case us_wholeSha256 s of None \<Rightarrow> whole | Some h \<Rightarrow> Some h),
           us_finalizingStartedAt := Some dbNow, us_expiresAt := max (us_expiresAt s) (dbNow + uc_finalizeTimeoutMs cfg)\<rparr>"
proof -
  from assms obtain s where s: "lock_session uploadId prin st = Inr s"
    by (auto simp: complete_transaction_def split: sum.splits)
  have "us_state s \<in> {UpInitiated, UpUploading, UpPaused}"
    using assms s by (cases "us_state s") (auto simp: complete_transaction_def split: if_splits)
  then show thesis using assms s
    by (intro that [OF lock_sessionD [OF s]])
      (auto simp: complete_transaction_def Let_def simp del: list_all2_conv_all_nth split: if_splits)
qed

lemma finalizing_change:
  assumes "complete_transaction cfg dbNow uploadId prin whole st = Inr (FinalizeNow s' parts)" and "sessions_wf st"
  obtains s where "js_get (ut_sessions st) (js_lower uploadId) = Some s" and "row_change c s s'"
  using assms(1)
proof (rule complete_transactionD)
  fix s
  assume s: "js_get (ut_sessions st) (js_lower uploadId) = Some s" "us_state s \<in> {UpInitiated, UpUploading, UpPaused}"
    "us_activePartCount s = 0" "us_committedPartCount s = us_partCount s"
    and s': "s' = s\<lparr>us_state := UpFinalizing, us_wholeSha256 := (case us_wholeSha256 s of None \<Rightarrow> whole | Some h \<Rightarrow> Some h),
           us_finalizingStartedAt := Some dbNow, us_expiresAt := max (us_expiresAt s) (dbNow + uc_finalizeTimeoutMs cfg)\<rparr>"
  have "reserved_count (us_parts s) = 0"
    using counters_live [OF sessions_wfD(1) [OF assms(2) s(1)]] s(2,3) by (auto simp: is_live_def)
  then have "row_change c s s'"
    unfolding s' using s(2,4)
    by (intro rc_phase) (auto simp: same_upload_def same_books_def geometry_of_def phase_moves_def)
  then show thesis using that s(1) by blast
qed

lemma complete_evolves:
  assumes "sessions_wf st"
  shows "evolves c st (fst (complete_begin cfg dbNow uploadId prin whole st))"
proof (cases "complete_transaction cfg dbNow uploadId prin whole st")
  case (Inr start)
  show ?thesis
  proof (cases start)
    case (FinalizeNow s' parts)
    note tx = Inr [unfolded FinalizeNow]
    obtain s where "js_get (ut_sessions st) (js_lower uploadId) = Some s" "row_change c s s'"
      using finalizing_change [OF tx assms] by auto
    then show ?thesis using tx by (simp add: complete_begin_def Let_def evolves_put)
  qed (use Inr in \<open>simp add: complete_begin_def evolves_refl\<close>)
qed (simp add: complete_begin_def evolves_refl)

lemma finalize_publish_cases:
  obtains (none) "fst (finalize_publish H root w z st) = st"
      and "\<exists>err. snd (finalize_publish H root w z st) = Some err"
  | (published) content s rid version where
      "upload_stream H root (us_uploadId (fz_session z)) (ut_files st) (sort_key up_partNumber (fz_parts z)) = Inr content"
      and "int (length content) = us_expectedBytes (fz_session z)"
      and "\<forall>h. us_wholeSha256 (fz_session z) = Some h \<longrightarrow> H content = h"
      and "js_get (ut_sessions st) (us_uploadId (fz_session z)) = Some s" and "us_state s = UpFinalizing"
      and "us_sessionEpoch s = us_sessionEpoch (fz_session z)"
      and "fst (finalize_publish H root w z st) =
        (put_session (us_uploadId (fz_session z)) (s\<lparr>us_state := UpCompleted, us_resultResourceId := Some rid,
           us_resultVersion := Some version, us_resultSha256 := Some (H content)\<rparr>) st)
        \<lparr>ut_published := ut_published st @ [\<lparr>pb_uploadId = us_uploadId (fz_session z),
           pb_sessionEpoch = us_sessionEpoch (fz_session z), pb_expectedBytes = us_expectedBytes (fz_session z),
           pb_content = content\<rparr>]\<rparr>"
proof (cases "snd (finalize_publish H root w z st)")
  case (Some err)
  moreover have "fst (finalize_publish H root w z st) = st"
    using Some by (auto simp: finalize_publish_def Let_def split: sum.splits option.splits if_splits)
  ultimately show thesis using none by simp
next
  case None
  then obtain content rid version s where
    c: "upload_stream H root (us_uploadId (fz_session z)) (ut_files st) (sort_key up_partNumber (fz_parts z)) = Inr content"
      "pw_target w = Inr (rid, version)" "int (length content) = us_expectedBytes (fz_session z)"
      "\<forall>h. us_wholeSha256 (fz_session z) = Some h \<longrightarrow> H content = h"
      "js_get (ut_sessions st) (us_uploadId (fz_session z)) = Some s" "us_state s = UpFinalizing"
      "us_sessionEpoch s = us_sessionEpoch (fz_session z)"
      "pw_staging w = None" "on_published_error w (fz_session z) = None" "pw_aborted w 2 = None" "pw_commit w = None"
    by (auto simp: finalize_publish_def Let_def split: sum.splits option.splits if_splits)
  show thesis
    by (rule published [OF c(1,3-7)]) (use c in \<open>auto simp: finalize_publish_def Let_def split: option.split\<close>)
qed

lemma completed_change:
  "us_state s = UpFinalizing \<Longrightarrow> row_change c s (s\<lparr>us_state := UpCompleted, us_resultResourceId := a, us_resultVersion := b,
     us_resultSha256 := h\<rparr>)"
  by (rule rc_end) (simp_all add: same_upload_def phase_moves_def is_live_def)

lemma publish_evolves: "evolves c st (fst (finalize_publish H root w z st))"
  by (rule finalize_publish_cases [of H root w z st])
    (simp_all add: evolves_refl evolves_put [OF _ completed_change])

lemma release_simps [simp]:
  "ut_sessions (release_finalizer uploadId st) = ut_sessions st" "ut_inFlight (release_finalizer uploadId st) = ut_inFlight st"
  "ut_files (release_finalizer uploadId st) = ut_files st" "ut_published (release_finalizer uploadId st) = ut_published st"
  "ut_inFlightFinalizers (release_finalizer uploadId st) = js_delete uploadId (ut_inFlightFinalizers st)"
  by (simp_all add: release_finalizer_def)

lemma finalize_fail_evolves: "evolves c st (finalize_fail code uploadId z st)"
proof (cases "lock_session uploadId (fz_principal z) st")
  case (Inr s)
  have "row_change c s (s\<lparr>us_state := UpFailed, us_failureCode := code, us_activePartCount := 0, us_finalizingStartedAt := None\<rparr>)"
    if "us_state s = UpFinalizing" for code
    by (rule rc_end) (use that in \<open>simp_all add: same_upload_def phase_moves_def is_live_def\<close>)
  then show ?thesis using Inr
    by (cases "us_state s = UpFinalizing \<and> us_sessionEpoch s = us_sessionEpoch (fz_session z)")
      (auto simp: finalize_fail_def evolves_quiet_same intro!: evolves_put [OF lock_sessionD [OF Inr]])
qed (simp add: finalize_fail_def evolves_quiet_same)

lemma stage_evolves:
  assumes "js_get (ut_inFlight st) key = Some f" and "stage_lease stage = stage_lease (uf_stage f)" and "\<not> holds_content stage"
  shows "evolves c st (set_stage key stage st)"
  using flights_from_stage [OF assms(1) refl] assms(2,3) by (simp add: evolves_quiet)

lemmas request_evolves = create_evolves begin_evolves fail_evolves pause_round_evolves resume_evolves cancel_evolves cancel_cleanup_evolves complete_evolves publish_evolves
  finalize_fail_evolves complete_cleanup_evolves

lemmas maintenance_evolves = stale_part_evolves stale_finalizer_evolves expired_evolves committed_evolves cleanup_evolves
  purge_evolves

lemma upload_step_cases:
  assumes "upload_step e st st'" and "books_wf st"
  obtains (calm) "evolves True st st'"
  | (reserve) key f dbNow tmp where "at_stage st key f AwaitingReservation"
      and "st' = fst (put_part_reserve (ue_config e) (ue_root e) dbNow tmp key f st)"
  | (receive) key f l chunks where "at_stage st key f (Receiving l)"
      and "st' = receive_part (ue_config e) (ue_hash e) chunks key f l st"
  | (rename) key f l where "at_stage st key f (Verified l)" and "st' = rename_part (ue_root e) key f l st"
  | (commit) key f l dbNow seen where "at_stage st key f (Renamed l)" and "st' = commit_part (ue_root e) dbNow seen key f l st"
proof -
  have books: "sessions_wf st" using assms(2) by (simp add: books_wf_def)
  from assms(1) show thesis
  proof cases
    case step_reserve
    then show thesis by (rule reserve [rotated])
  next
    case step_receive
    then show thesis by (rule receive [rotated])
  next
    case step_rename
    then show thesis by (rule rename [rotated])
  next
    case step_commit
    then show thesis by (rule commit [rotated])
  next
    case (step_proceed key f l)
    then show thesis by (intro calm) (auto intro: stage_evolves)
  next
    case step_abort
    then show thesis by (intro calm) (auto intro: stage_evolves)
  next
    case step_restart
    then show thesis by (intro calm) (simp add: flights_from_def evolves_quiet)
  qed (intro calm; simp add: books assms(2) request_evolves maintenance_evolves evolves_drop evolves_refl pause_begin_quiet
      evolves_quiet_same)+
qed

lemma upload_step_books:
  assumes "upload_step e st st'" and "books_wf st"
  shows "books_wf st'"
  using assms
proof (cases rule: upload_step_cases)
  case reserve
  then show ?thesis using assms(2) by (auto intro: evolves_books reserve_evolves)
next
  case receive
  then show ?thesis using assms(2) by (auto intro: evolves_books receive_evolves)
next
  case rename
  then show ?thesis using assms(2) by (auto intro: evolves_books rename_evolves)
next
  case commit
  then show ?thesis using assms(2) by (auto intro: evolves_books commit_evolves)
qed (use assms(2) evolves_books in blast)

lemma books_initial: "upload_initial st \<Longrightarrow> books_wf st"
  by (simp add: upload_initial_def books_wf_def sessions_wf_def flights_wf_def flights_fit_def)

interpretation uploads: inductive_invariant upload_initial "upload_step e" books_wf for e
  by unfold_locales (auto intro: books_initial upload_step_books)

end
