(* ===== verification/UploadIntegrity.thy ===== *)
theory UploadIntegrity
  imports UploadProtocol
begin

text \<open>
  What the storage of the writer promises: a part row that says committed has its file, with the length and
  the checksum of the row, through every interleaving of requests, failures, maintenance and crashes; a
  finalizer whose session was not taken from it publishes exactly those bytes; an upload is published once.
\<close>

section \<open>Files a step leaves alone\<close>

text \<open>A step removes files at most, and no file under the final name of a part that is reserved or committed.\<close>

definition live_row :: "upload_system \<Rightarrow> string \<Rightarrow> int \<Rightarrow> upload_part \<Rightarrow> bool" where
  "live_row st u n p \<longleftrightarrow> (\<exists>s. js_get (ut_sessions st) u = Some s \<and> is_live (us_state s) \<and> js_get (us_parts s) n = Some p)"

definition keeps_files :: "string \<Rightarrow> upload_system \<Rightarrow> upload_system \<Rightarrow> bool" where
  "keeps_files root st st' \<longleftrightarrow>
     (\<forall>path x. js_get (ut_files st') path = Some x \<longrightarrow> js_get (ut_files st) path = Some x) \<and>
     (\<forall>n p raw. live_row st' (js_lower raw) n p \<longrightarrow> up_state p \<noteq> PartFailed \<longrightarrow> length raw = 36 \<longrightarrow>
        js_get (ut_files st') (session_path root raw n []) = js_get (ut_files st) (session_path root raw n []))"

lemma keeps_files_same: "ut_files st' = ut_files st \<Longrightarrow> keeps_files root st st'"
  by (simp add: keeps_files_def)

lemma keeps_filesI:
  assumes "\<And>path x. js_get (ut_files st') path = Some x \<Longrightarrow> js_get (ut_files st) path = Some x"
    and "\<And>n p raw. live_row st' (js_lower raw) n p \<Longrightarrow> up_state p \<noteq> PartFailed \<Longrightarrow> length raw = 36 \<Longrightarrow>
      js_get (ut_files st') (session_path root raw n []) = js_get (ut_files st) (session_path root raw n [])"
  shows "keeps_files root st st'"
  unfolding keeps_files_def using assms by blast

lemma books_row:
  assumes "books_wf st" and "js_get (ut_sessions st) u = Some s"
  shows "session_wf s" and "length u = 36" and "js_lower u = u" and "us_uploadId s = u"
    and "js_get (us_parts s) n = Some p \<Longrightarrow> row_fits s n p"
proof -
  have wf: "sessions_wf st" using assms(1) by (simp add: books_wf_def)
  show "session_wf s" "us_uploadId s = u" "js_lower u = u" "length u = 36" using sessions_wfD [OF wf assms(2)] by blast+
  show "row_fits s n p" if "js_get (us_parts s) n = Some p"
    by (rule row_geometry [OF session_wfD(1) [OF \<open>session_wf s\<close>] that])
qed

lemma keeps_filesD:
  assumes "keeps_files root st st'"
  shows "js_get (ut_files st') path = Some x \<Longrightarrow> js_get (ut_files st) path = Some x"
    and "live_row st' (js_lower raw) n p \<Longrightarrow> up_state p \<noteq> PartFailed \<Longrightarrow> length raw = 36 \<Longrightarrow>
      js_get (ut_files st') (session_path root raw n []) = js_get (ut_files st) (session_path root raw n [])"
  using assms unfolding keeps_files_def by blast+

lemma keeps_after_delete:
  assumes "never_final root path" and "ut_files st' = js_delete path (ut_files st)"
  shows "keeps_files root st st'"
  by (rule keeps_filesI) (use assms in \<open>auto simp: never_final_def split: if_splits\<close>)

lemma keeps_after_failure:
  assumes "length a = 36" and "never_final root path"
    and files: "ut_files st' = js_delete (session_path root a n []) (js_delete path (ut_files st)) \<or>
      ut_files st' = js_delete (session_path root a n []) (ut_files st)"
    and failed: "\<And>p. live_row st' (js_lower a) n p \<Longrightarrow> up_state p = PartFailed"
  shows "keeps_files root st st'"
proof (rule keeps_filesI)
  fix k p raw
  assume row: "live_row st' (js_lower raw) k p" "up_state p \<noteq> PartFailed" "length raw = 36"
  then have "raw \<noteq> a \<or> k \<noteq> n" using failed by auto
  then have "session_path root raw k [] \<noteq> session_path root a n []" using assms(1) row(3) by (simp add: session_path_eq)
  moreover have "session_path root raw k [] \<noteq> path" using assms(2) row(3) by (simp add: never_final_def)
  ultimately show "js_get (ut_files st') (session_path root raw k []) = js_get (ut_files st) (session_path root raw k [])"
    using files by auto
qed (use files in \<open>auto split: if_splits\<close>)

lemma keeps_after_directory:
  assumes "length u = 36" and "js_lower u = u" and "\<And>n p. \<not> live_row st' u n p"
    and "ut_files st' = without_directory root u (ut_files st)"
  shows "keeps_files root st st'"
proof (rule keeps_filesI)
  fix k p raw
  assume row: "live_row st' (js_lower raw) k p" "length raw = 36"
  then have "raw \<noteq> u" using assms(2,3) by auto
  then show "js_get (ut_files st') (session_path root raw k []) = js_get (ut_files st) (session_path root raw k [])"
    using assms(1,4) row(2) by (simp add: without_directory_get uploads_dir_prefix)
qed (simp add: assms(4) without_directory_get split: if_splits)

lemma not_live_row: "js_get (ut_sessions st) u = Some s \<Longrightarrow> \<not> is_live (us_state s) \<Longrightarrow> \<not> live_row st u n p"
  by (simp add: live_row_def)

lemma no_row: "js_get (ut_sessions st) u = None \<Longrightarrow> \<not> live_row st u n p"
  by (simp add: live_row_def)

lemma cancel_cleanup_keeps:
  assumes "books_wf st" and "\<forall>s. js_get (ut_sessions st) (js_lower uploadId) = Some s \<longrightarrow> us_state s = UpAborted"
  shows "keeps_files root st (cancel_cleanup root dbNow removed uploadId st)"
proof (cases "js_get (ut_sessions st) (js_lower uploadId)")
  case (Some s)
  have u: "length (js_lower uploadId) = 36" by (rule books_row(2) [OF assms(1) Some])
  show ?thesis
  proof (cases removed)
    case True
    then show ?thesis using assms(2) Some
      by (intro keeps_after_directory [OF u]) (simp_all add: cancel_cleanup_def Let_def live_row_def is_live_def)
  qed (use Some in \<open>simp add: cancel_cleanup_def Let_def keeps_files_same\<close>)
qed (simp add: cancel_cleanup_def Let_def keeps_files_same)

lemma cleanup_keeps:
  assumes "books_wf st"
  shows "keeps_files root st (reconcile_cleanup root dbNow u st)"
proof (cases "js_get (ut_sessions st) u")
  case (Some s)
  have u: "length u = 36" "js_lower u = u" by (rule books_row(2,3) [OF assms Some])+
  show ?thesis
  proof (cases "is_live (us_state s) \<or> has_in_flight u st")
    case False
    then show ?thesis using Some by (intro keeps_after_directory [OF u]) (simp_all add: reconcile_cleanup_def live_row_def)
  qed (use Some in \<open>simp add: reconcile_cleanup_def keeps_files_same\<close>)
qed (simp add: reconcile_cleanup_def keeps_files_same)

lemma complete_cleanup_keeps:
  assumes "books_wf st"
  shows "keeps_files root st (complete_cleanup root dbNow uploadId st)"
proof (cases "js_get (ut_sessions st) (js_lower uploadId)")
  case (Some s)
  have u: "length (js_lower uploadId) = 36" by (rule books_row(2) [OF assms Some])
  show ?thesis
  proof (cases "us_state s = UpCompleted")
    case True
    then show ?thesis using Some
      by (intro keeps_after_directory [OF u]) (simp_all add: complete_cleanup_def Let_def live_row_def is_live_def)
  qed (use Some in \<open>simp add: complete_cleanup_def Let_def keeps_files_same\<close>)
qed (simp add: complete_cleanup_def Let_def keeps_files_same)

lemma purge_keeps:
  assumes "books_wf st"
  shows "keeps_files root st (reconcile_purge cfg root dbNow u st)"
proof (cases "js_get (ut_sessions st) u")
  case (Some s)
  have u: "length u = 36" "js_lower u = u" by (rule books_row(2,3) [OF assms Some])+
  have "keeps_files root st st'" if "ut_sessions st' = js_delete u (ut_sessions st)"
    "ut_files st' = without_directory root u (ut_files st)" for st'
    using that by (intro keeps_after_directory [OF u]) (simp_all add: live_row_def)
  then show ?thesis using Some by (simp add: reconcile_purge_def keeps_files_same split: option.split)
qed (simp add: reconcile_purge_def keeps_files_same)

lemma stale_part_keeps:
  assumes "books_wf st"
  shows "keeps_files root st (reconcile_stale_part cfg root dbNow removed u n st)" (is "keeps_files root st ?st'")
proof (cases rule: stale_part_cases [of cfg root dbNow removed u n st])
  case none
  then show ?thesis by (simp add: keeps_files_same)
next
  case (temp s p)
  have u: "length u = 36" "js_lower u = u" by (rule books_row(2,3) [OF assms temp(1)])+
  show ?thesis using keeps_after_delete [OF validated_never_final [OF temp(4) u(2,1)], of ?st' st] temp(5) by simp
next
  case (both s p)
  have u: "length u = 36" "js_lower u = u" by (rule books_row(2,3) [OF assms both(1)])+
  show ?thesis
    by (rule keeps_after_failure [OF u(1) validated_never_final [OF both(4) u(2,1)], where n = n])
      (auto simp: both(5) live_row_def u(2))
qed

text \<open>A failed upload of a part: its staging path must be the one the reservation gave it.\<close>

lemma fail_keeps:
  assumes "books_wf st" and "js_get (ut_inFlight st) key = Some f"
    and path: "pl_stagingPath l = session_path root (uf_uploadId f) (pg_partNumber (uf_part f)) (temp_suffix x)"
  shows "keeps_files root st (fst (fail_part root readable removed recovered key f l hasFinal st))" (is "keeps_files root st ?st'")
proof -
  let ?n = "pg_partNumber (uf_part f)" and ?a = "uf_uploadId f"
  have a: "length ?a = 36" using assms(1,2) by (auto simp: books_wf_def flights_wf_def uuid_length)
  define st1 where "st1 = (if removed then st\<lparr>ut_files := js_delete (pl_stagingPath l) (ut_files st)\<rparr> else st)"
  have st1: "ut_files st1 = ut_files st \<or> ut_files st1 = js_delete (pl_stagingPath l) (ut_files st)" by (simp add: st1_def)
  have temp: "keeps_files root st st'" if "ut_files st' = ut_files st1" for st'
    using that st1 keeps_files_same keeps_after_delete [OF temp_never_final [OF a], of st' root ?n x] path by auto
  have after: "keeps_files root st (drop_flight key (fail_transaction root f l hasFinal st1))"
  proof (cases rule: fail_transaction_cases [of root f l hasFinal st1])
    case none
    then show ?thesis by (intro temp) simp
  next
    case (failed s n p)
    show ?thesis
    proof (cases hasFinal)
      case True
      show ?thesis unfolding failed(6)
        by (rule keeps_after_failure [OF a temp_never_final [OF a], where n = n])
          (use True st1 path failed(2) in \<open>auto simp: final_path_def live_row_def\<close>)
    next
      case False
      then show ?thesis unfolding failed(6) by (intro temp) simp
    qed
  qed
  have "?st' = drop_flight key st \<or> ?st' = drop_flight key (fail_transaction root f l hasFinal st1) \<or> ?st' = drop_flight key st1"
    by (simp add: fail_part_def Let_def st1_def)
  then show ?thesis using after temp [of "drop_flight key st1"] keeps_files_same [of "drop_flight key st"] by auto
qed

section \<open>Leases and staged content\<close>

definition intact :: "(string \<Rightarrow> string) \<Rightarrow> (string, string) js_map \<Rightarrow> string \<Rightarrow> int \<Rightarrow> string \<Rightarrow> bool" where
  "intact H files path len sha \<longleftrightarrow> (\<exists>x. js_get files path = Some x \<and> int (length x) = len \<and> H x = sha)"

text \<open>A committed part has its file, under the name its upload's id, in some spelling, gives it.\<close>

definition part_ok :: "string \<Rightarrow> (string \<Rightarrow> string) \<Rightarrow> (string, string) js_map \<Rightarrow> string \<Rightarrow> int \<Rightarrow> upload_part \<Rightarrow> bool" where
  "part_ok root H files u n p \<longleftrightarrow> (up_state p = PartCommitted \<longrightarrow>
     (\<exists>raw. length raw = 36 \<and> js_lower raw = u \<and> up_stagingPath p = session_path root raw n []) \<and>
     intact H files (up_stagingPath p) (up_lengthBytes p) (up_sha256 p))"

text \<open>A flight's lease is the row's lease or an older one; under the same lease they agree on the bytes.\<close>

definition lease_ok :: "string \<Rightarrow> upload_system \<Rightarrow> upload_flight \<Rightarrow> part_lease \<Rightarrow> bool" where
  "lease_ok root st f l \<longleftrightarrow>
     (\<exists>x. pl_stagingPath l = session_path root (uf_uploadId f) (pg_partNumber (uf_part f)) (temp_suffix x)) \<and>
     (\<forall>s. js_get (ut_sessions st) (js_lower (uf_uploadId f)) = Some s \<longrightarrow> is_live (us_state s) \<longrightarrow>
        (\<exists>p. js_get (us_parts s) (pg_partNumber (uf_part f)) = Some p \<and> pl_leaseEpoch l \<le> up_leaseEpoch p \<and>
           (pl_leaseEpoch l = up_leaseEpoch p \<longrightarrow> up_sha256 p = uf_checksum f)))"

definition stage_ok :: "string \<Rightarrow> (string \<Rightarrow> string) \<Rightarrow> upload_system \<Rightarrow> upload_flight \<Rightarrow> bool" where
  "stage_ok root H st f \<longleftrightarrow>
     (case uf_stage f of
        Verified l \<Rightarrow> (\<forall>x. js_get (ut_files st) (pl_stagingPath l) = Some x \<longrightarrow>
                        int (length x) = pg_lengthBytes (uf_part f) \<and> H x = uf_checksum f)
      | Renamed l \<Rightarrow> (\<forall>p. live_row st (js_lower (uf_uploadId f)) (pg_partNumber (uf_part f)) p \<longrightarrow>
                       up_state p = PartReserved \<longrightarrow> up_leaseEpoch p = pl_leaseEpoch l \<longrightarrow>
                       intact H (ut_files st) (final_path root f) (pg_lengthBytes (uf_part f)) (uf_checksum f))
      | _ \<Rightarrow> True)"

definition staging_ok :: "string \<Rightarrow> (string \<Rightarrow> string) \<Rightarrow> upload_system \<Rightarrow> bool" where
  "staging_ok root H st \<longleftrightarrow>
     (\<forall>u n p. live_row st u n p \<longrightarrow> part_ok root H (ut_files st) u n p) \<and>
     (\<forall>key f. js_get (ut_inFlight st) key = Some f \<longrightarrow>
        (\<forall>l. stage_lease (uf_stage f) = Some l \<longrightarrow> lease_ok root st f l) \<and> stage_ok root H st f)"

lemma staging_okD:
  assumes "staging_ok root H st"
  shows "live_row st u n p \<Longrightarrow> part_ok root H (ut_files st) u n p"
    and "js_get (ut_inFlight st) key = Some f \<Longrightarrow> stage_lease (uf_stage f) = Some l \<Longrightarrow> lease_ok root st f l"
    and "js_get (ut_inFlight st) key = Some f \<Longrightarrow> stage_ok root H st f"
  using assms unfolding staging_ok_def by blast+

text \<open>Leases survive any step: rows stay while their session is live and leases only grow.\<close>

lemma lease_ok_step:
  assumes "lease_ok root st f l" and "table_change c st st'" and "js_get (ut_inFlight st) key = Some f" and "same_flight f f'"
  shows "lease_ok root st' f' l"
proof -
  let ?u = "js_lower (uf_uploadId f)" and ?n = "pg_partNumber (uf_part f)"
  have "\<exists>p'. js_get (us_parts s') ?n = Some p' \<and> pl_leaseEpoch l \<le> up_leaseEpoch p' \<and>
      (pl_leaseEpoch l = up_leaseEpoch p' \<longrightarrow> up_sha256 p' = uf_checksum f)"
    if s': "js_get (ut_sessions st') ?u = Some s'" "is_live (us_state s')" for s'
  proof -
    from table_change_get [OF assms(2) s'(1)] unused_flight [OF _ assms(3)]
    obtain s where s: "js_get (ut_sessions st) ?u = Some s" "row_change c s s'" by auto
    have "is_live (us_state s)" using phase_moves_live [OF row_change_phase [OF s(2)] s'(2)] .
    then obtain p where p: "js_get (us_parts s) ?n = Some p" "pl_leaseEpoch l \<le> up_leaseEpoch p"
      "pl_leaseEpoch l = up_leaseEpoch p \<longrightarrow> up_sha256 p = uf_checksum f"
      using assms(1) s(1) by (auto simp: lease_ok_def)
    then show ?thesis using row_change_rows [OF s(2) s'(2) p(1)] by (force simp: row_grows_def)
  qed
  then show ?thesis using assms(1,4) by (simp add: lease_ok_def same_flight_def)
qed

text \<open>Rows that were not failed in a calm step were there before.\<close>

lemma calm_live_row:
  assumes "table_change True st st'" and "live_row st' u n p" and "up_state p \<noteq> PartFailed"
  shows "live_row st u n p"
proof -
  from assms(2) obtain s' where s': "js_get (ut_sessions st') u = Some s'" "is_live (us_state s')" "js_get (us_parts s') n = Some p"
    by (auto simp: live_row_def)
  from table_change_get [OF assms(1) s'(1)] s'(3)
  obtain s where s: "js_get (ut_sessions st) u = Some s" "row_change True s s'" by auto
  have "is_live (us_state s)" using phase_moves_live [OF row_change_phase [OF s(2)] s'(2)] .
  then show ?thesis using calm_rows [OF s(2) s'(2,3)] assms(3) s(1) by (auto simp: live_row_def)
qed

lemma intact_cong: "js_get files' path = js_get files path \<Longrightarrow> intact H files' path len sha \<longleftrightarrow> intact H files path len sha"
  by (simp add: intact_def)

lemma part_ok_keeps:
  assumes "keeps_files root st st'" and "live_row st' u n p" and "part_ok root H (ut_files st) u n p"
  shows "part_ok root H (ut_files st') u n p"
proof (cases "up_state p = PartCommitted")
  case True
  then obtain raw where raw: "length raw = 36" "js_lower raw = u" "up_stagingPath p = session_path root raw n []"
    and i: "intact H (ut_files st) (up_stagingPath p) (up_lengthBytes p) (up_sha256 p)"
    using assms(3) unfolding part_ok_def by blast
  have "up_state p \<noteq> PartFailed" using True by simp
  then have "js_get (ut_files st') (up_stagingPath p) = js_get (ut_files st) (up_stagingPath p)"
    using keeps_filesD(2) [OF assms(1) _ _ raw(1), of n p] assms(2) unfolding raw(2,3) by blast
  then have "intact H (ut_files st') (up_stagingPath p) (up_lengthBytes p) (up_sha256 p)" using i intact_cong by blast
  then show ?thesis using raw unfolding part_ok_def by blast
qed (simp add: part_ok_def)

lemma stage_ok_keeps:
  assumes "keeps_files root st st'" and "stage_ok root H st f" and "length (uf_uploadId f) = 36"
    and "\<And>p l. uf_stage f = Renamed l \<Longrightarrow> live_row st' (js_lower (uf_uploadId f)) (pg_partNumber (uf_part f)) p \<Longrightarrow>
      up_state p = PartReserved \<Longrightarrow> up_leaseEpoch p = pl_leaseEpoch l \<Longrightarrow> live_row st (js_lower (uf_uploadId f)) (pg_partNumber (uf_part f)) p"
  shows "stage_ok root H st' f"
proof (cases "uf_stage f")
  case (Verified l)
  then have "int (length x) = pg_lengthBytes (uf_part f) \<and> H x = uf_checksum f"
    if "js_get (ut_files st') (pl_stagingPath l) = Some x" for x
    using keeps_filesD(1) [OF assms(1) that] assms(2) by (simp add: stage_ok_def)
  then show ?thesis using Verified by (simp add: stage_ok_def)
next
  case (Renamed l)
  have "intact H (ut_files st') (final_path root f) (pg_lengthBytes (uf_part f)) (uf_checksum f)"
    if p: "live_row st' (js_lower (uf_uploadId f)) (pg_partNumber (uf_part f)) p" "up_state p = PartReserved"
      "up_leaseEpoch p = pl_leaseEpoch l" for p
  proof -
    have "up_state p \<noteq> PartFailed" using p(2) by simp
    then have "js_get (ut_files st') (final_path root f) = js_get (ut_files st) (final_path root f)"
      unfolding final_path_def by (intro keeps_filesD(2) [OF assms(1) p(1) _ assms(3)])
    moreover have "intact H (ut_files st) (final_path root f) (pg_lengthBytes (uf_part f)) (uf_checksum f)"
      using assms(2) assms(4) [OF Renamed p] p Renamed by (simp add: stage_ok_def)
    ultimately show ?thesis using intact_cong by blast
  qed
  then show ?thesis using Renamed by (simp add: stage_ok_def)
qed (simp_all add: stage_ok_def)

lemma stage_ok_no_content: "\<not> holds_content (uf_stage f) \<Longrightarrow> stage_ok root H st f"
  by (cases "uf_stage f") (simp_all add: stage_ok_def)

lemma same_flight_stage: "same_flight f f' \<Longrightarrow> uf_stage f' = uf_stage f \<Longrightarrow> f' = f"
  by (cases f, cases f') (simp add: same_flight_def)

text \<open>The frame: a calm step that leaves the files alone.\<close>

lemma staging_frame:
  assumes "evolves True st st'" and "keeps_files root st st'" and "books_wf st" and "staging_ok root H st"
  shows "staging_ok root H st'"
proof -
  have tc: "table_change True st st'" and ff: "flights_from True st st'" using assms(1) by (simp_all add: evolves_def)
  note ok = staging_okD [OF assms(4)]
  have "part_ok root H (ut_files st') u n p" if "live_row st' u n p" for u n p
  proof (cases "up_state p = PartCommitted")
    case True
    then show ?thesis using part_ok_keeps [OF assms(2) that] ok(1) calm_live_row [OF tc that] by simp
  qed (simp add: part_ok_def)
  moreover have "(\<forall>l. stage_lease (uf_stage f') = Some l \<longrightarrow> lease_ok root st' f' l) \<and> stage_ok root H st' f'"
    if f': "js_get (ut_inFlight st') key = Some f'" for key f'
  proof -
    have "flight_from True st key f'" using ff f' by (simp add: flights_from_def)
    then consider
      f where "js_get (ut_inFlight st) key = Some f" "same_flight f f'"
        "stage_lease (uf_stage f') = None \<or> stage_lease (uf_stage f') = stage_lease (uf_stage f)"
        "uf_stage f' = uf_stage f \<or> \<not> holds_content (uf_stage f')"
    | "stage_lease (uf_stage f') = None" by (auto simp: flight_from_def)
    then show ?thesis
    proof cases
      case (1 f)
      have "lease_ok root st' f' l" if "stage_lease (uf_stage f') = Some l" for l
        using lease_ok_step [OF _ tc 1(1,2)] ok(2) [OF 1(1)] that 1(3) by simp
      moreover have "stage_ok root H st' f'"
      proof (cases "holds_content (uf_stage f')")
        case True
        then have "f' = f" using 1(2,4) same_flight_stage by blast
        moreover have "length (uf_uploadId f) = 36" using assms(3) 1(1) by (auto simp: books_wf_def flights_wf_def uuid_length)
        ultimately show ?thesis
          using stage_ok_keeps [OF assms(2) ok(3) [OF 1(1)]] calm_live_row [OF tc] by simp
      qed (rule stage_ok_no_content)
      ultimately show ?thesis by simp
    next
      case 2
      then have "\<not> holds_content (uf_stage f')" by (cases "uf_stage f'") simp_all
      then show ?thesis using 2 by (simp add: stage_ok_no_content)
    qed
  qed
  ultimately show ?thesis unfolding staging_ok_def by blast
qed

text \<open>A transaction: rows and flights change, files do not.\<close>

lemma staging_transaction:
  assumes ok: "staging_ok root H st" and books: "books_wf st" and tc: "table_change c st st'" and files: "ut_files st' = ut_files st"
    and parts: "\<And>u n p. live_row st' u n p \<Longrightarrow> up_state p = PartCommitted \<Longrightarrow>
      live_row st u n p \<or> part_ok root H (ut_files st) u n p"
    and flights: "\<And>key f'. js_get (ut_inFlight st') key = Some f' \<Longrightarrow> js_get (ut_inFlight st) key = Some f' \<or>
      \<not> holds_content (uf_stage f') \<and> (\<forall>l. stage_lease (uf_stage f') = Some l \<longrightarrow>
        lease_ok root st' f' l \<or> (\<exists>f. js_get (ut_inFlight st) key = Some f \<and> same_flight f f' \<and> stage_lease (uf_stage f) = Some l))"
    and reserved: "\<And>key f l p. js_get (ut_inFlight st) key = Some f \<Longrightarrow> uf_stage f = Renamed l \<Longrightarrow>
      live_row st' (js_lower (uf_uploadId f)) (pg_partNumber (uf_part f)) p \<Longrightarrow> up_state p = PartReserved \<Longrightarrow>
      up_leaseEpoch p = pl_leaseEpoch l \<Longrightarrow> live_row st (js_lower (uf_uploadId f)) (pg_partNumber (uf_part f)) p"
  shows "staging_ok root H st'"
proof -
  note okD = staging_okD [OF ok]
  have "part_ok root H (ut_files st') u n p" if "live_row st' u n p" for u n p
  proof (cases "up_state p = PartCommitted")
    case True
    then show ?thesis using parts [OF that] okD(1) files by auto
  qed (simp add: part_ok_def)
  moreover have "(\<forall>l. stage_lease (uf_stage f') = Some l \<longrightarrow> lease_ok root st' f' l) \<and> stage_ok root H st' f'"
    if f': "js_get (ut_inFlight st') key = Some f'" for key f'
    using flights [OF f']
  proof
    assume f: "js_get (ut_inFlight st) key = Some f'"
    have len: "length (uf_uploadId f') = 36" using books f by (auto simp: books_wf_def flights_wf_def uuid_length)
    have "stage_ok root H st' f'"
      by (rule stage_ok_keeps [OF keeps_files_same [OF files] okD(3) [OF f] len reserved [OF f]])
    then show ?thesis using lease_ok_step [OF okD(2) [OF f] tc f same_flight_refl] by blast
  next
    assume new: "\<not> holds_content (uf_stage f') \<and> (\<forall>l. stage_lease (uf_stage f') = Some l \<longrightarrow>
        lease_ok root st' f' l \<or> (\<exists>f. js_get (ut_inFlight st) key = Some f \<and> same_flight f f' \<and> stage_lease (uf_stage f) = Some l))"
    then show ?thesis using lease_ok_step [OF okD(2) tc] stage_ok_no_content by blast
  qed
  ultimately show ?thesis unfolding staging_ok_def by blast
qed

lemma live_row_put:
  "ut_sessions st' = js_set u s' (ut_sessions st) \<Longrightarrow>
   live_row st' v n p \<longleftrightarrow> (if v = u then is_live (us_state s') \<and> js_get (us_parts s') n = Some p else live_row st v n p)"
  by (auto simp: live_row_def)

lemma live_row_elsewhere:
  assumes "live_row st' v k p" and "v \<noteq> u \<or> k \<noteq> n" and "ut_sessions st' = js_set u s' (ut_sessions st)"
    and "js_get (ut_sessions st) u = Some s" and "is_live (us_state s)"
    and "\<And>k. k \<noteq> n \<Longrightarrow> js_get (us_parts s') k = js_get (us_parts s) k"
  shows "live_row st v k p"
proof (cases "v = u")
  case True
  then have "js_get (us_parts s) k = Some p" using assms(1,2,6) by (auto simp: live_row_put [OF assms(3)])
  then show ?thesis using True assms(4,5) by (auto simp: live_row_def)
qed (use assms(1) in \<open>simp add: live_row_put [OF assms(3)]\<close>)

lemma reserve_staging:
  assumes at: "at_stage st key f AwaitingReservation" and books: "books_wf st" and ok: "staging_ok root H st"
  shows "staging_ok root H (fst (put_part_reserve cfg root dbNow tmp key f st))" (is "staging_ok root H ?st'")
proof (cases "reserve_transaction cfg root dbNow tmp f st")
  case (Inl err)
  then have "?st' = drop_flight key st" by (simp add: put_part_reserve_def)
  then show ?thesis using staging_frame [OF evolves_drop [OF evolves_refl] keeps_files_same books ok] by simp
next
  case (Inr r)
  obtain row stage where "r = (row, stage)" by (cases r)
  note tx = Inr [unfolded this]
  have f: "js_get (ut_inFlight st) key = Some f" "uf_stage f = AwaitingReservation" using at by simp_all
  from tx show ?thesis
  proof (cases rule: reserve_transactionD)
    case (replay q epoch)
    then have eq: "?st' = set_stage key (Replaying q epoch) st" using tx by (simp add: put_part_reserve_def)
    show ?thesis unfolding eq
      by (rule staging_frame [OF stage_evolves [OF f(1)] keeps_files_same books ok]) (simp_all add: f(2))
  next
    case (reserve s n path lease s')
    let ?u = "js_lower (uf_uploadId f)" and ?row = "reserved_row dbNow f path lease"
    have eq: "?st' = set_stage key stage (put_session ?u s' st)" using tx reserve(8) by (simp add: put_part_reserve_def)
    have sess: "ut_sessions ?st' = js_set ?u s' (ut_sessions st)" by (simp add: eq)
    have live: "is_live (us_state s)" using reserve(2) by (auto simp: is_live_def)
    have rows: "js_get (us_parts s') k = (if k = n then Some ?row else js_get (us_parts s) k)" for k by (simp add: reserve(7))
    have row: "up_state ?row = PartReserved" "up_leaseEpoch ?row = lease" "up_sha256 ?row = uf_checksum f"
      by (simp_all add: reserved_row_def)
    have tc: "table_change False st ?st'" using reserve_evolves [OF f(1) books] by (simp add: evolves_def)
    have old: "live_row st v k p" if "live_row ?st' v k p" "v \<noteq> ?u \<or> k \<noteq> n" for v k p
      by (rule live_row_elsewhere [OF that sess reserve(1) live]) (simp add: rows)
    show ?thesis
    proof (rule staging_transaction [OF ok books tc])
      fix v k p assume p: "live_row ?st' v k p" "up_state p = PartCommitted"
      then have "v \<noteq> ?u \<or> k \<noteq> n" using row(1) by (auto simp: live_row_put [OF sess] rows)
      then show "live_row st v k p \<or> part_ok root H (ut_files st) v k p" using old p(1) by blast
    next
      fix k f' assume f': "js_get (ut_inFlight ?st') k = Some f'"
      have new: "lease_ok root ?st' (f\<lparr>uf_stage := stage\<rparr>) l" if "stage_lease stage = Some l" for l
        using that reserve(3,4) row(2,3) by (auto simp: reserve(9) lease_ok_def sess rows intro: exI [of _ tmp])
      show "js_get (ut_inFlight st) k = Some f' \<or> \<not> holds_content (uf_stage f') \<and> (\<forall>l. stage_lease (uf_stage f') = Some l \<longrightarrow>
          lease_ok root ?st' f' l \<or> (\<exists>f. js_get (ut_inFlight st) k = Some f \<and> same_flight f f' \<and> stage_lease (uf_stage f) = Some l))"
      proof (cases "k = key")
        case True
        then have "f' = f\<lparr>uf_stage := stage\<rparr>" using f' f(1) by (simp add: eq set_stage_get)
        then show ?thesis using new reserve(9) by simp
      qed (use f' in \<open>simp add: eq set_stage_get\<close>)
    next
      fix k f2 l p
      assume f2: "js_get (ut_inFlight st) k = Some f2" "uf_stage f2 = Renamed l"
        and p: "live_row ?st' (js_lower (uf_uploadId f2)) (pg_partNumber (uf_part f2)) p" "up_state p = PartReserved"
          "up_leaseEpoch p = pl_leaseEpoch l"
      show "live_row st (js_lower (uf_uploadId f2)) (pg_partNumber (uf_part f2)) p"
      proof (rule old [OF p(1)], rule ccontr)
        assume "\<not> (js_lower (uf_uploadId f2) \<noteq> ?u \<or> pg_partNumber (uf_part f2) \<noteq> n)"
        then have same: "js_lower (uf_uploadId f2) = ?u" "pg_partNumber (uf_part f2) = n" by simp_all
        have "lease_ok root st f2 l" by (rule staging_okD(2) [OF ok f2(1)]) (simp add: f2(2))
        then obtain q where "js_get (us_parts s) n = Some q" "pl_leaseEpoch l \<le> up_leaseEpoch q"
          using reserve(1) live same by (auto simp: lease_ok_def)
        then have "pl_leaseEpoch l < lease" using reserve(6) by force
        moreover have "p = ?row" using p(1) same by (simp add: live_row_put [OF sess] rows)
        ultimately show False using p(3) row(2) by simp
      qed
    qed (simp add: eq)
  qed
qed

lemma commit_staging:
  assumes at: "at_stage st key f (Renamed l)" and books: "books_wf st" and ok: "staging_ok root H st"
  shows "staging_ok root H (commit_part root dbNow seen key f l st)" (is "staging_ok root H ?st'")
proof (cases "commit_transaction root dbNow f l st")
  case (Inl err)
  then have eq: "?st' = set_stage key (Failing l True) st" by (simp add: commit_part_def)
  have f: "js_get (ut_inFlight st) key = Some f" "uf_stage f = Renamed l" using at by simp_all
  show ?thesis unfolding eq
    by (rule staging_frame [OF stage_evolves [OF f(1)] keeps_files_same books ok]) (simp_all add: f(2))
next
  case (Inr s')
  have f: "js_get (ut_inFlight st) key = Some f" "uf_stage f = Renamed l" using at by simp_all
  let ?u = "js_lower (uf_uploadId f)"
  from Inr show ?thesis
  proof (rule commit_transactionD)
    fix s n p
    assume s: "js_get (ut_sessions st) ?u = Some s" "us_state s = UpUploading" and n: "n = pg_partNumber (uf_part f)"
      and p: "js_get (us_parts s) n = Some p" "up_state p = PartReserved" "up_leaseEpoch p = pl_leaseEpoch l"
      and s': "s' = with_active_count (s\<lparr>us_parts := js_set n (committed_row (final_path root f) dbNow p) (us_parts s),
           us_committedBytes := us_committedBytes s + pg_lengthBytes (uf_part f),
           us_committedPartCount := us_committedPartCount s + 1,
           us_contiguousBytes := contiguous_bytes (pl_partCount l) (js_set n (committed_row (final_path root f) dbNow p) (us_parts s))\<rparr>)"
    let ?row = "committed_row (final_path root f) dbNow p"
    have sess: "ut_sessions ?st' = js_set ?u s' (ut_sessions st)" using Inr by (simp add: commit_part_def Let_def)
    have rows: "js_get (us_parts s') k = (if k = n then Some ?row else js_get (us_parts s) k)" for k by (simp add: s')
    have live: "is_live (us_state s)" using s(2) by (simp add: is_live_def)
    have tc: "table_change False st ?st'" using commit_evolves [OF f books] by (simp add: evolves_def)
    have old: "live_row st v k q" if "live_row ?st' v k q" "v \<noteq> ?u \<or> k \<noteq> n" for v k q
      by (rule live_row_elsewhere [OF that sess s(1) live]) (simp add: rows)
    have here: "live_row st ?u n p" using s(1) live p(1) by (auto simp: live_row_def)
    have "intact H (ut_files st) (final_path root f) (pg_lengthBytes (uf_part f)) (uf_checksum f)"
      using staging_okD(3) [OF ok f(1)] here p(2,3) n by (simp add: stage_ok_def f(2))
    moreover have "up_sha256 p = uf_checksum f"
    proof -
      have "lease_ok root st f l" by (rule staging_okD(2) [OF ok f(1)]) (simp add: f(2))
      then show ?thesis using s(1) live p n by (auto simp: lease_ok_def)
    qed
    moreover have "up_lengthBytes p = pg_lengthBytes (uf_part f)"
      using books_row(5) [OF books s(1) p(1)] books f(1) s(1) n by (auto simp: books_wf_def flights_fit_def flight_fits_def row_fits_def)
    moreover have "length (uf_uploadId f) = 36" using books f(1) by (auto simp: books_wf_def flights_wf_def uuid_length)
    ultimately have new: "part_ok root H (ut_files st) ?u n ?row"
      by (auto simp: part_ok_def committed_row_def final_path_def n)
    show ?thesis
    proof (rule staging_transaction [OF ok books tc])
      show "ut_files ?st' = ut_files st" using Inr by (simp add: commit_part_def Let_def)
    next
      fix v k q assume q: "live_row ?st' v k q" "up_state q = PartCommitted"
      show "live_row st v k q \<or> part_ok root H (ut_files st) v k q"
      proof (cases "v = ?u \<and> k = n")
        case True
        then have "q = ?row" using q(1) by (simp add: live_row_put [OF sess] rows)
        then show ?thesis using new True by simp
      qed (use old q(1) in blast)
    next
      fix k f' assume f': "js_get (ut_inFlight ?st') k = Some f'"
      show "js_get (ut_inFlight st) k = Some f' \<or> \<not> holds_content (uf_stage f') \<and> (\<forall>l. stage_lease (uf_stage f') = Some l \<longrightarrow>
          lease_ok root ?st' f' l \<or> (\<exists>f. js_get (ut_inFlight st) k = Some f \<and> same_flight f f' \<and> stage_lease (uf_stage f) = Some l))"
        using f' Inr f by (auto simp: commit_part_def Let_def set_stage_get same_flight_def split: if_splits)
    next
      fix k f2 l2 q
      assume q: "live_row ?st' (js_lower (uf_uploadId f2)) (pg_partNumber (uf_part f2)) q" "up_state q = PartReserved"
      then have "js_lower (uf_uploadId f2) \<noteq> ?u \<or> pg_partNumber (uf_part f2) \<noteq> n"
        by (auto simp: live_row_put [OF sess] rows committed_row_def)
      then show "live_row st (js_lower (uf_uploadId f2)) (pg_partNumber (uf_part f2)) q" by (rule old [OF q(1)])
    qed
  qed
qed

text \<open>A file operation of one flight: rows do not change, and other files only where the flight writes.\<close>

lemma flight_key_inj:
  "length a = length b \<Longrightarrow> flight_key a n = flight_key b m \<longleftrightarrow> a = b \<and> n = m"
  by (auto simp: flight_key_def string_of_int_inj)

lemma staging_local:
  assumes ok: "staging_ok root H st" and books: "books_wf st" and f: "js_get (ut_inFlight st) key = Some f"
    and l: "stage_lease (uf_stage f) = Some l" "stage_lease stage = Some l"
    and st': "st' = set_stage key stage (st\<lparr>ut_files := files\<rparr>)"
    and kept: "\<And>path x. js_get (ut_files st) path = Some x \<Longrightarrow> path \<noteq> pl_stagingPath l \<Longrightarrow> js_get files path = Some x"
    and written: "\<And>path x. js_get files path = Some x \<Longrightarrow> path \<noteq> pl_stagingPath l \<Longrightarrow> path \<noteq> final_path root f \<Longrightarrow>
      js_get (ut_files st) path = Some x"
    and mine: "stage_ok root H st' (f\<lparr>uf_stage := stage\<rparr>)"
  shows "staging_ok root H st'"
proof -
  note okD = staging_okD [OF ok]
  let ?n = "pg_partNumber (uf_part f)"
  have len: "length (uf_uploadId f') = 36 \<and> k = flight_key (uf_uploadId f') (pg_partNumber (uf_part f'))"
    if "js_get (ut_inFlight st) k = Some f'" for k f'
    using books that by (auto simp: books_wf_def flights_wf_def uuid_length)
  obtain x where path: "pl_stagingPath l = session_path root (uf_uploadId f) ?n (temp_suffix x)"
    using okD(2) [OF f l(1)] by (auto simp: lease_ok_def)
  have files': "ut_files st' = files" and sess: "ut_sessions st' = ut_sessions st" by (simp_all add: st')
  have row: "live_row st' u n p \<longleftrightarrow> live_row st u n p" for u n p by (simp add: live_row_def sess)
  have lease: "lease_ok root st' g m \<longleftrightarrow> lease_ok root st g m" for g m by (simp add: lease_ok_def sess)
  have final: "intact H files (session_path root raw n []) b sha"
    if "intact H (ut_files st) (session_path root raw n []) b sha" "length raw = 36" for raw n b sha
    using that kept len [OF f] by (fastforce simp: intact_def path session_path_eq)
  have "part_ok root H (ut_files st') u n p" if "live_row st' u n p" for u n p
    using okD(1) that final unfolding part_ok_def row files' by metis
  moreover have "(\<forall>m. stage_lease (uf_stage f') = Some m \<longrightarrow> lease_ok root st' f' m) \<and> stage_ok root H st' f'"
    if f': "js_get (ut_inFlight st') k = Some f'" for k f'
  proof (cases "k = key")
    case True
    then have "f' = f\<lparr>uf_stage := stage\<rparr>" using f' f by (simp add: st' set_stage_get)
    then show ?thesis using mine okD(2) [OF f l(1)] l(2) by (simp add: lease) (simp add: lease_ok_def)
  next
    case False
    then have g: "js_get (ut_inFlight st) k = Some f'" using f' by (simp add: st' set_stage_get)
    have apart: "uf_uploadId f' \<noteq> uf_uploadId f \<or> pg_partNumber (uf_part f') \<noteq> ?n" using False len [OF g] len [OF f] by auto
    have "stage_ok root H st' f'"
    proof (cases "uf_stage f'")
      case (Verified m)
      then have "lease_ok root st f' m" by (intro okD(2) [OF g]) simp
      then obtain y where "pl_stagingPath m = session_path root (uf_uploadId f') (pg_partNumber (uf_part f')) (temp_suffix y)"
        by (auto simp: lease_ok_def)
      then have "pl_stagingPath m \<noteq> pl_stagingPath l" "pl_stagingPath m \<noteq> final_path root f"
        using apart len [OF f] len [OF g] by (auto simp: path final_path_def session_path_eq)
      then show ?thesis using written okD(3) [OF g] Verified by (simp add: stage_ok_def files')
    next
      case (Renamed m)
      then show ?thesis using final okD(3) [OF g] len [OF g] by (simp add: stage_ok_def files' row final_path_def)
    qed (simp_all add: stage_ok_def)
    then show ?thesis using okD(2) [OF g] lease by blast
  qed
  ultimately show ?thesis unfolding staging_ok_def by blast
qed

lemma stage_staging:
  assumes "staging_ok root H st" and "books_wf st" and "js_get (ut_inFlight st) key = Some f"
    and "stage_lease stage = stage_lease (uf_stage f)" and "\<not> holds_content stage"
  shows "staging_ok root H (set_stage key stage st)"
  by (rule staging_frame [OF stage_evolves [OF assms(3-5)] keeps_files_same assms(2,1)]) simp

lemma collect_chunks_length: "collect_chunks len lim got cs = Inr x \<Longrightarrow> int (length x) = len"
  by (induction cs arbitrary: got) (auto simp: Let_def split: if_splits)

lemma read_part_body_length: "read_part_body len lim cs = Inr x \<Longrightarrow> int (length x) = len"
  by (auto simp: read_part_body_def split: if_splits dest: collect_chunks_length)

lemma receive_staging:
  assumes at: "at_stage st key f (Receiving l)" and books: "books_wf st" and ok: "staging_ok root H st"
  shows "staging_ok root H (receive_part cfg H chunks key f l st)" (is "staging_ok root H ?st'")
proof -
  have f: "js_get (ut_inFlight st) key = Some f" "uf_stage f = Receiving l" using at by simp_all
  have failed: "staging_ok root H (set_stage key (Failing l False) st)"
    by (rule stage_staging [OF ok books f(1)]) (simp_all add: f(2))
  show ?thesis
  proof (cases "js_get (ut_files st) (pl_stagingPath l) \<noteq> None")
    case False
    show ?thesis
    proof (cases "read_part_body (pg_lengthBytes (uf_part f)) (uc_maxPartBytes cfg) chunks")
      case (Inr content)
      note len = read_part_body_length [OF Inr]
      let ?files = "js_set (pl_stagingPath l) content (ut_files st)"
      let ?stage = "if H content \<noteq> uf_checksum f then Failing l False else Verified l"
      have eq: "?st' = set_stage key ?stage (st\<lparr>ut_files := ?files\<rparr>)"
        using False Inr by (simp add: receive_part_def Let_def)
      have lease: "stage_lease (uf_stage f) = Some l" "stage_lease ?stage = Some l" by (simp_all add: f(2))
      show ?thesis
        by (rule staging_local [OF ok books f(1) lease eq]) (use len in \<open>auto simp: stage_ok_def eq split: if_splits\<close>)
    qed (use False failed in \<open>simp add: receive_part_def\<close>)
  qed (use failed in \<open>simp add: receive_part_def\<close>)
qed

lemma rename_staging:
  assumes at: "at_stage st key f (Verified l)" and books: "books_wf st" and ok: "staging_ok root H st"
  shows "staging_ok root H (rename_part root key f l st)" (is "staging_ok root H ?st'")
proof -
  have f: "js_get (ut_inFlight st) key = Some f" "uf_stage f = Verified l" using at by simp_all
  have failed: "staging_ok root H (set_stage key (Failing l True) st)"
    by (rule stage_staging [OF ok books f(1)]) (simp_all add: f(2))
  show ?thesis
  proof (cases "js_get (ut_files st) (final_path root f) \<noteq> None")
    case False
    show ?thesis
    proof (cases "js_get (ut_files st) (pl_stagingPath l)")
      case (Some content)
      let ?files = "js_set (final_path root f) content (js_delete (pl_stagingPath l) (ut_files st))"
      have eq: "?st' = set_stage key (Renamed l) (st\<lparr>ut_files := ?files\<rparr>)" using False Some by (simp add: rename_part_def)
      have lease: "stage_lease (uf_stage f) = Some l" "stage_lease (Renamed l) = Some l" by (simp_all add: f(2))
      have "int (length content) = pg_lengthBytes (uf_part f) \<and> H content = uf_checksum f"
        using staging_okD(3) [OF ok f(1)] Some by (simp add: stage_ok_def f(2))
      then have "stage_ok root H ?st' (f\<lparr>uf_stage := Renamed l\<rparr>)" by (simp add: eq stage_ok_def intact_def final_path_def)
      then show ?thesis
        by (rule staging_local [OF ok books f(1) lease eq, rotated 2]) (use False in \<open>auto split: if_splits\<close>)
    qed (use False failed in \<open>simp add: rename_part_def\<close>)
  qed (use failed in \<open>simp add: rename_part_def\<close>)
qed

section \<open>The invariant\<close>

text \<open>What the operations leave alone besides the table and the flights.\<close>

lemma create_rest:
  "ut_files (fst (create_upload cfg nfc authorize now dbNow fresh available inp st)) = ut_files st"
  "ut_published (fst (create_upload cfg nfc authorize now dbNow fresh available inp st)) = ut_published st"
  "ut_inFlightFinalizers (fst (create_upload cfg nfc authorize now dbNow fresh available inp st)) = ut_inFlightFinalizers st"
  by (simp_all add: create_upload_def create_admit_def Let_def split: sum.split option.split)

lemma begin_rest:
  "ut_files (fst (put_part_begin cfg authorize now uploadId part checksum prin st)) = ut_files st"
  "ut_published (fst (put_part_begin cfg authorize now uploadId part checksum prin st)) = ut_published st"
  "ut_inFlightFinalizers (fst (put_part_begin cfg authorize now uploadId part checksum prin st)) = ut_inFlightFinalizers st"
  by (simp_all add: put_part_begin_def split: sum.split prod.split)

lemma reserve_rest:
  "ut_files (fst (put_part_reserve cfg root dbNow tmp key f st)) = ut_files st"
  "ut_published (fst (put_part_reserve cfg root dbNow tmp key f st)) = ut_published st"
  "ut_inFlightFinalizers (fst (put_part_reserve cfg root dbNow tmp key f st)) = ut_inFlightFinalizers st"
  by (simp_all add: put_part_reserve_def split: sum.split prod.split option.split)

lemma commit_rest:
  "ut_files (commit_part root dbNow seen key f l st) = ut_files st"
  "ut_published (commit_part root dbNow seen key f l st) = ut_published st"
  "ut_inFlightFinalizers (commit_part root dbNow seen key f l st) = ut_inFlightFinalizers st"
  by (simp_all add: commit_part_def Let_def split: sum.split)

lemma phase_rest:
  "ut_files (fst (pause_round now deadline uploadId prin st)) = ut_files st"
  "ut_files (fst (resume_transaction uploadId prin st)) = ut_files st"
  "ut_files (fst (cancel_transaction uploadId prin st)) = ut_files st"
  "ut_files (reconcile_stale_finalizer cfg dbNow u st) = ut_files st"
  "ut_files (reconcile_expired dbNow u st) = ut_files st"
  "ut_files (reconcile_committed root u n st) = ut_files st"
  "ut_files (fst (complete_begin cfg dbNow uploadId prin whole st)) = ut_files st"
  "ut_files (finalize_fail code uploadId z st) = ut_files st"
  by (simp_all add: pause_round_def resume_transaction_def cancel_transaction_def reconcile_stale_finalizer_def
      reconcile_expired_def reconcile_committed_def complete_begin_def finalize_fail_def Let_def
      split: sum.split option.split complete_start.split)

lemma publish_files: "ut_files (fst (finalize_publish H root w z st)) = ut_files st"
  by (cases rule: finalize_publish_cases [of H root w z st]) simp_all

lemmas files_rest = create_rest(1) begin_rest(1) reserve_rest(1) commit_rest(1) phase_rest publish_files pause_begin_quiet(3)

lemma step_files:
  assumes "upload_step e st st'" and "books_wf st" and ok: "staging_ok (ue_root e) H st"
  shows "keeps_files (ue_root e) st st' \<or>
    (\<exists>key f l chunks. at_stage st key f (Receiving l) \<and> st' = receive_part (ue_config e) (ue_hash e) chunks key f l st) \<or>
    (\<exists>key f l. at_stage st key f (Verified l) \<and> st' = rename_part (ue_root e) key f l st)"
  using assms(1)
proof cases
  case step_receive
  then show ?thesis by blast
next
  case step_rename
  then show ?thesis by blast
next
  case (step_fail key f l hasFinal readable removed recovered)
  then have f: "js_get (ut_inFlight st) key = Some f" "stage_lease (uf_stage f) = Some l" by simp_all
  have "lease_ok (ue_root e) st f l" by (rule staging_okD(2) [OF ok f])
  then have "keeps_files (ue_root e) st st'" using fail_keeps [OF assms(2) f(1)] by (auto simp: lease_ok_def step_fail(1))
  then show ?thesis ..
qed (intro disjI1; simp add: assms(2) keeps_files_same cancel_cleanup_keeps stale_part_keeps cleanup_keeps purge_keeps
    complete_cleanup_keeps files_rest)+

lemma upload_step_staging:
  assumes "upload_step e st st'" and "books_wf st" and "staging_ok (ue_root e) (ue_hash e) st"
  shows "staging_ok (ue_root e) (ue_hash e) st'"
  using assms(1,2)
proof (cases rule: upload_step_cases)
  case calm
  then show ?thesis
    using step_files [OF assms] staging_frame [OF calm _ assms(2,3)] receive_staging [OF _ assms(2,3)] rename_staging [OF _ assms(2,3)]
    by blast
next
  case reserve
  then show ?thesis using reserve_staging [OF _ assms(2,3)] by simp
next
  case receive
  then show ?thesis using receive_staging [OF _ assms(2,3)] by simp
next
  case rename
  then show ?thesis using rename_staging [OF _ assms(2,3)] by simp
next
  case commit
  then show ?thesis using commit_staging [OF _ assms(2,3)] by simp
qed

end
