(* ===== verification/UploadPublication.thy ===== *)
theory UploadPublication
  imports UploadIntegrity
begin

text \<open>
  Finalizers and publication: a finalizer works on the parts its session had when it was started, for as
  long as the session's epoch is its own; what it publishes is the file the parts make up; and an upload id
  is published at most once, by a session that stays completed.
\<close>

section \<open>Finalizers\<close>

definition finalizer_ok :: "upload_system \<Rightarrow> upload_finalizer \<Rightarrow> bool" where
  "finalizer_ok st z \<longleftrightarrow> (let s0 = fz_session z in
     session_wf s0 \<and> us_state s0 = UpFinalizing \<and> fz_parts z = ordered_parts (us_parts s0) \<and>
     list_all2 (part_matches (geometry_of s0)) [0..us_partCount s0 - 1] (fz_parts z) \<and>
     us_committedBytes s0 = us_expectedBytes s0 \<and>
     (\<forall>s. js_get (ut_sessions st) (us_uploadId s0) = Some s \<longrightarrow> is_live (us_state s) \<longrightarrow>
        us_sessionEpoch s0 \<le> us_sessionEpoch s \<and>
        (us_sessionEpoch s = us_sessionEpoch s0 \<longrightarrow>
           us_state s = UpFinalizing \<and> us_parts s = us_parts s0 \<and> same_upload s0 s)))"

definition finalizers_ok :: "upload_system \<Rightarrow> bool" where
  "finalizers_ok st \<longleftrightarrow> (\<forall>key z. js_get (ut_inFlightFinalizers st) key = Some z \<longrightarrow> finalizer_ok st z)"

lemma same_upload_trans: "same_upload s s' \<Longrightarrow> same_upload s' s'' \<Longrightarrow> same_upload s s''"
  by (simp add: same_upload_def)

lemma unused_finalizer:
  "unused_id st u \<Longrightarrow> js_get (ut_inFlightFinalizers st) key = Some z \<Longrightarrow> us_uploadId (fz_session z) \<noteq> u"
  by (auto simp: unused_id_def list_all_iff dest!: map_of_SomeD)

lemma finalizer_ok_step:
  assumes z: "js_get (ut_inFlightFinalizers st) key = Some z" and ok: "finalizer_ok st z"
    and tc: "table_change c st st'" and books: "books_wf st"
  shows "finalizer_ok st' z"
proof -
  let ?s0 = "fz_session z"
  have "us_sessionEpoch ?s0 \<le> us_sessionEpoch s' \<and> (us_sessionEpoch s' = us_sessionEpoch ?s0 \<longrightarrow>
      us_state s' = UpFinalizing \<and> us_parts s' = us_parts ?s0 \<and> same_upload ?s0 s')"
    if s': "js_get (ut_sessions st') (us_uploadId ?s0) = Some s'" "is_live (us_state s')" for s'
  proof -
    from table_change_get [OF tc s'(1)] unused_finalizer [OF _ z]
    obtain s where s: "js_get (ut_sessions st) (us_uploadId ?s0) = Some s" "row_change c s s'" by auto
    have live: "is_live (us_state s)" using phase_moves_live [OF row_change_phase [OF s(2)] s'(2)] .
    have old: "us_sessionEpoch ?s0 \<le> us_sessionEpoch s" "us_sessionEpoch s = us_sessionEpoch ?s0 \<longrightarrow>
        us_state s = UpFinalizing \<and> us_parts s = us_parts ?s0 \<and> same_upload ?s0 s"
      using ok s(1) live by (simp_all add: finalizer_ok_def Let_def)
    have mono: "us_sessionEpoch s \<le> us_sessionEpoch s'" by (rule row_change_epoch [OF s(2)])
    have "us_state s' = UpFinalizing \<and> us_parts s' = us_parts ?s0 \<and> same_upload ?s0 s'"
      if "us_sessionEpoch s' = us_sessionEpoch ?s0"
    proof -
      have "us_sessionEpoch s = us_sessionEpoch ?s0" "us_sessionEpoch s' = us_sessionEpoch s" using that mono old(1) by simp_all
      then show ?thesis
        using old(2) finalizing_row_stays [OF s(2) books_row(1) [OF books s(1)] _ s'(2)]
          same_upload_trans [OF _ row_change_upload [OF s(2)]] by simp
    qed
    then show ?thesis using old(1) mono by simp
  qed
  then show ?thesis using ok unfolding finalizer_ok_def Let_def by blast
qed

lemma new_finalizer_ok:
  assumes tx: "complete_transaction cfg dbNow uploadId prin whole st = Inr (FinalizeNow s' parts)" and books: "books_wf st"
    and st': "js_get (ut_sessions st') (js_lower uploadId) = Some s'"
  shows "finalizer_ok st' \<lparr>fz_principal = prin, fz_session = s', fz_parts = parts\<rparr>"
  using tx
proof (rule complete_transactionD)
  fix s
  assume s: "js_get (ut_sessions st) (js_lower uploadId) = Some s"
    "parts = ordered_parts (us_parts s)" "list_all2 (part_matches (geometry_of s)) [0..us_partCount s - 1] parts"
    "us_committedBytes s = us_expectedBytes s"
    and s': "s' = s\<lparr>us_state := UpFinalizing, us_wholeSha256 := (case us_wholeSha256 s of None \<Rightarrow> whole | Some h \<Rightarrow> Some h),
           us_finalizingStartedAt := Some dbNow, us_expiresAt := max (us_expiresAt s) (dbNow + uc_finalizeTimeoutMs cfg)\<rparr>"
  have "sessions_wf st" using books by (simp add: books_wf_def)
  then obtain s1 where "js_get (ut_sessions st) (js_lower uploadId) = Some s1" "row_change True s1 s'"
    using finalizing_change [OF tx] by metis
  then have "session_wf s'" using s(1) books_row(1) [OF books s(1)] row_change_wf by auto
  moreover have "us_uploadId s' = js_lower uploadId" using books_row(4) [OF books s(1)] by (simp add: s')
  ultimately show ?thesis using s(2-4) st'
    by (simp add: finalizer_ok_def Let_def s' same_upload_def geometry_of_def del: list_all2_conv_all_nth)
qed

lemma finalizers_frame:
  assumes "finalizers_ok st" and "table_change c st st'" and "books_wf st"
    and "\<And>key z. js_get (ut_inFlightFinalizers st') key = Some z \<Longrightarrow> js_get (ut_inFlightFinalizers st) key = Some z \<or> finalizer_ok st' z"
  shows "finalizers_ok st'"
  unfolding finalizers_ok_def using assms finalizer_ok_step [OF _ _ assms(2,3)] unfolding finalizers_ok_def by blast

lemma complete_finalizers:
  assumes "finalizers_ok st" and books: "books_wf st"
  shows "finalizers_ok (fst (complete_begin cfg dbNow uploadId prin whole st))"
proof -
  have wf: "sessions_wf st" using books by (simp add: books_wf_def)
  let ?st' = "fst (complete_begin cfg dbNow uploadId prin whole st)"
  have tc: "table_change True st ?st'" using complete_evolves [OF wf] by (simp add: evolves_def)
  show ?thesis
  proof (rule finalizers_frame [OF assms(1) tc books])
    fix key z assume z: "js_get (ut_inFlightFinalizers ?st') key = Some z"
    show "js_get (ut_inFlightFinalizers st) key = Some z \<or> finalizer_ok ?st' z"
    proof (cases "complete_transaction cfg dbNow uploadId prin whole st")
      case (Inr start)
      show ?thesis
      proof (cases start)
        case (FinalizeNow s' parts)
        note tx = Inr [unfolded FinalizeNow]
        have "js_get (ut_sessions ?st') (js_lower uploadId) = Some s'" using tx by (simp add: complete_begin_def Let_def)
        then show ?thesis using z new_finalizer_ok [OF tx books] tx
          by (auto simp: complete_begin_def Let_def split: if_splits)
      qed (use z Inr in \<open>simp add: complete_begin_def\<close>)
    qed (use z in \<open>simp add: complete_begin_def\<close>)
  qed
qed

section \<open>Publications\<close>

definition published_ok :: "upload_system \<Rightarrow> bool" where
  "published_ok st \<longleftrightarrow> distinct (map pb_uploadId (ut_published st)) \<and>
     (\<forall>b\<in>set (ut_published st). int (length (pb_content b)) = pb_expectedBytes b \<and>
        (\<forall>s. js_get (ut_sessions st) (pb_uploadId b) = Some s \<longrightarrow> us_state s = UpCompleted))"

lemma published_frame:
  assumes "published_ok st" and "table_change c st st'" and "ut_published st' = ut_published st"
  shows "published_ok st'"
proof -
  have "us_state s' = UpCompleted"
    if b: "b \<in> set (ut_published st)" and s': "js_get (ut_sessions st') (pb_uploadId b) = Some s'" for b s'
  proof -
    have "\<not> unused_id st (pb_uploadId b)" using b by (simp add: unused_id_def)
    with table_change_get [OF assms(2) s']
    obtain s where s: "js_get (ut_sessions st) (pb_uploadId b) = Some s" "row_change c s s'" by auto
    have "us_state s = UpCompleted" using assms(1) b s(1) by (simp add: published_ok_def)
    then show ?thesis using row_change_phase [OF s(2)] phase_moves_completed by simp
  qed
  then show ?thesis using assms(1,3) by (simp add: published_ok_def)
qed

lemma publish_published:
  assumes ok: "published_ok st"
  shows "published_ok (fst (finalize_publish H root w z st))"
proof (cases rule: finalize_publish_cases [of H root w z st])
  case (published content s rid version)
  let ?u = "us_uploadId (fz_session z)"
  have "?u \<notin> pb_uploadId ` set (ut_published st)"
    using ok published(4,5) by (auto simp: published_ok_def)
  then show ?thesis using ok published(2) by (auto simp: published(7) published_ok_def)
qed (use ok in simp)

text \<open>The other operations publish nothing and start no finalizer.\<close>

lemma calm_rest:
  "ut_published (receive_part cfg H chunks key f l st) = ut_published st"
  "ut_published (rename_part root key f l st) = ut_published st"
  "ut_published (fst (fail_part root readable removed recovered key f l hasFinal st)) = ut_published st"
  "ut_published (fst (pause_round now deadline uploadId prin st)) = ut_published st"
  "ut_published (fst (resume_transaction uploadId prin st)) = ut_published st"
  "ut_published (fst (cancel_transaction uploadId prin st)) = ut_published st"
  "ut_published (cancel_cleanup root dbNow removed uploadId st) = ut_published st"
  "ut_published (reconcile_stale_part cfg root dbNow what u n st) = ut_published st"
  "ut_published (reconcile_stale_finalizer cfg dbNow u st) = ut_published st"
  "ut_published (reconcile_expired dbNow u st) = ut_published st"
  "ut_published (reconcile_committed root u n st) = ut_published st"
  "ut_published (reconcile_cleanup root dbNow u st) = ut_published st"
  "ut_published (reconcile_purge cfg root dbNow u st) = ut_published st"
  "ut_published (fst (complete_begin cfg dbNow uploadId prin whole st)) = ut_published st"
  "ut_published (finalize_fail code uploadId z st) = ut_published st"
  "ut_published (complete_cleanup root dbNow uploadId st) = ut_published st"
  by (simp_all add: receive_part_def rename_part_def fail_part_def fail_transaction_def pause_round_def resume_transaction_def
      cancel_transaction_def cancel_cleanup_def reconcile_stale_part_def reconcile_stale_finalizer_def reconcile_expired_def
      reconcile_committed_def reconcile_cleanup_def reconcile_purge_def complete_begin_def finalize_fail_def
      complete_cleanup_def Let_def split: sum.split option.split complete_start.split removal.split)

lemma calm_finalizers:
  "ut_inFlightFinalizers (receive_part cfg H chunks key f l st) = ut_inFlightFinalizers st"
  "ut_inFlightFinalizers (rename_part root key f l st) = ut_inFlightFinalizers st"
  "ut_inFlightFinalizers (fst (fail_part root readable removed recovered key f l hasFinal st)) = ut_inFlightFinalizers st"
  "ut_inFlightFinalizers (fst (pause_round now deadline uploadId prin st)) = ut_inFlightFinalizers st"
  "ut_inFlightFinalizers (fst (resume_transaction uploadId prin st)) = ut_inFlightFinalizers st"
  "ut_inFlightFinalizers (fst (cancel_transaction uploadId prin st)) = ut_inFlightFinalizers st"
  "ut_inFlightFinalizers (cancel_cleanup root dbNow removed uploadId st) = ut_inFlightFinalizers st"
  "ut_inFlightFinalizers (reconcile_stale_part cfg root dbNow what u n st) = ut_inFlightFinalizers st"
  "ut_inFlightFinalizers (reconcile_stale_finalizer cfg dbNow u st) = ut_inFlightFinalizers st"
  "ut_inFlightFinalizers (reconcile_expired dbNow u st) = ut_inFlightFinalizers st"
  "ut_inFlightFinalizers (reconcile_committed root u n st) = ut_inFlightFinalizers st"
  "ut_inFlightFinalizers (reconcile_cleanup root dbNow u st) = ut_inFlightFinalizers st"
  "ut_inFlightFinalizers (reconcile_purge cfg root dbNow u st) = ut_inFlightFinalizers st"
  "ut_inFlightFinalizers (fst (finalize_publish H root w z st)) = ut_inFlightFinalizers st"
  "ut_inFlightFinalizers (complete_cleanup root dbNow uploadId st) = ut_inFlightFinalizers st"
  by (simp_all add: receive_part_def rename_part_def fail_part_def fail_transaction_def pause_round_def resume_transaction_def
      cancel_transaction_def cancel_cleanup_def reconcile_stale_part_def reconcile_stale_finalizer_def reconcile_expired_def
      reconcile_committed_def reconcile_cleanup_def reconcile_purge_def finalize_publish_def
      complete_cleanup_def Let_def split: sum.split option.split removal.split prod.split)

lemma upload_step_change:
  assumes "upload_step e st st'" and "books_wf st"
  shows "\<exists>c. table_change c st st'"
proof -
  have "\<exists>c. evolves c st st'"
    using assms
  proof (cases rule: upload_step_cases)
    case calm
    then show ?thesis ..
  next
    case reserve
    then show ?thesis using reserve_evolves [OF _ assms(2)] by blast
  next
    case receive
    then show ?thesis using receive_evolves by blast
  next
    case rename
    then show ?thesis using rename_evolves by blast
  next
    case commit
    then show ?thesis using commit_evolves [OF _ _ assms(2)] by blast
  qed
  then show ?thesis by (auto simp: evolves_def)
qed

lemma upload_step_published:
  assumes "upload_step e st st'" and "books_wf st" and "published_ok st"
  shows "published_ok st'"
proof -
  obtain c where tc: "table_change c st st'" using upload_step_change [OF assms(1,2)] ..
  from assms(1) show ?thesis
  proof cases
    case step_publish
    then show ?thesis using publish_published [OF assms(3)] by simp
  qed (rule published_frame [OF assms(3) tc];
      simp add: calm_rest create_rest begin_rest reserve_rest commit_rest pause_begin_quiet)+
qed

lemma upload_step_finalizers:
  assumes "upload_step e st st'" and "books_wf st" and "finalizers_ok st"
  shows "finalizers_ok st'"
proof -
  obtain c where tc: "table_change c st st'" using upload_step_change [OF assms(1,2)] ..
  have fewer: "finalizers_ok st'" if "\<And>key z. js_get (ut_inFlightFinalizers st') key = Some z \<Longrightarrow> js_get (ut_inFlightFinalizers st) key = Some z"
    using that by (intro finalizers_frame [OF assms(3) tc assms(2)]) simp
  from assms(1) show ?thesis
  proof cases
    case step_complete
    then show ?thesis using complete_finalizers [OF assms(3,2)] by simp
  next
    case (step_finalize_fail uploadId z code)
    then show ?thesis by (intro fewer) (auto simp: finalize_fail_def split: sum.splits if_splits)
  qed (rule fewer; simp add: calm_finalizers create_rest begin_rest reserve_rest commit_rest pause_begin_quiet split: if_splits)+
qed

section \<open>All of it holds of every state\<close>

definition upload_inv :: "upload_env \<Rightarrow> upload_system \<Rightarrow> bool" where
  "upload_inv e st \<longleftrightarrow> books_wf st \<and> staging_ok (ue_root e) (ue_hash e) st \<and> finalizers_ok st \<and> published_ok st"

lemma upload_inv_initial: "upload_initial st \<Longrightarrow> upload_inv e st"
  by (simp add: upload_inv_def books_initial)
    (simp add: upload_initial_def staging_ok_def live_row_def finalizers_ok_def published_ok_def)

interpretation upload_writer: inductive_invariant upload_initial "upload_step e" "upload_inv e" for e
  by unfold_locales
    (rule upload_inv_initial, auto simp: upload_inv_def intro: upload_step_books upload_step_staging upload_step_finalizers upload_step_published)

section \<open>The published bytes are the file\<close>

lemma concat_segment:
  "n < length xs \<Longrightarrow> take (length (xs ! n)) (drop (sum_list (map length (take n xs))) (concat xs)) = xs ! n"
proof (induction xs arbitrary: n)
  case (Cons x xs)
  then show ?case by (cases n) simp_all
qed simp

lemma upload_stream_intact:
  assumes "\<forall>p\<in>set ps. up_stagingPath p = session_path root u (up_partNumber p) [] \<and>
    intact H files (up_stagingPath p) (up_lengthBytes p) (up_sha256 p)"
  shows "\<exists>xs. upload_stream H root u files ps = Inr (concat xs) \<and>
    list_all2 (\<lambda>p x. int (length x) = up_lengthBytes p \<and> H x = up_sha256 p) ps xs"
  using assms
proof (induction ps)
  case (Cons p ps)
  then obtain xs where xs: "upload_stream H root u files ps = Inr (concat xs)"
    "list_all2 (\<lambda>p x. int (length x) = up_lengthBytes p \<and> H x = up_sha256 p) ps xs"
    using Cons.IH [of] by (meson list.set_intros(2))
  from Cons.prems obtain x where x: "js_get files (up_stagingPath p) = Some x" "int (length x) = up_lengthBytes p" "H x = up_sha256 p"
    by (auto simp: intact_def)
  show ?case by (rule exI [of _ "x # xs"]) (use Cons.prems x xs in simp)
qed simp

lemma part_matchesD:
  assumes "valid_geometry g" and "list_all2 (part_matches g) [0..part_count g - 1] ps" and "i < length ps"
  shows "up_partNumber (ps ! i) = int i" and "up_offsetBytes (ps ! i) = int i * ug_partBytes g"
    and "up_lengthBytes (ps ! i) = part_length g (int i)" and "int i < part_count g"
proof -
  have len: "length ps = nat (part_count g)" using list_all2_lengthD [OF assms(2)] by simp
  have "part_matches g ([0..part_count g - 1] ! i) (ps ! i)" by (rule list_all2_nthD2 [OF assms(2,3)])
  moreover have "[0..part_count g - 1] ! i = int i" using assms(3) len by (simp add: nth_upto)
  moreover show lt: "int i < part_count g" using assms(3) len by simp
  ultimately show "up_partNumber (ps ! i) = int i" "up_offsetBytes (ps ! i) = int i * ug_partBytes g"
    "up_lengthBytes (ps ! i) = part_length g (int i)"
    by (simp_all add: part_matches_def part_geometry_valid [OF assms(1)])
qed

lemma take_lengths_sum:
  assumes "valid_geometry g" and "list_all2 (part_matches g) [0..part_count g - 1] ps" and "i < length ps"
    and "list_all2 (\<lambda>p x. int (length x) = up_lengthBytes p \<and> R p x) ps xs"
  shows "int (sum_list (map length (take i xs))) = up_offsetBytes (ps ! i)"
proof -
  have len: "length xs = length ps" using list_all2_lengthD [OF assms(4)] by simp
  note at = part_matchesD [OF assms(1,2)]
  have "int (length (xs ! j)) = part_length g (int j)" if "j < length ps" for j
    using list_all2_nthD [OF assms(4) that] at(3) [OF that] by simp
  then have "int (sum_list (map length (take i xs))) = (\<Sum>j<i. part_length g (int j))"
    using assms(3) len by (simp add: sum_list_sum_nth atLeast0LessThan)
  also have "\<dots> = int i * ug_partBytes g"
    using sum_part_lengths [OF assms(1), of i] at(4) [OF assms(3)] part_count_bounds(3) [OF assms(1), of "int i"] by simp
  finally show ?thesis using at(2) [OF assms(3)] by simp
qed

lemma all_lengths_sum:
  assumes "valid_geometry g" and "list_all2 (part_matches g) [0..part_count g - 1] ps"
    and "list_all2 (\<lambda>p x. int (length x) = up_lengthBytes p \<and> R p x) ps xs"
  shows "int (length (concat xs)) = ug_expectedBytes g"
proof -
  have len: "length xs = length ps" "length ps = nat (part_count g)"
    using list_all2_lengthD [OF assms(2)] list_all2_lengthD [OF assms(3)] by simp_all
  have "int (length (xs ! j)) = part_length g (int j)" if "j < length ps" for j
    using list_all2_nthD [OF assms(3) that] part_matchesD(3) [OF assms(1,2) that] by simp
  then have "int (length (concat xs)) = (\<Sum>j<nat (part_count g). part_length g (int j))"
    using len by (simp add: length_concat sum_list_sum_nth atLeast0LessThan)
  then show ?thesis using sum_all_lengths [OF assms(1)] by simp
qed

text \<open>The rows of a finalizing session and the parts of its finalizer.\<close>

lemma ordered_parts_mem: "p \<in> set (ordered_parts m) \<longleftrightarrow> (\<exists>n. (n, p) \<in> set m) \<and> up_state p = PartCommitted"
  by (force simp: ordered_parts_def parts_in_def)

lemma ordered_parts_sorted: "sort_key up_partNumber (ordered_parts m) = ordered_parts m"
  by (simp add: ordered_parts_def sort_key_id_if_sorted)

lemma finalizer_rows:
  assumes inv: "upload_inv e st" and z: "js_get (ut_inFlightFinalizers st) key = Some z"
    and s: "js_get (ut_sessions st) (us_uploadId (fz_session z)) = Some s" "us_state s = UpFinalizing"
      "us_sessionEpoch s = us_sessionEpoch (fz_session z)"
  shows "valid_geometry (geometry_of s) \<and> us_partCount s = part_count (geometry_of s) \<and>
    us_expectedBytes (fz_session z) = us_expectedBytes s \<and> fz_parts z = ordered_parts (us_parts s) \<and>
    list_all2 (part_matches (geometry_of s)) [0..us_partCount s - 1] (fz_parts z)"
proof -
  have "finalizer_ok st z" using inv z by (simp add: upload_inv_def finalizers_ok_def)
  moreover have "is_live (us_state s)" using s(2) by (simp add: is_live_def)
  ultimately have *: "fz_parts z = ordered_parts (us_parts (fz_session z))"
    "list_all2 (part_matches (geometry_of (fz_session z))) [0..us_partCount (fz_session z) - 1] (fz_parts z)"
    "us_parts s = us_parts (fz_session z)" "same_upload (fz_session z) s"
    using s unfolding finalizer_ok_def Let_def by blast+
  have "rows_fit s" using inv books_row(1) [OF _ s(1)] session_wfD(1) by (simp add: upload_inv_def)
  then show ?thesis using * same_upload_geometry [OF *(4)] by (simp add: rows_fit_def same_upload_def)
qed

lemma finalizer_stream:
  assumes inv: "upload_inv e st" and z: "js_get (ut_inFlightFinalizers st) key = Some z"
    and s: "js_get (ut_sessions st) (us_uploadId (fz_session z)) = Some s" "us_state s = UpFinalizing"
      "us_sessionEpoch s = us_sessionEpoch (fz_session z)"
    and canonical: "\<forall>p\<in>set (fz_parts z). up_stagingPath p = session_path (ue_root e) (us_uploadId s) (up_partNumber p) []"
  obtains content where
    "upload_stream (ue_hash e) (ue_root e) (us_uploadId (fz_session z)) (ut_files st) (sort_key up_partNumber (fz_parts z)) = Inr content"
    and "int (length content) = us_expectedBytes s"
    and "\<forall>n. 0 \<le> n \<and> n < us_partCount s \<longrightarrow> (\<exists>p. js_get (us_parts s) n = Some p \<and> up_state p = PartCommitted \<and>
      ue_hash e (take (nat (up_lengthBytes p)) (drop (nat (up_offsetBytes p)) content)) = up_sha256 p)"
proof -
  let ?H = "ue_hash e" and ?g = "geometry_of s" and ?ps = "fz_parts z" and ?u = "us_uploadId (fz_session z)"
  have books: "books_wf st" and staging: "staging_ok (ue_root e) ?H st" using inv by (simp_all add: upload_inv_def)
  note rows = finalizer_rows [OF inv z s]
  have geo: "valid_geometry ?g" and ps: "?ps = ordered_parts (us_parts s)" using rows by simp_all
  have match: "list_all2 (part_matches ?g) [0..part_count ?g - 1] ?ps" using rows by metis
  have u: "us_uploadId s = ?u" by (rule books_row(4) [OF books s(1)])
  have dist: "js_distinct (us_parts s)"
    using session_wfD(1) [OF books_row(1) [OF books s(1)]] by (simp add: rows_fit_def)
  have row: "js_get (us_parts s) (up_partNumber p) = Some p \<and> up_state p = PartCommitted" if p: "p \<in> set ?ps" for p
  proof -
    obtain n where n: "js_get (us_parts s) n = Some p" using p ps dist by (auto simp: ordered_parts_mem)
    then show ?thesis using p ps books_row(5) [OF books s(1) n] by (simp add: ordered_parts_mem row_fits_def)
  qed
  have "up_stagingPath p = session_path (ue_root e) ?u (up_partNumber p) [] \<and>
      intact ?H (ut_files st) (up_stagingPath p) (up_lengthBytes p) (up_sha256 p)" if p: "p \<in> set ?ps" for p
  proof -
    have "live_row st ?u (up_partNumber p) p" using row [OF p] s(1,2) by (auto simp: live_row_def is_live_def)
    then have "intact ?H (ut_files st) (up_stagingPath p) (up_lengthBytes p) (up_sha256 p)"
      using staging_okD(1) [OF staging] row [OF p] unfolding part_ok_def by blast
    then show ?thesis using canonical p unfolding u by metis
  qed
  then obtain xs where xs: "upload_stream ?H (ue_root e) ?u (ut_files st) ?ps = Inr (concat xs)"
    "list_all2 (\<lambda>p x. int (length x) = up_lengthBytes p \<and> ?H x = up_sha256 p) ?ps xs"
    using upload_stream_intact [of ?ps "ue_root e" ?u ?H "ut_files st"] by blast
  have "ue_hash e (take (nat (up_lengthBytes p)) (drop (nat (up_offsetBytes p)) (concat xs))) = up_sha256 p"
    if i: "i < length ?ps" "p = ?ps ! i" for i p
  proof -
    have i': "i < length xs" using i(1) list_all2_lengthD [OF xs(2)] by simp
    have "int (length (xs ! i)) = up_lengthBytes p \<and> ?H (xs ! i) = up_sha256 p" using list_all2_nthD [OF xs(2) i(1)] i(2) by simp
    moreover have "int (sum_list (map length (take i xs))) = up_offsetBytes p"
      using take_lengths_sum [OF geo match i(1) xs(2)] i(2) by simp
    ultimately show ?thesis using concat_segment [OF i'] by (metis nat_int)
  qed
  moreover have "?ps ! nat n \<in> set ?ps \<and> up_partNumber (?ps ! nat n) = n \<and> nat n < length ?ps" if "0 \<le> n" "n < us_partCount s" for n
  proof -
    have "nat n < length ?ps" using list_all2_lengthD [OF match] rows that by simp
    then show ?thesis using part_matchesD(1) [OF geo match, of "nat n"] that(1) by simp
  qed
  ultimately have "\<forall>n. 0 \<le> n \<and> n < us_partCount s \<longrightarrow> (\<exists>p. js_get (us_parts s) n = Some p \<and> up_state p = PartCommitted \<and>
      ue_hash e (take (nat (up_lengthBytes p)) (drop (nat (up_offsetBytes p)) (concat xs))) = up_sha256 p)"
    using row by metis
  moreover have "int (length (concat xs)) = us_expectedBytes s"
    using all_lengths_sum [OF geo match xs(2)] by (simp add: geometry_of_def)
  moreover have "sort_key up_partNumber ?ps = ?ps" by (simp add: ps ordered_parts_sorted)
  ultimately show thesis using that [of "concat xs"] xs(1) by simp
qed

end
