(* ===== verification/Uploads.thy ===== *)
theory Uploads
  imports UploadPublication
begin

text \<open>
  What holds of resumable uploads in every state the writer reaches, and what does not: the books, the
  staged files, the phases, completion and publication, and what becomes of an upload whose client spells
  its id in upper case. A small run of the writer instantiates the statements.
\<close>

section \<open>A run\<close>

text \<open>A small upload from its creation to its publication, in which the statements below are instantiated.\<close>

definition demo_id :: string where
  "demo_id = ''11111111-2222-4333-8444-5555555555aa''"

definition demo_sum :: string where
  "demo_sum = replicate 64 CHR ''a''"

definition demo_rid :: string where
  "demo_rid = ''111111112222433384445555555555aa''"

definition demo_config :: upload_config where
  "demo_config = \<lparr>uc_enabled = True, uc_productMaxFileBytes = 104857600, uc_preferredPartBytes = 1048576,
     uc_maxPartBytes = 16777216, uc_maxPartCount = 1024, uc_maxConcurrentPartsPerSession = 4,
     uc_maxConcurrentPartStreamsGlobal = 16, uc_maxActivePerSubject = 8, uc_maxActiveGlobal = 64,
     uc_maxConcurrentFinalizations = 2, uc_minFreeBytes = 0, uc_sessionTtlSeconds = 3600, uc_partTimeoutMs = 60000,
     uc_finalizeTimeoutMs = 60000, uc_stalePartLeaseMs = 60000, uc_receiptRetentionSeconds = 3600,
     uc_fallbackConcurrency = 2, uc_instabilityFailureThreshold = 3\<rparr>"

definition demo_env :: upload_env where
  "demo_env = \<lparr>ue_config = demo_config, ue_root = ''/gfs'', ue_hash = (\<lambda>x. demo_sum), ue_nfc = (\<lambda>x. x),
     ue_authorize = (\<lambda>p q r. None)\<rparr>"

definition demo_principal :: upload_principal where
  "demo_principal = \<lparr>pr_drive = ''d'', pr_ownerSubject = ''u'', pr_primarySubject = ''u''\<rparr>"

definition demo_input :: create_input where
  "demo_input = \<lparr>ci_principal = demo_principal, ci_uploadId = None, ci_idempotencyKey = demo_id, ci_operation = ReplaceUpload,
     ci_parentRid = None, ci_resourceRid = Some demo_rid, ci_name = None, ci_ifMatch = None, ci_sizeBytes = 3,
     ci_wholeSha256 = None\<rparr>"

definition demo_part :: part_geometry where
  "demo_part = \<lparr>pg_partNumber = 0, pg_offsetBytes = 0, pg_lengthBytes = 3\<rparr>"

definition demo_temp :: string where
  "demo_temp = session_path ''/gfs'' demo_id 0 (temp_suffix demo_id)"

definition demo_final :: string where
  "demo_final = session_path ''/gfs'' demo_id 0 []"

definition demo_row :: "part_state \<Rightarrow> string \<Rightarrow> instant option \<Rightarrow> upload_part" where
  "demo_row state path committedAt = \<lparr>up_partNumber = 0, up_offsetBytes = 0, up_lengthBytes = 3, up_sha256 = demo_sum,
     up_state = state, up_stagingPath = path, up_leaseEpoch = 1, up_leaseStartedAt = 0, up_committedAt = committedAt\<rparr>"

definition demo_new :: upload_session where
  "demo_new = new_session demo_config 0 demo_id
     \<lparr>pu_input = demo_input, pu_partCount = 1, pu_fingerprint = canonical_fingerprint demo_input 1048576 1\<rparr>"

definition demo_reserved :: upload_session where
  "demo_reserved = demo_new\<lparr>us_state := UpUploading, us_activePartCount := 1, us_parts := [(0, demo_row PartReserved demo_temp None)]\<rparr>"

definition demo_committed :: upload_session where
  "demo_committed = demo_new\<lparr>us_state := UpUploading, us_parts := [(0, demo_row PartCommitted demo_final (Some 0))],
     us_committedBytes := 3, us_committedPartCount := 1, us_contiguousBytes := 3\<rparr>"

definition demo_finalizing :: upload_session where
  "demo_finalizing = demo_committed\<lparr>us_state := UpFinalizing, us_finalizingStartedAt := Some 0\<rparr>"

definition demo_state :: "(string, upload_session) js_map \<Rightarrow> (string, string) js_map \<Rightarrow> flight_stage option \<Rightarrow>
    (string, upload_finalizer) js_map \<Rightarrow> upload_system" where
  "demo_state sessions files stage finalizers = \<lparr>ut_sessions = sessions, ut_files = files,
     ut_inFlight = (case stage of None \<Rightarrow> [] | Some s \<Rightarrow> [(flight_key demo_id 0, \<lparr>uf_uploadId = demo_id,
        uf_principal = demo_principal, uf_part = demo_part, uf_checksum = demo_sum, uf_stage = s\<rparr>)]),
     ut_inFlightFinalizers = finalizers, ut_pauseRequested = {}, ut_canceledUploads = {}, ut_published = []\<rparr>"

definition demo_lease :: part_lease where
  "demo_lease = \<lparr>pl_sessionEpoch = 0, pl_leaseEpoch = 1, pl_partCount = 1, pl_stagingPath = demo_temp\<rparr>"

lemma demo_values [simp]: "is_uuid demo_id" "js_lower demo_id = demo_id" "require_checksum (Some demo_sum) = Inr demo_sum"
  "normalized_rid (Some demo_rid) = Inr (Some demo_rid)"
  "part_count_for \<lparr>ug_expectedBytes = 3, ug_partBytes = 1048576\<rparr> = Inr 1"
  "validate_part_geometry \<lparr>ug_expectedBytes = 3, ug_partBytes = 1048576\<rparr> demo_part = None"
  by code_simp+

lemmas demo_defs = demo_config_def demo_input_def demo_principal_def demo_new_def demo_reserved_def demo_committed_def
  demo_finalizing_def demo_state_def demo_env_def new_session_def

lemma demo_create: "fst (create_upload demo_config (\<lambda>x. x) (\<lambda>p q r. None) 0 0 demo_id None demo_input (demo_state [] [] None [])) =
   demo_state [(demo_id, demo_new)] [] None []"
proof -
  have "create_prepare demo_config (\<lambda>x. x) (\<lambda>p q r. None) demo_input = Inr \<lparr>pu_input = demo_input, pu_partCount = 1,
      pu_fingerprint = canonical_fingerprint demo_input 1048576 1\<rparr>"
    by (simp add: create_prepare_def demo_input_def demo_config_def require_enabled_def require_uuid_def is_safe_integer_def
        upload_limits normalized_name_def normalized_rid_def [of None] Let_def)
  then show ?thesis
    by (simp add: create_upload_def create_admit_def find_request_def require_uuid_def demo_new_def demo_state_def put_session_def
        demo_config_def demo_input_def Let_def reserved_bytes_def)
qed

definition demo_flight :: "flight_stage \<Rightarrow> upload_flight" where
  "demo_flight stage = \<lparr>uf_uploadId = demo_id, uf_principal = demo_principal, uf_part = demo_part, uf_checksum = demo_sum,
     uf_stage = stage\<rparr>"

lemma demo_begin: "fst (put_part_begin demo_config (\<lambda>p q r. None) 0 demo_id demo_part (Some demo_sum) demo_principal
    (demo_state [(demo_id, demo_new)] [] None [])) = demo_state [(demo_id, demo_new)] [] (Some AwaitingReservation) []"
  by (simp add: put_part_begin_def put_part_checks_def load_owned_def lock_session_def demo_defs require_enabled_def
      assert_not_expired_def geometry_of_def Let_def) (simp add: demo_part_def)

lemma demo_reserve: "fst (put_part_reserve demo_config ''/gfs'' 0 demo_id (flight_key demo_id 0) (demo_flight AwaitingReservation)
    (demo_state [(demo_id, demo_new)] [] (Some AwaitingReservation) [])) =
  demo_state [(demo_id, demo_reserved)] [] (Some (Reserved demo_lease)) []"
  by (simp add: put_part_reserve_def reserve_transaction_def lock_session_def demo_defs Let_def reserved_count_def parts_in_def
      drive_reserved_def with_active_count_def reserved_row_def next_lease_def demo_lease_def demo_row_def demo_temp_def
      demo_part_def demo_flight_def set_stage_def put_session_def)

lemma demo_stage: "set_stage (flight_key demo_id 0) stage' (demo_state m files (Some stage) z) = demo_state m files (Some stage') z"
  by (simp add: set_stage_def demo_state_def)

lemma demo_paths: "demo_temp \<noteq> demo_final"
  by (simp add: demo_temp_def demo_final_def session_path_eq)

lemma demo_receive: "receive_part demo_config (\<lambda>x. demo_sum) [''ab'', ''c''] (flight_key demo_id 0) (demo_flight (Receiving demo_lease)) demo_lease
    (demo_state [(demo_id, demo_reserved)] [] (Some (Receiving demo_lease)) []) =
  demo_state [(demo_id, demo_reserved)] [(demo_temp, ''abc'')] (Some (Verified demo_lease)) []"
  by (simp add: receive_part_def read_part_body_def demo_part_def demo_flight_def demo_lease_def demo_config_def is_safe_integer_def
      set_stage_def demo_state_def Let_def)

lemma demo_rename: "rename_part ''/gfs'' (flight_key demo_id 0) (demo_flight (Verified demo_lease)) demo_lease
    (demo_state [(demo_id, demo_reserved)] [(demo_temp, ''abc'')] (Some (Verified demo_lease)) []) =
  demo_state [(demo_id, demo_reserved)] [(demo_final, ''abc'')] (Some (Renamed demo_lease)) []"
  using demo_paths
  by (simp add: rename_part_def final_path_def demo_flight_def demo_part_def demo_final_def [symmetric] demo_lease_def
      set_stage_def demo_state_def)

lemma demo_commit: "commit_part ''/gfs'' 0 True (flight_key demo_id 0) (demo_flight (Renamed demo_lease)) demo_lease
    (demo_state [(demo_id, demo_reserved)] [(demo_final, ''abc'')] (Some (Renamed demo_lease)) []) =
  demo_state [(demo_id, demo_committed)] [(demo_final, ''abc'')] None []"
  by (simp add: commit_part_def commit_transaction_def lock_session_def demo_defs demo_flight_def demo_part_def demo_lease_def
      demo_row_def committed_row_def final_path_def demo_final_def [symmetric] with_active_count_def reserved_count_def parts_in_def
      contiguous_bytes_def first_missing_def committed_part_def drop_flight_def put_session_def Let_def)

lemma demo_complete: "fst (complete_begin demo_config 0 demo_id demo_principal None
    (demo_state [(demo_id, demo_committed)] [(demo_final, ''abc'')] None [])) =
  demo_state [(demo_id, demo_finalizing)] [(demo_final, ''abc'')] None
    [(demo_id, \<lparr>fz_principal = demo_principal, fz_session = demo_finalizing, fz_parts = [demo_row PartCommitted demo_final (Some 0)]\<rparr>)]"
proof -
  have "part_matches \<lparr>ug_expectedBytes = 3, ug_partBytes = 1048576\<rparr> 0 (demo_row PartCommitted demo_final (Some 0))"
    unfolding demo_row_def part_matches_def by (simp add: part_geometry_of_def is_safe_integer_def upload_limits)
  then show ?thesis
    by (simp add: complete_begin_def complete_transaction_def lock_session_def demo_defs demo_row_def ordered_parts_def parts_in_def
        geometry_of_def finalizing_count_def put_session_def Let_def)
qed

text \<open>The states of the run and that they are reached.\<close>

abbreviation demo_whole :: upload_system where
  "demo_whole \<equiv> demo_state [(demo_id, demo_committed)] [(demo_final, ''abc'')] None []"

abbreviation demo_ending :: upload_system where
  "demo_ending \<equiv> demo_state [(demo_id, demo_finalizing)] [(demo_final, ''abc'')] None
    [(demo_id, \<lparr>fz_principal = demo_principal, fz_session = demo_finalizing, fz_parts = [demo_row PartCommitted demo_final (Some 0)]\<rparr>)]"

lemma demo_at: "at_stage (demo_state m files (Some stage) z) (flight_key demo_id 0) (demo_flight stage) stage"
  by (simp add: demo_state_def demo_flight_def)

abbreviation demo_reach :: "upload_system \<Rightarrow> bool" where
  "demo_reach \<equiv> reach upload_initial (upload_step demo_env)"

lemma demo_reach_whole: "demo_reach demo_whole"
proof -
  let ?key = "flight_key demo_id 0"
  have e: "ue_config demo_env = demo_config" "ue_root demo_env = ''/gfs''" "ue_hash demo_env = (\<lambda>x. demo_sum)"
    "ue_nfc demo_env = (\<lambda>x. x)" "ue_authorize demo_env = (\<lambda>p q r. None)" by (simp_all add: demo_env_def)
  have 0: "demo_reach (demo_state [] [] None [])"
    by (rule reach_initial) (simp add: upload_initial_def demo_state_def)
  have 1: "demo_reach (demo_state [(demo_id, demo_new)] [] None [])"
    using reach_step [OF 0 step_create [where e = demo_env and fresh = demo_id and inp = demo_input and now = 0 and dbNow = 0 and available = None]]
    by (simp add: e demo_create) (simp add: unused_id_def demo_state_def demo_input_def)
  have 2: "demo_reach (demo_state [(demo_id, demo_new)] [] (Some AwaitingReservation) [])"
    using reach_step [OF 1 step_begin [where e = demo_env and now = 0 and uploadId = demo_id and part = demo_part and checksum = "Some demo_sum" and prin = demo_principal]] by (simp only: e demo_begin)
  have 3: "demo_reach (demo_state [(demo_id, demo_reserved)] [] (Some (Reserved demo_lease)) [])"
    using reach_step [OF 2 step_reserve [OF demo_at, where e = demo_env and dbNow = 0 and tmp = demo_id]] by (simp only: e demo_reserve)
  have "session_unchanged (pl_sessionEpoch demo_lease) (demo_flight (Reserved demo_lease))
      (demo_state [(demo_id, demo_reserved)] [] (Some (Reserved demo_lease)) [])"
    by (simp add: session_unchanged_def lock_session_def demo_defs demo_flight_def demo_lease_def)
  then have 4: "demo_reach (demo_state [(demo_id, demo_reserved)] [] (Some (Receiving demo_lease)) [])"
    using reach_step [OF 3 step_proceed [OF demo_at, where e = demo_env]] by (simp only: demo_stage)
  have "upload_step demo_env (demo_state [(demo_id, demo_reserved)] [] (Some (Receiving demo_lease)) [])
      (receive_part (ue_config demo_env) (ue_hash demo_env) [''ab'', ''c''] (flight_key demo_id 0) (demo_flight (Receiving demo_lease))
        demo_lease (demo_state [(demo_id, demo_reserved)] [] (Some (Receiving demo_lease)) []))"
    by (rule step_receive [OF demo_at])
  then have 5: "demo_reach (demo_state [(demo_id, demo_reserved)] [(demo_temp, ''abc'')] (Some (Verified demo_lease)) [])"
    unfolding e demo_receive by (rule reach_step [OF 4])
  have 6: "demo_reach (demo_state [(demo_id, demo_reserved)] [(demo_final, ''abc'')] (Some (Renamed demo_lease)) [])"
    using reach_step [OF 5 step_rename [OF demo_at, where e = demo_env]] by (simp only: e demo_rename)
  show ?thesis
    using reach_step [OF 6 step_commit [OF demo_at, where e = demo_env and dbNow = 0 and seen = True]] by (simp only: e demo_commit)
qed

lemma demo_reach_ending: "demo_reach demo_ending"
proof -
  have e: "ue_config demo_env = demo_config" by (simp add: demo_env_def)
  show ?thesis
    using reach_step [OF demo_reach_whole step_complete [where e = demo_env and dbNow = 0 and uploadId = demo_id and prin = demo_principal and whole = None]]
    by (simp only: e demo_complete)
qed

section \<open>The books\<close>

definition rows_in :: "part_state \<Rightarrow> upload_session \<Rightarrow> int set" where
  "rows_in state s = {n. \<exists>p. js_get (us_parts s) n = Some p \<and> up_state p = state}"

lemma rows_in_keys: "rows_in state s = {n \<in> fst ` set (us_parts s). up_state (the (js_get (us_parts s) n)) = state}"
proof (rule set_eqI)
  fix n
  show "n \<in> rows_in state s \<longleftrightarrow> n \<in> {n \<in> fst ` set (us_parts s). up_state (the (js_get (us_parts s) n)) = state}"
  proof (cases "js_get (us_parts s) n")
    case None
    then have "n \<notin> fst ` set (us_parts s)" unfolding js_get_None_iff by simp
    then show ?thesis using None by (simp add: rows_in_def)
  next
    case (Some p)
    then have "n \<in> fst ` set (us_parts s)" by (metis map_of_SomeD fst_conv imageI)
    then show ?thesis using Some by (simp add: rows_in_def)
  qed
qed

lemma sum_of_rows:
  assumes "js_distinct (us_parts s)" and "\<And>p. w p = (if up_state p = state then v p else 0)"
  shows "sum_of w (us_parts s) = (\<Sum>n\<in>rows_in state s. v (the (js_get (us_parts s) n)))"
  unfolding sum_of_distinct [OF assms(1)] assms(2) rows_in_keys by (simp add: sum.inter_filter)

text \<open>C11: the books of a live session. In every reachable state the counters of a live session are those of
  its part rows: as many active parts as reserved rows, as many committed parts and bytes as the committed
  rows have, and as contiguous bytes the length of the longest prefix of the file that is committed.\<close>

theorem session_books_are_right:
  assumes "reach upload_initial (upload_step e) st" and "js_get (ut_sessions st) u = Some s" and "is_live (us_state s)"
  shows "us_activePartCount s = int (card (rows_in PartReserved s)) \<and>
    us_committedPartCount s = int (card (rows_in PartCommitted s)) \<and>
    us_committedBytes s = (\<Sum>n\<in>rows_in PartCommitted s. part_length (geometry_of s) n) \<and>
    (\<exists>k. {0..<k} \<subseteq> rows_in PartCommitted s \<and> k \<notin> rows_in PartCommitted s \<and> 0 \<le> k \<and>
       us_contiguousBytes s = min (us_expectedBytes s) (k * us_partBytes s))"
proof -
  have books: "books_wf st" using uploads.invar_reach [OF assms(1)] .
  have fit: "rows_fit s" and c: "counters_fit s"
    using session_wfD(1,2) [OF books_row(1) [OF books assms(2)]] assms(3) by simp_all
  have d: "js_distinct (us_parts s)" using fit by (simp add: rows_fit_def)
  have "sum_of (is_state state) (us_parts s) = int (card (rows_in state s))" for state
    using sum_of_rows [OF d, of "is_state state" state "\<lambda>p. 1"] by (simp add: is_state_def)
  moreover have "sum_of committed_length (us_parts s) = (\<Sum>n\<in>rows_in PartCommitted s. part_length (geometry_of s) n)"
  proof -
    have "up_lengthBytes (the (js_get (us_parts s) n)) = part_length (geometry_of s) n" if "n \<in> rows_in PartCommitted s" for n
      using that row_geometry [OF fit, of n] by (auto simp: rows_in_def row_fits_def)
    then show ?thesis
      using sum_of_rows [OF d, of committed_length PartCommitted up_lengthBytes] by (simp add: committed_length_def)
  qed
  moreover have com: "n \<in> rows_in PartCommitted s \<longleftrightarrow> committed_part (us_parts s) n" for n
    by (auto simp: rows_in_def committed_part_def split: option.splits)
  let ?k = "first_missing (us_partCount s) (us_parts s)"
  have "0 \<le> us_partCount s" using fit part_count_bounds(1) by (simp add: rows_fit_def)
  note kb = first_missing_bounds [OF this, of "us_parts s"]
  have "?k \<notin> rows_in PartCommitted s"
  proof (cases "?k < us_partCount s")
    case True
    then show ?thesis using first_missing_not_committed com by blast
  next
    case False
    then show ?thesis using row_geometry [OF fit, of ?k] kb by (auto simp: rows_in_def row_fits_def)
  qed
  moreover have "{0..<?k} \<subseteq> rows_in PartCommitted s" using first_missing_committed com by auto
  ultimately show ?thesis
    using c contiguous_bytes_prefix [OF fit] kb by (auto simp: counters_fit_def reserved_count_sum intro!: exI [of _ ?k])
qed

lemma session_books_are_right_witness:
  "us_committedBytes demo_committed = (\<Sum>n\<in>rows_in PartCommitted demo_committed. part_length (geometry_of demo_committed) n) \<and>
   us_committedBytes demo_committed = 3"
proof -
  have s: "js_get (ut_sessions demo_whole) demo_id = Some demo_committed" "is_live (us_state demo_committed)"
    by (simp_all add: demo_state_def demo_committed_def is_live_def)
  show ?thesis using session_books_are_right [OF demo_reach_whole s] by (simp add: demo_committed_def)
qed

section \<open>Staged files\<close>

text \<open>C12: committed parts are on disk. In every reachable state, whatever requests, failures, maintenance
  passes and crashes came before and however they were interleaved, the file of a committed part of a live
  session exists under the path of its row, has the length of the part and hashes to the row's checksum.\<close>

theorem committed_parts_are_intact:
  assumes "reach upload_initial (upload_step e) st" and "js_get (ut_sessions st) u = Some s" and "is_live (us_state s)"
    and "js_get (us_parts s) n = Some p" and "up_state p = PartCommitted"
  shows "\<exists>content. js_get (ut_files st) (up_stagingPath p) = Some content \<and>
    int (length content) = part_length (geometry_of s) n \<and> ue_hash e content = up_sha256 p"
proof -
  have inv: "upload_inv e st" using upload_writer.invar_reach [OF assms(1)] .
  have "live_row st u n p" using assms(2-4) by (auto simp: live_row_def)
  then have "part_ok (ue_root e) (ue_hash e) (ut_files st) u n p" using inv staging_okD(1) by (simp add: upload_inv_def)
  moreover have "row_fits s n p" using inv books_row(5) [OF _ assms(2,4)] by (simp add: upload_inv_def)
  ultimately show ?thesis using assms(5) by (auto simp: part_ok_def intact_def row_fits_def)
qed

lemma committed_parts_are_intact_witness:
  "\<exists>content. js_get (ut_files demo_whole) demo_final = Some content \<and> ue_hash demo_env content = demo_sum \<and> content = ''abc''"
proof -
  have s: "js_get (ut_sessions demo_whole) demo_id = Some demo_committed" "is_live (us_state demo_committed)"
    "js_get (us_parts demo_committed) 0 = Some (demo_row PartCommitted demo_final (Some 0))"
    "up_state (demo_row PartCommitted demo_final (Some 0)) = PartCommitted"
    by (simp_all add: demo_state_def demo_committed_def demo_row_def is_live_def)
  show ?thesis using committed_parts_are_intact [OF demo_reach_whole s] by (simp add: demo_row_def demo_state_def)
qed

section \<open>Phases\<close>

text \<open>C15: sessions follow their phases. Each step takes a session along an edge of the automaton of phases or
  leaves its phase: no terminal session comes back to life, a completed one stays completed until its row is
  purged. What identifies the upload never changes and its epoch never goes back.\<close>

theorem sessions_follow_the_phases:
  assumes "reach upload_initial (upload_step e) st" and "upload_step e st st'" and "js_get (ut_sessions st) u = Some s"
  shows "case js_get (ut_sessions st') u of
      None \<Rightarrow> us_state s = UpCompleted
    | Some s' \<Rightarrow> (us_state s' = us_state s \<or> phase_edge (us_state s) (us_state s')) \<and> same_upload s s' \<and>
        us_sessionEpoch s \<le> us_sessionEpoch s'"
proof -
  obtain c where "table_change c st st'"
    using upload_step_change [OF assms(2) uploads.invar_reach [OF assms(1)]] ..
  then show ?thesis
  proof cases
    case (tc_row v s1 s')
    then show ?thesis
      using assms(3) row_change_phase [OF tc_row(2)] row_change_upload [OF tc_row(2)] row_change_epoch [OF tc_row(2)]
      by (cases "u = v") (auto simp: phase_moves_def same_upload_def)
  qed (use assms(3) in \<open>auto simp: same_upload_def\<close>)
qed

lemma sessions_follow_the_phases_witness:
  "case js_get (ut_sessions (fst (cancel_transaction demo_id demo_principal demo_whole))) demo_id of
      None \<Rightarrow> False
    | Some s' \<Rightarrow> us_state s' = UpAborted \<and> same_upload demo_committed s'"
proof -
  have "js_get (ut_sessions demo_whole) demo_id = Some demo_committed" by (simp add: demo_state_def)
  from sessions_follow_the_phases [OF demo_reach_whole step_cancel [of demo_env demo_whole demo_id demo_principal] this]
  show ?thesis
    by (simp add: cancel_transaction_def lock_session_def demo_defs aborted_session_def put_session_def)
qed

section \<open>Publication\<close>

definition published_state :: "(string \<Rightarrow> string) \<Rightarrow> upload_session \<Rightarrow> string \<times> int \<Rightarrow> string \<Rightarrow> upload_session \<Rightarrow> upload_system \<Rightarrow> upload_system" where
  "published_state H s0 target content s st =
     (put_session (us_uploadId s0) (s\<lparr>us_state := UpCompleted, us_resultResourceId := Some (fst target),
        us_resultVersion := Some (snd target), us_resultSha256 := Some (H content)\<rparr>) st)
     \<lparr>ut_published := ut_published st @ [\<lparr>pb_uploadId = us_uploadId s0, pb_sessionEpoch = us_sessionEpoch s0,
        pb_expectedBytes = us_expectedBytes s0, pb_content = content\<rparr>]\<rparr>"

text \<open>Nothing outside the upload stands against the publication, which gets the resource id and version \<open>target\<close>.\<close>

definition nothing_refuses :: "publication_world \<Rightarrow> upload_session \<Rightarrow> string \<times> int \<Rightarrow> bool" where
  "nothing_refuses w s0 target \<longleftrightarrow> pw_staging w = None \<and> pw_target w = Inr target \<and>
     on_published_error w s0 = None \<and> pw_aborted w 2 = None \<and> pw_commit w = None"

lemma finalize_publish_stream:
  assumes "upload_stream H root (us_uploadId (fz_session z)) (ut_files st) (sort_key up_partNumber (fz_parts z)) = Inr content"
    and "int (length content) = us_expectedBytes (fz_session z)"
    and "js_get (ut_sessions st) (us_uploadId (fz_session z)) = Some s" and "us_state s = UpFinalizing"
    and "us_sessionEpoch s = us_sessionEpoch (fz_session z)"
  shows "us_wholeSha256 (fz_session z) \<in> {None, Some (H content)} \<Longrightarrow> nothing_refuses w (fz_session z) target \<Longrightarrow>
      finalize_publish H root w z st = (published_state H (fz_session z) target content s st, None)"
    and "us_wholeSha256 (fz_session z) \<notin> {None, Some (H content)} \<Longrightarrow> pw_staging w = None \<Longrightarrow>
      finalize_publish H root w z st = (st, Some (GfsError GeChecksumMismatch))"
    and "us_wholeSha256 (fz_session z) \<notin> {None, Some (H content)} \<or> (\<nexists>target. nothing_refuses w (fz_session z) target) \<Longrightarrow>
      \<exists>err. finalize_publish H root w z st = (st, Some err)"
  by (cases target; auto simp: finalize_publish_def published_state_def nothing_refuses_def Let_def assms split: option.splits)
     (auto simp: finalize_publish_def nothing_refuses_def Let_def assms split: option.splits sum.splits)

text \<open>The checks of the publication pass only for a caller who may write the target now, under the epoch it started in.\<close>

lemma on_published_passes:
  assumes "on_published_error w s0 = None"
  shows "pw_decision w = Inr True \<and> pw_context w = None \<and> \<not> publication_late w 1 \<and>
    ep_generation (pw_after w) = ep_generation (pw_captured w) \<and> \<not> ep_bypassed (pw_captured w) \<and> \<not> ep_bypassed (pw_after w)"
  using assms by (auto simp: on_published_error_def split: option.splits sum.splits if_splits)

text \<open>C13: a finalized upload publishes its parts. In every reachable state, a finalizer whose session is still
  finalizing under its epoch, and whose parts are staged under the names of the upload's canonical id, finds
  every part: the bytes it puts together are as many as the session declared, and each part of them hashes to
  the checksum of its row. They are published, and the session completed with their hash, exactly when they
  have the declared checksum of the whole and nothing outside the upload refuses (staging, the resource
  tables, a deadline or abort, the permission epoch, the caller's authorization, the commit); then the caller
  was allowed to write the target and no revocation was heard since the finalizer started. A wrong checksum of
  the whole is reported as such once the bytes are staged, and whatever is refused leaves everything as it was.\<close>

theorem finalized_upload_publishes_its_parts:
  assumes "reach upload_initial (upload_step e) st" and "js_get (ut_inFlightFinalizers st) key = Some z"
    and "js_get (ut_sessions st) (us_uploadId (fz_session z)) = Some s" and "us_state s = UpFinalizing"
    and "us_sessionEpoch s = us_sessionEpoch (fz_session z)"
    and "\<forall>p\<in>set (fz_parts z). up_stagingPath p = session_path (ue_root e) (us_uploadId s) (up_partNumber p) []"
  shows "\<exists>content. int (length content) = us_expectedBytes s \<and>
    (\<forall>n. 0 \<le> n \<and> n < us_partCount s \<longrightarrow> (\<exists>p. js_get (us_parts s) n = Some p \<and> up_state p = PartCommitted \<and>
       ue_hash e (take (nat (up_lengthBytes p)) (drop (nat (up_offsetBytes p)) content)) = up_sha256 p)) \<and>
    (case finalize_publish (ue_hash e) (ue_root e) w z st of (st', err) \<Rightarrow>
       (err = None \<longleftrightarrow> us_wholeSha256 (fz_session z) \<in> {None, Some (ue_hash e content)} \<and>
          (\<exists>target. nothing_refuses w (fz_session z) target)) \<and>
       (if err = None
        then map pb_content (ut_published st') = map pb_content (ut_published st) @ [content] \<and>
          (\<exists>s'. js_get (ut_sessions st') (us_uploadId s) = Some s' \<and> us_state s' = UpCompleted \<and>
             us_resultSha256 s' = Some (ue_hash e content)) \<and>
          pw_decision w = Inr True \<and> ep_generation (pw_after w) = ep_generation (pw_captured w) \<and> \<not> ep_bypassed (pw_after w)
        else st' = st \<and>
          (us_wholeSha256 (fz_session z) \<notin> {None, Some (ue_hash e content)} \<and> pw_staging w = None \<longrightarrow>
             err = Some (GfsError GeChecksumMismatch))))"
proof -
  let ?whole = "us_wholeSha256 (fz_session z)"
  have inv: "upload_inv e st" using upload_writer.invar_reach [OF assms(1)] .
  obtain content where content: "upload_stream (ue_hash e) (ue_root e) (us_uploadId (fz_session z)) (ut_files st)
      (sort_key up_partNumber (fz_parts z)) = Inr content"
    and len: "int (length content) = us_expectedBytes s"
    and parts: "\<forall>n. 0 \<le> n \<and> n < us_partCount s \<longrightarrow> (\<exists>p. js_get (us_parts s) n = Some p \<and> up_state p = PartCommitted \<and>
      ue_hash e (take (nat (up_lengthBytes p)) (drop (nat (up_offsetBytes p)) content)) = up_sha256 p)"
    using finalizer_stream [OF inv assms(2-6)] .
  have "int (length content) = us_expectedBytes (fz_session z)" using len finalizer_rows [OF inv assms(2-5)] by simp
  note run = finalize_publish_stream [OF content this assms(3-5), of w]
  have u: "us_uploadId s = us_uploadId (fz_session z)" using inv books_row(4) [OF _ assms(3)] by (simp add: upload_inv_def)
  show ?thesis
  proof (cases "?whole \<in> {None, Some (ue_hash e content)} \<and> (\<exists>target. nothing_refuses w (fz_session z) target)")
    case True
    then obtain target where t: "nothing_refuses w (fz_session z) target" by blast
    then have "pw_decision w = Inr True \<and> ep_generation (pw_after w) = ep_generation (pw_captured w) \<and> \<not> ep_bypassed (pw_after w)"
      using on_published_passes [of w "fz_session z"] by (simp add: nothing_refuses_def)
    then show ?thesis using len parts True run(1) [OF conjunct1 [OF True] t] u
      by (intro exI [of _ content]) (simp add: published_state_def)
  next
    case False
    then obtain err where "finalize_publish (ue_hash e) (ue_root e) w z st = (st, Some err)" using run(3) by blast
    then show ?thesis using len parts False run(2) by (intro exI [of _ content]) auto
  qed
qed

definition demo_finalizer :: upload_finalizer where
  "demo_finalizer = \<lparr>fz_principal = demo_principal, fz_session = demo_finalizing,
     fz_parts = [demo_row PartCommitted demo_final (Some 0)]\<rparr>"

lemma demo_ending_facts:
  "js_get (ut_inFlightFinalizers demo_ending) demo_id = Some demo_finalizer"
  "js_get (ut_sessions demo_ending) (us_uploadId (fz_session demo_finalizer)) = Some demo_finalizing"
  "us_state demo_finalizing = UpFinalizing" "us_sessionEpoch demo_finalizing = us_sessionEpoch (fz_session demo_finalizer)"
  "\<forall>p\<in>set (fz_parts demo_finalizer). up_stagingPath p = session_path (ue_root demo_env) (us_uploadId demo_finalizing) (up_partNumber p) []"
proof -
  have id: "us_uploadId demo_finalizing = demo_id" by (simp add: demo_defs)
  show "js_get (ut_inFlightFinalizers demo_ending) demo_id = Some demo_finalizer"
    "js_get (ut_sessions demo_ending) (us_uploadId (fz_session demo_finalizer)) = Some demo_finalizing"
    "us_sessionEpoch demo_finalizing = us_sessionEpoch (fz_session demo_finalizer)"
    by (simp_all add: demo_state_def demo_finalizer_def id)
  show "us_state demo_finalizing = UpFinalizing" by (simp add: demo_finalizing_def)
  show "\<forall>p\<in>set (fz_parts demo_finalizer). up_stagingPath p = session_path (ue_root demo_env) (us_uploadId demo_finalizing) (up_partNumber p) []"
    by (simp add: demo_finalizer_def id demo_row_def demo_final_def demo_env_def)
qed

definition demo_publication :: publication_world where
  "demo_publication = \<lparr>pw_staging = None, pw_target = Inr (demo_rid, 1), pw_captured = \<lparr>ep_generation = 0, ep_bypassed = False\<rparr>,
     pw_before = \<lparr>ep_generation = 0, ep_bypassed = False\<rparr>, pw_after = \<lparr>ep_generation = 0, ep_bypassed = False\<rparr>,
     pw_deadlineAtMs = Some 9, pw_now = (\<lambda>k. 5), pw_aborted = (\<lambda>k. None), pw_context = None, pw_decision = Inr True,
     pw_commit = None\<rparr>"

lemma demo_clear: "nothing_refuses demo_publication demo_finalizing (demo_rid, 1)"
  by (simp add: nothing_refuses_def demo_publication_def on_published_error_def publication_late_def upload_target_def
      demo_defs demo_rid_def)

lemma finalized_upload_publishes_its_parts_witness:
  "snd (finalize_publish (ue_hash demo_env) (ue_root demo_env) demo_publication demo_finalizer demo_ending) = None"
proof -
  have "us_wholeSha256 (fz_session demo_finalizer) = None" "fz_session demo_finalizer = demo_finalizing"
    by (simp_all add: demo_finalizer_def demo_defs)
  then show ?thesis
    using finalized_upload_publishes_its_parts [OF demo_reach_ending demo_ending_facts, of demo_publication] demo_clear
    by (cases "finalize_publish (ue_hash demo_env) (ue_root demo_env) demo_publication demo_finalizer demo_ending") auto
qed

text \<open>C14: uploads are published once. In every reachable state no two publications have the same upload id, each
  has exactly the declared number of bytes, and the session that made it is completed or has been purged.\<close>

theorem uploads_are_published_once:
  assumes "reach upload_initial (upload_step e) st"
  shows "distinct (map pb_uploadId (ut_published st)) \<and>
    (\<forall>b\<in>set (ut_published st). int (length (pb_content b)) = pb_expectedBytes b \<and>
       (js_get (ut_sessions st) (pb_uploadId b) = None \<or>
        map_option us_state (js_get (ut_sessions st) (pb_uploadId b)) = Some UpCompleted))"
proof -
  have "published_ok st" using upload_writer.invar_reach [OF assms] by (simp add: upload_inv_def)
  then show ?thesis unfolding published_ok_def by (auto split: option.split)
qed

lemma demo_publish: "finalize_publish (ue_hash demo_env) (ue_root demo_env) demo_publication demo_finalizer demo_ending =
    (published_state (ue_hash demo_env) demo_finalizing (demo_rid, 1) ''abc'' demo_finalizing demo_ending, None)"
proof -
  have z: "fz_session demo_finalizer = demo_finalizing" "fz_parts demo_finalizer = [demo_row PartCommitted demo_final (Some 0)]"
    by (simp_all add: demo_finalizer_def)
  have s: "us_uploadId demo_finalizing = demo_id" "us_expectedBytes demo_finalizing = 3" "us_wholeSha256 demo_finalizing = None"
    by (simp_all add: demo_defs)
  have "upload_stream (ue_hash demo_env) (ue_root demo_env) demo_id (ut_files demo_ending) [demo_row PartCommitted demo_final (Some 0)] = Inr ''abc''"
    by (simp add: demo_row_def demo_env_def demo_state_def demo_final_def [symmetric])
  then show ?thesis
    using finalize_publish_stream(1) [OF _ _ demo_ending_facts(2-4), of "ue_hash demo_env" "ue_root demo_env" "''abc''"
        demo_publication "(demo_rid, 1)"] demo_clear
    by (simp add: z s)
qed

lemma uploads_are_published_once_witness:
  "\<exists>(st :: upload_system) (b :: publication). ut_published st = [b] \<and> pb_content b = ''abc'' \<and> int (length (pb_content b)) = pb_expectedBytes b \<and>
     map_option us_state (js_get (ut_sessions st) (pb_uploadId b)) = Some UpCompleted"
proof -
  let ?st = "published_state (ue_hash demo_env) demo_finalizing (demo_rid, 1) ''abc'' demo_finalizing demo_ending"
  let ?b = "\<lparr>pb_uploadId = us_uploadId demo_finalizing, pb_sessionEpoch = us_sessionEpoch demo_finalizing,
    pb_expectedBytes = us_expectedBytes demo_finalizing, pb_content = ''abc''\<rparr>"
  have "upload_step demo_env demo_ending
      (fst (finalize_publish (ue_hash demo_env) (ue_root demo_env) demo_publication demo_finalizer demo_ending))"
    by (rule step_publish [OF demo_ending_facts(1)])
  then have r: "demo_reach ?st" unfolding demo_publish fst_conv by (rule reach_step [OF demo_reach_ending])
  have "ut_published demo_ending = []" by (simp add: demo_state_def)
  then have b: "ut_published ?st = [?b]" "js_get (ut_sessions ?st) (us_uploadId demo_finalizing) \<noteq> None"
    by (simp_all add: published_state_def)
  show ?thesis by (rule exI [of _ ?st], rule exI [of _ ?b]) (use uploads_are_published_once [OF r] b in simp)
qed

section \<open>An upload under another spelling of its id\<close>

text \<open>C31: an upload whose client spells its id in upper case loses its parts. The routes take ids in either case
  and the tables compare them in lower case, but the staging path is built from the id as it was spelled. A
  part committed under such an id is in the table and on disk, and still the next maintenance pass declares
  it missing and fails the session, and a finalizer refuses its path.\<close>

theorem uppercase_upload_loses_its_parts:
  assumes "commit_transaction root dbNow f l st = Inr s'" and "is_uuid (uf_uploadId f)"
    and "js_lower (uf_uploadId f) \<noteq> uf_uploadId f"
  shows "let u = js_lower (uf_uploadId f); n = pg_partNumber (uf_part f); st' = commit_part root dbNow True key f l st;
             st'' = reconcile_committed root u n st'
         in committed_part (us_parts s') n \<and> ut_files st'' = ut_files st \<and>
            map_option us_state (js_get (ut_sessions st'') u) = Some UpFailed \<and>
            Option.bind (js_get (ut_sessions st'') u) us_failureCode = Some ''corrupt_part_missing'' \<and>
            (\<forall>H p ps. js_get (us_parts s') n = Some p \<longrightarrow> up_partNumber p = n \<longrightarrow>
               upload_stream H root u (ut_files st') (p # ps) = Inl (GfsError GePathInvalid))"
  using assms(1)
proof (rule commit_transactionD)
  fix s n p
  let ?u = "js_lower (uf_uploadId f)" and ?p = "committed_row (final_path root f) dbNow p"
  assume n: "n = pg_partNumber (uf_part f)" and st: "us_state s = UpUploading"
    and s': "s' = with_active_count (s\<lparr>us_parts := js_set n ?p (us_parts s),
           us_committedBytes := us_committedBytes s + pg_lengthBytes (uf_part f),
           us_committedPartCount := us_committedPartCount s + 1,
           us_contiguousBytes := contiguous_bytes (pl_partCount l) (js_set n ?p (us_parts s))\<rparr>)"
  have row: "js_get (us_parts s') n = Some ?p" "up_state ?p = PartCommitted" "us_state s' = UpUploading"
    by (simp_all add: s' st committed_row_def)
  have path: "up_stagingPath ?p \<noteq> session_path root ?u m []" for m
    using assms(3) by (simp add: committed_row_def final_path_def session_path_eq)
  have st': "commit_part root dbNow True key f l st = drop_flight key (put_session ?u s' st)"
    using assms(1) by (simp add: commit_part_def)
  have "\<not> committed_part_file_present root ?u ?p files" for files
    using path by (simp add: committed_part_file_present_def)
  then have "reconcile_committed root ?u n (commit_part root dbNow True key f l st) =
      put_session ?u (s'\<lparr>us_state := UpFailed, us_failureCode := Some ''corrupt_part_missing'',
        us_sessionEpoch := us_sessionEpoch s' + 1, us_activePartCount := 0\<rparr>)
        ((drop_flight key (put_session ?u s' st))\<lparr>ut_canceledUploads := insert ?u (ut_canceledUploads st)\<rparr>)"
    using row by (simp add: reconcile_committed_def st' drop_flight_def)
  moreover have "committed_part (us_parts s') n" using row by (simp add: committed_part_def)
  ultimately show ?thesis using row path n by (simp add: Let_def drop_flight_def)
qed

definition demo_upper :: string where
  "demo_upper = ''11111111-2222-4333-8444-5555555555AA''"

definition demo_upper_flight :: upload_flight where
  "demo_upper_flight = (demo_flight (Renamed demo_lease))\<lparr>uf_uploadId := demo_upper\<rparr>"

lemma uppercase_upload_loses_its_parts_witness:
  "is_gfs_upload_v2_route (''/v1/uploads/'' @ demo_upper @ ''/parts/0'') \<and>
   (let st = put_session demo_id demo_reserved (demo_state [] [(final_path ''/gfs'' demo_upper_flight, ''abc'')] None []);
        st' = reconcile_committed ''/gfs'' demo_id 0 (commit_part ''/gfs'' 0 True (flight_key demo_upper 0) demo_upper_flight demo_lease st)
    in ut_files st' = ut_files st \<and> map_option us_state (js_get (ut_sessions st') demo_id) = Some UpFailed)"
proof -
  let ?st = "put_session demo_id demo_reserved (demo_state [] [(final_path ''/gfs'' demo_upper_flight, ''abc'')] None [])"
  have up: "is_uuid (uf_uploadId demo_upper_flight)" "js_lower (uf_uploadId demo_upper_flight) = demo_id"
    "js_lower (uf_uploadId demo_upper_flight) \<noteq> uf_uploadId demo_upper_flight"
    unfolding demo_upper_flight_def by code_simp+
  have "\<exists>s'. commit_transaction ''/gfs'' 0 demo_upper_flight demo_lease ?st = Inr s'"
    unfolding commit_transaction_def lock_session_def up(2)
    by (simp add: demo_upper_flight_def demo_flight_def demo_defs demo_part_def demo_row_def demo_lease_def put_session_def Let_def)
  then obtain s' where "commit_transaction ''/gfs'' 0 demo_upper_flight demo_lease ?st = Inr s'" ..
  moreover have "pg_partNumber (uf_part demo_upper_flight) = 0" by (simp add: demo_upper_flight_def demo_flight_def demo_part_def)
  moreover have "is_gfs_upload_v2_route (''/v1/uploads/'' @ demo_upper @ ''/parts/0'')" by code_simp
  ultimately show ?thesis
    using uppercase_upload_loses_its_parts [OF _ up(1,3), of "''/gfs''" 0 demo_lease ?st s' "flight_key demo_upper 0"]
    by (simp add: Let_def up(2))
qed

end
