(* ===== verification/GfsCopy.thy ===== *)
theory GfsCopy
  imports UploadSession GfsClient "HOL-Library.Product_Lexorder" "HOL-Library.List_Lexorder" "HOL-Library.Char_ord"
begin

text \<open>
  Synchronous copy of a tree: the checks of \<open>gfs-controller/src/api/copy.ts\<close> on a snapshot read beforehand, and
  from \<open>db/copyPublication.ts\<close> the reservation of the new rows and the comparison of the snapshot with the
  rows the publishing transaction reads. Normal form C of a name (\<open>nfc\<close>), the collation key of
  \<open>localeCompare\<close> (\<open>collate\<close>) and the supply of fresh ids are parameters. The lemmas show that an accepted plan
  is one tree, and that what is reserved is a copy of it below the destination.
\<close>

section \<open>Snapshots\<close>

record copy_node =
  cn_resourceId :: string
  cn_drive :: string
  cn_parentResourceId :: "string option"
  cn_name :: string
  cn_kind :: string
  cn_pathCache :: "string option"
  cn_version :: int
  cn_bytes :: int
  cn_blobKey :: "string option"
  cn_contentSha256 :: "string option"
  cn_deletedAt :: "string option"
  cn_depth :: int
  cn_cycle :: bool
  cn_underTombstone :: bool

record copy_destination =
  cd_ancestors :: "copy_node list"
  cd_liveChildren :: "(string \<times> string) list"

record copy_input =
  ci_drive :: string
  ci_sourceResourceId :: string
  ci_destinationParentId :: string
  ci_newName :: "string option"
  ci_ifMatch :: "int option"
  ci_snapshot :: "copy_node list"
  ci_destination :: copy_destination
  ci_maxObjects :: int
  ci_maxBytes :: int
  ci_deadlineAtMs :: instant
  ci_nowMs :: instant

record copy_plan =
  cp_nodes :: "copy_node list"
  cp_rootName :: string
  cp_objectCount :: int
  cp_fileCount :: int
  cp_folderCount :: int
  cp_totalBytes :: int
  cp_parents :: "(string, string option) js_map"

section \<open>Checks\<close>

abbreviation failStructure :: gfs_error where
  "failStructure \<equiv> GfsError GePreconditionFailed"

definition copy_rid :: "string \<Rightarrow> gfs_error + string" where
  "copy_rid v = (case normalize_resource_id v of None \<Rightarrow> Inl (GfsError GePathInvalid) | Some r \<Rightarrow> Inr r)"

definition valid_name :: "(string \<Rightarrow> string) \<Rightarrow> string \<Rightarrow> gfs_error + string" where
  "valid_name nfc raw =
     (case normalize_resource_name nfc raw of None \<Rightarrow> Inl (GfsError GePathInvalid) | Some n \<Rightarrow> Inr n)"

definition assert_limit :: "int \<Rightarrow> gfs_error option" where
  "assert_limit v = (if \<not> is_safe_integer v \<or> v \<le> 0 then Some (GfsError GePathInvalid) else None)"

definition assert_deadline :: "copy_input \<Rightarrow> gfs_error option" where
  "assert_deadline i = (if ci_nowMs i \<ge> ci_deadlineAtMs i then Some failStructure else None)"

fun valid_names :: "(string \<Rightarrow> string) \<Rightarrow> string list \<Rightarrow> gfs_error + string list" where
  "valid_names nfc [] = Inr []"
| "valid_names nfc (s # ss) =
     (case valid_name nfc s of Inl e \<Rightarrow> Inl e | Inr n \<Rightarrow>
       (case valid_names nfc ss of Inl e \<Rightarrow> Inl e | Inr ns \<Rightarrow> Inr (n # ns)))"

definition canonical_absolute_path :: "(string \<Rightarrow> string) \<Rightarrow> string \<Rightarrow> gfs_error + string" where
  "canonical_absolute_path nfc path =
     (if \<not> starts_with path ''/'' \<or> (length path > 1 \<and> last path = CHR ''/'') \<or> js_includes path ''//'' then Inl failStructure
      else if path = ''/'' then Inr path
      else (case valid_names nfc (js_split CHR ''/'' (tl path)) of
              Inl e \<Rightarrow> Inl e
            | Inr segments \<Rightarrow>
                (let canonical = CHR ''/'' # js_join CHR ''/'' segments
                 in if canonical \<noteq> path then Inl failStructure else Inr canonical)))"

definition child_path :: "string \<Rightarrow> string \<Rightarrow> string" where
  "child_path parentPath name = (if parentPath = ''/'' then CHR ''/'' # name else parentPath @ CHR ''/'' # name)"

section \<open>The scan of the nodes\<close>

record copy_scan =
  sc_byId :: "(string, copy_node) js_map"
  sc_totalBytes :: int
  sc_fileCount :: int
  sc_folderCount :: int

definition node_error :: "(string \<Rightarrow> string) \<Rightarrow> string \<Rightarrow> string \<Rightarrow> string \<Rightarrow> copy_node \<Rightarrow> gfs_error option" where
  "node_error nfc drive sourceId nodeId n =
     (if cn_cycle n then Some failStructure
      else if cn_underTombstone n then Some failStructure
      else if cn_drive n \<noteq> drive then Some (GfsError GeCrossBoundary)
      else if cn_deletedAt n \<noteq> None then Some failStructure
      else if \<not> is_safe_integer (cn_version n) \<or> cn_version n < 0 then Some failStructure
      else if \<not> is_safe_integer (cn_depth n) \<or> cn_depth n < 0 then Some failStructure
      else if cn_kind n \<noteq> ''file'' \<and> cn_kind n \<noteq> ''directory'' then Some failStructure
      else if cn_name n \<noteq> nfc (cn_name n) then Some failStructure
      else if nodeId \<noteq> sourceId \<or> cn_depth n \<noteq> 0
           then (case valid_name nfc (cn_name n) of Inl e \<Rightarrow> Some e | Inr _ \<Rightarrow> None)
      else None)"

fun scan_nodes :: "(string \<Rightarrow> string) \<Rightarrow> string \<Rightarrow> string \<Rightarrow> copy_node list \<Rightarrow> copy_scan \<Rightarrow> gfs_error + copy_scan" where
  "scan_nodes nfc drive sourceId [] sc = Inr sc"
| "scan_nodes nfc drive sourceId (n # ns) sc =
     (case copy_rid (cn_resourceId n) of Inl e \<Rightarrow> Inl e | Inr nodeId \<Rightarrow>
      if js_get (sc_byId sc) nodeId \<noteq> None then Inl failStructure
      else (case node_error nfc drive sourceId nodeId n of
              Some e \<Rightarrow> Inl e
            | None \<Rightarrow>
                (let sc = sc\<lparr>sc_byId := js_set nodeId n (sc_byId sc)\<rparr>
                 in if cn_kind n = ''file'' then
                      (if cn_bytes n < 0 then Inl failStructure
                       else (let total = sc_totalBytes sc + cn_bytes n
                             in if total > 2 ^ 53 - 1 then Inl (GfsError GePayloadTooLarge)
                                else scan_nodes nfc drive sourceId ns
                                       (sc\<lparr>sc_totalBytes := total, sc_fileCount := sc_fileCount sc + 1\<rparr>)))
                    else if cn_bytes n \<noteq> 0 then Inl failStructure
                    else scan_nodes nfc drive sourceId ns (sc\<lparr>sc_folderCount := sc_folderCount sc + 1\<rparr>))))"

text \<open>The parent of every node but the source, in the snapshot one level up, and the path it implies.\<close>

fun scan_parents ::
  "string \<Rightarrow> (string, copy_node) js_map \<Rightarrow> copy_node list \<Rightarrow> (string, string option) js_map \<Rightarrow>
   gfs_error + (string, string option) js_map" where
  "scan_parents sourceId byId [] parents = Inr parents"
| "scan_parents sourceId byId (n # ns) parents =
     (case copy_rid (cn_resourceId n) of Inl e \<Rightarrow> Inl e | Inr nodeId \<Rightarrow>
      if nodeId = sourceId then scan_parents sourceId byId ns (js_set nodeId None parents)
      else (case cn_parentResourceId n of
              None \<Rightarrow> Inl failStructure
            | Some rawParent \<Rightarrow>
                (case copy_rid rawParent of Inl e \<Rightarrow> Inl e | Inr parentId \<Rightarrow>
                 (case js_get byId parentId of
                    None \<Rightarrow> Inl failStructure
                  | Some parent \<Rightarrow>
                      (if cn_kind parent \<noteq> ''directory'' \<or> cn_depth parent + 1 \<noteq> cn_depth n then Inl failStructure
                       else (case (cn_pathCache n, cn_pathCache parent) of
                               (Some path, Some parentPath) \<Rightarrow>
                                 (if path \<noteq> child_path parentPath (cn_name n) then Inl failStructure
                                  else scan_parents sourceId byId ns (js_set nodeId (Some parentId) parents))
                             | _ \<Rightarrow> Inl failStructure))))))"

section \<open>The destination\<close>

fun scan_ancestors :: "(string \<Rightarrow> string) \<Rightarrow> string \<Rightarrow> copy_node list \<Rightarrow> string list \<Rightarrow> gfs_error option" where
  "scan_ancestors nfc drive [] ids = None"
| "scan_ancestors nfc drive (a # as) ids =
     (case copy_rid (cn_resourceId a) of Inl e \<Rightarrow> Some e | Inr ancestorId \<Rightarrow>
      if ancestorId \<in> set ids \<or> cn_cycle a then Some failStructure
      else if cn_drive a \<noteq> drive then Some (GfsError GeCrossBoundary)
      else if cn_deletedAt a \<noteq> None then Some failStructure
      else if \<not> is_safe_integer (cn_version a) \<or> cn_version a < 0 then Some failStructure
      else if cn_kind a \<noteq> ''directory'' then Some (GfsError GeNotADirectory)
      else if cn_name a \<noteq> nfc (cn_name a) then Some failStructure
      else scan_ancestors nfc drive as (ids @ [ancestorId]))"

fun ancestry_error :: "(string \<Rightarrow> string) \<Rightarrow> copy_node list \<Rightarrow> gfs_error option" where
  "ancestry_error nfc [] = None"
| "ancestry_error nfc [n] =
     (if cn_parentResourceId n \<noteq> None \<or> cn_name n \<noteq> [] \<or> cn_pathCache n \<noteq> Some ''/'' then Some failStructure else None)"
| "ancestry_error nfc (n # next # ns) =
     (case cn_parentResourceId n of
        None \<Rightarrow> Some failStructure
      | Some rawParent \<Rightarrow>
          (case copy_rid rawParent of Inl e \<Rightarrow> Some e | Inr p \<Rightarrow>
          (case copy_rid (cn_resourceId next) of Inl e \<Rightarrow> Some e | Inr q \<Rightarrow>
           if p \<noteq> q \<or> cn_depth next \<noteq> cn_depth n + 1 then Some failStructure
           else (case valid_name nfc (cn_name n) of Inl e \<Rightarrow> Some e | Inr _ \<Rightarrow>
             (case (cn_pathCache n, cn_pathCache next) of
                (Some path, Some nextPath) \<Rightarrow>
                  (if path \<noteq> child_path nextPath (cn_name n) then Some failStructure else ancestry_error nfc (next # ns))
              | _ \<Rightarrow> Some failStructure)))))"

fun scan_children :: "(string \<Rightarrow> string) \<Rightarrow> string \<Rightarrow> (string \<times> string) list \<Rightarrow> string list \<Rightarrow> gfs_error option" where
  "scan_children nfc rootName [] ids = None"
| "scan_children nfc rootName ((rawId, name) # cs) ids =
     (case copy_rid rawId of Inl e \<Rightarrow> Some e | Inr childId \<Rightarrow>
      if childId \<in> set ids then Some failStructure
      else if name \<noteq> nfc name then Some failStructure
      else (case valid_name nfc name of Inl e \<Rightarrow> Some e | Inr _ \<Rightarrow>
        if name = rootName then Some (GfsError GeAlreadyExists)
        else scan_children nfc rootName cs (ids @ [childId])))"

section \<open>Preflight\<close>

definition copy_order :: "(string \<Rightarrow> 'k::linorder) \<Rightarrow> copy_node \<Rightarrow> int \<times> 'k" where
  "copy_order collate n =
     (cn_depth n, collate (case normalize_resource_id (cn_resourceId n) of None \<Rightarrow> cn_resourceId n | Some r \<Rightarrow> r))"

text \<open>Sorting compares two nodes of the same depth by their ids, and so refuses an id it cannot read there.\<close>

definition unsortable :: "copy_node list \<Rightarrow> bool" where
  "unsortable ns \<longleftrightarrow>
     (\<exists>n\<in>set ns. normalize_resource_id (cn_resourceId n) = None \<and> length (filter (\<lambda>m. cn_depth m = cn_depth n) ns) > 1)"

definition root_error :: "(string \<Rightarrow> string) \<Rightarrow> int option \<Rightarrow> copy_node list \<Rightarrow> copy_node option \<Rightarrow> gfs_error option" where
  "root_error nfc ifMatch nodes found =
     (case found of
        None \<Rightarrow> Some failStructure
      | Some root \<Rightarrow>
          (if cn_depth root \<noteq> 0 then Some failStructure
           else if length (filter (\<lambda>n. cn_depth n = 0) nodes) \<noteq> 1 then Some failStructure
           else if ifMatch \<noteq> Some (cn_version root) then Some (GfsError GePreconditionFailed)
           else (case cn_pathCache root of
                   None \<Rightarrow> Some failStructure
                 | Some path \<Rightarrow>
                     (case canonical_absolute_path nfc path of
                        Inl e \<Rightarrow> Some e
                      | Inr rootPath \<Rightarrow>
                          (if cn_parentResourceId root = None then
                             (if cn_name root \<noteq> [] \<or> rootPath \<noteq> ''/'' then Some failStructure else None)
                           else if last (js_split CHR ''/'' rootPath) \<noteq> cn_name root then Some failStructure
                           else None)))))"

definition find_destination :: "string \<Rightarrow> copy_node list \<Rightarrow> copy_node option" where
  "find_destination destinationId ancestors =
     find (\<lambda>n. copy_rid (cn_resourceId n) = Inr destinationId \<and> cn_depth n = 0) ancestors"

definition destination_error :: "(string \<Rightarrow> string) \<Rightarrow> string \<Rightarrow> string \<Rightarrow> copy_node list \<Rightarrow> gfs_error option" where
  "destination_error nfc drive destinationId ancestors =
     (case scan_ancestors nfc drive ancestors [] of
        Some e \<Rightarrow> Some e
      | None \<Rightarrow>
          (case find_destination destinationId ancestors of
             None \<Rightarrow> Some failStructure
           | Some _ \<Rightarrow> ancestry_error nfc ancestors))"

definition copy_source :: "(string \<Rightarrow> string) \<Rightarrow> copy_input \<Rightarrow> string \<Rightarrow> copy_node list \<Rightarrow>
   gfs_error + copy_scan \<times> copy_node \<times> (string, string option) js_map" where
  "copy_source nfc i sourceId nodes =
     (case scan_nodes nfc (ci_drive i) sourceId nodes \<lparr>sc_byId = [], sc_totalBytes = 0, sc_fileCount = 0, sc_folderCount = 0\<rparr> of
        Inl e \<Rightarrow> Inl e
      | Inr sc \<Rightarrow>
          (case root_error nfc (ci_ifMatch i) nodes (js_get (sc_byId sc) sourceId) of
             Some e \<Rightarrow> Inl e
           | None \<Rightarrow>
               (case scan_parents sourceId (sc_byId sc) nodes [] of
                  Inl e \<Rightarrow> Inl e
                | Inr parents \<Rightarrow> Inr (sc, the (js_get (sc_byId sc) sourceId), parents))))"

definition copy_target :: "(string \<Rightarrow> string) \<Rightarrow> copy_input \<Rightarrow> string \<Rightarrow> copy_scan \<Rightarrow> copy_node \<Rightarrow> gfs_error + string" where
  "copy_target nfc i destinationId sc root =
     (case destination_error nfc (ci_drive i) destinationId (sort_key cn_depth (cd_ancestors (ci_destination i))) of
        Some e \<Rightarrow> Inl e
      | None \<Rightarrow>
          (if js_get (sc_byId sc) destinationId \<noteq> None then Inl (GfsError GePathInvalid)
           else (case valid_name nfc (case ci_newName i of None \<Rightarrow> cn_name root | Some n \<Rightarrow> n) of
                   Inl e \<Rightarrow> Inl e
                 | Inr rootName \<Rightarrow>
                     (case scan_children nfc rootName (cd_liveChildren (ci_destination i)) [] of
                        Some e \<Rightarrow> Inl e
                      | None \<Rightarrow>
                          (if sc_totalBytes sc > ci_maxBytes i then Inl (GfsError GePayloadTooLarge) else Inr rootName)))))"

definition input_error :: "copy_input \<Rightarrow> gfs_error option" where
  "input_error i =
     (if ci_drive i = [] then Some (GfsError GePathInvalid)
      else (case assert_deadline i of Some e \<Rightarrow> Some e | None \<Rightarrow>
           (case assert_limit (ci_maxObjects i) of Some e \<Rightarrow> Some e | None \<Rightarrow> assert_limit (ci_maxBytes i))))"

definition preflight_copy :: "(string \<Rightarrow> string) \<Rightarrow> (string \<Rightarrow> 'k::linorder) \<Rightarrow> copy_input \<Rightarrow> gfs_error + copy_plan" where
  "preflight_copy nfc collate i =
     (case input_error i of Some e \<Rightarrow> Inl e | None \<Rightarrow>
     (case copy_rid (ci_sourceResourceId i) of Inl e \<Rightarrow> Inl e | Inr sourceId \<Rightarrow>
     (case copy_rid (ci_destinationParentId i) of Inl e \<Rightarrow> Inl e | Inr destinationId \<Rightarrow>
      if ci_snapshot i = [] then Inl (GfsError GeNotFound)
      else if int (length (ci_snapshot i)) > ci_maxObjects i then Inl (GfsError GePayloadTooLarge)
      else if cd_ancestors (ci_destination i) = [] then Inl (GfsError GeNotFound)
      else if unsortable (ci_snapshot i) then Inl (GfsError GePathInvalid)
      else (let nodes = sort_key (copy_order collate) (ci_snapshot i)
            in case copy_source nfc i sourceId nodes of Inl e \<Rightarrow> Inl e | Inr (sc, root, parents) \<Rightarrow>
               (case copy_target nfc i destinationId sc root of Inl e \<Rightarrow> Inl e | Inr rootName \<Rightarrow>
                Inr \<lparr>cp_nodes = nodes, cp_rootName = rootName, cp_objectCount = int (length nodes),
                     cp_fileCount = sc_fileCount sc, cp_folderCount = sc_folderCount sc,
                     cp_totalBytes = sc_totalBytes sc, cp_parents = parents\<rparr>)))))"

section \<open>Reservation\<close>

definition node_rid :: "copy_node \<Rightarrow> string" where
  "node_rid n = (case normalize_resource_id (cn_resourceId n) of None \<Rightarrow> [] | Some r \<Rightarrow> r)"

definition db_id :: "string \<Rightarrow> string" where
  "db_id v =
     (let r = (case normalize_resource_id v of None \<Rightarrow> [] | Some r \<Rightarrow> r)
      in take 8 r @ ''-'' @ take 4 (drop 8 r) @ ''-'' @ take 4 (drop 12 r) @ ''-'' @ take 4 (drop 16 r) @ ''-'' @ drop 20 r)"

record reserved_node =
  rn_source :: copy_node
  rn_resourceId :: string
  rn_parentResourceId :: string
  rn_name :: string
  rn_kind :: string
  rn_pathCache :: string
  rn_version :: int
  rn_bytes :: int
  rn_generation :: "string option"

text \<open>\<open>String(undefined)\<close> where a lookup the code takes for granted finds nothing.\<close>

definition js_present :: "string option \<Rightarrow> string" where
  "js_present v = (case v of None \<Rightarrow> ''undefined'' | Some s \<Rightarrow> s)"

fun reserve_nodes ::
  "(string, string) js_map \<Rightarrow> copy_plan \<Rightarrow> string \<Rightarrow> string \<Rightarrow> (nat \<Rightarrow> string) \<Rightarrow> copy_node list \<Rightarrow>
   (string, string) js_map \<Rightarrow> nat \<Rightarrow> gfs_error + reserved_node list" where
  "reserve_nodes ids plan destinationId destinationPath generation [] paths k = Inr []"
| "reserve_nodes ids plan destinationId destinationPath generation (n # ns) paths k =
     (case js_get (cp_parents plan) (node_rid n) of
        None \<Rightarrow> Inl (GfsError GePreconditionFailed)
      | Some oldParent \<Rightarrow>
          (let parentResourceId = (case oldParent of None \<Rightarrow> destinationId | Some p \<Rightarrow> js_present (js_get ids p));
               name = (if oldParent = None then cp_rootName plan else cn_name n);
               parentPath = (case oldParent of None \<Rightarrow> destinationPath | Some p \<Rightarrow> js_present (js_get paths p));
               pathCache = child_path parentPath name;
               isFile = (cn_kind n = ''file'')
           in case reserve_nodes ids plan destinationId destinationPath generation ns (js_set (node_rid n) pathCache paths)
                     (if isFile then Suc k else k) of
                Inl e \<Rightarrow> Inl e
              | Inr rs \<Rightarrow>
                  Inr (\<lparr>rn_source = n, rn_resourceId = js_present (js_get ids (node_rid n)), rn_parentResourceId = parentResourceId,
                        rn_name = name, rn_kind = cn_kind n, rn_pathCache = pathCache, rn_version = 0, rn_bytes = cn_bytes n,
                        rn_generation = (if isFile then Some (generation k) else None)\<rparr> # rs)))"

definition fresh_ids :: "(nat \<Rightarrow> string) \<Rightarrow> copy_node list \<Rightarrow> (string, string) js_map" where
  "fresh_ids newId ns = fold (\<lambda>(k, n) m. js_set (node_rid n) (db_id (newId k)) m) (enumerate 0 ns) []"

definition reserve :: "copy_plan \<Rightarrow> copy_input \<Rightarrow> (nat \<Rightarrow> string) \<Rightarrow> (nat \<Rightarrow> string) \<Rightarrow> gfs_error + reserved_node list" where
  "reserve plan i newId generation =
     (let destinationRid = (case normalize_resource_id (ci_destinationParentId i) of None \<Rightarrow> [] | Some r \<Rightarrow> r);
          path = js_present (Option.bind (find_destination destinationRid (cd_ancestors (ci_destination i))) cn_pathCache)
      in reserve_nodes (fresh_ids newId (cp_nodes plan)) plan (db_id (ci_destinationParentId i)) path generation (cp_nodes plan) [] 0)"

section \<open>Accepted plans\<close>

lemma js_set_fresh: "k \<notin> set (js_keys m) \<Longrightarrow> js_set k v m = m @ [(k, v)]"
  by (induction m) auto

lemma copy_rid_Inr: "copy_rid (cn_resourceId n) = Inr r \<longleftrightarrow> normalize_resource_id (cn_resourceId n) = Some r"
  by (auto simp: copy_rid_def split: option.splits)

lemma copy_rid_node: "copy_rid (cn_resourceId n) = Inr r \<Longrightarrow> node_rid n = r"
  by (auto simp: copy_rid_def node_rid_def split: option.splits)

definition scanned :: "(string \<Rightarrow> string) \<Rightarrow> string \<Rightarrow> string \<Rightarrow> copy_node \<Rightarrow> bool" where
  "scanned nfc drive sourceId n \<longleftrightarrow>
     normalize_resource_id (cn_resourceId n) = Some (node_rid n) \<and> node_error nfc drive sourceId (node_rid n) n = None \<and> 0 \<le> cn_bytes n"

text \<open>What a scan that succeeds has seen and counted.\<close>

lemma scan_nodes_Inr:
  "scan_nodes nfc drive sourceId ns sc = Inr sc' \<Longrightarrow> distinct (js_keys (sc_byId sc)) \<Longrightarrow>
   sc_byId sc' = sc_byId sc @ map (\<lambda>n. (node_rid n, n)) ns \<and> distinct (js_keys (sc_byId sc')) \<and>
   (\<forall>n\<in>set ns. scanned nfc drive sourceId n) \<and> sc_totalBytes sc' = sc_totalBytes sc + sum_list (map cn_bytes ns) \<and>
   sc_fileCount sc' = sc_fileCount sc + int (length (filter (\<lambda>n. cn_kind n = ''file'') ns)) \<and>
   sc_folderCount sc' = sc_folderCount sc + int (length (filter (\<lambda>n. cn_kind n = ''directory'') ns)) \<and>
   (sc_totalBytes sc \<le> 2 ^ 53 - 1 \<longrightarrow> sc_totalBytes sc' \<le> 2 ^ 53 - 1)"
proof (induction ns arbitrary: sc)
  case (Cons n ns)
  obtain r where r: "copy_rid (cn_resourceId n) = Inr r"
    using Cons.prems(1) by (cases "copy_rid (cn_resourceId n)") auto
  have rid: "node_rid n = r" "normalize_resource_id (cn_resourceId n) = Some r"
    using copy_rid_node [OF r] r copy_rid_Inr by auto
  have new: "r \<notin> set (js_keys (sc_byId sc))" and ok: "node_error nfc drive sourceId r n = None"
    using Cons.prems(1) r by (auto split: if_splits option.splits simp: map_of_eq_None_iff)
  have kind: "cn_kind n = ''file'' \<or> cn_kind n = ''directory''"
    using ok by (auto simp: node_error_def split: if_splits)
  have set: "js_set r n (sc_byId sc) = sc_byId sc @ [(r, n)]" by (rule js_set_fresh [OF new])
  let ?sc1 = "(if cn_kind n = ''file'' then sc\<lparr>sc_byId := sc_byId sc @ [(r, n)], sc_totalBytes := sc_totalBytes sc + cn_bytes n, sc_fileCount := sc_fileCount sc + 1\<rparr>
    else sc\<lparr>sc_byId := sc_byId sc @ [(r, n)], sc_folderCount := sc_folderCount sc + 1\<rparr>)"
  have step: "scan_nodes nfc drive sourceId ns ?sc1 = Inr sc'" and bytes: "0 \<le> cn_bytes n"
    and dir: "cn_kind n \<noteq> ''file'' \<Longrightarrow> cn_bytes n = 0" and total: "cn_kind n = ''file'' \<Longrightarrow> sc_totalBytes sc + cn_bytes n \<le> 2 ^ 53 - 1"
    using Cons.prems(1) r ok new set by (auto simp: Let_def map_of_eq_None_iff split: if_splits)
  have "distinct (js_keys (sc_byId ?sc1))" using Cons.prems(2) new by auto
  note ih = Cons.IH [OF step this]
  have "distinct (js_keys (sc_byId sc'))" using ih by blast
  moreover have "sc_byId sc' = sc_byId sc @ map (\<lambda>n. (node_rid n, n)) (n # ns)" using ih rid by auto
  moreover have "\<forall>m\<in>set (n # ns). scanned nfc drive sourceId m" using ih rid ok bytes by (simp add: scanned_def)
  moreover have "sc_totalBytes sc' = sc_totalBytes sc + sum_list (map cn_bytes (n # ns))" using ih dir by simp
  moreover have "sc_totalBytes sc \<le> 2 ^ 53 - 1 \<longrightarrow> sc_totalBytes sc' \<le> 2 ^ 53 - 1" using ih total by (auto split: if_splits)
  moreover have "sc_fileCount sc' = sc_fileCount sc + int (length (filter (\<lambda>n. cn_kind n = ''file'') (n # ns)))" using ih by simp
  moreover have "sc_folderCount sc' = sc_folderCount sc + int (length (filter (\<lambda>n. cn_kind n = ''directory'') (n # ns)))"
    using ih kind by auto
  ultimately show ?case by blast
qed simp

definition parent_of :: "string \<Rightarrow> copy_node \<Rightarrow> string option" where
  "parent_of sourceId n = (if node_rid n = sourceId then None else Option.bind (cn_parentResourceId n) normalize_resource_id)"

text \<open>A node below the root stands below a directory of the snapshot, one level up, under the path that implies.\<close>

definition below_parent :: "string \<Rightarrow> (string, copy_node) js_map \<Rightarrow> copy_node \<Rightarrow> bool" where
  "below_parent sourceId byId n \<longleftrightarrow> node_rid n = sourceId \<or>
     (\<exists>p parent path. parent_of sourceId n = Some p \<and> js_get byId p = Some parent \<and> cn_kind parent = ''directory'' \<and>
        cn_depth parent + 1 = cn_depth n \<and> cn_pathCache parent = Some path \<and> cn_pathCache n = Some (child_path path (cn_name n)))"

lemma scan_parents_Inr:
  "scan_parents sourceId byId ns ps = Inr ps' \<Longrightarrow> distinct (map node_rid ns) \<Longrightarrow> set (map node_rid ns) \<inter> set (js_keys ps) = {} \<Longrightarrow>
   ps' = ps @ map (\<lambda>n. (node_rid n, parent_of sourceId n)) ns \<and> (\<forall>n\<in>set ns. below_parent sourceId byId n)"
proof (induction ns arbitrary: ps)
  case (Cons n ns)
  obtain r where r: "copy_rid (cn_resourceId n) = Inr r"
    using Cons.prems(1) by (cases "copy_rid (cn_resourceId n)") auto
  have rid: "node_rid n = r" by (rule copy_rid_node [OF r])
  have set: "js_set r v ps = ps @ [(r, v)]" for v using Cons.prems(3) rid by (intro js_set_fresh) auto
  have rest: "distinct (map node_rid ns)" "set (map node_rid ns) \<inter> set (js_keys (ps @ [(r, v)])) = {}" for v
    using Cons.prems(2,3) rid by auto
  show ?case
  proof (cases "r = sourceId")
    case True
    then have "scan_parents sourceId byId ns (ps @ [(r, None)]) = Inr ps'" using Cons.prems(1) r set by simp
    from Cons.IH [OF this rest] show ?thesis using True rid by (simp add: parent_of_def below_parent_def)
  next
    case False
    then obtain raw p parent path where
      n: "cn_parentResourceId n = Some raw" "copy_rid raw = Inr p" "js_get byId p = Some parent" "cn_kind parent = ''directory''"
        "cn_depth parent + 1 = cn_depth n" "cn_pathCache parent = Some path" "cn_pathCache n = Some (child_path path (cn_name n))"
      and go: "scan_parents sourceId byId ns (ps @ [(r, Some p)]) = Inr ps'"
      using Cons.prems(1) r set by (auto split: option.splits sum.splits if_splits)
    have "parent_of sourceId n = Some p"
      using n(1,2) False rid by (auto simp: parent_of_def copy_rid_def split: option.splits)
    then show ?thesis using Cons.IH [OF go rest] n rid by (auto simp: below_parent_def)
  qed
qed simp

definition no_scan :: copy_scan where
  "no_scan = \<lparr>sc_byId = [], sc_totalBytes = 0, sc_fileCount = 0, sc_folderCount = 0\<rparr>"

lemma preflight_copy_cases:
  assumes "preflight_copy nfc collate i = Inr plan"
  obtains src dst sc root where
    "copy_rid (ci_sourceResourceId i) = Inr src" "copy_rid (ci_destinationParentId i) = Inr dst"
    "cp_nodes plan = sort_key (copy_order collate) (ci_snapshot i)" "ci_snapshot i \<noteq> []"
    "int (length (ci_snapshot i)) \<le> ci_maxObjects i" "ci_nowMs i < ci_deadlineAtMs i"
    "scan_nodes nfc (ci_drive i) src (cp_nodes plan) no_scan = Inr sc"
    "js_get (sc_byId sc) src = Some root" "root_error nfc (ci_ifMatch i) (cp_nodes plan) (Some root) = None"
    "scan_parents src (sc_byId sc) (cp_nodes plan) [] = Inr (cp_parents plan)"
    "copy_target nfc i dst sc root = Inr (cp_rootName plan)"
    "cp_objectCount plan = int (length (cp_nodes plan))" "cp_fileCount plan = sc_fileCount sc"
    "cp_folderCount plan = sc_folderCount sc" "cp_totalBytes plan = sc_totalBytes sc"
proof -
  have ok: "input_error i = None" using assms by (auto simp: preflight_copy_def split: option.splits)
  obtain src where src: "copy_rid (ci_sourceResourceId i) = Inr src"
    using assms ok by (cases "copy_rid (ci_sourceResourceId i)") (auto simp: preflight_copy_def)
  obtain dst where dst: "copy_rid (ci_destinationParentId i) = Inr dst"
    using assms ok src by (cases "copy_rid (ci_destinationParentId i)") (auto simp: preflight_copy_def)
  define nodes where "nodes = sort_key (copy_order collate) (ci_snapshot i)"
  note run = assms [unfolded preflight_copy_def ok src dst option.case sum.case Let_def nodes_def [symmetric]]
  have lim: "ci_snapshot i \<noteq> []" "int (length (ci_snapshot i)) \<le> ci_maxObjects i" using run by (auto split: if_splits)
  have run': "(case copy_source nfc i src nodes of Inl e \<Rightarrow> Inl e | Inr (sc, root, parents) \<Rightarrow>
      (case copy_target nfc i dst sc root of Inl e \<Rightarrow> Inl e | Inr rootName \<Rightarrow>
       Inr \<lparr>cp_nodes = nodes, cp_rootName = rootName, cp_objectCount = int (length nodes), cp_fileCount = sc_fileCount sc,
         cp_folderCount = sc_folderCount sc, cp_totalBytes = sc_totalBytes sc, cp_parents = parents\<rparr>)) = Inr plan"
    using run by (simp split: if_splits)
  obtain sc root parents where source: "copy_source nfc i src nodes = Inr (sc, root, parents)"
    using run' by (cases "copy_source nfc i src nodes") auto
  obtain name where target: "copy_target nfc i dst sc root = Inr name"
    using run' unfolding source by (cases "copy_target nfc i dst sc root") auto
  have plan: "plan = \<lparr>cp_nodes = nodes, cp_rootName = name, cp_objectCount = int (length nodes), cp_fileCount = sc_fileCount sc,
      cp_folderCount = sc_folderCount sc, cp_totalBytes = sc_totalBytes sc, cp_parents = parents\<rparr>"
    using run' by (simp add: source target)
  obtain scan: "scan_nodes nfc (ci_drive i) src nodes no_scan = Inr sc"
    and root: "root_error nfc (ci_ifMatch i) nodes (js_get (sc_byId sc) src) = None"
    and parents: "scan_parents src (sc_byId sc) nodes [] = Inr parents" and r: "root = the (js_get (sc_byId sc) src)"
    using source by (auto simp: copy_source_def no_scan_def split: sum.splits option.splits)
  have "js_get (sc_byId sc) src = Some root" using root r by (auto simp: root_error_def split: option.splits)
  moreover have "ci_nowMs i < ci_deadlineAtMs i"
    using ok by (auto simp: input_error_def assert_deadline_def split: if_splits option.splits)
  ultimately show ?thesis using that src dst scan root parents target lim unfolding plan nodes_def by simp
qed

text \<open>The chain of parents above a node.\<close>

fun ancestor_at :: "(string, string option) js_map \<Rightarrow> nat \<Rightarrow> string \<Rightarrow> string option" where
  "ancestor_at parents 0 r = Some r"
| "ancestor_at parents (Suc k) r = (case js_get parents r of Some (Some p) \<Rightarrow> ancestor_at parents k p | _ \<Rightarrow> None)"

lemma plan_tree:
  assumes "preflight_copy nfc collate i = Inr plan"
  obtains src dst sc root where
    "copy_rid (ci_sourceResourceId i) = Inr src" "copy_rid (ci_destinationParentId i) = Inr dst"
    "distinct (map node_rid (cp_nodes plan))" "sc_byId sc = map (\<lambda>n. (node_rid n, n)) (cp_nodes plan)"
    "\<forall>n\<in>set (cp_nodes plan). scanned nfc (ci_drive i) src n" "\<forall>n\<in>set (cp_nodes plan). below_parent src (sc_byId sc) n"
    "cp_parents plan = map (\<lambda>n. (node_rid n, parent_of src n)) (cp_nodes plan)"
    "root \<in> set (cp_nodes plan)" "node_rid root = src" "cn_depth root = 0"
    "sc_totalBytes sc = sum_list (map cn_bytes (cp_nodes plan))" "sc_totalBytes sc \<le> 2 ^ 53 - 1"
    "sc_fileCount sc = int (length (filter (\<lambda>n. cn_kind n = ''file'') (cp_nodes plan)))"
    "sc_folderCount sc = int (length (filter (\<lambda>n. cn_kind n = ''directory'') (cp_nodes plan)))"
    "cp_nodes plan = sort_key (copy_order collate) (ci_snapshot i)" "int (length (ci_snapshot i)) \<le> ci_maxObjects i"
    "ci_nowMs i < ci_deadlineAtMs i" "cp_objectCount plan = int (length (cp_nodes plan))"
    "copy_target nfc i dst sc root = Inr (cp_rootName plan)" "cp_totalBytes plan = sc_totalBytes sc"
    "cp_fileCount plan = sc_fileCount sc" "cp_folderCount plan = sc_folderCount sc"
proof (rule preflight_copy_cases [OF assms], goal_cases)
  case (1 src dst sc root)
  note scan = scan_nodes_Inr [OF 1(8), unfolded no_scan_def, simplified]
  have byId: "sc_byId sc = map (\<lambda>n. (node_rid n, n)) (cp_nodes plan)" using scan by blast
  have "distinct (js_keys (sc_byId sc))" using scan by blast
  then have d: "distinct (map node_rid (cp_nodes plan))" unfolding byId by (simp add: comp_def)
  note par = scan_parents_Inr [OF 1(11) d, simplified]
  have "(src, root) \<in> set (sc_byId sc)" using 1(9) by (rule map_of_SomeD)
  then have root: "root \<in> set (cp_nodes plan)" "node_rid root = src" unfolding byId by auto
  have depth: "cn_depth root = 0" using 1(10) by (auto simp: root_error_def split: if_splits)
  show ?case
    by (rule that [OF 1(2,3) d byId _ _ _ root depth _ _ _ _ 1(4,6,7,13,12,16,14,15)]) (use scan par in simp_all)
qed

lemma node_error_depth: "node_error nfc drive src r n = None \<Longrightarrow> 0 \<le> cn_depth n \<and> cn_drive n = drive \<and> cn_deletedAt n = None \<and>
    (cn_kind n = ''file'' \<or> cn_kind n = ''directory'')"
  by (auto simp: node_error_def split: if_splits)

lemma chain_to_source:
  assumes "distinct (map node_rid ns)" and "\<forall>n\<in>set ns. below_parent src (map (\<lambda>n. (node_rid n, n)) ns) n"
    and "\<forall>n\<in>set ns. 0 \<le> cn_depth n" and "root \<in> set ns" and "node_rid root = src" and "cn_depth root = 0"
    and "n \<in> set ns" and "cn_depth n = int k"
  shows "ancestor_at (map (\<lambda>n. (node_rid n, parent_of src n)) ns) k (node_rid n) = Some src"
  using assms(7,8)
proof (induction k arbitrary: n)
  case 0
  have "node_rid n = src"
  proof (rule ccontr)
    assume "node_rid n \<noteq> src"
    then obtain p parent where "map_of (map (\<lambda>n. (node_rid n, n)) ns) p = Some parent" "cn_depth parent + 1 = cn_depth n"
      using assms(2) 0(1) by (auto simp: below_parent_def)
    moreover from this(1) have "parent \<in> set ns" by (auto dest: map_of_SomeD)
    ultimately show False using assms(3) 0(2) by force
  qed
  then show ?case by simp
next
  case (Suc k)
  have "n \<noteq> root" using Suc.prems(2) assms(6) by auto
  then have other: "node_rid n \<noteq> src" using assms(1,4,5) Suc.prems(1) by (metis distinct_map inj_onD)
  then obtain p parent where p: "parent_of src n = Some p" "map_of (map (\<lambda>n. (node_rid n, n)) ns) p = Some parent"
    "cn_depth parent + 1 = cn_depth n"
    using assms(2) Suc.prems(1) by (auto simp: below_parent_def)
  from p(2) have parent: "parent \<in> set ns" "node_rid parent = p" by (auto dest: map_of_SomeD)
  have "map_of (map (\<lambda>n. (node_rid n, parent_of src n)) ns) (node_rid n) = Some (Some p)"
    using assms(1) Suc.prems(1) p(1) by (subst map_of_eq_Some_iff) (auto simp: comp_def image_iff intro!: bexI [of _ n])
  then show ?case using Suc.IH [OF parent(1)] p(3) Suc.prems(2) parent(2) by simp
qed

lemma scan_children_None: "scan_children nfc name cs ids = None \<Longrightarrow> name \<notin> snd ` set cs"
  by (induction nfc name cs ids rule: scan_children.induct) (auto split: sum.splits if_splits)

section \<open>A sample\<close>

definition demo_rid :: "char \<Rightarrow> string" where
  "demo_rid c = replicate 32 c"

definition demo_copy_node :: "char \<Rightarrow> string option \<Rightarrow> string \<Rightarrow> string \<Rightarrow> string \<Rightarrow> int \<Rightarrow> int \<Rightarrow> copy_node" where
  "demo_copy_node c parent name kind path bytes depth =
     \<lparr>cn_resourceId = demo_rid c, cn_drive = ''main'', cn_parentResourceId = parent, cn_name = name, cn_kind = kind,
      cn_pathCache = Some path, cn_version = 1, cn_bytes = bytes, cn_blobKey = None, cn_contentSha256 = None,
      cn_deletedAt = None, cn_depth = depth, cn_cycle = False, cn_underTombstone = False\<rparr>"

definition demo_folder :: copy_node where
  "demo_folder = demo_copy_node CHR ''a'' (Some (demo_rid CHR ''0'')) ''a'' ''directory'' ''/a'' 0 0"

definition demo_file :: copy_node where
  "demo_file = demo_copy_node CHR ''b'' (Some (demo_rid CHR ''a'')) ''f'' ''file'' ''/a/f'' 3 1"

definition demo_copy :: copy_input where
  "demo_copy = \<lparr>ci_drive = ''main'', ci_sourceResourceId = demo_rid CHR ''a'', ci_destinationParentId = demo_rid CHR ''c'',
     ci_newName = Some ''n'', ci_ifMatch = Some 1, ci_snapshot = [demo_file, demo_folder],
     ci_destination = \<lparr>cd_ancestors = [demo_copy_node CHR ''c'' (Some (demo_rid CHR ''0'')) ''c'' ''directory'' ''/c'' 0 0,
        demo_copy_node CHR ''0'' None [] ''directory'' ''/'' 0 1], cd_liveChildren = []\<rparr>,
     ci_maxObjects = 10, ci_maxBytes = 100, ci_deadlineAtMs = 9, ci_nowMs = 1\<rparr>"

definition demo_plan :: copy_plan where
  "demo_plan = \<lparr>cp_nodes = [demo_folder, demo_file], cp_rootName = ''n'', cp_objectCount = 2, cp_fileCount = 1, cp_folderCount = 1,
     cp_totalBytes = 3, cp_parents = [(demo_rid CHR ''a'', None), (demo_rid CHR ''b'', Some (demo_rid CHR ''a''))]\<rparr>"

lemma demo_copy_accepted: "preflight_copy (\<lambda>s. s) length demo_copy = Inr demo_plan"
  by code_simp

text \<open>C17: an accepted copy is one tree. When the preflight accepts, the nodes of the plan are those of the snapshot,
  with distinct ids, live and in the drive of the request, and every node reaches the requested source by as
  many parent steps as its depth says, so there is no cycle and no second root. The destination is not among
  them and its children do not have the new name yet. The counts of objects, files and folders and the total of
  bytes are those of the nodes, the objects and the bytes are within the limits, and the deadline has not passed.\<close>

theorem accepted_copy_is_a_tree:
  assumes "preflight_copy nfc collate i = Inr plan"
  shows "\<exists>src dst. copy_rid (ci_sourceResourceId i) = Inr src \<and> copy_rid (ci_destinationParentId i) = Inr dst \<and>
    mset (cp_nodes plan) = mset (ci_snapshot i) \<and> distinct (map node_rid (cp_nodes plan)) \<and>
    (\<forall>n\<in>set (cp_nodes plan). cn_drive n = ci_drive i \<and> cn_deletedAt n = None \<and>
       ancestor_at (cp_parents plan) (nat (cn_depth n)) (node_rid n) = Some src) \<and>
    dst \<notin> node_rid ` set (cp_nodes plan) \<and> cp_rootName plan \<notin> snd ` set (cd_liveChildren (ci_destination i)) \<and>
    cp_totalBytes plan = (\<Sum>n\<leftarrow>cp_nodes plan. cn_bytes n) \<and> cp_totalBytes plan \<le> min (ci_maxBytes i) (2 ^ 53 - 1) \<and>
    cp_objectCount plan = int (length (cp_nodes plan)) \<and> cp_objectCount plan \<le> ci_maxObjects i \<and>
    cp_fileCount plan = int (length (filter (\<lambda>n. cn_kind n = ''file'') (cp_nodes plan))) \<and>
    cp_folderCount plan = int (length (filter (\<lambda>n. cn_kind n = ''directory'') (cp_nodes plan))) \<and>
    cp_fileCount plan + cp_folderCount plan = cp_objectCount plan \<and> ci_nowMs i < ci_deadlineAtMs i"
proof (rule plan_tree [OF assms], goal_cases)
  case (1 src dst sc root)
  let ?ns = "cp_nodes plan"
  have node: "0 \<le> cn_depth n" "cn_drive n = ci_drive i" "cn_deletedAt n = None" "cn_kind n = ''file'' \<or> cn_kind n = ''directory''"
    if "n \<in> set ?ns" for n
    using 1(5) that node_error_depth [of nfc "ci_drive i" src "node_rid n" n] by (auto simp: scanned_def)
  have chain: "ancestor_at (cp_parents plan) (nat (cn_depth n)) (node_rid n) = Some src" if "n \<in> set ?ns" for n
    using chain_to_source [OF 1(3) 1(6) [unfolded 1(4)] _ 1(8,9,10) that, of "nat (cn_depth n)"] node(1) that unfolding 1(7) by simp
  have "js_get (sc_byId sc) dst = None" and children: "cp_rootName plan \<notin> snd ` set (cd_liveChildren (ci_destination i))"
    and max: "sc_totalBytes sc \<le> ci_maxBytes i"
    using 1(19) by (auto simp: copy_target_def split: option.splits if_splits sum.splits dest: scan_children_None)
  then have outside: "dst \<notin> node_rid ` set ?ns" unfolding 1(4) map_of_eq_None_iff by (simp add: image_image)
  have "filter (\<lambda>n. cn_kind n = ''directory'') ?ns = filter (\<lambda>n. cn_kind n \<noteq> ''file'') ?ns"
    using node(4) by (intro filter_cong) auto
  then have counts: "cp_fileCount plan + cp_folderCount plan = cp_objectCount plan"
    using 1 sum_length_filter_compl [of "\<lambda>n. cn_kind n = ''file''" ?ns] by simp
  show ?case
    by (rule exI [of _ src], rule exI [of _ dst]) (use 1 node chain outside children max counts in simp)
qed

lemma accepted_copy_is_a_tree_witness:
  "cp_totalBytes demo_plan = (\<Sum>n\<leftarrow>cp_nodes demo_plan. cn_bytes n) \<and> cp_totalBytes demo_plan = 3 \<and>
   distinct (map node_rid (cp_nodes demo_plan))"
  using accepted_copy_is_a_tree [OF demo_copy_accepted] by (auto simp: demo_plan_def)

section \<open>What is reserved\<close>

lemma fresh_ids_from:
  "distinct (map node_rid ns) \<Longrightarrow> k < length ns \<Longrightarrow>
   js_get (fold (\<lambda>(k, n) m. js_set (node_rid n) (db_id (newId k)) m) (enumerate j ns) m) (node_rid (ns ! k)) = Some (db_id (newId (j + k)))"
proof (induction ns arbitrary: j k m)
  case (Cons n ns)
  have other: "js_get (fold (\<lambda>(k, n) m. js_set (node_rid n) (db_id (newId k)) m) (enumerate j ms) m) r = js_get m r"
    if "r \<notin> node_rid ` set ms" for ms j m r
    using that by (induction ms arbitrary: j m) auto
  show ?case
  proof (cases k)
    case 0
    then show ?thesis using Cons.prems(1) other [of "node_rid n" ns] by simp
  next
    case (Suc k')
    then show ?thesis using Cons.IH [of k' "Suc j"] Cons.prems by simp
  qed
qed simp

lemma fresh_ids_nth:
  "distinct (map node_rid ns) \<Longrightarrow> k < length ns \<Longrightarrow> js_get (fresh_ids newId ns) (node_rid (ns ! k)) = Some (db_id (newId k))"
  using fresh_ids_from [of ns k newId 0 "[]"] by (simp add: fresh_ids_def)

lemma js_present_Some [simp]: "js_present (Some s) = s"
  by (simp add: js_present_def)

text \<open>One reserved row, given the rows reserved before it and the paths known at the start.\<close>

definition reserved_row ::
  "copy_plan \<Rightarrow> string \<Rightarrow> string \<Rightarrow> (string, string) js_map \<Rightarrow> (string, string) js_map \<Rightarrow> copy_node list \<Rightarrow> reserved_node list \<Rightarrow> nat \<Rightarrow> bool" where
  "reserved_row plan dst dpath ids paths ns rs j \<longleftrightarrow>
     rn_resourceId (rs ! j) = js_present (js_get ids (node_rid (ns ! j))) \<and> rn_kind (rs ! j) = cn_kind (ns ! j) \<and>
     rn_bytes (rs ! j) = cn_bytes (ns ! j) \<and>
     (case the (js_get (cp_parents plan) (node_rid (ns ! j))) of
        None \<Rightarrow> rn_parentResourceId (rs ! j) = dst \<and> rn_name (rs ! j) = cp_rootName plan \<and>
          rn_pathCache (rs ! j) = child_path dpath (cp_rootName plan)
      | Some p \<Rightarrow> rn_parentResourceId (rs ! j) = js_present (js_get ids p) \<and> rn_name (rs ! j) = cn_name (ns ! j) \<and>
          (\<forall>i<j. node_rid (ns ! i) = p \<longrightarrow> rn_pathCache (rs ! j) = child_path (rn_pathCache (rs ! i)) (cn_name (ns ! j))) \<and>
          (p \<notin> node_rid ` set (take j ns) \<longrightarrow> rn_pathCache (rs ! j) = child_path (js_present (js_get paths p)) (cn_name (ns ! j))))"

lemma reserved_row_Suc:
  assumes "reserved_row plan dst dpath ids (js_set (node_rid n) (rn_pathCache r) paths) ns rs j" and "node_rid n \<notin> node_rid ` set ns"
  shows "reserved_row plan dst dpath ids paths (n # ns) (r # rs) (Suc j)"
proof (cases "the (js_get (cp_parents plan) (node_rid (ns ! j)))")
  case None
  then show ?thesis using assms(1) by (simp add: reserved_row_def)
next
  case (Some p)
  have "rn_pathCache (rs ! j) = child_path (rn_pathCache r) (cn_name (ns ! j))" if "node_rid n = p"
  proof -
    have "p \<notin> node_rid ` set (take j ns)" using assms(2) that set_take_subset [of j ns] by auto
    then show ?thesis using assms(1) Some that by (simp add: reserved_row_def)
  qed
  then show ?thesis using assms(1) Some by (auto simp: reserved_row_def less_Suc_eq_0_disj)
qed

lemma reserve_nodes_Inr:
  assumes "\<forall>n\<in>set ns. js_get (cp_parents plan) (node_rid n) \<noteq> None" and "distinct (map node_rid ns)"
  shows "\<exists>rs. reserve_nodes ids plan dst dpath gen ns paths k = Inr rs \<and> map rn_source rs = ns \<and>
    (\<forall>j<length ns. reserved_row plan dst dpath ids paths ns rs j)"
  using assms
proof (induction ns arbitrary: paths k)
  case (Cons n ns)
  obtain oldParent where op: "js_get (cp_parents plan) (node_rid n) = Some oldParent" using Cons.prems(1) by auto
  let ?name = "if oldParent = None then cp_rootName plan else cn_name n"
  let ?path = "child_path (case oldParent of None \<Rightarrow> dpath | Some p \<Rightarrow> js_present (js_get paths p)) ?name"
  let ?k = "if cn_kind n = ''file'' then Suc k else k"
  define r where "r = \<lparr>rn_source = n, rn_resourceId = js_present (js_get ids (node_rid n)),
      rn_parentResourceId = (case oldParent of None \<Rightarrow> dst | Some p \<Rightarrow> js_present (js_get ids p)), rn_name = ?name, rn_kind = cn_kind n,
      rn_pathCache = ?path, rn_version = 0, rn_bytes = cn_bytes n, rn_generation = (if cn_kind n = ''file'' then Some (gen k) else None)\<rparr>"
  obtain rs where rs: "reserve_nodes ids plan dst dpath gen ns (js_set (node_rid n) ?path paths) ?k = Inr rs" "map rn_source rs = ns"
    and all: "\<forall>j<length ns. reserved_row plan dst dpath ids (js_set (node_rid n) ?path paths) ns rs j"
    using Cons.IH [of "js_set (node_rid n) ?path paths" ?k] Cons.prems by auto
  have run: "reserve_nodes ids plan dst dpath gen (n # ns) paths k = Inr (r # rs)" using op rs(1) by (simp add: Let_def r_def)
  have path: "rn_pathCache r = ?path" by (simp add: r_def)
  have row: "reserved_row plan dst dpath ids paths (n # ns) (r # rs) j" if "j < length (n # ns)" for j
  proof (cases j)
    case 0
    then show ?thesis using op by (auto simp: reserved_row_def r_def split: option.splits)
  next
    case (Suc j')
    have "node_rid n \<notin> node_rid ` set ns" using Cons.prems(2) by auto
    then show ?thesis using reserved_row_Suc [of plan dst dpath ids n r paths ns rs j'] all that Suc path by simp
  qed
  have "map rn_source (r # rs) = n # ns" using rs(2) by (simp add: r_def)
  then show ?case using run row by (intro exI [of _ "r # rs"]) simp
qed simp

lemma order_depth: "copy_order collate n \<le> copy_order collate m \<Longrightarrow> cn_depth n \<le> cn_depth m"
  by (auto simp: copy_order_def less_eq_prod_def)

lemma sorted_depths:
  assumes "j \<le> k" and "k < length (sort_key (copy_order collate) ns)"
  shows "cn_depth (sort_key (copy_order collate) ns ! j) \<le> cn_depth (sort_key (copy_order collate) ns ! k)"
  using assms sorted_nth_mono [OF sorted_sort_key [of "copy_order collate" ns], of j k] order_depth by fastforce

lemma ancestry_paths: "ancestry_error nfc as = None \<Longrightarrow> a \<in> set as \<Longrightarrow> cn_pathCache a \<noteq> None"
proof (induction nfc as rule: ancestry_error.induct)
  case (3 nfc n nxt ns)
  then show ?case by (cases "a = n") (auto split: option.splits sum.splits if_splits)
qed (auto split: if_splits)

lemma found_destination:
  assumes "copy_target nfc i dst sc root = Inr name"
  obtains d path where "find_destination dst (cd_ancestors (ci_destination i)) = Some d" "d \<in> set (cd_ancestors (ci_destination i))"
    "node_rid d = dst" "cn_depth d = 0" "cn_pathCache d = Some path"
proof -
  let ?as = "cd_ancestors (ci_destination i)"
  have ok: "destination_error nfc (ci_drive i) dst (sort_key cn_depth ?as) = None"
    using assms by (auto simp: copy_target_def split: option.splits)
  then obtain d0 where "find_destination dst (sort_key cn_depth ?as) = Some d0" and anc: "ancestry_error nfc (sort_key cn_depth ?as) = None"
    by (auto simp: destination_error_def split: option.splits)
  from find_SomeD [OF this(1) [unfolded find_destination_def]]
  have "d0 \<in> set ?as" "copy_rid (cn_resourceId d0) = Inr dst \<and> cn_depth d0 = 0" by auto
  then have "find_destination dst ?as \<noteq> None" by (auto simp: find_destination_def find_None_iff)
  then obtain d where d: "find_destination dst ?as = Some d" by auto
  from find_SomeD [OF d [unfolded find_destination_def]]
  have mem: "d \<in> set ?as" "copy_rid (cn_resourceId d) = Inr dst" "cn_depth d = 0" by auto
  moreover obtain path where "cn_pathCache d = Some path" using ancestry_paths [OF anc, of d] mem(1) by auto
  ultimately show ?thesis using that d copy_rid_node by blast
qed

text \<open>C16: the copy mirrors the source. For an accepted plan the reservation succeeds with one new row per node, in
  the order of the plan. The first is the root: it stands below the destination under the new name. Every
  other row has the name, kind and size of its node and stands below the row reserved for that node's parent,
  which comes earlier, under the path that parent implies: the copy has the shape of the source and no
  row is inserted before its parent.\<close>

theorem copy_mirrors_the_source:
  assumes "preflight_copy nfc collate i = Inr plan"
  shows "\<exists>rs. reserve plan i newId generation = Inr rs \<and> map rn_source rs = cp_nodes plan \<and>
    (\<forall>k<length rs. rn_resourceId (rs ! k) = db_id (newId k) \<and> rn_kind (rs ! k) = cn_kind (cp_nodes plan ! k) \<and>
       rn_bytes (rs ! k) = cn_bytes (cp_nodes plan ! k) \<and>
       (if k = 0 then rn_parentResourceId (rs ! k) = db_id (ci_destinationParentId i) \<and> rn_name (rs ! k) = cp_rootName plan \<and>
          (\<exists>d\<in>set (cd_ancestors (ci_destination i)). copy_rid (ci_destinationParentId i) = Inr (node_rid d) \<and>
             rn_pathCache (rs ! k) = child_path (the (cn_pathCache d)) (cp_rootName plan))
        else (\<exists>j<k. js_get (cp_parents plan) (node_rid (cp_nodes plan ! k)) = Some (Some (node_rid (cp_nodes plan ! j))) \<and>
          rn_parentResourceId (rs ! k) = rn_resourceId (rs ! j) \<and> rn_name (rs ! k) = cn_name (cp_nodes plan ! k) \<and>
          rn_pathCache (rs ! k) = child_path (rn_pathCache (rs ! j)) (rn_name (rs ! k)))))"
proof (rule plan_tree [OF assms], goal_cases)
  case (1 src dst sc root)
  let ?ns = "cp_nodes plan"
  have keys: "js_get (cp_parents plan) (node_rid n) = Some (parent_of src n)" if "n \<in> set ?ns" for n
    using 1(3) that unfolding 1(7) by (subst map_of_eq_Some_iff) (auto simp: comp_def image_iff intro!: bexI [of _ n])
  obtain d path where d: "find_destination dst (cd_ancestors (ci_destination i)) = Some d" "d \<in> set (cd_ancestors (ci_destination i))"
    "node_rid d = dst" "cn_pathCache d = Some path"
    using found_destination [OF 1(19)] by metis
  have rid: "normalize_resource_id (ci_destinationParentId i) = Some dst"
    using 1(2) by (auto simp: copy_rid_def split: option.splits)
  have "\<forall>n\<in>set ?ns. js_get (cp_parents plan) (node_rid n) \<noteq> None" using keys by simp
  from reserve_nodes_Inr [OF this 1(3), of "fresh_ids newId ?ns" "db_id (ci_destinationParentId i)" path generation "[]" 0]
  obtain rs where rs: "reserve plan i newId generation = Inr rs" "map rn_source rs = ?ns" and
    all: "\<forall>j<length ?ns. reserved_row plan (db_id (ci_destinationParentId i)) path (fresh_ids newId ?ns) [] ?ns rs j"
    unfolding reserve_def Let_def rid by (auto simp: d)
  have len: "length rs = length ?ns" using rs(2) by (metis length_map)
  have depth: "0 \<le> cn_depth n" if "n \<in> set ?ns" for n
    using 1(5) that node_error_depth [of nfc "ci_drive i" src "node_rid n" n] by (auto simp: scanned_def)
  have index: "j = k" if "j < length ?ns" "k < length ?ns" "node_rid (?ns ! j) = node_rid (?ns ! k)" for j k
    using 1(3) that nth_eq_iff_index_eq [of "map node_rid ?ns" j k] by simp
  obtain r where r: "r < length ?ns" "?ns ! r = root" using 1(8) by (auto simp: in_set_conv_nth)
  have "cn_depth (?ns ! 0) \<le> cn_depth root"
    using r sorted_depths [of 0 r collate "ci_snapshot i"] unfolding 1(15) by simp
  moreover have ne: "?ns ! 0 \<in> set ?ns" using r(1) by (cases ?ns) auto
  ultimately have "cn_depth (?ns ! 0) = int 0" using depth [OF ne] 1(10) by simp
  from chain_to_source [OF 1(3) 1(6) [unfolded 1(4)] _ 1(8,9,10) ne this] depth
  have first: "node_rid (?ns ! 0) = src" by simp
  have row: "rn_resourceId (rs ! k) = db_id (newId k) \<and> rn_kind (rs ! k) = cn_kind (?ns ! k) \<and> rn_bytes (rs ! k) = cn_bytes (?ns ! k)"
    if "k < length ?ns" for k
    using all [rule_format, OF that] fresh_ids_nth [OF 1(3) that, of newId] by (simp add: reserved_row_def)
  have root_row: "rn_parentResourceId (rs ! 0) = db_id (ci_destinationParentId i) \<and> rn_name (rs ! 0) = cp_rootName plan \<and>
      rn_pathCache (rs ! 0) = child_path path (cp_rootName plan)"
  proof -
    have "parent_of src (?ns ! 0) = None" using first by (simp add: parent_of_def)
    moreover have "0 < length ?ns" using r(1) by linarith
    from all [rule_format, OF this]
    have "reserved_row plan (db_id (ci_destinationParentId i)) path (fresh_ids newId ?ns) [] ?ns rs 0" .
    ultimately show ?thesis using keys [OF ne] by (simp add: reserved_row_def)
  qed
  have below: "\<exists>j<k. js_get (cp_parents plan) (node_rid (?ns ! k)) = Some (Some (node_rid (?ns ! j))) \<and>
      rn_parentResourceId (rs ! k) = rn_resourceId (rs ! j) \<and> rn_name (rs ! k) = cn_name (?ns ! k) \<and>
      rn_pathCache (rs ! k) = child_path (rn_pathCache (rs ! j)) (rn_name (rs ! k))"
    if k: "k < length ?ns" "k \<noteq> 0" for k
  proof -
    have "0 < length ?ns" using r(1) by linarith
    from index [OF this k(1)] have "node_rid (?ns ! k) \<noteq> src" using first k(2) by auto
    then obtain p parent where p: "parent_of src (?ns ! k) = Some p" "js_get (sc_byId sc) p = Some parent" "cn_depth parent + 1 = cn_depth (?ns ! k)"
      using 1(6) nth_mem [OF k(1)] by (auto simp: below_parent_def)
    from p(2) have parent: "parent \<in> set ?ns" "node_rid parent = p" unfolding 1(4) by (auto dest: map_of_SomeD)
    then obtain j where j: "j < length ?ns" "?ns ! j = parent" by (auto simp: in_set_conv_nth)
    have "j < k"
    proof (rule ccontr)
      assume "\<not> j < k"
      then have "cn_depth (?ns ! k) \<le> cn_depth (?ns ! j)"
        using j sorted_depths [of k j collate "ci_snapshot i"] unfolding 1(15) by simp
      then show False using p(3) j(2) by simp
    qed
    moreover have "rn_resourceId (rs ! j) = js_present (js_get (fresh_ids newId ?ns) p)"
      using all [rule_format, OF j(1)] j(2) parent(2) by (simp add: reserved_row_def)
    ultimately show ?thesis
      using all [rule_format, OF k(1)] keys [OF nth_mem [OF k(1)]] p(1) j parent(2)
      by (intro exI [of _ j]) (simp add: reserved_row_def)
  qed
  have "\<exists>d\<in>set (cd_ancestors (ci_destination i)). copy_rid (ci_destinationParentId i) = Inr (node_rid d) \<and>
      rn_pathCache (rs ! 0) = child_path (the (cn_pathCache d)) (cp_rootName plan)"
    using d root_row 1(2) by (intro bexI [of _ d]) simp_all
  then show ?case
    using rs row root_row below len by (intro exI [of _ rs]) auto
qed

lemma copy_mirrors_the_source_witness:
  "\<exists>rs. reserve demo_plan demo_copy (\<lambda>k. demo_rid CHR ''d'') (\<lambda>k. []) = Inr rs \<and> map rn_source rs = cp_nodes demo_plan"
  using copy_mirrors_the_source [OF demo_copy_accepted, of "\<lambda>k. demo_rid CHR ''d''" "\<lambda>k. []"] by blast

section \<open>The check before publication\<close>

text \<open>A row as a query of the publishing transaction returns it; only the query of the tree computes the last
  three columns.\<close>

record copy_row =
  cr_resource_id :: string
  cr_drive :: string
  cr_parent_resource_id :: "string option"
  cr_name :: string
  cr_kind :: string
  cr_path_cache :: "string option"
  cr_version :: int
  cr_bytes :: int
  cr_blob_key :: "string option"
  cr_content_sha256 :: "string option"
  cr_deleted_at :: "string option"
  cr_depth :: "int option"
  cr_cycle :: "bool option"
  cr_under_tombstone :: "bool option"

definition matches_snapshot :: "copy_row \<Rightarrow> copy_node \<Rightarrow> bool" where
  "matches_snapshot row n \<longleftrightarrow>
     cr_resource_id row = db_id (cn_resourceId n) \<and> cr_drive row = cn_drive n \<and>
     cr_parent_resource_id row = map_option db_id (cn_parentResourceId n) \<and> cr_name row = cn_name n \<and>
     cr_kind row = cn_kind n \<and> cr_path_cache row = cn_pathCache n \<and> cr_version row = cn_version n \<and>
     cr_bytes row = cn_bytes n \<and> cr_blob_key row = cn_blobKey n \<and> cr_content_sha256 row = cn_contentSha256 n \<and>
     cr_deleted_at row = cn_deletedAt n \<and> cr_depth row \<in> {None, Some (cn_depth n)} \<and>
     cr_cycle row \<in> {None, Some (cn_cycle n)} \<and> cr_under_tombstone row \<in> {None, Some (cn_underTombstone n)}"

definition same_rows :: "copy_row list \<Rightarrow> copy_node list \<Rightarrow> bool" where
  "same_rows rows expected \<longleftrightarrow>
     length rows = length expected \<and>
     (let byId = fold (\<lambda>row m. js_set (cr_resource_id row) row m) rows []
      in list_all (\<lambda>n. case js_get byId (db_id (cn_resourceId n)) of None \<Rightarrow> False | Some row \<Rightarrow> matches_snapshot row n) expected)"

definition same_children :: "(string \<times> string) list \<Rightarrow> (string \<times> string) list \<Rightarrow> bool" where
  "same_children rows expected \<longleftrightarrow>
     length rows = length expected \<and>
     sort (map (\<lambda>(rid, name). rid @ NUL # name) rows) = sort (map (\<lambda>(rid, name). db_id rid @ NUL # name) expected)"

datatype copy_failure = CopyRefused gfs_error | CopyAborted

text \<open>The deadline is looked at before the first query and after each; the k-th look sees the clock and the signal.\<close>

record copy_clock =
  cc_now :: "nat \<Rightarrow> instant"
  cc_aborted :: "nat \<Rightarrow> bool"

definition deadline_at :: "copy_clock \<Rightarrow> instant \<Rightarrow> nat \<Rightarrow> copy_failure option" where
  "deadline_at c deadlineAt k =
     (if cc_aborted c k then Some CopyAborted
      else if cc_now c k \<ge> deadlineAt then Some (CopyRefused (GfsError GePreconditionFailed)) else None)"

definition epoch_error :: "(permission_epoch \<times> permission_epoch) option \<Rightarrow> copy_failure option" where
  "epoch_error authzEpoch =
     (case authzEpoch of
        None \<Rightarrow> None
      | Some (started, now) \<Rightarrow>
          (if ep_bypassed started \<or> ep_bypassed now \<or> ep_generation now \<noteq> ep_generation started
           then Some (CopyRefused (GfsError GePreconditionFailed)) else None))"

definition revalidate ::
  "copy_clock \<Rightarrow> copy_input \<Rightarrow> copy_plan \<Rightarrow> (permission_epoch \<times> permission_epoch) option \<Rightarrow>
   copy_row list \<Rightarrow> copy_row list \<Rightarrow> (string \<times> string) list \<Rightarrow> copy_failure option" where
  "revalidate c i plan authzEpoch source ancestors children =
     (case find (\<lambda>e. e \<noteq> None) (map (deadline_at c (ci_deadlineAtMs i)) [0..<6]) of
        Some e \<Rightarrow> e
      | None \<Rightarrow>
          (if list_ex (\<lambda>(rid, name). name = cp_rootName plan) children then Some (CopyRefused (GfsError GeAlreadyExists))
           else if \<not> same_rows source (cp_nodes plan) \<or> \<not> same_rows ancestors (cd_ancestors (ci_destination i)) \<or>
                   \<not> same_children children (cd_liveChildren (ci_destination i))
                then Some (CopyRefused (GfsError GePreconditionFailed))
           else epoch_error authzEpoch))"

lemma filter_split: "filter (\<lambda>x. x \<noteq> c) s = concat (js_split c s)"
  by (induction s) (auto split: list.splits)

lemma rid_length: "normalize_resource_id v = Some r \<Longrightarrow> length r = 32"
proof -
  assume r: "normalize_resource_id v = Some r"
  let ?v = "js_lower (js_trim v)"
  show "length r = 32"
  proof (cases "is_uuid ?v")
    case True
    then have "map length (js_split CHR ''-'' ?v) = [8, 4, 4, 4, 12]" by (simp add: is_uuid_def Let_def)
    then have "length (concat (js_split CHR ''-'' ?v)) = 32" by (simp add: length_concat)
    then show ?thesis using r True by (auto simp: normalize_resource_id_def filter_split)
  qed (use r in \<open>auto simp: normalize_resource_id_def Let_def split: if_splits\<close>)
qed

lemma db_id_inj:
  assumes "normalize_resource_id v = Some r" and "normalize_resource_id w = Some q" and "db_id v = db_id w"
  shows "r = q"
proof -
  have len: "length r = 32" "length q = 32" using assms(1,2) rid_length by blast+
  have cut: "x = take 8 x @ take 4 (drop 8 x) @ take 4 (drop 12 x) @ take 4 (drop 16 x) @ drop 20 x" for x :: string
  proof -
    have "drop 8 x = take 4 (drop 8 x) @ drop 12 x" "drop 12 x = take 4 (drop 12 x) @ drop 16 x"
      "drop 16 x = take 4 (drop 16 x) @ drop 20 x"
      using append_take_drop_id [of 4 "drop 8 x"] append_take_drop_id [of 4 "drop 12 x"] append_take_drop_id [of 4 "drop 16 x"]
      by simp_all
    then show ?thesis using append_take_drop_id [of 8 x] by metis
  qed
  have "take 8 r = take 8 q \<and> take 4 (drop 8 r) = take 4 (drop 8 q) \<and> take 4 (drop 12 r) = take 4 (drop 12 q) \<and>
      take 4 (drop 16 r) = take 4 (drop 16 q) \<and> drop 20 r = drop 20 q"
    using assms len by (simp add: db_id_def)
  then show ?thesis using cut by metis
qed

lemma rows_by_id:
  "js_get (fold (\<lambda>row m. js_set (cr_resource_id row) row m) rows m) k = Some row \<Longrightarrow>
   js_get m k = Some row \<or> (row \<in> set rows \<and> cr_resource_id row = k)"
proof (induction rows arbitrary: m)
  case (Cons a rows)
  from Cons.IH [of "js_set (cr_resource_id a) a m"] Cons.prems show ?case by (auto split: if_splits)
qed simp

lemma same_rows_bijective:
  assumes "same_rows rows ns" and "distinct (map (\<lambda>n. db_id (cn_resourceId n)) ns)"
  shows "distinct (map cr_resource_id rows) \<and> (\<forall>row\<in>set rows. \<exists>!n. n \<in> set ns \<and> matches_snapshot row n) \<and>
    (\<forall>n\<in>set ns. \<exists>!row. row \<in> set rows \<and> matches_snapshot row n)"
proof -
  let ?key = "\<lambda>n. db_id (cn_resourceId n)"
  have row: "\<exists>row\<in>set rows. cr_resource_id row = ?key n \<and> matches_snapshot row n" if "n \<in> set ns" for n
  proof -
    have "case js_get (fold (\<lambda>row m. js_set (cr_resource_id row) row m) rows []) (?key n) of None \<Rightarrow> False | Some row \<Rightarrow> matches_snapshot row n"
      using assms(1) that by (simp add: same_rows_def Let_def list_all_iff)
    then obtain r where r: "js_get (fold (\<lambda>row m. js_set (cr_resource_id row) row m) rows []) (?key n) = Some r" "matches_snapshot r n"
      by (auto split: option.splits)
    from rows_by_id [OF r(1)] r(2) show ?thesis by auto
  qed
  have keys: "?key ` set ns \<subseteq> cr_resource_id ` set rows"
  proof
    fix k assume "k \<in> ?key ` set ns"
    then obtain n where "n \<in> set ns" "k = ?key n" by blast
    then show "k \<in> cr_resource_id ` set rows" using row [of n] by force
  qed
  have len: "length rows = length ns" using assms(1) by (simp add: same_rows_def)
  have card: "card (?key ` set ns) = length ns" using distinct_card [OF assms(2)] by simp
  have "card (cr_resource_id ` set rows) \<le> length rows" by (metis card_length length_map set_map)
  moreover have "card (?key ` set ns) \<le> card (cr_resource_id ` set rows)" using keys by (simp add: card_mono)
  ultimately have full: "card (cr_resource_id ` set rows) = length rows" using card len by simp
  then have d: "distinct (map cr_resource_id rows)" by (metis card_distinct length_map set_map)
  have same: "?key ` set ns = cr_resource_id ` set rows" by (rule card_seteq [OF _ keys]) (use card full len in simp_all)
  have id: "matches_snapshot r n \<Longrightarrow> cr_resource_id r = ?key n" for r n by (simp add: matches_snapshot_def)
  have one: "n = m" if "n \<in> set ns" "m \<in> set ns" "?key n = ?key m" for n m
    using assms(2) that by (auto simp: distinct_map inj_on_def)
  have one': "r = q" if "r \<in> set rows" "q \<in> set rows" "cr_resource_id r = cr_resource_id q" for r q
    using d that by (auto simp: distinct_map inj_on_def)
  have node: "\<exists>n\<in>set ns. matches_snapshot r n" if "r \<in> set rows" for r
  proof -
    have "cr_resource_id r \<in> ?key ` set ns" unfolding same using that by (rule imageI)
    then obtain n where n: "n \<in> set ns" "cr_resource_id r = ?key n" by blast
    from row [OF n(1)] obtain q where "q \<in> set rows" "cr_resource_id q = ?key n" "matches_snapshot q n" by blast
    then show ?thesis using one' [OF that, of q] n by auto
  qed
  have unode: "\<exists>!n. n \<in> set ns \<and> matches_snapshot r n" if "r \<in> set rows" for r
  proof (rule ex_ex1I)
    show "\<exists>n. n \<in> set ns \<and> matches_snapshot r n" using node [OF that] by blast
    show "n = m" if "n \<in> set ns \<and> matches_snapshot r n" "m \<in> set ns \<and> matches_snapshot r m" for n m
      using one [of n m] id [of r n] id [of r m] that by simp
  qed
  have urow: "\<exists>!r. r \<in> set rows \<and> matches_snapshot r n" if "n \<in> set ns" for n
  proof (rule ex_ex1I)
    show "\<exists>r. r \<in> set rows \<and> matches_snapshot r n" using row [OF that] by blast
    show "r = q" if "r \<in> set rows \<and> matches_snapshot r n" "q \<in> set rows \<and> matches_snapshot q n" for r q
      using one' [of r q] id [of r n] id [of q n] that by simp
  qed
  show ?thesis using d unode urow by blast
qed

text \<open>C18: what is published is what was checked. When the check inside the publishing transaction passes for an
  accepted plan, every row the transaction reads below the source is the row of exactly one node of the plan,
  with the same content, place and version: nothing appeared, disappeared or changed since the snapshot. The
  new name is still free, the deadline has not passed, and no permission was revoked in between.\<close>

theorem published_copy_is_current:
  assumes "preflight_copy nfc collate i = Inr plan" and "revalidate c i plan authzEpoch source ancestors children = None"
  shows "length source = length (cp_nodes plan) \<and> distinct (map cr_resource_id source) \<and>
    (\<forall>row\<in>set source. \<exists>!n. n \<in> set (cp_nodes plan) \<and> matches_snapshot row n) \<and>
    (\<forall>n\<in>set (cp_nodes plan). \<exists>!row. row \<in> set source \<and> matches_snapshot row n) \<and>
    cp_rootName plan \<notin> snd ` set children \<and> (\<forall>k<6. cc_now c k < ci_deadlineAtMs i \<and> \<not> cc_aborted c k) \<and>
    (\<forall>started now. authzEpoch = Some (started, now) \<longrightarrow>
       ep_generation now = ep_generation started \<and> \<not> ep_bypassed started \<and> \<not> ep_bypassed now)"
proof (rule plan_tree [OF assms(1)], goal_cases)
  case (1 src dst sc root)
  have "find (\<lambda>e. e \<noteq> None) (map (deadline_at c (ci_deadlineAtMs i)) [0..<6]) = None"
    and free: "\<not> list_ex (\<lambda>(rid, name). name = cp_rootName plan) children" and same: "same_rows source (cp_nodes plan)"
    and epoch: "epoch_error authzEpoch = None"
    using assms(2) find_SomeD [of "\<lambda>e. e \<noteq> None" "map (deadline_at c (ci_deadlineAtMs i)) [0..<6]" None]
    by (auto simp: revalidate_def split: option.splits if_splits simp del: upt_rec_numeral)
  then have look: "deadline_at c (ci_deadlineAtMs i) k = None" if "k < 6" for k
    using that by (auto simp: find_None_iff simp del: upt_rec_numeral)
  have clock: "cc_now c k < ci_deadlineAtMs i \<and> \<not> cc_aborted c k" if "k < 6" for k
    using look [OF that] by (simp add: deadline_at_def not_le split: if_splits)
  have "n = m" if "n \<in> set (cp_nodes plan)" "m \<in> set (cp_nodes plan)" "db_id (cn_resourceId n) = db_id (cn_resourceId m)" for n m
  proof -
    have "normalize_resource_id (cn_resourceId n) = Some (node_rid n)" "normalize_resource_id (cn_resourceId m) = Some (node_rid m)"
      using 1(5) that by (simp_all add: scanned_def)
    from db_id_inj [OF this that(3)] have "node_rid n = node_rid m" .
    then show ?thesis using 1(3) that(1,2) by (auto simp: distinct_map inj_on_def)
  qed
  then have "distinct (map (\<lambda>n. db_id (cn_resourceId n)) (cp_nodes plan))"
    using 1(3) by (auto simp: distinct_map inj_on_def)
  from same_rows_bijective [OF same this] show ?case
    using clock epoch free same by (auto simp: epoch_error_def list_ex_iff same_rows_def split: if_splits)
qed

definition demo_copy_row :: "copy_node \<Rightarrow> copy_row" where
  "demo_copy_row n = \<lparr>cr_resource_id = db_id (cn_resourceId n), cr_drive = cn_drive n,
     cr_parent_resource_id = map_option db_id (cn_parentResourceId n), cr_name = cn_name n, cr_kind = cn_kind n,
     cr_path_cache = cn_pathCache n, cr_version = cn_version n, cr_bytes = cn_bytes n, cr_blob_key = cn_blobKey n,
     cr_content_sha256 = cn_contentSha256 n, cr_deleted_at = cn_deletedAt n, cr_depth = None, cr_cycle = None,
     cr_under_tombstone = None\<rparr>"

lemma demo_ids:
  "db_id (demo_rid CHR ''0'') = ''00000000-0000-0000-0000-000000000000''" "db_id (demo_rid CHR ''a'') = ''aaaaaaaa-aaaa-aaaa-aaaa-aaaaaaaaaaaa''"
  "db_id (demo_rid CHR ''b'') = ''bbbbbbbb-bbbb-bbbb-bbbb-bbbbbbbbbbbb''" "db_id (demo_rid CHR ''c'') = ''cccccccc-cccc-cccc-cccc-cccccccccccc''"
  by code_simp+

lemma demo_row_matches: "matches_snapshot (demo_copy_row n) n"
  by (simp add: matches_snapshot_def demo_copy_row_def)

lemma demo_rows_are_same:
  "distinct (map (\<lambda>n. db_id (cn_resourceId n)) ns) \<Longrightarrow> same_rows (map demo_copy_row ns) ns"
proof -
  assume d: "distinct (map (\<lambda>n. db_id (cn_resourceId n)) ns)"
  let ?by = "\<lambda>ms m. fold (\<lambda>row m. js_set (cr_resource_id row) row m) (map demo_copy_row ms) m"
  have key: "cr_resource_id (demo_copy_row n) = db_id (cn_resourceId n)" for n by (simp add: demo_copy_row_def)
  have keep: "js_get (?by ms m) k = js_get m k" if "k \<notin> (\<lambda>n. db_id (cn_resourceId n)) ` set ms" for ms m k
    using that by (induction ms arbitrary: m) (auto simp: key)
  have get: "js_get (?by ms m) (db_id (cn_resourceId n)) = Some (demo_copy_row n)"
    if "n \<in> set ms" "distinct (map (\<lambda>n. db_id (cn_resourceId n)) ms)" for ms m n
    using that by (induction ms arbitrary: m) (auto simp: key keep)
  show ?thesis using get [OF _ d] by (simp add: same_rows_def Let_def list_all_iff demo_row_matches)
qed

lemma published_copy_is_current_witness:
  "distinct (map cr_resource_id (map demo_copy_row (cp_nodes demo_plan)))"
proof -
  have "same_rows (map demo_copy_row (cp_nodes demo_plan)) (cp_nodes demo_plan)"
    by (rule demo_rows_are_same) (simp add: demo_plan_def demo_folder_def demo_file_def demo_copy_node_def demo_ids)
  moreover have "same_rows (map demo_copy_row (cd_ancestors (ci_destination demo_copy))) (cd_ancestors (ci_destination demo_copy))"
    by (rule demo_rows_are_same) (simp add: demo_copy_def demo_copy_node_def demo_ids)
  moreover have "find (\<lambda>e. e \<noteq> None) (map (deadline_at \<lparr>cc_now = (\<lambda>k. 2), cc_aborted = (\<lambda>k. False)\<rparr> (ci_deadlineAtMs demo_copy)) [0..<6]) = None"
    by (simp add: find_None_iff deadline_at_def demo_copy_def del: upt_rec_numeral)
  ultimately have "revalidate \<lparr>cc_now = (\<lambda>k. 2), cc_aborted = (\<lambda>k. False)\<rparr> demo_copy demo_plan None (map demo_copy_row (cp_nodes demo_plan))
      (map demo_copy_row (cd_ancestors (ci_destination demo_copy))) [] = None"
    by (simp add: revalidate_def same_children_def epoch_error_def del: upt_rec_numeral) (simp add: demo_copy_def)
  from published_copy_is_current [OF demo_copy_accepted this] show ?thesis by blast
qed

end
