(* ===== verification/SsrfGuard.thy ===== *)
theory SsrfGuard
  imports ToolRules "HOL-Library.Word"
begin

text \<open>
  \<open>mcp-host/src/core/net/ssrf.ts\<close>: which addresses the agent's outbound requests may reach. Addresses are
  words; \<open>BlockList\<close> and \<open>isIP\<close> of the platform's \<open>net\<close> module are modelled, name resolution and the events
  of a request are arguments. As in \<open>ToolRules\<close>, a number parsed from text is exact: a decimal fraction
  so close to an integer that a double cannot tell them apart is not taken for that integer.
  The lemmas show that the guard's prefixes are exactly its documented ranges, however an address is
  spelled, and that a host is pinned to a public address or refused.
\<close>

unbundle bit_operations_syntax

section \<open>Texts of addresses\<close>

definition strip_ipv6_decorations :: "string \<Rightarrow> string" where
  "strip_ipv6_decorations ip =
     (let s = js_trim ip;
          t = (if s \<noteq> [] \<and> hd s = CHR ''['' \<and> last s = CHR '']'' then butlast (tl s) else s)
      in takeWhile (\<lambda>c. c \<noteq> CHR ''%'') t)"

text \<open>The text cut at each double colon, as \<open>split('::')\<close> does it.\<close>

fun split_double_colon :: "string \<Rightarrow> string list" where
  "split_double_colon (c # d # r) =
     (if c = CHR '':'' \<and> d = CHR '':'' then [] # split_double_colon r
      else case split_double_colon (d # r) of [] \<Rightarrow> [[c]] | p # ps \<Rightarrow> (c # p) # ps)"
| "split_double_colon s = [s]"

definition colon_parts :: "string \<Rightarrow> string list" where
  "colon_parts raw = (if raw = [] then [] else js_split CHR '':'' raw)"

text \<open>The eight groups of a text, the run of zeros behind a double colon written out.\<close>

definition ipv6_groups :: "string \<Rightarrow> string list option" where
  "ipv6_groups head =
     (let pieces = split_double_colon head
      in if length pieces > 1 then
           (let l = colon_parts (pieces ! 0); r = colon_parts (pieces ! 1)
            in if [] \<in> set l \<or> [] \<in> set r then None
               else if length l + length r > 8 then None
               else Some (l @ replicate (8 - (length l + length r)) ''0'' @ r))
         else (let l = js_split CHR '':'' head in if [] \<in> set l \<or> length l \<noteq> 8 then None else Some l))"

definition is_hextet :: "string \<Rightarrow> bool" where
  "is_hextet p \<longleftrightarrow> 1 \<le> length p \<and> length p \<le> 4 \<and> list_all (\<lambda>c. is_digit c \<or> (of_char c :: nat) \<in> {97..102}) p"

definition group_bytes :: "string \<Rightarrow> 8 word list" where
  "group_bytes p =
     (let v = (word_of_int (digits_value 16 p) :: 32 word) in [ucast (drop_bit 8 v AND 0xFF), ucast (v AND 0xFF)])"

definition ipv6_bytes :: "string \<Rightarrow> 8 word list option" where
  "ipv6_bytes head =
     (case ipv6_groups head of
        None \<Rightarrow> None
      | Some gs \<Rightarrow> (if list_all is_hextet gs then Some (concat (map group_bytes gs)) else None))"

text \<open>Four numbers between dots, each an integer of a byte.\<close>

definition ipv4_octets :: "string \<Rightarrow> int list option" where
  "ipv4_octets s =
     (let ns = map js_number_of_string (js_split CHR ''.'' s)
      in if length ns \<noteq> 4 \<or> (\<exists>n\<in>set ns. case n of None \<Rightarrow> True | Some n \<Rightarrow> n < 0 \<or> n > 255) then None
         else Some (map the ns))"

definition parse_ipv6_to_bytes :: "string \<Rightarrow> 8 word list option" where
  "parse_ipv6_to_bytes ip =
     (let s = js_lower (strip_ipv6_decorations ip); tail = last (js_split CHR '':'' s)
      in if s = [] then None
         else if length (split_double_colon s) > 2 then None
         else if CHR '':'' \<in> set s \<and> CHR ''.'' \<in> set tail then
           (case ipv4_octets tail of
              None \<Rightarrow> None
            | Some octets \<Rightarrow> map_option (\<lambda>bytes. take 12 bytes @ map word_of_int octets)
                               (ipv6_bytes (take (length s - length tail) s @ ''0:0'')))
         else ipv6_bytes s)"

definition is_ipv4_mapped_bytes :: "8 word list \<Rightarrow> bool" where
  "is_ipv4_mapped_bytes bytes \<longleftrightarrow> take 10 bytes = replicate 10 0 \<and> bytes ! 10 = 0xFF \<and> bytes ! 11 = 0xFF"

fun hex_text :: "nat \<Rightarrow> string" where
  "hex_text n = (if n < 16 then [hex_digit n] else hex_text (n div 16) @ [hex_digit (n mod 16)])"

declare hex_text.simps [simp del]

fun format_groups :: "8 word list \<Rightarrow> string list" where
  "format_groups (h # l # bytes) =
     hex_text (unat ((push_bit 8 (ucast h) OR ucast l) AND 0xFFFF :: 32 word)) # format_groups bytes"
| "format_groups _ = []"

definition format_ipv6_bytes :: "8 word list \<Rightarrow> string" where
  "format_ipv6_bytes bytes = js_join CHR '':'' (format_groups bytes)"

section \<open>The list of blocked prefixes\<close>

datatype ip_address = IPv4 "32 word" | IPv6 "128 word"

definition ipv4_of :: "int list \<Rightarrow> ip_address" where
  "ipv4_of octets = IPv4 (word_of_int (foldl (\<lambda>v b. v * 256 + b) 0 octets))"

definition ipv6_of :: "int list \<Rightarrow> ip_address" where
  "ipv6_of groups = IPv6 (word_of_int (foldl (\<lambda>v g. v * 65536 + g) 0 groups))"

text \<open>\<open>BlockList\<close> compares the leading bits. Across families it compares IPv4 addresses in their mapped form.\<close>

definition mapped_ipv4 :: "32 word \<Rightarrow> 128 word" where
  "mapped_ipv4 a = 0xFFFF00000000 OR ucast a"

fun in_subnet :: "ip_address \<Rightarrow> nat \<Rightarrow> ip_address \<Rightarrow> bool" where
  "in_subnet (IPv4 n) p (IPv4 a) = (drop_bit (32 - p) a = drop_bit (32 - p) n)"
| "in_subnet (IPv6 n) p (IPv6 a) = (drop_bit (128 - p) a = drop_bit (128 - p) n)"
| "in_subnet (IPv6 n) p (IPv4 a) = (drop_bit (128 - p) (mapped_ipv4 a) = drop_bit (128 - p) n)"
| "in_subnet (IPv4 n) p (IPv6 a) = (drop_bit 32 a = 0xFFFF \<and> drop_bit (32 - p) (ucast a) = drop_bit (32 - p) n)"

definition NON_PUBLIC_IPV4_PREFIXES :: "(int list \<times> nat) list" where
  "NON_PUBLIC_IPV4_PREFIXES =
     [([0, 0, 0, 0], 8), ([10, 0, 0, 0], 8), ([100, 64, 0, 0], 10), ([127, 0, 0, 0], 8), ([169, 254, 0, 0], 16),
      ([172, 16, 0, 0], 12), ([192, 0, 0, 0], 24), ([192, 0, 2, 0], 24), ([192, 168, 0, 0], 16),
      ([198, 18, 0, 0], 15), ([198, 51, 100, 0], 24), ([203, 0, 113, 0], 24), ([224, 0, 0, 0], 4), ([240, 0, 0, 0], 4)]"

definition NON_PUBLIC_IPV6_PREFIXES :: "(int list \<times> nat) list" where
  "NON_PUBLIC_IPV6_PREFIXES =
     [([0x64, 0xff9b, 0, 0, 0, 0, 0, 0], 96), ([0x64, 0xff9b, 1, 0, 0, 0, 0, 0], 48), ([0x2001, 0, 0, 0, 0, 0, 0, 0], 32),
      ([0x2001, 0xdb8, 0, 0, 0, 0, 0, 0], 32), ([0x2002, 0, 0, 0, 0, 0, 0, 0], 16), ([0xfc00, 0, 0, 0, 0, 0, 0, 0], 7),
      ([0xfe80, 0, 0, 0, 0, 0, 0, 0], 10), ([0xfec0, 0, 0, 0, 0, 0, 0, 0], 10), ([0xff00, 0, 0, 0, 0, 0, 0, 0], 8)]"

definition non_public_addresses :: "(ip_address \<times> nat) list" where
  "non_public_addresses =
     map (\<lambda>(a, p). (ipv4_of a, p)) NON_PUBLIC_IPV4_PREFIXES @ map (\<lambda>(a, p). (ipv6_of a, p)) NON_PUBLIC_IPV6_PREFIXES"

definition block_check :: "ip_address \<Rightarrow> bool" where
  "block_check a \<longleftrightarrow> (\<exists>(n, p)\<in>set non_public_addresses. in_subnet n p a)"

definition is_private_ipv4_octets :: "int list \<Rightarrow> bool" where
  "is_private_ipv4_octets octets \<longleftrightarrow> length octets = 4 \<and> block_check (ipv4_of octets)"

definition is_private_ip :: "string \<Rightarrow> bool" where
  "is_private_ip ip =
     (if ip = [] then False
      else if CHR '':'' \<in> set ip then
        (case parse_ipv6_to_bytes ip of
           None \<Rightarrow> True
         | Some bytes \<Rightarrow>
             (if is_ipv4_mapped_bytes bytes \<or> take 12 bytes = replicate 12 0
              then is_private_ipv4_octets (map uint (drop 12 bytes))
              else block_check (ipv6_of (map (digits_value 16) (js_split CHR '':'' (format_ipv6_bytes bytes))))))
      else (case ipv4_octets ip of None \<Rightarrow> False | Some octets \<Rightarrow> block_check (ipv4_of octets)))"

section \<open>Pinning a host\<close>

text \<open>\<open>net.isIP\<close>, on a text without a zone.\<close>

definition is_ipv4_text :: "string \<Rightarrow> bool" where
  "is_ipv4_text s \<longleftrightarrow>
     (let ps = js_split CHR ''.'' s
      in length ps = 4 \<and> list_all (\<lambda>p. p \<noteq> [] \<and> list_all is_digit p \<and> (hd p = CHR ''0'' \<longrightarrow> p = ''0'') \<and> digits_value 10 p \<le> 255) ps)"

definition is_ipv6_segment :: "string \<Rightarrow> bool" where
  "is_ipv6_segment p \<longleftrightarrow> 1 \<le> length p \<and> length p \<le> 4 \<and> list_all is_hex p"

text \<open>How many groups a sequence of segments stands for; an IPv4 address may end it and stands for two.\<close>

fun segments_weight :: "string list \<Rightarrow> nat option" where
  "segments_weight [] = Some 0"
| "segments_weight [p] = (if is_ipv6_segment p then Some 1 else if is_ipv4_text p then Some 2 else None)"
| "segments_weight (p # q # ps) = (if is_ipv6_segment p then map_option Suc (segments_weight (q # ps)) else None)"

definition is_ipv6_text :: "string \<Rightarrow> bool" where
  "is_ipv6_text s \<longleftrightarrow>
     (case split_double_colon s of
        [h] \<Rightarrow> segments_weight (js_split CHR '':'' h) = Some 8
      | [l, r] \<Rightarrow> list_all is_ipv6_segment (colon_parts l) \<and>
          (case segments_weight (colon_parts r) of None \<Rightarrow> False | Some w \<Rightarrow> length (colon_parts l) + w \<le> 7)
      | _ \<Rightarrow> False)"

definition is_ip :: "string \<Rightarrow> bool" where
  "is_ip s \<longleftrightarrow> is_ipv4_text s \<or> is_ipv6_text s"

datatype ssrf_error = PrivateIpTarget string | ResolutionFailed string | ResolvesToPrivate string

text \<open>A rejected query has no answer.\<close>

definition resolve_pinned_public_ip ::
  "(string \<Rightarrow> string list option) \<Rightarrow> (string \<Rightarrow> string list option) \<Rightarrow> string \<Rightarrow> ssrf_error + string" where
  "resolve_pinned_public_ip resolve4 resolve6 hostname =
     (let bareHost = strip_ipv6_decorations hostname
      in if is_ip bareHost then
           (if is_private_ip hostname then Inl (PrivateIpTarget bareHost) else Inr bareHost)
         else
           (let v4 = (case resolve4 hostname of None \<Rightarrow> [] | Some as \<Rightarrow> as);
                v6 = (case resolve6 hostname of None \<Rightarrow> [] | Some as \<Rightarrow> as)
            in case v4 @ v6 of
                 [] \<Rightarrow> Inl (ResolutionFailed hostname)
               | first # rest \<Rightarrow>
                   (case find is_private_ip (first # rest) of
                      Some a \<Rightarrow> Inl (ResolvesToPrivate a)
                    | None \<Rightarrow> Inr first)))"

section \<open>The pinned request\<close>

record request_options =
  ro_method :: string
  ro_headers :: "(string, string) js_map"
  ro_hostname :: string
  ro_port :: "int option"
  ro_path :: string
  ro_servername :: string

definition request_options_of ::
  "url \<Rightarrow> string \<Rightarrow> string \<Rightarrow> (string, string) js_map \<Rightarrow> string \<Rightarrow> request_options" where
  "request_options_of u search meth headers pinnedIp =
     (let host = (if url_port u \<noteq> [] then url_hostname u @ '':'' @ url_port u else url_hostname u)
      in \<lparr>ro_method = meth, ro_headers = js_set ''host'' host headers, ro_hostname = pinnedIp,
          ro_port = (if url_port u \<noteq> [] then js_number_of_string (url_port u)
                     else if url_protocol u = ''https:'' then Some 443 else Some 80),
          ro_path = url_pathname u @ search, ro_servername = url_hostname u\<rparr>)"

text \<open>What the socket and the deadline signal report. A destroyed request delivers no more data and does not
  end; it reports an error.\<close>

datatype request_event =
    ResponseHead int | ResponseData string | ResponseEnd | RequestError string | RequestTimeout | DeadlineAborted

datatype request_outcome = Fulfilled int string | Rejected string

record exchange =
  ex_status :: int
  ex_chunks :: "string list"
  ex_total :: int
  ex_destroyed :: bool
  ex_settled :: "request_outcome option"

definition settle :: "request_outcome \<Rightarrow> exchange \<Rightarrow> exchange" where
  "settle r x = (if ex_settled x \<noteq> None then x else x\<lparr>ex_settled := Some r\<rparr>)"

fun request_step :: "int option \<Rightarrow> request_event \<Rightarrow> exchange \<Rightarrow> exchange" where
  "request_step maxBytes (ResponseHead status) x = x\<lparr>ex_status := status, ex_chunks := [], ex_total := 0\<rparr>"
| "request_step maxBytes (ResponseData chunk) x =
     (if ex_destroyed x then x
      else (let total = ex_total x + int (length chunk)
            in if (case maxBytes of None \<Rightarrow> False | Some m \<Rightarrow> total > m) then x\<lparr>ex_total := total, ex_destroyed := True\<rparr>
               else x\<lparr>ex_total := total, ex_chunks := ex_chunks x @ [chunk]\<rparr>))"
| "request_step maxBytes ResponseEnd x =
     (if ex_destroyed x then x else settle (Fulfilled (ex_status x) (concat (ex_chunks x))) x)"
| "request_step maxBytes (RequestError message) x = settle (Rejected message) x"
| "request_step maxBytes RequestTimeout x = settle (Rejected ''Request timeout'') (x\<lparr>ex_destroyed := True\<rparr>)"
| "request_step maxBytes DeadlineAborted x = x\<lparr>ex_destroyed := True\<rparr>"

definition request_pinned :: "int option \<Rightarrow> request_event list \<Rightarrow> request_outcome option" where
  "request_pinned maxBytes events =
     ex_settled (fold (request_step maxBytes) events \<lparr>ex_status = 0, ex_chunks = [], ex_total = 0, ex_destroyed = False, ex_settled = None\<rparr>)"

section \<open>Numbers in texts\<close>

abbreviation is_lower_digit :: "char \<Rightarrow> bool" where
  "is_lower_digit c \<equiv> is_digit c \<or> (of_char c :: nat) \<in> {97..102}"

definition is_plain :: "char \<Rightarrow> bool" where
  "is_plain c \<longleftrightarrow> is_lower_digit c \<or> c = CHR '':'' \<or> c = CHR ''.''"

lemma plain_char:
  assumes "is_plain c"
  shows "\<not> is_js_space c" "c \<noteq> CHR ''%''" "c \<noteq> CHR ''[''" "lower_char c = c"
  using assms by (auto simp: is_plain_def is_digit_def is_js_space_def lower_char_def)

lemma plain_trim: "list_all is_plain s \<Longrightarrow> js_trim s = s"
proof -
  assume s: "list_all is_plain s"
  have "dropWhile is_js_space t = t" if "set t \<subseteq> set s" for t
    using that s plain_char(1) by (cases t) (auto simp: list_all_iff)
  then show ?thesis by (simp add: js_trim_def)
qed

lemma plain_strip: "list_all is_plain s \<Longrightarrow> strip_ipv6_decorations s = s"
proof -
  assume s: "list_all is_plain s"
  have h: "\<not> (s \<noteq> [] \<and> hd s = CHR ''['' \<and> last s = CHR '']'')"
    using s plain_char(3) by (cases s) auto
  have t: "takeWhile (\<lambda>c. c \<noteq> CHR ''%'') s = s"
    using s plain_char(2) by (auto simp: list_all_iff)
  show ?thesis unfolding strip_ipv6_decorations_def Let_def plain_trim [OF s] if_not_P [OF h] by (rule t)
qed

lemma plain_lower: "list_all is_plain s \<Longrightarrow> js_lower s = s"
  by (simp add: js_lower_def list_all_iff plain_char(4) map_idI)

lemma digits_plain: "list_all is_digit s \<Longrightarrow> list_all is_plain s"
  by (auto simp: list_all_iff is_plain_def)

lemma digit_facts: "is_digit c \<Longrightarrow> c \<noteq> CHR ''x'' \<and> c \<noteq> CHR ''X'' \<and> c \<noteq> CHR ''o'' \<and> c \<noteq> CHR ''O'' \<and> c \<noteq> CHR ''b'' \<and> c \<noteq> CHR ''B'' \<and>
    c \<noteq> CHR ''-'' \<and> c \<noteq> CHR ''+'' \<and> c \<noteq> CHR ''.'' \<and> c \<noteq> CHR '':''"
  by (auto simp: is_digit_def)

lemma js_number_of_digits:
  assumes "list_all is_digit s" and "s \<noteq> []"
  shows "js_number_of_string s = Some (digits_value 10 s)"
proof -
  obtain c r where s: "s = c # r" using assms(2) by (cases s) auto
  have c: "is_digit c" and r: "list_all is_digit r" using assms(1) s by simp_all
  have r': "r \<noteq> [] \<Longrightarrow> is_digit (hd r)" using r by (cases r) auto
  have d: "dropWhile is_digit s = []" and t: "takeWhile is_digit s = s"
    using assms(1) by (auto simp: list_all_iff)
  have "decimal_integer s = Some (digits_value 10 s)"
    using assms(2) by (simp add: decimal_integer_def exponent_of_def Let_def d t)
  then show ?thesis
    using plain_trim [OF digits_plain [OF assms(1)]] digit_facts [OF c] digit_facts [OF r'] s
    by (auto simp: js_number_of_string_def Let_def)
qed

lemma js_number_of_nat: "js_number_of_string (string_of_nat n) = Some (int n)"
  using js_number_of_digits string_of_nat_digits string_of_nat_value by simp

text \<open>Hexadecimal texts and what they denote.\<close>

lemma hex_digit_value:
  assumes "n < 16"
  shows "digit_value (hex_digit n) = int n" "is_lower_digit (hex_digit n)"
proof -
  consider "n < 10" | "10 \<le> n" by linarith
  then have "digit_value (hex_digit n) = int n \<and> is_lower_digit (hex_digit n)"
    using assms by cases (auto simp: hex_digit_def digit_value_def is_digit_def of_char_of Let_def)
  then show "digit_value (hex_digit n) = int n" "is_lower_digit (hex_digit n)" by simp_all
qed

lemma hex_text_value: "digits_value 16 (hex_text n) = int n"
proof (induction n rule: hex_text.induct)
  case (1 n)
  then show ?case
    by (cases "n < 16") (simp_all add: hex_text.simps [of n] digits_value_def hex_digit_value(1) zdiv_int zmod_int)
qed

lemma hex_text_chars: "list_all is_lower_digit (hex_text n)"
proof (induction n rule: hex_text.induct)
  case (1 n)
  then show ?case
    using hex_digit_value(2) [of n] hex_digit_value(2) [of "n mod 16"]
    by (cases "n < 16") (simp_all add: hex_text.simps [of n])
qed

lemma hex_text_length: "n < 16 ^ Suc k \<Longrightarrow> 1 \<le> length (hex_text n) \<and> length (hex_text n) \<le> Suc k"
proof (induction k arbitrary: n)
  case (Suc k)
  have "n div 16 < 16 ^ Suc k" using Suc.prems by (simp add: less_mult_imp_div_less mult.commute)
  then show ?case using Suc.IH [of "n div 16"] by (cases "n < 16") (simp_all add: hex_text.simps [of n])
qed (simp add: hex_text.simps)

lemma hex_text_hextet: "n < 65536 \<Longrightarrow> is_hextet (hex_text n)"
  using hex_text_length [of n 3] hex_text_chars [of n] by (simp add: is_hextet_def)

section \<open>The ranges\<close>

text \<open>Documented ranges of addresses that are not public, by octets and by groups.\<close>

definition non_public_ipv4 :: "int \<Rightarrow> int \<Rightarrow> int \<Rightarrow> int \<Rightarrow> bool" where
  "non_public_ipv4 a b c d \<longleftrightarrow>
     a = 0 \<or> a = 10 \<or> (a = 100 \<and> 64 \<le> b \<and> b \<le> 127) \<or> a = 127 \<or> (a = 169 \<and> b = 254) \<or> (a = 172 \<and> 16 \<le> b \<and> b \<le> 31) \<or>
     (a = 192 \<and> b = 0 \<and> c = 0) \<or> (a = 192 \<and> b = 0 \<and> c = 2) \<or> (a = 192 \<and> b = 168) \<or> (a = 198 \<and> (b = 18 \<or> b = 19)) \<or>
     (a = 198 \<and> b = 51 \<and> c = 100) \<or> (a = 203 \<and> b = 0 \<and> c = 113) \<or> 224 \<le> a"

definition special_ipv6 :: "int list \<Rightarrow> bool" where
  "special_ipv6 g \<longleftrightarrow>
     (g ! 0 = 0x64 \<and> g ! 1 = 0xff9b \<and> (g ! 2 = 1 \<or> (\<forall>i\<in>{2..5}. g ! i = 0))) \<or>
     (g ! 0 = 0x2001 \<and> (g ! 1 = 0 \<or> g ! 1 = 0xdb8)) \<or> g ! 0 = 0x2002 \<or> (0xfc00 \<le> g ! 0 \<and> g ! 0 \<le> 0xfdff) \<or>
     (0xfe80 \<le> g ! 0 \<and> g ! 0 \<le> 0xfeff) \<or> 0xff00 \<le> g ! 0"

definition embeds_ipv4 :: "int list \<Rightarrow> bool" where
  "embeds_ipv4 g \<longleftrightarrow> (\<forall>i\<in>{0..4}. g ! i = 0) \<and> (g ! 5 = 0 \<or> g ! 5 = 0xffff)"

definition non_public_ipv6 :: "int list \<Rightarrow> bool" where
  "non_public_ipv6 g \<longleftrightarrow>
     (if embeds_ipv4 g then non_public_ipv4 (g ! 6 div 256) (g ! 6 mod 256) (g ! 7 div 256) (g ! 7 mod 256) else special_ipv6 g)"

text \<open>Leading digits of a number in a positional system.\<close>

lemma foldl_base_div:
  fixes B :: int
  assumes "0 < B" and "\<forall>d\<in>set ds. 0 \<le> d \<and> d < B"
  shows "foldl (\<lambda>v d. v * B + d) x ds div B ^ length ds = x"
  using assms(2)
proof (induction ds arbitrary: x)
  case (Cons d ds)
  have "foldl (\<lambda>v d. v * B + d) (x * B + d) ds div B ^ length ds = x * B + d" using Cons by simp
  moreover have "(x * B + d) div B = x" using Cons.prems assms(1) by simp
  moreover have "z div B ^ length (d # ds) = z div B ^ length ds div B" for z
    using assms(1) by (simp only: list.size power_Suc2 add_0_right add_Suc_right) (simp add: zdiv_zmult2_eq)
  ultimately show ?case by simp
qed simp

lemma foldl_base_bounds:
  fixes B :: int
  assumes "0 < B" and "\<forall>d\<in>set ds. 0 \<le> d \<and> d < B" and "0 \<le> x" and "x < y"
  shows "0 \<le> foldl (\<lambda>v d. v * B + d) x ds \<and> foldl (\<lambda>v d. v * B + d) x ds < y * B ^ length ds"
  using assms(2-4)
proof (induction ds arbitrary: x y)
  case (Cons d ds)
  have "(x + 1) * B \<le> y * B" using Cons.prems(3) assms(1) by (intro mult_right_mono) auto
  then have "x * B + d < y * B" using Cons.prems(1) by (simp add: algebra_simps)
  then show ?case using Cons.IH [of "x * B + d" "y * B"] Cons.prems assms(1) by (simp add: mult.assoc)
qed simp

lemma drop_bit_eq_iff_div: "drop_bit k a = drop_bit k b \<longleftrightarrow> uint a div 2 ^ k = uint b div 2 ^ k"
  for a b :: "'a::len word"
proof -
  have "uint (drop_bit k w) = uint w div 2 ^ k" for w :: "'a word"
    unfolding unsigned_drop_bit_eq drop_bit_eq_div [symmetric]
    by (simp add: take_bit_int_eq_self unsigned_less)
  then show ?thesis by (simp add: word_uint_eq_iff)
qed

abbreviation is_byte :: "int \<Rightarrow> bool" where
  "is_byte n \<equiv> 0 \<le> n \<and> n < 256"

abbreviation is_group :: "int \<Rightarrow> bool" where
  "is_group n \<equiv> 0 \<le> n \<and> n < 65536"

lemma uint_small: "0 \<le> v \<Longrightarrow> v < 2 ^ LENGTH('a) \<Longrightarrow> uint (word_of_int v :: 'a::len word) = v"
  by (simp add: uint_word_of_int)

lemma uint_ipv4:
  assumes "is_byte a" "is_byte b" "is_byte c" "is_byte d"
  shows "uint (word_of_int (foldl (\<lambda>v b. v * 256 + b) 0 [a, b, c, d]) :: 32 word) = ((a * 256 + b) * 256 + c) * 256 + d"
  using assms foldl_base_bounds [of 256 "[a, b, c, d]" 0 1] by (subst uint_small) (simp_all del: of_int_add)

lemma ipv4_leading:
  assumes "is_byte a" "is_byte b" "is_byte c" "is_byte d"
  defines "v \<equiv> ((a * 256 + b) * 256 + c) * 256 + d"
  shows "v div 16777216 = a" "v div 65536 = a * 256 + b" "v div 256 = (a * 256 + b) * 256 + c"
  using assms foldl_base_div [of 256 "[b, c, d]" a] foldl_base_div [of 256 "[c, d]" "a * 256 + b"]
    foldl_base_div [of 256 "[d]" "(a * 256 + b) * 256 + c"]
  by (simp_all add: v_def)

lemma uint_ipv6:
  assumes "list_all is_group [g0, g1, g2, g3, g4, g5, g6, g7]"
  shows "uint (word_of_int (foldl (\<lambda>v g. v * 65536 + g) 0 [g0, g1, g2, g3, g4, g5, g6, g7]) :: 128 word) =
    foldl (\<lambda>v g. v * 65536 + g) 0 [g0, g1, g2, g3, g4, g5, g6, g7]"
  using assms foldl_base_bounds [of 65536 "[g0, g1, g2, g3, g4, g5, g6, g7]" 0 1]
  by (subst uint_small) (simp_all del: foldl.simps)

lemma groups_leading:
  assumes "list_all is_group gs" and "length gs * 16 = k"
  shows "foldl (\<lambda>v g. v * 65536 + g) x gs div 2 ^ k = x"
proof -
  have "(2 :: int) ^ k = 65536 ^ length gs" using assms(2) power_mult [of "2 :: int" 16 "length gs"] by (simp add: mult.commute)
  then show ?thesis using assms(1) foldl_base_div [of 65536 gs x] by (simp add: list_all_iff)
qed

lemma ipv6_leading:
  assumes "list_all is_group [g0, g1, g2, g3, g4, g5, g6, g7]"
  defines "v \<equiv> foldl (\<lambda>v g. v * 65536 + g) 0 [g0, g1, g2, g3, g4, g5, g6, g7]"
  shows "v div 2 ^ 112 = g0" "v div 2 ^ 96 = g0 * 65536 + g1" "v div 2 ^ 80 = (g0 * 65536 + g1) * 65536 + g2"
    "v div 2 ^ 32 = ((((g0 * 65536 + g1) * 65536 + g2) * 65536 + g3) * 65536 + g4) * 65536 + g5"
proof -
  have all: "list_all is_group [g1, g2, g3, g4, g5, g6, g7]" "list_all is_group [g2, g3, g4, g5, g6, g7]"
    "list_all is_group [g3, g4, g5, g6, g7]" "list_all is_group [g6, g7]"
    using assms(1) by simp_all
  have len: "length [g1, g2, g3, g4, g5, g6, g7] * 16 = 112" "length [g2, g3, g4, g5, g6, g7] * 16 = 96"
    "length [g3, g4, g5, g6, g7] * 16 = 80" "length [g6, g7] * 16 = 32"
    by simp_all
  note lead = groups_leading [OF all(1) len(1), unfolded foldl.simps] groups_leading [OF all(2) len(2), unfolded foldl.simps]
    groups_leading [OF all(3) len(3), unfolded foldl.simps] groups_leading [OF all(4) len(4), unfolded foldl.simps]
  show "v div 2 ^ 112 = g0" "v div 2 ^ 96 = g0 * 65536 + g1" "v div 2 ^ 80 = (g0 * 65536 + g1) * 65536 + g2"
    "v div 2 ^ 32 = ((((g0 * 65536 + g1) * 65536 + g2) * 65536 + g3) * 65536 + g4) * 65536 + g5"
    unfolding v_def foldl.simps lead mult_zero_left add_0 by (rule refl)+
qed

lemma div_power_add: "(v :: int) div 2 ^ (i + j) = v div 2 ^ i div 2 ^ j"
  by (simp add: power_add zdiv_zmult2_eq)

text \<open>A mapped address lies below all blocked IPv6 prefixes.\<close>

lemma mapped_bound: "uint (mapped_ipv4 a) < 2 ^ 48"
proof -
  have a: "0 \<le> uint a" "uint a < 2 ^ 32" using unsigned_less [of a, where 'a = int] by simp_all
  then have "uint a < 2 ^ 128" by simp
  then have "uint (ucast a :: 128 word) = uint a" by (simp add: unsigned_ucast_eq take_bit_int_eq_self)
  then show ?thesis
    unfolding mapped_ipv4_def unsigned_or_eq using a by (intro OR_upper) simp_all
qed

definition prefixes_hit :: "nat \<Rightarrow> (int list \<Rightarrow> int) \<Rightarrow> int \<Rightarrow> (int list \<times> nat) list \<Rightarrow> bool" where
  "prefixes_hit w val v ps \<longleftrightarrow> (\<exists>(a, p)\<in>set ps. v div 2 ^ (w - p) = val a div 2 ^ (w - p))"

lemma mapped_not_blocked: "(a, p) \<in> set NON_PUBLIC_IPV6_PREFIXES \<Longrightarrow> \<not> in_subnet (ipv6_of a) p (IPv4 w)"
proof -
  let ?x = "uint (mapped_ipv4 w)"
  have x: "0 \<le> ?x" "?x < 2 ^ 48" using mapped_bound by auto
  have z: "?x div 2 ^ k = 0" if "48 \<le> k" for k
  proof -
    have "(2 :: int) ^ 48 \<le> 2 ^ k" using that by (intro power_increasing) simp_all
    then show ?thesis using x by (intro div_pos_pos_trivial) linarith+
  qed
  have s: "?x div 2 ^ 32 < 2 ^ 16" using x by simp
  assume "(a, p) \<in> set NON_PUBLIC_IPV6_PREFIXES"
  then show ?thesis
    using z [of 80] z [of 96] z [of 112] z [of 121] z [of 118] z [of 120] s
    by (auto simp: NON_PUBLIC_IPV6_PREFIXES_def ipv6_of_def drop_bit_eq_iff_div)
qed

lemma block_check_IPv4:
  "block_check (IPv4 w) \<longleftrightarrow>
     prefixes_hit 32 (\<lambda>a. uint (word_of_int (foldl (\<lambda>v b. v * 256 + b) 0 a) :: 32 word)) (uint w) NON_PUBLIC_IPV4_PREFIXES"
  using mapped_not_blocked [of _ _ w]
  unfolding block_check_def non_public_addresses_def prefixes_hit_def set_append set_map bex_Un bex_simps
  by (fastforce simp: ipv4_of_def drop_bit_eq_iff_div)

lemma div_range: "0 < k \<Longrightarrow> x div k = q \<longleftrightarrow> q * k \<le> x \<and> x < (q + 1) * k" for x k q :: int
proof
  assume "0 < k" "x div k = q"
  then have "x = q * k + x mod k" "0 \<le> x mod k" "x mod k < k" by auto
  then show "q * k \<le> x \<and> x < (q + 1) * k" by (simp add: algebra_simps)
next
  assume "0 < k" "q * k \<le> x \<and> x < (q + 1) * k"
  then show "x div k = q" by (intro int_div_pos_eq [of x k q "x - q * k"]) (simp_all add: algebra_simps)
qed

lemma base_digits_eq:
  fixes B :: int
  assumes "0 \<le> d" "d < B" "0 \<le> e" "e < B"
  shows "x * B + d = y * B + e \<longleftrightarrow> x = y \<and> d = e"
proof
  assume h: "x * B + d = y * B + e"
  have "(x * B + d) div B = x" "(y * B + e) div B = y" using assms by simp_all
  then show "x = y \<and> d = e" using h by auto
qed simp

lemma ipv4_prefixes:
  "prefixes_hit 32 (\<lambda>a. uint (word_of_int (foldl (\<lambda>v b. v * 256 + b) 0 a) :: 32 word)) v NON_PUBLIC_IPV4_PREFIXES \<longleftrightarrow>
     v div 2 ^ 24 = 0 \<or> v div 2 ^ 24 = 10 \<or> v div 2 ^ (16 + 6) = 401 \<or> v div 2 ^ 24 = 127 \<or> v div 2 ^ 16 = 43518 \<or>
     v div 2 ^ (16 + 4) = 2753 \<or> v div 2 ^ 8 = 12582912 \<or> v div 2 ^ 8 = 12582914 \<or> v div 2 ^ 16 = 49320 \<or>
     v div 2 ^ (16 + 1) = 25353 \<or> v div 2 ^ 8 = 12989284 \<or> v div 2 ^ 8 = 13303921 \<or> v div 2 ^ (24 + 4) = 14 \<or>
     v div 2 ^ (24 + 4) = 15"
  by (simp add: prefixes_hit_def NON_PUBLIC_IPV4_PREFIXES_def)

lemma block_check_ipv4:
  assumes "is_byte a" "is_byte b" "is_byte c" "is_byte d"
  shows "block_check (ipv4_of [a, b, c, d]) \<longleftrightarrow> non_public_ipv4 a b c d"
proof -
  let ?v = "((a * 256 + b) * 256 + c) * 256 + d"
  have v: "?v div 2 ^ 24 = a" "?v div 2 ^ 16 = a * 256 + b" "?v div 2 ^ 8 = (a * 256 + b) * 256 + c"
    using ipv4_leading [OF assms] by simp_all
  have two: "a * 256 + b = x * 256 + y \<longleftrightarrow> a = x \<and> b = y" if "is_byte y" for x y
    using assms(2) that by (simp only: base_digits_eq)
  have three: "(a * 256 + b) * 256 + c = (x * 256 + y) * 256 + z \<longleftrightarrow> a = x \<and> b = y \<and> c = z" if "is_byte y" "is_byte z" for x y z
    using assms(2,3) that by (simp only: base_digits_eq conj_assoc)
  have d: "(a * 256 + b) div 64 = a * 4 + b div 64" "(a * 256 + b) div 16 = a * 16 + b div 16" "(a * 256 + b) div 2 = a * 128 + b div 2"
    using div_mult_self1 [of 64 b "a * 4"] div_mult_self1 [of 16 b "a * 16"] div_mult_self1 [of 2 b "a * 128"]
    by (simp_all add: algebra_simps)
  have r: "0 \<le> b div 64 \<and> b div 64 < 4" "0 \<le> b div 16 \<and> b div 16 < 16" "0 \<le> b div 2 \<and> b div 2 < 128" using assms(2) by auto
  have "(a * 256 + b) div 64 = 401 \<longleftrightarrow> a = 100 \<and> b div 64 = 1"
    using r(1) base_digits_eq [of "b div 64" 4 1 a 100] unfolding d by simp
  then have e1: "(a * 256 + b) div 64 = 401 \<longleftrightarrow> a = 100 \<and> 64 \<le> b \<and> b \<le> 127" by auto
  have "(a * 256 + b) div 16 = 2753 \<longleftrightarrow> a = 172 \<and> b div 16 = 1"
    using r(2) base_digits_eq [of "b div 16" 16 1 a 172] unfolding d by simp
  then have e2: "(a * 256 + b) div 16 = 2753 \<longleftrightarrow> a = 172 \<and> 16 \<le> b \<and> b \<le> 31" by auto
  have h: "b div 2 = 9 \<longleftrightarrow> b = 18 \<or> b = 19" by (auto simp: div_range)
  have "(a * 256 + b) div 2 = 25353 \<longleftrightarrow> a = 198 \<and> b div 2 = 9"
    using r(3) base_digits_eq [of "b div 2" 128 9 a 198] unfolding d by simp
  then have e3: "(a * 256 + b) div 2 = 25353 \<longleftrightarrow> a = 198 \<and> (b = 18 \<or> b = 19)" unfolding h .
  have e4: "a div 16 = 14 \<or> a div 16 = 15 \<longleftrightarrow> 224 \<le> a" using assms(1) by (auto simp: div_range)
  have e5: "a * 256 + b = 43518 \<longleftrightarrow> a = 169 \<and> b = 254" using two [of 254 169] by simp
  have e6: "a * 256 + b = 49320 \<longleftrightarrow> a = 192 \<and> b = 168" using two [of 168 192] by simp
  have e7: "(a * 256 + b) * 256 + c = 12582912 \<longleftrightarrow> a = 192 \<and> b = 0 \<and> c = 0" using three [of 0 0 192] by simp
  have e8: "(a * 256 + b) * 256 + c = 12582914 \<longleftrightarrow> a = 192 \<and> b = 0 \<and> c = 2" using three [of 0 2 192] by simp
  have e9: "(a * 256 + b) * 256 + c = 12989284 \<longleftrightarrow> a = 198 \<and> b = 51 \<and> c = 100" using three [of 51 100 198] by simp
  have e10: "(a * 256 + b) * 256 + c = 13303921 \<longleftrightarrow> a = 203 \<and> b = 0 \<and> c = 113" using three [of 0 113 203] by simp
  have e11: "(2 :: int) ^ 6 = 64" "(2 :: int) ^ 4 = 16" "(2 :: int) ^ 1 = 2" by simp_all
  show ?thesis
    unfolding ipv4_of_def block_check_IPv4 uint_ipv4 [OF assms] ipv4_prefixes div_power_add v non_public_ipv4_def
      e11 e1 e2 e3 e4 e5 e6 e7 e8 e9 e10
    by (rule refl)
qed

lemma block_check_IPv6:
  "block_check (IPv6 w) \<longleftrightarrow>
     prefixes_hit 128 (\<lambda>g. uint (word_of_int (foldl (\<lambda>v g. v * 65536 + g) 0 g) :: 128 word)) (uint w) NON_PUBLIC_IPV6_PREFIXES"
  if "uint w div 2 ^ 32 \<noteq> 0xFFFF"
proof -
  have "drop_bit 32 w \<noteq> 0xFFFF"
    using that drop_bit_eq_iff_div [of 32 w "0xFFFF00000000"] by auto
  then show ?thesis
    unfolding block_check_def non_public_addresses_def prefixes_hit_def set_append set_map bex_Un bex_simps
    by (fastforce simp: ipv4_of_def ipv6_of_def drop_bit_eq_iff_div)
qed

lemma ipv6_prefixes:
  "prefixes_hit 128 (\<lambda>g. uint (word_of_int (foldl (\<lambda>v g. v * 65536 + g) 0 g) :: 128 word)) v NON_PUBLIC_IPV6_PREFIXES \<longleftrightarrow>
     v div 2 ^ 32 = 122099644659926101980610560 \<or> v div 2 ^ 80 = 433785077761 \<or> v div 2 ^ 96 = 536936448 \<or>
     v div 2 ^ 96 = 536939960 \<or> v div 2 ^ 112 = 8194 \<or> v div 2 ^ (112 + 9) = 126 \<or> v div 2 ^ (112 + 6) = 1018 \<or>
     v div 2 ^ (112 + 6) = 1019 \<or> v div 2 ^ (112 + 8) = 255"
  by (simp add: prefixes_hit_def NON_PUBLIC_IPV6_PREFIXES_def)

lemma block_check_ipv6:
  assumes "list_all is_group [g0, g1, g2, g3, g4, g5, g6, g7]" and "\<not> (g0 = 0 \<and> g1 = 0 \<and> g2 = 0 \<and> g3 = 0 \<and> g4 = 0 \<and> g5 = 0xFFFF)"
  shows "block_check (ipv6_of [g0, g1, g2, g3, g4, g5, g6, g7]) \<longleftrightarrow> special_ipv6 [g0, g1, g2, g3, g4, g5, g6, g7]"
proof -
  let ?v = "foldl (\<lambda>v g. v * 65536 + g) 0 [g0, g1, g2, g3, g4, g5, g6, g7]"
  let ?six = "((((g0 * 65536 + g1) * 65536 + g2) * 65536 + g3) * 65536 + g4) * 65536 + g5"
  note v = ipv6_leading [OF assms(1)]
  have six: "?six = ((((x * 65536 + y) * 65536 + z) * 65536 + s) * 65536 + t) * 65536 + r \<longleftrightarrow>
      g0 = x \<and> g1 = y \<and> g2 = z \<and> g3 = s \<and> g4 = t \<and> g5 = r"
    if "list_all is_group [y, z, s, t, r]" for x y z s t r
    using assms(1) that by (simp only: base_digits_eq conj_assoc list.pred_inject)
  have three: "(g0 * 65536 + g1) * 65536 + g2 = (x * 65536 + y) * 65536 + z \<longleftrightarrow> g0 = x \<and> g1 = y \<and> g2 = z"
    if "list_all is_group [y, z]" for x y z
    using assms(1) that by (simp only: base_digits_eq conj_assoc list.pred_inject)
  have two: "g0 * 65536 + g1 = x * 65536 + y \<longleftrightarrow> g0 = x \<and> g1 = y" if "is_group y" for x y
    using assms(1) that by (simp add: base_digits_eq)
  have "?v div 2 ^ 32 \<noteq> 0xFFFF" using six [of 0 0 0 0 65535 0] assms(2) unfolding v by simp
  then have "uint (word_of_int ?v :: 128 word) div 2 ^ 32 \<noteq> 0xFFFF" unfolding uint_ipv6 [OF assms(1)] .
  note hits = block_check_IPv6 [OF this, unfolded uint_ipv6 [OF assms(1)] ipv6_prefixes div_power_add v]
  have e1: "?six = 122099644659926101980610560 \<longleftrightarrow> g0 = 0x64 \<and> g1 = 0xff9b \<and> g2 = 0 \<and> g3 = 0 \<and> g4 = 0 \<and> g5 = 0"
    using six [of 65435 0 0 0 0 100] by simp
  have e2: "(g0 * 65536 + g1) * 65536 + g2 = 433785077761 \<longleftrightarrow> g0 = 0x64 \<and> g1 = 0xff9b \<and> g2 = 1"
    using three [of 65435 1 100] by simp
  have e3: "g0 * 65536 + g1 = 536936448 \<longleftrightarrow> g0 = 0x2001 \<and> g1 = 0" using two [of 0 8193] by simp
  have e4: "g0 * 65536 + g1 = 536939960 \<longleftrightarrow> g0 = 0x2001 \<and> g1 = 0xdb8" using two [of 3512 8193] by simp
  have e5: "g0 div 512 = 126 \<longleftrightarrow> 0xfc00 \<le> g0 \<and> g0 \<le> 0xfdff" by (auto simp: div_range)
  have e6: "g0 div 64 = 1018 \<or> g0 div 64 = 1019 \<longleftrightarrow> 0xfe80 \<le> g0 \<and> g0 \<le> 0xfeff" by (auto simp: div_range)
  have e8: "g0 div 256 = 255 \<longleftrightarrow> 0xff00 \<le> g0" using assms(1) by (auto simp: div_range)
  have e9: "(2 :: int) ^ 9 = 512" "(2 :: int) ^ 6 = 64" "(2 :: int) ^ 8 = 256" by simp_all
  have e10: "(\<forall>i\<in>{2..5}. [g0, g1, g2, g3, g4, g5, g6, g7] ! i = 0) \<longleftrightarrow> g2 = 0 \<and> g3 = 0 \<and> g4 = 0 \<and> g5 = 0"
    by (auto simp: atLeastAtMost_insertL [symmetric] numeral_eq_Suc)
  have e11: "[g0, g1, g2, g3, g4, g5, g6, g7] ! 1 = g1" "[g0, g1, g2, g3, g4, g5, g6, g7] ! 2 = g2" by simp_all
  show ?thesis
    unfolding ipv6_of_def hits special_ipv6_def nth_Cons_0 e9 e1 e2 e3 e4 e5 e8 e10 e11 using e6 by blast
qed

section \<open>Spellings\<close>

definition ipv4_text :: "int list \<Rightarrow> string" where
  "ipv4_text octets = js_join CHR ''.'' (map (\<lambda>n. string_of_nat (nat n)) octets)"

definition ipv6_text :: "int list \<Rightarrow> string" where
  "ipv6_text groups = js_join CHR '':'' (map (\<lambda>g. hex_text (nat g)) groups)"

lemma nat_text_chars: "c \<in> set (string_of_nat n) \<Longrightarrow> is_digit c"
  using string_of_nat_digits by (auto simp: list_all_iff)

lemma set_js_join: "set (js_join c ss) \<subseteq> insert c (\<Union>s\<in>set ss. set s)"
  by (induction c ss rule: js_join.induct) auto

lemma ipv4_text_plain: "list_all is_plain (ipv4_text octets)"
  using set_js_join [of "CHR ''.''" "map (\<lambda>n. string_of_nat (nat n)) octets"]
  by (auto simp: ipv4_text_def list_all_iff is_plain_def dest: nat_text_chars)

lemma ipv4_text_no_colon: "CHR '':'' \<notin> set (ipv4_text octets)"
proof
  assume "CHR '':'' \<in> set (ipv4_text octets)"
  then have "CHR '':'' \<in> insert CHR ''.'' (\<Union>s\<in>set (map (\<lambda>n. string_of_nat (nat n)) octets). set s)"
    unfolding ipv4_text_def by (rule subsetD [OF set_js_join])
  then obtain n where "CHR '':'' \<in> set (string_of_nat n)" by auto
  then have "is_digit CHR '':''" by (rule nat_text_chars)
  then show False by (simp add: is_digit_def)
qed

lemma ipv4_text_octets:
  assumes "length octets = 4" and "list_all is_byte octets"
  shows "ipv4_octets (ipv4_text octets) = Some octets"
proof -
  let ?ps = "map (\<lambda>n. string_of_nat (nat n)) octets"
  have "?ps \<noteq> []" using assms(1) by auto
  then have "js_split CHR ''.'' (ipv4_text octets) = ?ps"
    unfolding ipv4_text_def using nat_text_chars digit_facts by (intro js_split_join) auto
  moreover have "map js_number_of_string ?ps = map Some octets"
    using assms(2) by (auto simp: js_number_of_nat list_all_iff)
  ultimately show ?thesis
    using assms by (auto simp: ipv4_octets_def Let_def list_all_iff comp_def simp del: map_map)
       (simp only: map_map comp_def option.sel map_ident)
qed

lemma ipv4_text_nonempty: "length octets = 4 \<Longrightarrow> ipv4_text octets \<noteq> []"
  by (cases octets rule: list.exhaust; cases "tl octets") (auto simp: ipv4_text_def)

lemma is_private_ipv4_text:
  assumes "is_byte a" "is_byte b" "is_byte c" "is_byte d"
  shows "is_private_ip (ipv4_text [a, b, c, d]) \<longleftrightarrow> non_public_ipv4 a b c d"
  using ipv4_text_octets [of "[a, b, c, d]"] ipv4_text_nonempty [of "[a, b, c, d]"] ipv4_text_no_colon [of "[a, b, c, d]"]
    block_check_ipv4 [OF assms] assms
  by (simp add: is_private_ip_def)

text \<open>Cutting at double colons.\<close>

lemma split_double_colon_not_Nil [simp]: "split_double_colon s \<noteq> []"
  by (induction s rule: split_double_colon.induct) (auto split: list.splits)

lemma split_double_colon_piece:
  assumes "CHR '':'' \<notin> set p"
  shows "split_double_colon (p @ s) = (p @ hd (split_double_colon s)) # tl (split_double_colon s)"
  using assms
proof (induction p)
  case (Cons c p)
  then show ?case by (cases "p @ s") auto
qed simp

lemma split_double_colon_single:
  assumes "s \<noteq> []" and "hd s \<noteq> CHR '':''"
  shows "split_double_colon (CHR '':'' # s) = (CHR '':'' # hd (split_double_colon s)) # tl (split_double_colon s)"
  using assms by (cases s) (auto split: list.splits)

lemma split_double_colon_join:
  "ps \<noteq> [] \<Longrightarrow> \<forall>p\<in>set ps. p \<noteq> [] \<and> CHR '':'' \<notin> set p \<Longrightarrow> split_double_colon (js_join CHR '':'' ps) = [js_join CHR '':'' ps]"
proof (induction ps)
  case step: (Cons p ps)
  show ?case
  proof (cases ps)
    case Nil
    then show ?thesis using step.prems split_double_colon_piece [of p "[]"] by simp
  next
    case (Cons q qs)
    let ?r = "js_join CHR '':'' ps"
    have "?r \<noteq> [] \<and> hd ?r \<noteq> CHR '':''"
      using step.prems Cons by (cases qs; cases q) auto
    then show ?thesis
      using step.prems step.IH Cons split_double_colon_piece [of p] split_double_colon_single [of ?r] by simp
  qed
qed simp

text \<open>The bytes of a group and the group of two bytes.\<close>

lemma byte_word: "is_byte n \<Longrightarrow> uint (word_of_int n :: 8 word) = n"
  by (rule uint_small) simp_all

lemma byte_word_eq: "is_byte n \<Longrightarrow> is_byte m \<Longrightarrow> (word_of_int n :: 8 word) = word_of_int m \<longleftrightarrow> n = m"
  by (metis byte_word)

lemma group_halves: "is_group g \<Longrightarrow> is_byte (g div 256) \<and> is_byte (g mod 256)"
  by (simp add: div_range) linarith

lemma group_bytes_text:
  assumes "is_group g"
  shows "group_bytes (hex_text (nat g)) = [word_of_int (g div 256), word_of_int (g mod 256)]"
proof -
  have v: "digits_value 16 (hex_text (nat g)) = g" using assms by (simp add: hex_text_value)
  have u: "uint (word_of_int g :: 32 word) = g" using assms by (intro uint_small) simp_all
  have m: "(0xFF :: 32 word) = mask 8" by (simp add: mask_eq_exp_minus_1)
  have "ucast ((word_of_int g :: 32 word) AND 0xFF) = (word_of_int (g mod 256) :: 8 word)"
    by (rule bit_word_eqI) (simp add: m bit_simps bit_word_of_int_iff flip: take_bit_eq_mod [of 8, simplified])
  moreover have "ucast (drop_bit 8 (word_of_int g :: 32 word) AND 0xFF) = (word_of_int (g div 256) :: 8 word)"
    by (rule bit_word_eqI) (simp add: m bit_simps bit_word_of_int_iff flip: drop_bit_eq_div [of 8, simplified])
  ultimately show ?thesis by (simp add: group_bytes_def v Let_def)
qed

lemma format_group:
  assumes "is_group g"
  shows "unat ((push_bit 8 (ucast (word_of_int (g div 256) :: 8 word)) OR ucast (word_of_int (g mod 256) :: 8 word)) AND 0xFFFF :: 32 word) = nat g"
proof -
  have u: "uint (word_of_int g :: 32 word) = g" using assms by (intro uint_small) simp_all
  have small: "bit g n \<Longrightarrow> n < 16" for n
    using assms bit_take_bit_iff [of 16 g n] take_bit_int_eq_self [of g 16] by simp
  have m: "(0xFFFF :: 32 word) = mask 16" by (simp add: mask_eq_exp_minus_1)
  have "(push_bit 8 (ucast (word_of_int (g div 256) :: 8 word)) OR ucast (word_of_int (g mod 256) :: 8 word)) AND 0xFFFF = (word_of_int g :: 32 word)"
    by (rule bit_word_eqI)
      (auto simp: m bit_simps bit_word_of_int_iff dest: small simp flip: drop_bit_eq_div [of 8, simplified] take_bit_eq_mod [of 8, simplified])
  then show ?thesis using u by (simp add: unat_eq_nat_uint)
qed

definition bytes_of_groups :: "int list \<Rightarrow> 8 word list" where
  "bytes_of_groups gs = concat (map (\<lambda>g. [word_of_int (g div 256), word_of_int (g mod 256)]) gs)"

lemma hex_text_set: "c \<in> set (hex_text n) \<Longrightarrow> is_lower_digit c"
  using hex_text_chars by (auto simp: list_all_iff)

lemma hex_text_props: "hex_text n \<noteq> []" "CHR '':'' \<notin> set (hex_text n)" "CHR ''.'' \<notin> set (hex_text n)"
proof -
  show "hex_text n \<noteq> []" by (subst hex_text.simps) simp
  show "CHR '':'' \<notin> set (hex_text n)" "CHR ''.'' \<notin> set (hex_text n)"
    using hex_text_set [of _ n] by (auto simp: is_digit_def dest!: hex_text_set)
qed

lemma ipv6_text_plain: "list_all is_plain (ipv6_text gs)"
  using set_js_join [of "CHR '':''" "map (\<lambda>g. hex_text (nat g)) gs"]
  by (auto simp: ipv6_text_def list_all_iff is_plain_def dest!: hex_text_set)

lemma ipv6_text_pieces:
  assumes "gs \<noteq> []"
  shows "js_split CHR '':'' (ipv6_text gs) = map (\<lambda>g. hex_text (nat g)) gs"
    "split_double_colon (ipv6_text gs) = [ipv6_text gs]" "ipv6_text gs \<noteq> []"
proof -
  let ?ps = "map (\<lambda>g. hex_text (nat g)) gs"
  show split: "js_split CHR '':'' (ipv6_text gs) = ?ps"
    unfolding ipv6_text_def using assms hex_text_props(2) by (intro js_split_join) auto
  show "split_double_colon (ipv6_text gs) = [ipv6_text gs]"
    unfolding ipv6_text_def using assms hex_text_props(1,2) by (intro split_double_colon_join) auto
  show "ipv6_text gs \<noteq> []"
  proof
    assume "ipv6_text gs = []"
    then have "map (\<lambda>g. hex_text (nat g)) gs = [[]]" using split by simp
    then have "hex_text (nat (hd gs)) = []" by (cases gs) auto
    then show False using hex_text_props(1) by blast
  qed
qed

lemma ipv6_bytes_text:
  assumes "length gs = 8" and "list_all is_group gs"
  shows "ipv6_bytes (ipv6_text gs) = Some (bytes_of_groups gs)"
proof -
  have ne: "gs \<noteq> []" using assms(1) by auto
  have "ipv6_groups (ipv6_text gs) = Some (map (\<lambda>g. hex_text (nat g)) gs)"
    using ipv6_text_pieces [OF ne] hex_text_props(1) assms(1) by (auto simp: ipv6_groups_def Let_def) metis
  moreover have "list_all is_hextet (map (\<lambda>g. hex_text (nat g)) gs)"
    using assms(2) by (auto simp: list_all_iff intro!: hex_text_hextet)
  moreover have "map group_bytes (map (\<lambda>g. hex_text (nat g)) gs) = map (\<lambda>g. [word_of_int (g div 256), word_of_int (g mod 256)]) gs"
    unfolding map_map comp_def using assms(2) group_bytes_text by (auto simp: list_all_iff)
  ultimately show ?thesis by (simp add: ipv6_bytes_def bytes_of_groups_def del: map_map)
qed

lemma ipv6_text_no_dot: "CHR ''.'' \<notin> set (ipv6_text gs)"
  using set_js_join [of "CHR '':''" "map (\<lambda>g. hex_text (nat g)) gs"] hex_text_props(3)
  by (auto simp: ipv6_text_def)

lemma parse_ipv6_text:
  assumes "length gs = 8" and "list_all is_group gs"
  shows "parse_ipv6_to_bytes (ipv6_text gs) = Some (bytes_of_groups gs)"
proof -
  have ne: "gs \<noteq> []" using assms(1) by auto
  have "CHR ''.'' \<notin> set (last (js_split CHR '':'' (ipv6_text gs)))"
    unfolding ipv6_text_pieces(1) [OF ne] using ne hex_text_props(3) by (simp add: last_map)
  then show ?thesis
    using ipv6_text_pieces(2,3) [OF ne] ipv6_bytes_text [OF assms]
    by (simp add: parse_ipv6_to_bytes_def plain_strip [OF ipv6_text_plain] plain_lower [OF ipv6_text_plain] Let_def)
qed

lemma format_ipv6_groups:
  "list_all is_group gs \<Longrightarrow> format_groups (bytes_of_groups gs) = map (\<lambda>g. hex_text (nat g)) gs"
  by (induction gs) (simp_all add: bytes_of_groups_def format_group)

lemma format_ipv6_text: "list_all is_group gs \<Longrightarrow> format_ipv6_bytes (bytes_of_groups gs) = ipv6_text gs"
  by (simp add: format_ipv6_bytes_def format_ipv6_groups ipv6_text_def)

lemma ipv6_text_values:
  assumes "gs \<noteq> []" and "list_all is_group gs"
  shows "map (digits_value 16) (js_split CHR '':'' (ipv6_text gs)) = gs"
  using assms(2) unfolding ipv6_text_pieces(1) [OF assms(1)]
  by (auto simp: list_all_iff hex_text_value comp_def intro!: map_idI)

text \<open>Eight bytes in a row that are zero are four groups that are zero.\<close>

lemma group_zero: "is_group g \<Longrightarrow> (word_of_int (g div 256) :: 8 word) = 0 \<and> (word_of_int (g mod 256) :: 8 word) = 0 \<longleftrightarrow> g = 0"
  using group_halves [of g] byte_word_eq [of "g div 256" 0] byte_word_eq [of "g mod 256" 0] by auto

lemma group_ones:
  assumes "is_group g"
  shows "(word_of_int (g div 256) :: 8 word) = 0xFF \<and> (word_of_int (g mod 256) :: 8 word) = 0xFF \<longleftrightarrow> g = 0xFFFF"
proof -
  have "g div 256 = 255 \<Longrightarrow> g mod 256 = 255 \<Longrightarrow> g = 65535" by presburger
  then show ?thesis
    using assms group_halves [of g] byte_word_eq [of "g div 256" 255] byte_word_eq [of "g mod 256" 255] by auto
qed

lemma is_private_ipv6_text:
  assumes "list_all is_group [g0, g1, g2, g3, g4, g5, g6, g7]"
  shows "is_private_ip (ipv6_text [g0, g1, g2, g3, g4, g5, g6, g7]) \<longleftrightarrow> non_public_ipv6 [g0, g1, g2, g3, g4, g5, g6, g7]"
proof -
  let ?gs = "[g0, g1, g2, g3, g4, g5, g6, g7]"
  let ?b = "bytes_of_groups ?gs"
  have g: "is_group g0" "is_group g1" "is_group g2" "is_group g3" "is_group g4" "is_group g5" "is_group g6" "is_group g7"
    using assms by simp_all
  have len: "length ?gs = 8" by simp
  have colon: "CHR '':'' \<in> set (ipv6_text ?gs)" by (simp add: ipv6_text_def)
  have mapped: "is_ipv4_mapped_bytes ?b \<longleftrightarrow> g0 = 0 \<and> g1 = 0 \<and> g2 = 0 \<and> g3 = 0 \<and> g4 = 0 \<and> g5 = 0xFFFF"
    using group_zero [OF g(1)] group_zero [OF g(2)] group_zero [OF g(3)] group_zero [OF g(4)] group_zero [OF g(5)] group_ones [OF g(6)]
    by (auto simp: is_ipv4_mapped_bytes_def bytes_of_groups_def numeral_eq_Suc)
  have compat: "take 12 ?b = replicate 12 0 \<longleftrightarrow> g0 = 0 \<and> g1 = 0 \<and> g2 = 0 \<and> g3 = 0 \<and> g4 = 0 \<and> g5 = 0"
    using group_zero [OF g(1)] group_zero [OF g(2)] group_zero [OF g(3)] group_zero [OF g(4)] group_zero [OF g(5)] group_zero [OF g(6)]
    by (auto simp: bytes_of_groups_def numeral_eq_Suc)
  have tail: "map uint (drop 12 ?b) = [g6 div 256, g6 mod 256, g7 div 256, g7 mod 256]"
    using group_halves [OF g(7)] group_halves [OF g(8)] byte_word by (simp add: bytes_of_groups_def numeral_eq_Suc)
  have emb: "embeds_ipv4 ?gs \<longleftrightarrow> is_ipv4_mapped_bytes ?b \<or> take 12 ?b = replicate 12 0"
    unfolding mapped compat embeds_ipv4_def by (auto simp: atLeastAtMost_insertL [symmetric] numeral_eq_Suc)
  have "is_private_ip (ipv6_text ?gs) \<longleftrightarrow>
      (if embeds_ipv4 ?gs then is_private_ipv4_octets [g6 div 256, g6 mod 256, g7 div 256, g7 mod 256] else block_check (ipv6_of ?gs))"
    unfolding is_private_ip_def parse_ipv6_text [OF len assms] emb
    using colon ipv6_text_pieces(3) [of ?gs] ipv6_text_values [of ?gs] assms
    by (simp add: tail format_ipv6_text [OF assms])
  also have "\<dots> \<longleftrightarrow> non_public_ipv6 ?gs"
    using block_check_ipv6 [OF assms] block_check_ipv4 [of "g6 div 256" "g6 mod 256" "g7 div 256" "g7 mod 256"]
      group_halves [OF g(7)] group_halves [OF g(8)] emb mapped
    by (simp add: non_public_ipv6_def is_private_ipv4_octets_def)
  finally show ?thesis .
qed

section \<open>Any spelling of an address\<close>

lemma ipv6_bytes_length: "ipv6_bytes head = Some b \<Longrightarrow> length b = 16"
proof -
  have two: "length (concat (map group_bytes ps)) = 2 * length ps" for ps
    by (induction ps) (simp_all add: group_bytes_def Let_def)
  assume "ipv6_bytes head = Some b"
  then obtain ps where "ipv6_groups head = Some ps" and b: "b = concat (map group_bytes ps)"
    by (auto simp: ipv6_bytes_def split: option.splits if_splits)
  then have "length ps = 8" by (auto simp: ipv6_groups_def Let_def split: if_splits)
  then show ?thesis using b two by simp
qed

lemma parse_ipv6_length: "parse_ipv6_to_bytes ip = Some b \<Longrightarrow> length b = 16"
  by (auto simp: parse_ipv6_to_bytes_def Let_def ipv4_octets_def split: if_splits option.splits dest!: ipv6_bytes_length)

fun groups_of :: "8 word list \<Rightarrow> int list" where
  "groups_of (h # l # b) = (uint h * 256 + uint l) # groups_of b"
| "groups_of _ = []"

lemma group_of_bytes:
  "is_group (uint h * 256 + uint (l :: 8 word)) \<and> (uint h * 256 + uint l) div 256 = uint h \<and> (uint h * 256 + uint l) mod 256 = uint l"
  for h :: "8 word"
  using unsigned_less [of h, where 'a = int] unsigned_less [of l, where 'a = int] by simp

lemma groups_of_bytes:
  "even (length b) \<Longrightarrow> bytes_of_groups (groups_of b) = b \<and> list_all is_group (groups_of b) \<and> 2 * length (groups_of b) = length b"
proof (induction b rule: groups_of.induct)
  case (1 h l b)
  then show ?case using group_of_bytes [of h l] by (simp add: bytes_of_groups_def)
qed (simp_all add: bytes_of_groups_def)

lemma is_private_ip_parsed:
  assumes "CHR '':'' \<in> set ip" and "parse_ipv6_to_bytes ip = Some (bytes_of_groups gs)" and "length gs = 8" and "list_all is_group gs"
  shows "is_private_ip ip \<longleftrightarrow> non_public_ipv6 gs"
proof -
  obtain g0 g1 g2 g3 g4 g5 g6 g7 where gs: "gs = [g0, g1, g2, g3, g4, g5, g6, g7]"
    using assms(3) by (auto simp: numeral_eq_Suc length_Suc_conv)
  have "ip \<noteq> []" "ipv6_text gs \<noteq> []" using assms(1) ipv6_text_pieces(3) [of gs] gs by auto
  moreover have "CHR '':'' \<in> set (ipv6_text gs)" by (simp add: gs ipv6_text_def)
  ultimately have "is_private_ip ip \<longleftrightarrow> is_private_ip (ipv6_text gs)"
    using assms(1,2) parse_ipv6_text [OF assms(3,4)] unfolding is_private_ip_def by simp
  then show ?thesis using is_private_ipv6_text assms(4) unfolding gs by blast
qed

lemma is_private_ip_colon:
  assumes "CHR '':'' \<in> set ip"
  shows "is_private_ip ip \<longleftrightarrow>
    (case parse_ipv6_to_bytes ip of None \<Rightarrow> True | Some b \<Rightarrow> non_public_ipv6 (groups_of b))"
proof (cases "parse_ipv6_to_bytes ip")
  case None
  then show ?thesis using assms by (auto simp: is_private_ip_def)
next
  case (Some b)
  have "length b = 16" using parse_ipv6_length [OF Some] .
  then show ?thesis using is_private_ip_parsed [OF assms, of "groups_of b"] groups_of_bytes [of b] Some by simp
qed

lemma parse_embedded:
  assumes "length octets = 4" and "list_all is_byte octets" and "list_all is_plain pre" and "pre \<noteq> []" and "last pre = CHR '':''"
    and "length (split_double_colon (pre @ ipv4_text octets)) \<le> 2"
    and "ipv6_bytes (pre @ ''0:0'') = Some b"
  shows "parse_ipv6_to_bytes (pre @ ipv4_text octets) = Some (take 12 b @ map word_of_int octets)"
proof -
  let ?t = "ipv4_text octets"
  have plain: "list_all is_plain (pre @ ?t)" using assms(3) ipv4_text_plain by simp
  have pre: "pre = butlast pre @ [CHR '':'']" using assms(4,5) append_butlast_last_id [of pre] by simp
  have "js_split CHR '':'' (pre @ ?t) = js_split CHR '':'' (butlast pre) @ [?t]"
    using js_split_append [of "CHR '':''" "butlast pre" ?t] js_split_last [OF ipv4_text_no_colon] pre
    by (metis append.assoc append_Cons append_Nil)
  then have tail: "last (js_split CHR '':'' (pre @ ?t)) = ?t" by simp
  have colon: "CHR '':'' \<in> set (pre @ ?t)" using pre by (metis UnCI in_set_conv_decomp set_append)
  have "2 \<le> length (js_split CHR ''.'' ?t)"
    using ipv4_text_octets [OF assms(1,2)] by (auto simp: ipv4_octets_def Let_def split: if_splits)
  then have "CHR ''.'' \<in> set ?t" using js_split_last [of "CHR ''.''" ?t] by force
  moreover have "pre @ ?t \<noteq> []" using assms(4) by simp
  ultimately show ?thesis
    using colon assms(6,7) ipv4_text_octets [OF assms(1,2)]
    by (simp add: parse_ipv6_to_bytes_def plain_strip [OF plain] plain_lower [OF plain] tail Let_def)
qed

lemma embedded_bytes:
  "ipv6_bytes ''::ffff:0:0'' = Some (replicate 10 0 @ [0xFF, 0xFF] @ replicate 4 0)"
  "ipv6_bytes ''::0:0'' = Some (replicate 16 0)"
  by code_simp+

lemma embedded_double_colons:
  "length (split_double_colon (''::ffff:'' @ ipv4_text octets)) \<le> 2"
  "length (split_double_colon (''::'' @ ipv4_text octets)) \<le> 2"
proof -
  have no: "split_double_colon (ipv4_text octets) = [ipv4_text octets]"
    using split_double_colon_piece [OF ipv4_text_no_colon, of octets "[]"] by simp
  then show "length (split_double_colon (''::'' @ ipv4_text octets)) \<le> 2" by simp
  show "length (split_double_colon (''::ffff:'' @ ipv4_text octets)) \<le> 2"
  proof (cases "ipv4_text octets")
    case (Cons c t)
    then have "c \<noteq> CHR '':''" using ipv4_text_no_colon [of octets] by auto
    then have "split_double_colon (CHR '':'' # ipv4_text octets) = [CHR '':'' # ipv4_text octets]"
      using no Cons by simp
    then show ?thesis using split_double_colon_piece [of "''ffff''" "CHR '':'' # ipv4_text octets"] by simp
  qed simp
qed

lemma is_private_embedded:
  assumes "is_byte a" "is_byte b" "is_byte c" "is_byte d"
  shows "is_private_ip (''::ffff:'' @ ipv4_text [a, b, c, d]) \<longleftrightarrow> non_public_ipv4 a b c d"
    "is_private_ip (''::'' @ ipv4_text [a, b, c, d]) \<longleftrightarrow> non_public_ipv4 a b c d"
proof -
  let ?t = "ipv4_text [a, b, c, d]"
  have plain: "list_all is_plain ''::ffff:''" "list_all is_plain ''::''" by (simp_all add: is_plain_def is_digit_def)
  have "parse_ipv6_to_bytes (''::ffff:'' @ ?t) = Some (replicate 10 0 @ [0xFF, 0xFF] @ map word_of_int [a, b, c, d])"
    using parse_embedded [OF _ _ plain(1) _ _ embedded_double_colons(1), of "[a, b, c, d]"] embedded_bytes(1) assms
    by (simp add: numeral_eq_Suc)
  then show "is_private_ip (''::ffff:'' @ ?t) \<longleftrightarrow> non_public_ipv4 a b c d"
    using assms block_check_ipv4 [OF assms] byte_word
    by (simp add: is_private_ip_def is_ipv4_mapped_bytes_def is_private_ipv4_octets_def numeral_eq_Suc)
  have "parse_ipv6_to_bytes (''::'' @ ?t) = Some (replicate 12 0 @ map word_of_int [a, b, c, d])"
    using parse_embedded [OF _ _ plain(2) _ _ embedded_double_colons(2), of "[a, b, c, d]"] embedded_bytes(2) assms
    by (simp add: numeral_eq_Suc)
  then show "is_private_ip (''::'' @ ?t) \<longleftrightarrow> non_public_ipv4 a b c d"
    using assms block_check_ipv4 [OF assms] byte_word
    by (simp add: is_private_ip_def is_private_ipv4_octets_def numeral_eq_Suc)
qed

lemma parse_format_ipv6:
  "length b = 16 \<Longrightarrow> parse_ipv6_to_bytes (format_ipv6_bytes b) = Some b"
  using groups_of_bytes [of b] format_ipv6_text [of "groups_of b"] parse_ipv6_text [of "groups_of b"] by simp

text \<open>C20: the guard blocks exactly its documented ranges, however an address is spelled: an IPv4 address in
  dotted form is private exactly when its octets lie in one of the ranges, wrapping it in a mapped or a
  compatible IPv6 form changes nothing, and any text with a colon is private when it is no address or its
  groups lie in one of the ranges.\<close>

theorem guard_matches_the_address_ranges:
  assumes "is_byte a" "is_byte b" "is_byte c" "is_byte d"
  shows "(is_private_ip (ipv4_text [a, b, c, d]) \<longleftrightarrow> non_public_ipv4 a b c d) \<and>
    (is_private_ip (''::ffff:'' @ ipv4_text [a, b, c, d]) \<longleftrightarrow> non_public_ipv4 a b c d) \<and>
    (is_private_ip (''::'' @ ipv4_text [a, b, c, d]) \<longleftrightarrow> non_public_ipv4 a b c d) \<and>
    (\<forall>ip. CHR '':'' \<in> set ip \<longrightarrow> (is_private_ip ip \<longleftrightarrow>
       (case parse_ipv6_to_bytes ip of None \<Rightarrow> True | Some bytes \<Rightarrow> non_public_ipv6 (groups_of bytes)))) \<and>
    (\<forall>bytes. length bytes = 16 \<longrightarrow> parse_ipv6_to_bytes (format_ipv6_bytes bytes) = Some bytes)"
  using is_private_ipv4_text [OF assms] is_private_embedded [OF assms] is_private_ip_colon parse_format_ipv6 by blast

lemma guard_matches_the_address_ranges_witness:
  "is_private_ip (''::ffff:'' @ ipv4_text [169, 254, 169, 254]) \<and> \<not> is_private_ip (''::ffff:'' @ ipv4_text [8, 8, 8, 8])"
  using guard_matches_the_address_ranges [of 169 254 169 254] guard_matches_the_address_ranges [of 8 8 8 8]
  by (simp add: non_public_ipv4_def)

section \<open>Pinned addresses\<close>

definition is_ip_char :: "char \<Rightarrow> bool" where
  "is_ip_char c \<longleftrightarrow> is_hex c \<or> c = CHR '':'' \<or> c = CHR ''.''"

lemma is_ip_char_strip:
  assumes "list_all is_ip_char s"
  shows "strip_ipv6_decorations s = s"
proof -
  have c: "\<not> is_js_space c \<and> c \<noteq> CHR ''%'' \<and> c \<noteq> CHR ''[''" if "c \<in> set s" for c
  proof -
    have "is_ip_char c" using assms that by (simp add: list_all_iff)
    then show ?thesis by (auto simp: is_ip_char_def is_hex_def is_digit_def is_js_space_def)
  qed
  have "dropWhile is_js_space t = t" if "set t \<subseteq> set s" for t using that c by (cases t) auto
  then have trim: "js_trim s = s" by (simp add: js_trim_def)
  have h: "\<not> (s \<noteq> [] \<and> hd s = CHR ''['' \<and> last s = CHR '']'')" using c by (cases s) auto
  have t: "takeWhile (\<lambda>c. c \<noteq> CHR ''%'') s = s" using c by auto
  show ?thesis unfolding strip_ipv6_decorations_def Let_def trim if_not_P [OF h] by (rule t)
qed

lemma set_js_split: "set s \<subseteq> insert c (\<Union>p\<in>set (js_split c s). set p)"
  using set_js_join [of c "js_split c s"] by simp

lemma set_split_double_colon: "set s \<subseteq> insert CHR '':'' (\<Union>p\<in>set (split_double_colon s). set p)"
proof (induction s rule: split_double_colon.induct)
  case (1 c d r)
  obtain q qs where q: "split_double_colon (d # r) = q # qs" by (cases "split_double_colon (d # r)") auto
  show ?case
  proof (cases "c = CHR '':'' \<and> d = CHR '':''")
    case True
    then show ?thesis using 1 by auto
  next
    case False
    then have "split_double_colon (c # d # r) = (c # q) # qs" using q by auto
    moreover have "set (d # r) \<subseteq> insert CHR '':'' (\<Union>p\<in>set (q # qs). set p)" using 1(2) [OF False] q by simp
    ultimately show ?thesis by auto
  qed
qed auto

lemma ipv4_text_chars: "is_ipv4_text s \<Longrightarrow> list_all is_ip_char s"
  using set_js_split [of s "CHR ''.''"] by (fastforce simp: is_ipv4_text_def Let_def list_all_iff is_ip_char_def is_hex_def)

lemma segment_chars: "is_ipv6_segment p \<Longrightarrow> list_all is_ip_char p"
  by (auto simp: is_ipv6_segment_def list_all_iff is_ip_char_def)

lemma segments_chars: "segments_weight ps = Some w \<Longrightarrow> p \<in> set ps \<Longrightarrow> list_all is_ip_char p"
  by (induction ps arbitrary: w rule: segments_weight.induct) (auto split: if_splits intro: segment_chars ipv4_text_chars)

lemma joined_chars: "\<forall>p\<in>set (js_split CHR '':'' s). list_all is_ip_char p \<Longrightarrow> list_all is_ip_char s"
  using set_js_split [of s "CHR '':''"] by (fastforce simp: list_all_iff is_ip_char_def)

lemma parts_chars: "\<forall>p\<in>set (colon_parts s). list_all is_ip_char p \<Longrightarrow> list_all is_ip_char s"
  using joined_chars [of s] by (auto simp: colon_parts_def split: if_splits)

lemma is_ip_chars:
  assumes "is_ip s"
  shows "list_all is_ip_char s"
proof (cases "is_ipv4_text s")
  case False
  then have v6: "is_ipv6_text s" using assms by (simp add: is_ip_def)
  then consider (whole) h where "split_double_colon s = [h]" "segments_weight (js_split CHR '':'' h) = Some 8"
    | (cut) l r w where "split_double_colon s = [l, r]" "list_all is_ipv6_segment (colon_parts l)" "segments_weight (colon_parts r) = Some w"
    unfolding is_ipv6_text_def by (auto split: list.splits option.splits)
  then have "\<forall>p\<in>set (split_double_colon s). list_all is_ip_char p"
  proof cases
    case whole
    then show ?thesis using joined_chars [of h] segments_chars by auto
  next
    case cut
    have "list_all is_ip_char l" by (rule parts_chars) (use cut(2) segment_chars in \<open>auto simp: list_all_iff [of is_ipv6_segment]\<close>)
    moreover have "list_all is_ip_char r" using cut(3) segments_chars by (intro parts_chars) blast
    ultimately show ?thesis using cut(1) by simp
  qed
  then show ?thesis using set_split_double_colon [of s] by (fastforce simp: list_all_iff is_ip_char_def)
qed (simp add: ipv4_text_chars)

lemma no_colon_no_ipv6:
  assumes "CHR '':'' \<notin> set (strip_ipv6_decorations ip)"
  shows "parse_ipv6_to_bytes ip = None"
proof -
  let ?s = "js_lower (strip_ipv6_decorations ip)"
  have "c = CHR '':''" if "lower_char c = CHR '':''" for c
  proof (cases "lower_char c = c")
    case False
    then have "lower_char c = char_of ((of_char c :: nat) + 32)" and n: "65 \<le> (of_char c :: nat)" "(of_char c :: nat) \<le> 222"
      by (auto simp: lower_char_def Let_def split: if_splits)
    then have "(of_char (lower_char c) :: nat) = of_char c + 32" by (simp only: of_char_of) simp
    then show ?thesis using that n by simp
  qed (use that in simp)
  then have "CHR '':'' \<notin> lower_char ` set (strip_ipv6_decorations ip)" using assms by (metis imageE)
  then have no: "CHR '':'' \<notin> set ?s" by (simp add: js_lower_def)
  have "split_double_colon ?s = [?s]" using split_double_colon_piece [OF no, of "[]"] by simp
  then show ?thesis
    using no js_split_last [OF no] by (simp add: parse_ipv6_to_bytes_def ipv6_bytes_def ipv6_groups_def Let_def)
qed

lemma strip_no_percent: "CHR ''%'' \<notin> set (strip_ipv6_decorations s)"
  by (auto simp: strip_ipv6_decorations_def Let_def dest: set_takeWhileD)

text \<open>C19: a pinned address is public. When a host, as the URL parser writes it, is accepted, the address to
  connect to is not private under the guard's ranges: a literal host is pinned to itself, and a name to
  the first of the addresses of both families, none of which is private. A name without addresses is
  refused.\<close>

theorem pinned_address_is_public:
  assumes "resolve_pinned_public_ip resolve4 resolve6 host = Inr ip"
    and "strip_ipv6_decorations host = host \<or> CHR '':'' \<in> set host"
  shows "\<not> is_private_ip ip \<and>
    (if is_ip (strip_ipv6_decorations host) then ip = strip_ipv6_decorations host
     else (\<exists>rest. (case resolve4 host of None \<Rightarrow> [] | Some as \<Rightarrow> as) @ (case resolve6 host of None \<Rightarrow> [] | Some as \<Rightarrow> as) = ip # rest \<and>
       (\<forall>a\<in>set rest. \<not> is_private_ip a)))"
proof (cases "is_ip (strip_ipv6_decorations host)")
  case True
  let ?bare = "strip_ipv6_decorations host"
  have ip: "ip = ?bare" and public: "\<not> is_private_ip host"
    using assms(1) True by (auto simp: resolve_pinned_public_ip_def Let_def split: if_splits)
  have same: "parse_ipv6_to_bytes ?bare = parse_ipv6_to_bytes host"
    using is_ip_char_strip [OF is_ip_chars [OF True]] by (simp add: parse_ipv6_to_bytes_def)
  have "\<not> is_private_ip ?bare"
  proof (cases "CHR '':'' \<in> set host")
    case colon: True
    have "parse_ipv6_to_bytes host \<noteq> None"
    proof
      assume "parse_ipv6_to_bytes host = None"
      then show False using public is_private_ip_colon [OF colon] by simp
    qed
    then have "CHR '':'' \<in> set ?bare" using no_colon_no_ipv6 [of host] by argo
    from is_private_ip_colon [OF this] is_private_ip_colon [OF colon] public show ?thesis
      unfolding same by argo
  next
    case False
    then have "?bare = host" using assms(2) by blast
    then show ?thesis using public by (simp only: not_False_eq_True)
  qed
  then show ?thesis using True ip by (simp only: if_True simp_thms)
next
  case False
  then show ?thesis
    using assms(1) unfolding resolve_pinned_public_ip_def Let_def
    by (auto split: list.splits option.splits if_splits simp: find_None_iff)
qed

lemma pinned_address_is_public_witness:
  "\<not> is_private_ip ''93.184.216.34'' \<and>
   resolve_pinned_public_ip (\<lambda>_. Some [''93.184.216.34'']) (\<lambda>_. None) ''example.com'' = Inr ''93.184.216.34''"
proof -
  have r: "resolve_pinned_public_ip (\<lambda>_. Some [''93.184.216.34'']) (\<lambda>_. None) ''example.com'' = Inr ''93.184.216.34''"
    by code_simp
  have "strip_ipv6_decorations ''example.com'' = ''example.com''" by code_simp
  then show ?thesis using pinned_address_is_public [OF r] r by blast
qed

section \<open>Bounded responses\<close>

definition exchange_ok :: "int option \<Rightarrow> exchange \<Rightarrow> bool" where
  "exchange_ok maxBytes x \<longleftrightarrow>
     (\<not> ex_destroyed x \<longrightarrow> ex_total x = int (length (concat (ex_chunks x)))) \<and>
     (case maxBytes of None \<Rightarrow> True | Some m \<Rightarrow> 0 \<le> m \<longrightarrow> int (length (concat (ex_chunks x))) \<le> m) \<and>
     (case (maxBytes, ex_settled x) of (Some m, Some (Fulfilled status body)) \<Rightarrow> 0 \<le> m \<longrightarrow> int (length body) \<le> m | _ \<Rightarrow> True)"

lemma request_step_ok: "exchange_ok maxBytes x \<Longrightarrow> exchange_ok maxBytes (request_step maxBytes event x)"
  by (cases event; cases maxBytes) (auto simp: exchange_ok_def settle_def Let_def split: option.splits request_outcome.splits)

lemma request_pinned_bounded:
  assumes "request_pinned (Some m) events = Some (Fulfilled status body)" and "0 \<le> m"
  shows "int (length body) \<le> m"
proof -
  let ?x = "\<lparr>ex_status = 0, ex_chunks = [], ex_total = 0, ex_destroyed = False, ex_settled = None\<rparr>"
  have "exchange_ok (Some m) (fold (request_step (Some m)) events ?x)"
    by (rule fold_invariant_on) (simp add: exchange_ok_def, rule request_step_ok)
  then show ?thesis using assms by (simp add: exchange_ok_def request_pinned_def)
qed

end
