(* ===== verification/StepGraph.thy ===== *)
theory StepGraph
  imports Prelude "HOL-Library.Char_ord" "HOL-Library.List_Lexorder"
begin

text \<open>
  The dependency graph of workflow steps, \<open>workflow-recipes/src/workflow/stepDependencyGraph.ts\<close>:
  execution groups by Kahn's algorithm, the cycle reported when there are none, and the steps that
  depend on a step. The groups are shown to be the layers of the dependency relation, a reported cycle
  to be one of the relation, and an error to be reported only for an unknown dependency or a cycle.
\<close>

section \<open>Steps, groups, errors\<close>

record step_node =
  sn_id :: string
  sn_dependsOn :: "string list"

record execution_group =
  eg_groupIndex :: nat
  eg_steps :: "string list"

datatype graph_error = CyclicDependency "string list" | UnknownDependency string string

text \<open>A \<open>Set\<close> built from a list iterates in the order of first occurrence.\<close>

definition js_set_of :: "'a list \<Rightarrow> 'a list" where
  "js_set_of xs = rev (remdups (rev xs))"

fun unknown_dependency :: "string list \<Rightarrow> step_node list \<Rightarrow> (string \<times> string) option" where
  "unknown_dependency ids [] = None"
| "unknown_dependency ids (s # ss) =
     (case find (\<lambda>d. d \<notin> set ids) (sn_dependsOn s) of
        Some d \<Rightarrow> Some (sn_id s, d)
      | None \<Rightarrow> unknown_dependency ids ss)"

section \<open>Kahn's algorithm\<close>

definition in_degrees :: "step_node list \<Rightarrow> (string, int) js_map" where
  "in_degrees steps = foldl (\<lambda>m s. js_set (sn_id s) (int (length (sn_dependsOn s))) m) [] steps"

definition add_dependent :: "string \<Rightarrow> (string, string list) js_map \<Rightarrow> string \<Rightarrow> (string, string list) js_map" where
  "add_dependent i m d = js_set d ((case js_get m d of None \<Rightarrow> [] | Some is \<Rightarrow> is) @ [i]) m"

definition add_step :: "(string, string list) js_map \<Rightarrow> step_node \<Rightarrow> (string, string list) js_map" where
  "add_step m s =
     foldl (add_dependent (sn_id s)) (if js_get m (sn_id s) = None then js_set (sn_id s) [] m else m) (sn_dependsOn s)"

definition dependents_of :: "step_node list \<Rightarrow> (string, string list) js_map" where
  "dependents_of steps = foldl add_step [] steps"

text \<open>One decrement; every dependent has a degree, so the missing case does not arise.\<close>

definition relax :: "(string, int) js_map \<times> string list \<Rightarrow> string \<Rightarrow> (string, int) js_map \<times> string list" where
  "relax st dependent =
     (case js_get (fst st) dependent of
        None \<Rightarrow> st
      | Some d \<Rightarrow> (js_set dependent (d - 1) (fst st), if d - 1 = 0 then snd st @ [dependent] else snd st))"

definition drain_queue ::
  "(string, string list) js_map \<Rightarrow> (string, int) js_map \<Rightarrow> string list \<Rightarrow> (string, int) js_map \<times> string list" where
  "drain_queue dependents inDegree queue =
     foldl (\<lambda>st i. foldl relax st (case js_get dependents i of None \<Rightarrow> [] | Some is \<Rightarrow> is)) (inDegree, []) queue"

text \<open>The number of keys with a positive degree falls whenever a step is queued.\<close>

definition waiting :: "(string, int) js_map \<Rightarrow> string set" where
  "waiting m = {k. \<exists>d. js_get m k = Some d \<and> 0 < d}"

lemma finite_waiting [simp]: "finite (waiting m)"
  by (rule finite_subset [of _ "fst ` set m"]) (auto simp: waiting_def dest: map_of_SomeD intro: rev_image_eqI)

lemma relax_waiting:
  "waiting (fst (relax st x)) \<subseteq> waiting (fst st) \<and>
   (\<forall>y\<in>set (snd (relax st x)) - set (snd st). y \<in> waiting (fst st) - waiting (fst (relax st x)))"
  by (auto simp: relax_def waiting_def split: option.splits if_splits)

lemma relaxes_waiting:
  "waiting (fst (foldl relax st xs)) \<subseteq> waiting (fst st) \<and>
   (\<forall>y\<in>set (snd (foldl relax st xs)) - set (snd st). y \<in> waiting (fst st) - waiting (fst (foldl relax st xs)))"
proof (induction xs arbitrary: st)
  case (Cons x xs)
  show ?case using Cons [of "relax st x"] relax_waiting [of st x] by auto
qed simp

lemma drain_queue_flat:
  "drain_queue D deg queue =
     foldl relax (deg, []) (concat (map (\<lambda>i. case js_get D i of None \<Rightarrow> [] | Some is \<Rightarrow> is) queue))"
proof -
  have "foldl (\<lambda>st i. foldl relax st (case js_get D i of None \<Rightarrow> [] | Some is \<Rightarrow> is)) st queue =
      foldl relax st (concat (map (\<lambda>i. case js_get D i of None \<Rightarrow> [] | Some is \<Rightarrow> is) queue))" for st
    by (induction queue arbitrary: st) simp_all
  then show ?thesis by (simp add: drain_queue_def)
qed

lemma drain_queue_waiting:
  "waiting (fst (drain_queue D deg queue)) \<subseteq> waiting deg \<and>
   set (snd (drain_queue D deg queue)) \<subseteq> waiting deg - waiting (fst (drain_queue D deg queue))"
  using relaxes_waiting [of "(deg, [])"] by (auto simp: drain_queue_flat)

function kahn ::
  "(string, string list) js_map \<Rightarrow> (string, int) js_map \<Rightarrow> string list \<Rightarrow> string list list" where
  "kahn dependents inDegree queue =
     (if queue = [] then []
      else queue # kahn dependents (fst (drain_queue dependents inDegree queue))
                     (sort (snd (drain_queue dependents inDegree queue))))"
  by pat_completeness auto

termination
proof (relation "measure (\<lambda>(D, deg, q). 2 * card (waiting deg) + (if q = [] then 0 else 1))", goal_cases)
  case (2 D deg q)
  let ?r = "drain_queue D deg q"
  have sub: "waiting (fst ?r) \<subseteq> waiting deg" "set (snd ?r) \<subseteq> waiting deg - waiting (fst ?r)"
    using drain_queue_waiting by blast+
  show ?case
  proof (cases "snd ?r = []")
    case True
    then show ?thesis using card_mono [OF finite_waiting sub(1)] 2 by simp
  next
    case False
    then have "waiting (fst ?r) \<subset> waiting deg" using sub by (metis Diff_eq_empty_iff psubsetI set_empty subset_antisym subset_empty)
    from psubset_card_mono [OF finite_waiting this] 2 show ?thesis by simp
  qed
qed simp

declare kahn.simps [simp del]

lemma kahn_Nil [simp]: "kahn D deg [] = []"
  by (simp add: kahn.simps)

lemma kahn_next:
  "q \<noteq> [] \<Longrightarrow> drain_queue D deg q = (deg', nx) \<Longrightarrow> kahn D deg q = q # kahn D deg' (sort nx)"
  by (simp add: kahn.simps [of D deg q])

section \<open>The reported cycle\<close>

text \<open>
  Depth-first search over a list of steps in turn, with the visited and the stacked ids and the path;
  the search ends at the first step that is on the stack.
\<close>

type_synonym dfs_state = "string list \<times> string list \<times> string list"

function (sequential) dfs_each ::
  "(string, step_node) js_map \<Rightarrow> string list \<Rightarrow> dfs_state \<Rightarrow> dfs_state \<times> string list option" where
  "dfs_each stepMap [] st = (st, None)"
| "dfs_each stepMap (i # is) (visited, inStack, path) =
     (if i \<in> set inStack then
        ((visited, inStack, path), Some (dropWhile (\<lambda>x. x \<noteq> i) path @ [i]))
      else if i \<in> set visited then dfs_each stepMap is (visited, inStack, path)
      else
        (case js_get stepMap i of
           None \<Rightarrow> dfs_each stepMap is (i # visited, inStack, path)
         | Some step \<Rightarrow>
             (case dfs_each stepMap (sn_dependsOn step) (i # visited, i # inStack, path @ [i]) of
                (st, Some cycle) \<Rightarrow> (st, Some cycle)
              | ((visited', inStack', path'), None) \<Rightarrow>
                  dfs_each stepMap is (visited', removeAll i inStack', butlast path'))))"
  by pat_completeness auto

termination
proof (relation "inv_image (less_than <*lex*> less_than)
    (\<lambda>(m, is, visited, inStack, path). (card (fst ` set m - set visited), length is))", goal_cases)
  case (2 m i "is" visited inStack path)
  have "card (fst ` set m - set (i # visited)) \<le> card (fst ` set m - set visited)"
    by (rule card_mono) auto
  then show ?case by simp
next
  case (3 m i "is" visited inStack path)
  have "card (fst ` set m - set (i # visited)) \<le> card (fst ` set m - set visited)"
    by (rule card_mono) auto
  then show ?case by auto
next
  case (4 m i "is" visited inStack path step)
  then have "i \<in> fst ` set m - set visited" by (auto dest: map_of_SomeD intro: rev_image_eqI)
  then have "fst ` set m - set (i # visited) \<subset> fst ` set m - set visited" by auto
  from psubset_card_mono [OF _ this] show ?case by simp
next
  case (5 m i "is" visited inStack path step x c v y s p)
  have grows: "dfs_each_dom (m, is, st) \<Longrightarrow> set (fst st) \<subseteq> set (fst (fst (dfs_each m is st)))" for m "is" st
  proof (induction rule: dfs_each.pinduct)
    case (1 m st)
    then show ?case by (simp add: dfs_each.psimps)
  next
    case (2 m j js seen stack p)
    show ?case
    proof (cases "j \<in> set stack \<or> j \<in> set seen \<or> js_get m j = None")
      case True
      then show ?thesis using 2 by (auto simp: dfs_each.psimps(2) [OF 2(1)])
    next
      case False
      then obtain step where step: "js_get m j = Some step" by auto
      obtain v s q c where r: "dfs_each m (sn_dependsOn step) (j # seen, j # stack, p @ [j]) = ((v, s, q), c)"
        by (metis prod.collapse)
      show ?thesis
        using False 2(4) [OF _ _ step] 2(5) [OF _ _ step r [symmetric]] r step
        by (cases c) (auto simp: dfs_each.psimps(2) [OF 2(1)])
    qed
  qed
  have "set (i # visited) \<subseteq> set (fst (fst (dfs_each m (sn_dependsOn step) (i # visited, i # inStack, path @ [i]))))"
    using grows [OF 5(8)] by simp
  then have "set visited \<subseteq> set v" using 5(4,5) by (metis fst_conv insert_subset list.set(2))
  then have "card (fst ` set m - set v) \<le> card (fst ` set m - set visited)" by (intro card_mono) auto
  then show ?case by auto
qed (auto intro: wf_inv_image wf_lex_prod)

definition step_map :: "step_node list \<Rightarrow> (string, step_node) js_map" where
  "step_map steps = foldl (\<lambda>m s. js_set (sn_id s) s m) [] steps"

text \<open>The search starts anew, with an empty path, at each remaining step; \<open>visited\<close> and \<open>inStack\<close> are kept.\<close>

fun cycle_from :: "(string, step_node) js_map \<Rightarrow> step_node list \<Rightarrow> string list \<Rightarrow> string list \<Rightarrow> string list option" where
  "cycle_from stepMap [] visited inStack = None"
| "cycle_from stepMap (s # ss) visited inStack =
     (case dfs_each stepMap [sn_id s] (visited, inStack, []) of
        (st, Some cycle) \<Rightarrow> Some cycle
      | ((visited', inStack', path), None) \<Rightarrow> cycle_from stepMap ss visited' inStack')"

definition find_cycle :: "step_node list \<Rightarrow> string list" where
  "find_cycle steps =
     (case cycle_from (step_map steps) steps [] [] of Some cycle \<Rightarrow> cycle | None \<Rightarrow> map sn_id steps)"

section \<open>Groups and dependents\<close>

definition step_layers :: "step_node list \<Rightarrow> string list list" where
  "step_layers steps =
     (let inDegree = in_degrees steps
      in kahn (dependents_of steps) inDegree
           (sort (filter (\<lambda>i. js_get inDegree i = Some 0) (js_set_of (map sn_id steps)))))"

definition build_execution_groups :: "step_node list \<Rightarrow> graph_error + execution_group list" where
  "build_execution_groups steps =
     (if steps = [] then Inr []
      else case unknown_dependency (js_set_of (map sn_id steps)) steps of
        Some (stepId, dep) \<Rightarrow> Inl (UnknownDependency stepId dep)
      | None \<Rightarrow>
          (let groups = step_layers steps
           in if sum_list (map length groups) < length steps
              then Inl (CyclicDependency (find_cycle (filter (\<lambda>s. \<not> (\<exists>g\<in>set groups. sn_id s \<in> set g)) steps)))
              else Inr (map (\<lambda>(n, g). \<lparr>eg_groupIndex = n, eg_steps = g\<rparr>) (enumerate 0 groups))))"

text \<open>Breadth-first search along the dependents.\<close>

definition dependents_map :: "step_node list \<Rightarrow> (string, string list) js_map" where
  "dependents_map steps = foldl (\<lambda>m s. foldl (add_dependent (sn_id s)) m (sn_dependsOn s)) [] steps"

definition visit_new :: "string list \<times> string list \<Rightarrow> string \<Rightarrow> string list \<times> string list" where
  "visit_new st d = (if d \<in> set (fst st) then st else (fst st @ [d], snd st @ [d]))"

definition bfs_room :: "(string, string list) js_map \<Rightarrow> string list \<Rightarrow> nat" where
  "bfs_room dependents visited = card (\<Union> (set ` snd ` set dependents) - set visited)"

lemma visits:
  assumes "foldl visit_new (v, q) ds = (v', q')"
  shows "set v' = set v \<union> set ds \<and> (\<exists>new. v' = v @ new \<and> q' = q @ new \<and> set new \<subseteq> set ds - set v \<and> distinct new)"
  using assms
proof (induction ds arbitrary: v q)
  case (Cons d ds)
  show ?case
  proof (cases "d \<in> set v")
    case True
    then show ?thesis using Cons by (auto simp: visit_new_def)
  next
    case False
    then have "foldl visit_new (v @ [d], q @ [d]) ds = (v', q')" using Cons(2) by (simp add: visit_new_def [of "(v, q)"])
    from Cons(1) [OF this] False show ?thesis by auto
  qed
qed auto

function bfs :: "(string, string list) js_map \<Rightarrow> string list \<Rightarrow> string list \<Rightarrow> string list" where
  "bfs dependents visited [] = visited"
| "bfs dependents visited (current # queue) =
     (let st = foldl visit_new (visited, queue) (case js_get dependents current of None \<Rightarrow> [] | Some is \<Rightarrow> is)
      in bfs dependents (fst st) (snd st))"
  by pat_completeness auto

termination
proof (relation "inv_image (less_than <*lex*> less_than) (\<lambda>(m, v, q). (bfs_room m v, length q))", goal_cases)
  case (2 m v c q st)
  obtain v' q' where st: "st = (v', q')" by (cases st)
  let ?ds = "case js_get m c of None \<Rightarrow> [] | Some is \<Rightarrow> is"
  have r: "foldl visit_new (v, q) ?ds = (v', q')" using 2 st by simp
  from visits [OF r] obtain new where new: "v' = v @ new" "q' = q @ new" "set new \<subseteq> set ?ds - set v" by blast
  have all: "set ?ds \<subseteq> \<Union> (set ` snd ` set m)" by (cases "js_get m c") (auto dest!: map_of_SomeD)
  show ?case
  proof (cases "new = []")
    case True
    then show ?thesis using new st by (simp add: bfs_room_def)
  next
    case False
    have "\<Union> (set ` snd ` set m) - set v' \<subset> \<Union> (set ` snd ` set m) - set v"
      using False new all by (cases new) auto
    then have "bfs_room m v' < bfs_room m v" unfolding bfs_room_def by (intro psubset_card_mono) auto
    then show ?thesis using st by simp
  qed
qed (auto intro: wf_inv_image wf_lex_prod)

definition get_dependents :: "string \<Rightarrow> step_node list \<Rightarrow> string list" where
  "get_dependents stepId steps =
     (if stepId \<notin> set (map sn_id steps) then [] else sort (bfs (dependents_map steps) [] [stepId]))"

section \<open>The maps of the graph\<close>

definition depends :: "step_node list \<Rightarrow> (string \<times> string) set" where
  "depends steps = {(d, i). \<exists>s\<in>set steps. sn_id s = i \<and> d \<in> set (sn_dependsOn s)}"

lemma js_get_foldl_set:
  "js_get (foldl (\<lambda>m s. js_set (f s) (g s) m) m xs) k =
     (case find (\<lambda>s. f s = k) (rev xs) of None \<Rightarrow> js_get m k | Some s \<Rightarrow> Some (g s))"
  by (induction xs rule: rev_induct) auto

lemma find_unique:
  assumes "distinct (map f xs)" and "x \<in> set xs"
  shows "find (\<lambda>s. f s = f x) (rev xs) = Some x"
proof -
  obtain y where y: "find (\<lambda>s. f s = f x) (rev xs) = Some y"
    using assms(2) by (cases "find (\<lambda>s. f s = f x) (rev xs)") (auto simp: find_None_iff)
  then have "y \<in> set xs" "f y = f x" by (auto dest: find_SomeD)
  then have "y = x" using assms by (auto simp: distinct_map dest: inj_onD)
  then show ?thesis using y by simp
qed

lemma in_degree_of:
  "distinct (map sn_id steps) \<Longrightarrow> s \<in> set steps \<Longrightarrow>
   js_get (in_degrees steps) (sn_id s) = Some (int (length (sn_dependsOn s)))"
  by (simp add: in_degrees_def js_get_foldl_set find_unique)

lemma in_degree_key: "js_get (in_degrees steps) i = Some d \<Longrightarrow> i \<in> sn_id ` set steps"
  by (auto simp: in_degrees_def js_get_foldl_set split: option.splits dest!: find_SomeD)

lemma step_map_of: "js_get (step_map steps) i = Some s \<Longrightarrow> s \<in> set steps \<and> sn_id s = i"
  by (auto simp: step_map_def js_get_foldl_set split: option.splits dest!: find_SomeD)

lemma step_map_mem: "s \<in> set steps \<Longrightarrow> js_get (step_map steps) (sn_id s) \<noteq> None"
  by (auto simp: step_map_def js_get_foldl_set find_None_iff split: option.splits)

definition listed :: "(string, string list) js_map \<Rightarrow> string \<Rightarrow> string list" where
  "listed m d = (case js_get m d of None \<Rightarrow> [] | Some is \<Rightarrow> is)"

lemma listed_add: "listed (add_dependent i m d) e = listed m e @ (if e = d then [i] else [])"
  by (simp add: listed_def add_dependent_def)

lemma listed_adds: "count_list (listed (foldl (add_dependent i) m ds) e) j = count_list (listed m e) j + (if j = i then count_list ds e else 0)"
  by (induction ds arbitrary: m) (auto simp: listed_add)

lemma listed_step:
  "count_list (listed (add_step m s) e) j = count_list (listed m e) j + (if j = sn_id s then count_list (sn_dependsOn s) e else 0)"
proof -
  have "listed (if js_get m (sn_id s) = None then js_set (sn_id s) [] m else m) e = listed m e" by (simp add: listed_def)
  then show ?thesis unfolding add_step_def listed_adds by simp
qed

definition uses_of :: "step_node list \<Rightarrow> string \<Rightarrow> string \<Rightarrow> nat" where
  "uses_of steps e j = sum_list (map (\<lambda>s. if j = sn_id s then count_list (sn_dependsOn s) e else 0) steps)"

lemma dependents_count: "count_list (listed (dependents_of steps) e) j = uses_of steps e j"
  unfolding dependents_of_def uses_of_def
  by (induction steps rule: rev_induct) (auto simp: listed_step, simp add: listed_def)

lemma dependents_map_count: "count_list (listed (dependents_map steps) e) j = uses_of steps e j"
  unfolding dependents_map_def uses_of_def
  by (induction steps rule: rev_induct) (auto simp: listed_adds, simp add: listed_def)

lemma uses_of_step:
  "distinct (map sn_id steps) \<Longrightarrow> s \<in> set steps \<Longrightarrow> uses_of steps e (sn_id s) = count_list (sn_dependsOn s) e"
proof (induction steps)
  case (Cons x steps)
  have none: "uses_of steps e (sn_id x) = 0" if "sn_id x \<notin> sn_id ` set steps"
    using that by (auto simp: uses_of_def)
  show ?case
  proof (cases "s = x")
    case True
    then show ?thesis using none Cons(2) by (simp add: uses_of_def)
  next
    case False
    then have "s \<in> set steps" using Cons(3) by simp
    moreover have "sn_id s \<noteq> sn_id x" using calculation Cons(2) by (metis distinct.simps(2) image_eqI list.map(2) set_map)
    ultimately show ?thesis using Cons by (simp add: uses_of_def)
  qed
qed simp

lemma count_list_pos: "0 < count_list xs x \<longleftrightarrow> x \<in> set xs"
  by (metis count_list_0_iff gr0I less_irrefl)

lemma uses_of_depends: "0 < uses_of steps e j \<longleftrightarrow> (e, j) \<in> depends steps"
proof (induction steps)
  case (Cons s steps)
  have "0 < uses_of (s # steps) e j \<longleftrightarrow> j = sn_id s \<and> e \<in> set (sn_dependsOn s) \<or> 0 < uses_of steps e j"
    using count_list_pos [of "sn_dependsOn s" e] by (auto simp: uses_of_def)
  then show ?case using Cons by (auto simp: depends_def)
qed (simp add: uses_of_def depends_def)

lemma listed_dependents: "set (listed (dependents_map steps) e) = {j. (e, j) \<in> depends steps}"
  using count_list_pos [of "listed (dependents_map steps) e"] unfolding dependents_map_count uses_of_depends by blast

lemma count_sum:
  "distinct q \<Longrightarrow> sum_list (map (count_list xs) q) = length (filter (\<lambda>x. x \<in> set q) xs)"
proof (induction xs)
  case (Cons x xs)
  have "distinct q \<Longrightarrow> sum_list (map (\<lambda>i. count_list (x # xs) i) q) = sum_list (map (count_list xs) q) + (if x \<in> set q then 1 else 0)"
    by (induction q) auto
  then show ?case using Cons by simp
qed simp

section \<open>The layers\<close>

text \<open>
  The reference: each layer holds every step that is not done and depends on done steps only; the
  layering ends when no step is ready.
\<close>

definition ready_steps :: "step_node list \<Rightarrow> string set \<Rightarrow> string set" where
  "ready_steps steps finished =
     {sn_id s |s. s \<in> set steps \<and> sn_id s \<notin> finished \<and> set (sn_dependsOn s) \<subseteq> finished}"

fun layers_from :: "step_node list \<Rightarrow> string set \<Rightarrow> string list list \<Rightarrow> bool" where
  "layers_from steps finished [] = (ready_steps steps finished = {})"
| "layers_from steps finished (g # gs) =
     (g \<noteq> [] \<and> sorted g \<and> distinct g \<and> set g = ready_steps steps finished \<and>
      layers_from steps (finished \<union> set g) gs)"

lemma relaxes:
  assumes "foldl relax (deg, nx) xs = (deg', nx')"
  shows "(\<forall>v. js_get deg' v = map_option (\<lambda>d. d - int (count_list xs v)) (js_get deg v)) \<and>
    set nx' = set nx \<union> {v. \<exists>d. js_get deg v = Some d \<and> 0 < d \<and> d \<le> int (count_list xs v)} \<and>
    (distinct nx \<longrightarrow> set nx \<inter> waiting deg = {} \<longrightarrow> distinct nx')"
  using assms
proof (induction xs arbitrary: deg nx)
  case Nil
  then show ?case by (auto simp: option.map_ident)
next
  case (Cons x xs)
  obtain deg1 nx1 where r: "relax (deg, nx) x = (deg1, nx1)" by fastforce
  then have run: "foldl relax (deg1, nx1) xs = (deg', nx')" using Cons(2) by simp
  have deg1: "js_get deg1 v = (if v = x then map_option (\<lambda>d. d - 1) (js_get deg v) else js_get deg v)" for v
    using r by (auto simp: relax_def split: option.splits)
  have nx1: "set nx1 = set nx \<union> {v. v = x \<and> js_get deg v = Some 1}"
    using r by (auto simp: relax_def split: option.splits if_splits)
  note IH = Cons(1) [OF run]
  have "js_get deg' v = map_option (\<lambda>d. d - int (count_list (x # xs) v)) (js_get deg v)" for v
    using IH by (cases "js_get deg v") (auto simp: deg1)
  moreover have "set nx' = set nx \<union> {v. \<exists>d. js_get deg v = Some d \<and> 0 < d \<and> d \<le> int (count_list (x # xs) v)}"
    unfolding IH [THEN conjunct2, THEN conjunct1] nx1 deg1 by (auto split: if_splits)
  moreover have "distinct nx'" if "distinct nx" "set nx \<inter> waiting deg = {}"
  proof -
    have "distinct nx1" using that r by (auto simp: relax_def waiting_def split: option.splits if_splits)
    moreover have "set nx1 \<inter> waiting deg1 = {}" using that(2) nx1 deg1 by (auto simp: waiting_def split: if_splits)
    ultimately show ?thesis using IH by blast
  qed
  ultimately show ?case by blast
qed

lemma drain_counts:
  assumes "drain_queue D deg q = (deg', nx)"
  shows "js_get deg' v = map_option (\<lambda>d. d - int (sum_list (map (\<lambda>i. count_list (listed D i) v) q))) (js_get deg v)"
    and "set nx = {v. \<exists>d. js_get deg v = Some d \<and> 0 < d \<and> d \<le> int (sum_list (map (\<lambda>i. count_list (listed D i) v) q))}"
    and "distinct nx"
proof -
  have flat: "foldl relax (deg, []) (concat (map (listed D) q)) = (deg', nx)"
    using assms by (simp add: drain_queue_flat listed_def [abs_def])
  have count: "count_list (concat (map (listed D) q)) v = sum_list (map (\<lambda>i. count_list (listed D i) v) q)" for v
    by (induction q) simp_all
  show "js_get deg' v = map_option (\<lambda>d. d - int (sum_list (map (\<lambda>i. count_list (listed D i) v) q))) (js_get deg v)"
    using relaxes [OF flat] count by simp
  show "set nx = {v. \<exists>d. js_get deg v = Some d \<and> 0 < d \<and> d \<le> int (sum_list (map (\<lambda>i. count_list (listed D i) v) q))}"
    using relaxes [OF flat] count by simp
  show "distinct nx" using relaxes [OF flat] by simp
qed

text \<open>The loop's invariant: the degree of a step counts its dependencies that are not done, and the queue
  holds the ready steps.\<close>

definition kahn_inv :: "step_node list \<Rightarrow> string set \<Rightarrow> (string, int) js_map \<Rightarrow> string list \<Rightarrow> bool" where
  "kahn_inv steps finished deg q \<longleftrightarrow>
     (\<forall>s\<in>set steps. js_get deg (sn_id s) = Some (int (length (filter (\<lambda>d. d \<notin> finished) (sn_dependsOn s))))) \<and>
     (\<forall>s\<in>set steps. sn_id s \<in> finished \<longrightarrow> set (sn_dependsOn s) \<subseteq> finished) \<and>
     (\<forall>i d. js_get deg i = Some d \<longrightarrow> i \<in> sn_id ` set steps) \<and>
     sorted q \<and> distinct q \<and> set q = ready_steps steps finished"

lemma kahn_inv_step:
  assumes "distinct (map sn_id steps)" and inv: "kahn_inv steps finished deg q"
    and r: "drain_queue (dependents_of steps) deg q = (deg', nx)"
  shows "kahn_inv steps (finished \<union> set q) deg' (sort nx)"
proof -
  let ?left = "\<lambda>F s. length (filter (\<lambda>d. d \<notin> F) (sn_dependsOn s))"
  have q: "distinct q" "set q = ready_steps steps finished" using inv by (simp_all add: kahn_inv_def)
  have fresh: "set q \<inter> finished = {}" using q(2) by (auto simp: ready_steps_def)
  have uses: "sum_list (map (\<lambda>i. count_list (listed (dependents_of steps) i) (sn_id s)) q) =
      length (filter (\<lambda>d. d \<in> set q) (sn_dependsOn s))" if "s \<in> set steps" for s
    using count_sum [OF q(1)] uses_of_step [OF assms(1) that] by (simp add: dependents_count)
  have split: "?left finished s = ?left (finished \<union> set q) s + length (filter (\<lambda>d. d \<in> set q) (sn_dependsOn s))" for s
  proof -
    have "length (filter (\<lambda>d. d \<notin> finished) xs) =
        length (filter (\<lambda>d. d \<notin> finished \<union> set q) xs) + length (filter (\<lambda>d. d \<in> set q) xs)" for xs
      using fresh by (induction xs) auto
    then show ?thesis .
  qed
  have deg: "js_get deg (sn_id s) = Some (int (?left finished s))" if "s \<in> set steps" for s
    using inv that by (simp add: kahn_inv_def)
  have deg': "js_get deg' (sn_id s) = Some (int (?left (finished \<union> set q) s))" if "s \<in> set steps" for s
    using drain_counts(1) [OF r, of "sn_id s"] deg [OF that] uses [OF that] split [of s] by simp
  have closed: "set (sn_dependsOn s) \<subseteq> finished" if "s \<in> set steps" "sn_id s \<in> finished \<union> set q" for s
  proof -
    have "sn_id s \<in> finished \<Longrightarrow> set (sn_dependsOn s) \<subseteq> finished" using inv that(1) by (simp add: kahn_inv_def)
    moreover have "set (sn_dependsOn s) \<subseteq> finished" if "sn_id s \<in> set q"
      using that \<open>s \<in> set steps\<close> assms(1) q(2) by (auto simp: ready_steps_def distinct_map dest: inj_onD)
    ultimately show ?thesis using that(2) by blast
  qed
  have keys: "js_get deg i = Some d \<Longrightarrow> i \<in> sn_id ` set steps" for i d using inv by (simp add: kahn_inv_def)
  have "set nx = ready_steps steps (finished \<union> set q)"
  proof (intro set_eqI iffI)
    fix i assume "i \<in> set nx"
    then obtain d where d: "js_get deg i = Some d" "0 < d"
      "d \<le> int (sum_list (map (\<lambda>j. count_list (listed (dependents_of steps) j) i) q))"
      unfolding drain_counts(2) [OF r] by blast
    then obtain s where s: "s \<in> set steps" "i = sn_id s" using keys by blast
    have "d = int (?left finished s)" using d(1) deg [OF s(1)] s(2) by simp
    moreover have "d \<le> int (length (filter (\<lambda>d. d \<in> set q) (sn_dependsOn s)))" using d(3) uses [OF s(1)] s(2) by simp
    ultimately have "0 < ?left finished s" "?left (finished \<union> set q) s = 0" using d(2) split [of s] by linarith+
    then have "set (sn_dependsOn s) \<subseteq> finished \<union> set q" "\<not> set (sn_dependsOn s) \<subseteq> finished"
      by (auto simp: filter_empty_conv)
    then show "i \<in> ready_steps steps (finished \<union> set q)"
      using s closed [OF s(1)] unfolding ready_steps_def by blast
  next
    fix i assume "i \<in> ready_steps steps (finished \<union> set q)"
    then obtain s where s: "s \<in> set steps" "i = sn_id s" "i \<notin> finished \<union> set q" "set (sn_dependsOn s) \<subseteq> finished \<union> set q"
      by (auto simp: ready_steps_def)
    then have "\<not> set (sn_dependsOn s) \<subseteq> finished" using q(2) by (auto simp: ready_steps_def)
    then have "0 < ?left finished s" by (auto simp: filter_empty_conv)
    moreover have "?left (finished \<union> set q) s = 0" using s(4) by (auto simp: filter_empty_conv)
    ultimately show "i \<in> set nx"
      using drain_counts(2) [OF r] deg [OF s(1)] uses [OF s(1)] split [of s] s(2) by auto
  qed
  moreover have "js_get deg' i = Some d \<Longrightarrow> i \<in> sn_id ` set steps" for i d
    using drain_counts(1) [OF r, of i] keys [of i] by (cases "js_get deg i") auto
  ultimately show ?thesis
    using deg' closed drain_counts(3) [OF r] unfolding kahn_inv_def by (auto simp: subset_iff)
qed

lemma kahn_layers:
  assumes "distinct (map sn_id steps)"
  shows "kahn_inv steps finished deg q \<Longrightarrow> layers_from steps finished (kahn (dependents_of steps) deg q)"
proof (induction "dependents_of steps" deg q arbitrary: finished rule: kahn.induct)
  case (1 deg q)
  show ?case
  proof (cases "q = []")
    case True
    then show ?thesis using 1(2) by (simp add: kahn_inv_def)
  next
    case False
    obtain deg' nx where r: "drain_queue (dependents_of steps) deg q = (deg', nx)" by fastforce
    have "layers_from steps (finished \<union> set q) (kahn (dependents_of steps) deg' (sort nx))"
      using 1(1) [OF False] kahn_inv_step [OF assms 1(2) r] r by simp
    then show ?thesis using 1(2) False by (simp add: kahn_next [OF False r] kahn_inv_def)
  qed
qed

lemma kahn_inv_start:
  assumes "distinct (map sn_id steps)"
  shows "kahn_inv steps {} (in_degrees steps)
    (sort (filter (\<lambda>i. js_get (in_degrees steps) i = Some 0) (js_set_of (map sn_id steps))))"
proof -
  have "set (filter (\<lambda>i. js_get (in_degrees steps) i = Some 0) (js_set_of (map sn_id steps))) = ready_steps steps {}"
    using in_degree_of [OF assms] by (force simp: js_set_of_def ready_steps_def)
  then show ?thesis
    using in_degree_of [OF assms] in_degree_key by (auto simp: kahn_inv_def js_set_of_def)
qed

lemma step_layers_from: "distinct (map sn_id steps) \<Longrightarrow> layers_from steps {} (step_layers steps)"
  unfolding step_layers_def Let_def by (rule kahn_layers [OF _ kahn_inv_start])

lemma layers_facts:
  assumes "layers_from steps F gs"
  shows "distinct (concat gs) \<and> set (concat gs) \<inter> F = {} \<and> set (concat gs) \<subseteq> sn_id ` set steps \<and>
    ready_steps steps (F \<union> set (concat gs)) = {}"
  using assms
proof (induction gs arbitrary: F)
  case (Cons g gs)
  then have g: "distinct g" "set g = ready_steps steps F" "layers_from steps (F \<union> set g) gs"
    unfolding layers_from.simps by blast+
  have "set g \<inter> F = {}" "set g \<subseteq> sn_id ` set steps" using g(2) by (auto simp: ready_steps_def)
  then show ?case using Cons(1) [OF g(3)] g(1) by (auto simp: Un_assoc)
qed simp

lemma layer_steps:
  assumes "layers_from steps F gs" and "k < length gs"
  shows "gs ! k \<noteq> [] \<and> sorted (gs ! k) \<and>
    (\<forall>i\<in>set (gs ! k). \<exists>s\<in>set steps. sn_id s = i \<and> set (sn_dependsOn s) \<subseteq> F \<union> set (concat (take k gs)) \<and>
       (0 < k \<longrightarrow> \<not> set (sn_dependsOn s) \<subseteq> F \<union> set (concat (take (k - 1) gs))))"
  using assms
proof (induction gs arbitrary: F k)
  case (Cons g gs)
  then have g: "g \<noteq> []" "sorted g" "set g = ready_steps steps F" and rest: "layers_from steps (F \<union> set g) gs"
    unfolding layers_from.simps by blast+
  show ?case
  proof (cases k)
    case 0
    then show ?thesis using g by (auto simp: ready_steps_def)
  next
    case (Suc n)
    have IH: "gs ! n \<noteq> [] \<and> sorted (gs ! n) \<and>
      (\<forall>i\<in>set (gs ! n). \<exists>s\<in>set steps. sn_id s = i \<and> set (sn_dependsOn s) \<subseteq> F \<union> set g \<union> set (concat (take n gs)) \<and>
         (0 < n \<longrightarrow> \<not> set (sn_dependsOn s) \<subseteq> F \<union> set g \<union> set (concat (take (n - 1) gs))))"
      using Cons(1) [OF rest, of n] Cons(3) Suc by simp
    have "\<exists>s\<in>set steps. sn_id s = i \<and> set (sn_dependsOn s) \<subseteq> F \<union> set (concat (take k (g # gs))) \<and>
        \<not> set (sn_dependsOn s) \<subseteq> F \<union> set (concat (take n (g # gs)))" if i: "i \<in> set (gs ! n)" for i
    proof -
      from IH i obtain s where s: "s \<in> set steps" "sn_id s = i" "set (sn_dependsOn s) \<subseteq> F \<union> set g \<union> set (concat (take n gs))"
        "0 < n \<longrightarrow> \<not> set (sn_dependsOn s) \<subseteq> F \<union> set g \<union> set (concat (take (n - 1) gs))" by blast
      have "\<not> set (sn_dependsOn s) \<subseteq> F \<union> set (concat (take n (g # gs)))"
      proof (cases n)
        case 0
        have "i \<notin> F \<union> set g" using layers_facts [OF rest] i Cons(3) Suc by (auto dest: nth_mem)
        then show ?thesis using 0 s(1,2) g(3) by (auto simp: ready_steps_def)
      next
        case (Suc m)
        then show ?thesis using s(4) by (simp add: Un_assoc)
      qed
      then show ?thesis using s Suc by (auto simp: Un_assoc)
    qed
    then show ?thesis using IH Suc by simp
  qed
qed simp

text \<open>Duplicate ids never get through: the loop queues an id at most once.\<close>

lemma kahn_once:
  "distinct q \<Longrightarrow> set q \<inter> waiting deg = {} \<Longrightarrow>
   distinct (concat (kahn D deg q)) \<and> set (concat (kahn D deg q)) \<subseteq> set q \<union> waiting deg"
proof (induction D deg q rule: kahn.induct)
  case (1 D deg q)
  show ?case
  proof (cases "q = []")
    case False
    obtain deg' nx where r: "drain_queue D deg q = (deg', nx)" by fastforce
    have w: "waiting deg' \<subseteq> waiting deg" "set nx \<subseteq> waiting deg - waiting deg'"
      using drain_queue_waiting [of D deg q] r by simp_all
    have "distinct (concat (kahn D deg' (sort nx))) \<and> set (concat (kahn D deg' (sort nx))) \<subseteq> set (sort nx) \<union> waiting deg'"
      using 1(1) [OF False] w drain_counts(3) [OF r] r by auto
    then have d: "distinct (concat (kahn D deg' (sort nx)))" "set (concat (kahn D deg' (sort nx))) \<subseteq> waiting deg"
      using w by auto
    then have "set q \<inter> set (concat (kahn D deg' (sort nx))) = {}" using 1(3) by blast
    then show ?thesis using d 1(2) unfolding kahn_next [OF False r] by auto
  qed simp
qed

lemma step_layers_once:
  "distinct (concat (step_layers steps)) \<and> set (concat (step_layers steps)) \<subseteq> sn_id ` set steps"
proof -
  let ?q = "sort (filter (\<lambda>i. js_get (in_degrees steps) i = Some 0) (js_set_of (map sn_id steps)))"
  have "distinct ?q" "set ?q \<inter> waiting (in_degrees steps) = {}" "set ?q \<subseteq> sn_id ` set steps"
    by (auto simp: js_set_of_def waiting_def)
  moreover have "waiting (in_degrees steps) \<subseteq> sn_id ` set steps"
    by (auto simp: waiting_def dest: in_degree_key)
  ultimately show ?thesis
    using kahn_once [of ?q "in_degrees steps" "dependents_of steps"] unfolding step_layers_def Let_def by blast
qed

lemma full_layers:
  assumes "\<not> sum_list (map length (step_layers steps)) < length steps"
  shows "distinct (map sn_id steps) \<and> set (concat (step_layers steps)) = sn_id ` set steps"
proof -
  have len: "length (concat (step_layers steps)) = card (set (concat (step_layers steps)))"
    using step_layers_once distinct_card by metis
  have sub: "set (concat (step_layers steps)) \<subseteq> set (map sn_id steps)" using step_layers_once by simp
  have "length steps \<le> card (set (concat (step_layers steps)))" using assms len by (simp add: length_concat)
  moreover have "card (set (concat (step_layers steps))) \<le> card (set (map sn_id steps))" using sub by (intro card_mono) auto
  moreover have "card (set (map sn_id steps)) \<le> length steps" using card_length [of "map sn_id steps"] by simp
  ultimately have c: "card (set (map sn_id steps)) = length (map sn_id steps)"
    "card (set (concat (step_layers steps))) = card (set (map sn_id steps))" by simp_all
  have "set (concat (step_layers steps)) = set (map sn_id steps)" by (rule card_subset_eq [OF _ sub c(2)]) simp
  then show ?thesis using card_distinct [OF c(1)] by simp
qed

definition layered :: "step_node list \<Rightarrow> string list list \<Rightarrow> bool" where
  "layered steps gs \<longleftrightarrow>
     distinct (concat gs) \<and> set (concat gs) = sn_id ` set steps \<and>
     (\<forall>k<length gs. gs ! k \<noteq> [] \<and> sorted (gs ! k) \<and>
        (\<forall>i\<in>set (gs ! k).
           (\<forall>d. (d, i) \<in> depends steps \<longrightarrow> (\<exists>j<k. d \<in> set (gs ! j))) \<and>
           (0 < k \<longrightarrow> (\<exists>d\<in>set (gs ! (k - 1)). (d, i) \<in> depends steps))))"

lemma concat_take: "k \<le> length gs \<Longrightarrow> x \<in> set (concat (take k gs)) \<longleftrightarrow> (\<exists>j<k. x \<in> set (gs ! j))"
  by (auto simp: set_conv_nth [of "take k gs"] Bex_def; fastforce)

lemma depends_unique:
  "distinct (map sn_id steps) \<Longrightarrow> s \<in> set steps \<Longrightarrow> (d, sn_id s) \<in> depends steps \<longleftrightarrow> d \<in> set (sn_dependsOn s)"
  by (auto simp: depends_def distinct_map dest: inj_onD)

lemma layers_layered:
  assumes "distinct (map sn_id steps)" and "layers_from steps {} gs" and "set (concat gs) = sn_id ` set steps"
  shows "layered steps gs"
proof -
  have "(\<forall>d. (d, i) \<in> depends steps \<longrightarrow> (\<exists>j<k. d \<in> set (gs ! j))) \<and>
      (0 < k \<longrightarrow> (\<exists>d\<in>set (gs ! (k - 1)). (d, i) \<in> depends steps))" if k: "k < length gs" and i: "i \<in> set (gs ! k)" for k i
  proof -
    obtain s where s: "s \<in> set steps" "sn_id s = i" "set (sn_dependsOn s) \<subseteq> set (concat (take k gs))"
      "0 < k \<longrightarrow> \<not> set (sn_dependsOn s) \<subseteq> set (concat (take (k - 1) gs))"
      using layer_steps [OF assms(2) k] i unfolding Un_empty_left by blast
    have before: "\<exists>j<k. d \<in> set (gs ! j)" if "d \<in> set (sn_dependsOn s)" for d
      using that s(3) concat_take [of k gs d] k by auto
    have "\<exists>d\<in>set (gs ! (k - 1)). d \<in> set (sn_dependsOn s)" if pos: "0 < k"
    proof -
      obtain d where d: "d \<in> set (sn_dependsOn s)" "d \<notin> set (concat (take (k - 1) gs))" using s(4) pos by blast
      then have "\<not> (\<exists>j<k - 1. d \<in> set (gs ! j))" using concat_take [of "k - 1" gs d] k by auto
      moreover obtain j where "j < k" "d \<in> set (gs ! j)" using before [OF d(1)] by blast
      ultimately have "\<not> j < k - 1" by blast
      then have "j = k - 1" using \<open>j < k\<close> by arith
      then show ?thesis using d(1) \<open>d \<in> set (gs ! j)\<close> by blast
    qed
    moreover have "(d, i) \<in> depends steps \<longleftrightarrow> d \<in> set (sn_dependsOn s)" for d
      using depends_unique [OF assms(1) s(1)] s(2) by simp
    ultimately show ?thesis using before by blast
  qed
  then show ?thesis using layers_facts [OF assms(2)] layer_steps [OF assms(2)] assms(3) by (simp add: layered_def)
qed

lemma built_groups:
  assumes "build_execution_groups steps = Inr groups"
  shows "map eg_groupIndex groups = [0..<length groups] \<and> layered steps (map eg_steps groups)"
proof (cases "steps = []")
  case True
  then show ?thesis using assms by (simp add: build_execution_groups_def layered_def)
next
  case False
  have r: "\<not> sum_list (map length (step_layers steps)) < length steps"
    "groups = map (\<lambda>(n, g). \<lparr>eg_groupIndex = n, eg_steps = g\<rparr>) (enumerate 0 (step_layers steps))"
    using assms False by (auto simp: build_execution_groups_def Let_def split: option.splits if_splits)
  have gs: "map eg_steps groups = step_layers steps" "map eg_groupIndex groups = [0..<length groups]"
    unfolding r(2) by (simp_all add: case_prod_beta comp_def)
  show ?thesis
    using layers_layered [OF _ step_layers_from] full_layers [OF r(1)] gs by simp
qed

section \<open>The reported cycle is one\<close>

definition needs :: "(string, step_node) js_map \<Rightarrow> string \<Rightarrow> string \<Rightarrow> bool" where
  "needs m x y \<longleftrightarrow> (\<exists>s. js_get m x = Some s \<and> y \<in> set (sn_dependsOn s))"

definition closed_walk :: "(string \<Rightarrow> string \<Rightarrow> bool) \<Rightarrow> string list \<Rightarrow> bool" where
  "closed_walk R c \<longleftrightarrow> 2 \<le> length c \<and> hd c = last c \<and> successively R c"

lemma cycle_of_path:
  assumes "successively R path" and "path \<noteq> [] \<Longrightarrow> R (last path) i" and "i \<in> set path"
  shows "closed_walk R (dropWhile (\<lambda>x. x \<noteq> i) path @ [i])"
proof -
  have "successively R (path @ [i])" using assms(1,2) by (cases "path = []") (simp_all add: successively_append_iff)
  moreover obtain B where B: "dropWhile (\<lambda>x. x \<noteq> i) path = i # B"
    using assms(3) by (cases "dropWhile (\<lambda>x. x \<noteq> i) path") (auto simp: dropWhile_eq_Cons_conv)
  moreover have "path @ [i] = takeWhile (\<lambda>x. x \<noteq> i) path @ (dropWhile (\<lambda>x. x \<noteq> i) path @ [i])" by simp
  ultimately have "successively R (dropWhile (\<lambda>x. x \<noteq> i) path @ [i])"
    by (metis successively_append_iff)
  then show ?thesis using B by (simp add: closed_walk_def)
qed

text \<open>Nodes in the order the search leaves them: each after everything it depends on.\<close>

inductive left_in_order :: "(string, step_node) js_map \<Rightarrow> string set \<Rightarrow> bool" for m where
  left_none: "left_in_order m {}"
| left_next: "left_in_order m F \<Longrightarrow> \<forall>y. needs m x y \<longrightarrow> y \<in> F \<Longrightarrow> left_in_order m (insert x F)"

lemma left_avoids: "left_in_order m F \<Longrightarrow> \<forall>x\<in>R. \<exists>y\<in>R. needs m x y \<Longrightarrow> F \<inter> R = {}"
proof (induction rule: left_in_order.induct)
  case (left_next F x)
  then have "x \<notin> R" by blast
  then show ?case using left_next by simp
qed simp

lemma dfs_each_outcome:
  assumes "set inStack = set path" "distinct path" "successively (needs m) path" "set inStack \<subseteq> set visited"
    and "path \<noteq> [] \<Longrightarrow> \<forall>i\<in>set is. needs m (last path) i"
    and "left_in_order m (set visited - set inStack)"
  shows "case dfs_each m is (visited, inStack, path) of
      (_, Some c) \<Rightarrow> closed_walk (needs m) c
    | ((visited', inStack', path'), None) \<Rightarrow>
        set inStack' = set inStack \<and> path' = path \<and> set visited \<subseteq> set visited' \<and>
        set is \<subseteq> set visited' - set inStack \<and> left_in_order m (set visited' - set inStack)"
  using assms
proof (induction m "is" "(visited, inStack, path)" arbitrary: visited inStack path rule: dfs_each.induct)
  case (1 m)
  then show ?case by simp
next
  case (2 m i "is" visited inStack path)
  show ?case
  proof (cases "i \<in> set inStack")
    case True
    have "closed_walk (needs m) (dropWhile (\<lambda>x. x \<noteq> i) path @ [i])"
      by (rule cycle_of_path) (use 2(7) 2(9) True 2(5) in auto)
    then show ?thesis using True by simp
  next
    case new: False
    show ?thesis
    proof (cases "i \<in> set visited")
      case True
      have "path \<noteq> [] \<Longrightarrow> \<forall>j\<in>set is. needs m (last path) j" using 2(9) by simp
      from 2(1) [OF new True 2(5-8) this 2(10)] show ?thesis
        using new True by (auto split: prod.splits option.splits)
    next
      case fresh: False
      show ?thesis
      proof (cases "js_get m i")
        case None
        have "set (i # visited) - set inStack = insert i (set visited - set inStack)" using new by auto
        moreover have "left_in_order m (insert i (set visited - set inStack))"
          by (rule left_next [OF 2(10)]) (simp add: needs_def None)
        ultimately have left: "left_in_order m (set (i # visited) - set inStack)" by simp
        have "path \<noteq> [] \<Longrightarrow> \<forall>j\<in>set is. needs m (last path) j" "set inStack \<subseteq> set (i # visited)" using 2(8,9) by auto
        from 2(2) [OF new fresh None 2(5-7) this(2,1) left] show ?thesis
          using new fresh None by (auto split: prod.splits option.splits)
      next
        case (Some step)
        obtain V S P c where inner: "dfs_each m (sn_dependsOn step) (i # visited, i # inStack, path @ [i]) = ((V, S, P), c)"
          by (metis prod.collapse)
        have pre: "set (i # inStack) = set (path @ [i])" "distinct (path @ [i])" "successively (needs m) (path @ [i])"
          "set (i # inStack) \<subseteq> set (i # visited)"
          "path @ [i] \<noteq> [] \<Longrightarrow> \<forall>j\<in>set (sn_dependsOn step). needs m (last (path @ [i])) j"
          using 2(5-9) new Some by (auto simp: successively_append_iff needs_def)
        have "set (i # visited) - set (i # inStack) = set visited - set inStack" using fresh by auto
        then have "left_in_order m (set (i # visited) - set (i # inStack))" using 2(10) by simp
        note IH = 2(3) [OF new fresh Some pre this, unfolded inner]
        show ?thesis
        proof (cases c)
          case (Some cyc)
          then show ?thesis using IH new fresh \<open>js_get m i = Some step\<close> inner by simp
        next
          case None
          from IH None have r: "set S = insert i (set inStack)" "P = path @ [i]" "insert i (set visited) \<subseteq> set V"
            "set (sn_dependsOn step) \<subseteq> set V - insert i (set inStack)" "left_in_order m (set V - insert i (set inStack))"
            by simp_all
          have stack: "set (removeAll i S) = set inStack" using r(1) new by auto
          have "set V - set (removeAll i S) = insert i (set V - insert i (set inStack))" using r(3) stack new by auto
          moreover have "left_in_order m (insert i (set V - insert i (set inStack)))"
            by (rule left_next [OF r(5)]) (use r(4) Some in \<open>auto simp: needs_def\<close>)
          ultimately have left: "left_in_order m (set V - set (removeAll i S))" by simp
          have outer: "set (removeAll i S) = set path" "path \<noteq> [] \<Longrightarrow> \<forall>j\<in>set is. needs m (last path) j"
            "set (removeAll i S) \<subseteq> set V" "butlast P = path"
            using stack 2(5,8,9) r(2,3) by auto
          note IH2 = 2(4) [OF new fresh Some inner [symmetric] refl refl None, unfolded outer(4), OF outer(1) 2(6,7) outer(3,2) left]
          show ?thesis using IH2 new fresh Some None inner stack outer(4) r(3) by (auto split: prod.splits option.splits)
        qed
      qed
    qed
  qed
qed

lemma cycle_from_outcome:
  assumes "left_in_order m (set visited)"
  shows "case cycle_from m ss visited [] of
      Some c \<Rightarrow> closed_walk (needs m) c
    | None \<Rightarrow> \<exists>V. left_in_order m V \<and> set visited \<union> sn_id ` set ss \<subseteq> V"
  using assms
proof (induction ss arbitrary: visited)
  case (Cons s ss)
  have pre: "left_in_order m (set visited - set [])" using Cons(2) by simp
  obtain V S P c where r: "dfs_each m [sn_id s] (visited, [], []) = ((V, S, P), c)" by (metis prod.collapse)
  note out = dfs_each_outcome [of "[]" "[]" m visited "[sn_id s]", OF _ _ _ _ _ pre, unfolded r]
  show ?case
  proof (cases c)
    case (Some cyc)
    then show ?thesis using out r by simp
  next
    case None
    then have o: "S = []" "sn_id s \<in> set V" "set visited \<subseteq> set V" "left_in_order m (set V)" using out by simp_all
    then show ?thesis using Cons(1) [OF o(4)] r None by (cases "cycle_from m ss V []") auto
  qed
qed auto

lemma find_cycle_found:
  assumes "rem \<noteq> []" and stuck: "\<forall>s\<in>set rem. \<exists>d\<in>set (sn_dependsOn s). d \<in> sn_id ` set rem"
  shows "closed_walk (\<lambda>x y. (y, x) \<in> depends rem) (find_cycle rem)"
proof -
  let ?m = "step_map rem"
  have all: "\<forall>x\<in>sn_id ` set rem. \<exists>y\<in>sn_id ` set rem. needs ?m x y"
  proof (clarify)
    fix s assume "s \<in> set rem"
    then obtain t where t: "js_get ?m (sn_id s) = Some t" using step_map_mem by blast
    then have "t \<in> set rem" using step_map_of by blast
    then show "\<exists>y\<in>sn_id ` set rem. needs ?m (sn_id s) y" using t stuck by (fastforce simp: needs_def)
  qed
  have out: "case cycle_from ?m rem [] [] of Some c \<Rightarrow> closed_walk (needs ?m) c
      | None \<Rightarrow> \<exists>V. left_in_order ?m V \<and> set [] \<union> sn_id ` set rem \<subseteq> V"
    by (rule cycle_from_outcome) (simp add: left_none)
  obtain c where c: "cycle_from ?m rem [] [] = Some c" "closed_walk (needs ?m) c"
  proof (cases "cycle_from ?m rem [] []")
    case None
    from out [unfolded None option.case] obtain V where V: "left_in_order ?m V" "sn_id ` set rem \<subseteq> V" by (elim exE conjE) simp
    have "sn_id ` set rem = {}" using left_avoids [OF V(1) all] V(2) by (simp only: Int_absorb1)
    then show ?thesis using assms(1) by simp
  next
    case (Some c)
    then show ?thesis using out that by simp
  qed
  have "needs ?m x y \<Longrightarrow> (y, x) \<in> depends rem" for x y
    using step_map_of by (fastforce simp: needs_def depends_def)
  then have "successively (\<lambda>x y. (y, x) \<in> depends rem) c"
    using c(2) by (auto simp: closed_walk_def intro: successively_mono)
  then show ?thesis using c by (simp add: closed_walk_def find_cycle_def)
qed

definition dependency_cycle :: "step_node list \<Rightarrow> string list \<Rightarrow> bool" where
  "dependency_cycle steps c \<longleftrightarrow> closed_walk (\<lambda>x y. (y, x) \<in> depends steps) c"

lemma unknown_dependency_Some:
  "unknown_dependency ids ss = Some (i, d) \<Longrightarrow> (d, i) \<in> depends ss \<and> d \<notin> set ids"
  by (induction ss) (auto simp: depends_def split: option.splits dest!: find_SomeD)

lemma unknown_dependency_None:
  "unknown_dependency ids ss = None \<Longrightarrow> s \<in> set ss \<Longrightarrow> set (sn_dependsOn s) \<subseteq> set ids"
  by (induction ss) (auto simp: find_None_iff split: option.splits)

lemma reported_error:
  assumes d: "distinct (map sn_id steps)" and e: "build_execution_groups steps = Inl err"
  shows "case err of
      UnknownDependency i x \<Rightarrow> (x, i) \<in> depends steps \<and> x \<notin> sn_id ` set steps
    | CyclicDependency c \<Rightarrow> dependency_cycle steps c"
proof (cases "unknown_dependency (js_set_of (map sn_id steps)) steps")
  case (Some p)
  then show ?thesis
    using e unknown_dependency_Some [of "js_set_of (map sn_id steps)" steps]
    by (cases p) (auto simp: build_execution_groups_def js_set_of_def split: if_splits)
next
  case None
  let ?gs = "step_layers steps"
  let ?rem = "filter (\<lambda>s. \<not> (\<exists>g\<in>set ?gs. sn_id s \<in> set g)) steps"
  have err: "sum_list (map length ?gs) < length steps" "err = CyclicDependency (find_cycle ?rem)"
    using e None by (auto simp: build_execution_groups_def Let_def split: if_splits)
  have done_ids: "set (concat ?gs) = {i. \<exists>g\<in>set ?gs. i \<in> set g}" by auto
  have rem: "set ?rem = {s \<in> set steps. sn_id s \<notin> set (concat ?gs)}" by auto
  have "?rem \<noteq> []"
  proof
    assume "?rem = []"
    then have "sn_id ` set steps \<subseteq> set (concat ?gs)" using rem by auto
    then have "card (set (map sn_id steps)) \<le> card (set (concat ?gs))" by (intro card_mono) auto
    moreover have "card (set (map sn_id steps)) = length steps" using distinct_card [OF d] by simp
    moreover have "card (set (concat ?gs)) = sum_list (map length ?gs)"
      using step_layers_once distinct_card [of "concat ?gs"] by (simp add: length_concat)
    ultimately show False using err(1) by simp
  qed
  moreover have "\<exists>d\<in>set (sn_dependsOn s). d \<in> sn_id ` set ?rem" if s: "s \<in> set ?rem" for s
  proof -
    have "sn_id s \<notin> set (concat ?gs)" "s \<in> set steps" using s rem by auto
    then have "\<not> set (sn_dependsOn s) \<subseteq> set (concat ?gs)"
      using layers_facts [OF step_layers_from [OF d]] by (auto simp: ready_steps_def)
    then obtain x where x: "x \<in> set (sn_dependsOn s)" "x \<notin> set (concat ?gs)" by blast
    then have "x \<in> sn_id ` set steps"
      using unknown_dependency_None [OF None \<open>s \<in> set steps\<close>] by (auto simp: js_set_of_def)
    then show ?thesis using x rem by blast
  qed
  ultimately have "closed_walk (\<lambda>x y. (y, x) \<in> depends ?rem) (find_cycle ?rem)"
    using find_cycle_found by blast
  moreover have "depends ?rem \<subseteq> depends steps" by (auto simp: depends_def)
  ultimately have "dependency_cycle steps (find_cycle ?rem)"
    unfolding dependency_cycle_def closed_walk_def by (auto intro: successively_mono)
  then show ?thesis using err(2) by simp
qed

lemma layered_acyclic:
  assumes "layered steps gs"
  shows "acyclic (depends steps)"
proof -
  define rank where "rank i = (LEAST k. k < length gs \<and> i \<in> set (gs ! k))" for i
  have rank: "rank i < length gs \<and> i \<in> set (gs ! rank i)" if "k < length gs" "i \<in> set (gs ! k)" for i k
    unfolding rank_def by (rule LeastI [of "\<lambda>k. k < length gs \<and> i \<in> set (gs ! k)" k]) (use that in simp)
  have "rank d < rank i" if e: "(d, i) \<in> depends steps" for d i
  proof -
    have "i \<in> set (concat gs)" using assms e by (auto simp: layered_def depends_def)
    then obtain g where "g \<in> set gs" "i \<in> set g" by auto
    then obtain k where "k < length gs" "i \<in> set (gs ! k)" unfolding in_set_conv_nth [of g gs] by blast
    then have ri: "rank i < length gs" "i \<in> set (gs ! rank i)" using rank by blast+
    then obtain j where j: "j < rank i" "d \<in> set (gs ! j)" using assms e unfolding layered_def by blast
    then have "rank d \<le> j" unfolding rank_def [of d] using ri(1) by (intro Least_le) simp
    then show ?thesis using j(1) by simp
  qed
  then have "acyclic ((depends steps)\<inverse>)" by (intro acyclicI_order [where f = rank]) auto
  then show ?thesis by (simp add: acyclic_converse)
qed

lemma walk_trancl:
  "successively (\<lambda>x y. (y, x) \<in> r) (x # y # c) \<Longrightarrow> (last (y # c), x) \<in> r\<^sup>+"
proof (induction c arbitrary: x y)
  case (Cons z c)
  then have "(last (z # c), y) \<in> r\<^sup>+" "(y, x) \<in> r" by simp_all
  then show ?case by (simp add: trancl_into_trancl)
qed auto

lemma cycle_not_acyclic: "dependency_cycle steps c \<Longrightarrow> \<not> acyclic (depends steps)"
proof -
  assume c: "dependency_cycle steps c"
  then obtain x y d where "c = x # y # d" by (cases c; cases "tl c") (auto simp: dependency_cycle_def closed_walk_def)
  then have "(last (y # d), x) \<in> (depends steps)\<^sup>+" "x = last (y # d)"
    using c walk_trancl [of "depends steps" x y d] by (auto simp: dependency_cycle_def closed_walk_def)
  then show ?thesis unfolding acyclic_def by blast
qed

lemma built_known:
  assumes "build_execution_groups steps = Inr groups"
  shows "fst ` depends steps \<subseteq> sn_id ` set steps"
proof (cases "steps = []")
  case False
  then have "unknown_dependency (js_set_of (map sn_id steps)) steps = None"
    using assms by (auto simp: build_execution_groups_def split: option.splits)
  from unknown_dependency_None [OF this] have "set (sn_dependsOn s) \<subseteq> sn_id ` set steps" if "s \<in> set steps" for s
    using that by (simp add: js_set_of_def)
  then show ?thesis unfolding depends_def by force
qed (simp add: depends_def)

section \<open>Dependents\<close>

lemma bfs_reaches:
  assumes "distinct v" and "set v \<subseteq> {j. (i, j) \<in> (depends steps)\<^sup>+}"
    and "set q \<subseteq> insert i {j. (i, j) \<in> (depends steps)\<^sup>+}"
    and "\<forall>u\<in>insert i (set v) - set q. \<forall>w. (u, w) \<in> depends steps \<longrightarrow> w \<in> set v"
  shows "distinct (bfs (dependents_map steps) v q) \<and>
    set (bfs (dependents_map steps) v q) = {j. (i, j) \<in> (depends steps)\<^sup>+}"
  using assms
proof (induction "dependents_map steps" v q rule: bfs.induct)
  case (1 v)
  have "j \<in> set v" if "(i, j) \<in> (depends steps)\<^sup>+" for j
    using that by (induction rule: trancl_induct) (use 1(4) in auto)
  then show ?case using 1 by auto
next
  case (2 v c q)
  let ?ds = "listed (dependents_map steps) c"
  obtain v' q' where r: "foldl visit_new (v, q) ?ds = (v', q')" by fastforce
  from visits [OF r] obtain new where new: "set v' = set v \<union> set ?ds" "v' = v @ new" "q' = q @ new"
    "set new \<subseteq> set ?ds - set v" "distinct new" by blast
  have succ: "set ?ds = {w. (c, w) \<in> depends steps}" by (rule listed_dependents)
  have reach: "set ?ds \<subseteq> {j. (i, j) \<in> (depends steps)\<^sup>+}" using 2(4) succ by (auto intro: trancl_into_trancl)
  have d: "distinct v'" using new 2(2) by auto
  have v': "set v' \<subseteq> {j. (i, j) \<in> (depends steps)\<^sup>+}" using new(1) 2(3) reach by blast
  have q': "set q' \<subseteq> insert i {j. (i, j) \<in> (depends steps)\<^sup>+}" using new(3,4) 2(4) reach by auto
  have closed: "\<forall>u\<in>insert i (set v') - set q'. \<forall>w. (u, w) \<in> depends steps \<longrightarrow> w \<in> set v'"
  proof (intro ballI allI impI)
    fix u w assume u: "u \<in> insert i (set v') - set q'" "(u, w) \<in> depends steps"
    show "w \<in> set v'"
    proof (cases "u = c")
      case True
      then show ?thesis using u(2) succ new(1) by blast
    next
      case False
      then have "u \<in> insert i (set v) - set (c # q)" using u(1) new(2,3) by auto
      then show ?thesis using 2(5) u(2) new(1) by blast
    qed
  qed
  have step: "bfs (dependents_map steps) v (c # q) = bfs (dependents_map steps) v' q'"
    using r by (simp add: listed_def)
  show ?case unfolding step using 2(1) [of "(v', q')"] d v' q' closed r by (simp add: listed_def)
qed

section \<open>Properties\<close>

text \<open>C23: the execution groups are the layers of the dependency relation: when groups are built they are
  numbered in order, hold every step exactly once, each group is non-empty and sorted, all
  dependencies of a step lie in earlier groups, and each step of a later group depends on a step of
  the group just before, so no step runs later than it must.\<close>

theorem execution_groups_are_the_layers:
  assumes "build_execution_groups steps = Inr groups"
  shows "map eg_groupIndex groups = [0..<length groups] \<and> layered steps (map eg_steps groups)"
  using built_groups [OF assms] .

text \<open>Steps with distinct ids are refused exactly when a dependency is unknown or the dependencies are
  cyclic, and the error names a real one: an unknown dependency of a step, or a list of steps that
  starts and ends with the same step, each depending on the next.\<close>

theorem refused_steps_are_cyclic_or_unknown:
  assumes "distinct (map sn_id steps)"
  shows "((\<exists>groups. build_execution_groups steps = Inr groups) \<longleftrightarrow>
      acyclic (depends steps) \<and> fst ` depends steps \<subseteq> sn_id ` set steps) \<and>
    (\<forall>err. build_execution_groups steps = Inl err \<longrightarrow>
      (case err of
         UnknownDependency i x \<Rightarrow> (x, i) \<in> depends steps \<and> x \<notin> sn_id ` set steps
       | CyclicDependency c \<Rightarrow> dependency_cycle steps c))"
proof (cases "build_execution_groups steps")
  case (Inl err)
  note e = reported_error [OF assms Inl]
  have "\<not> (acyclic (depends steps) \<and> fst ` depends steps \<subseteq> sn_id ` set steps)"
  proof (cases err)
    case (CyclicDependency c)
    then show ?thesis using e cycle_not_acyclic by simp
  next
    case (UnknownDependency i x)
    then show ?thesis using e by force
  qed
  then show ?thesis using Inl e by simp
next
  case (Inr groups)
  then show ?thesis using layered_acyclic [OF built_groups [OF Inr, THEN conjunct2]] built_known [OF Inr] by simp
qed

text \<open>The dependents of a step are the steps that depend on it directly or through others, sorted and
  without repetition, and none for an unknown step.\<close>

theorem dependents_are_the_closure:
  "get_dependents i steps =
     (if i \<in> sn_id ` set steps then sorted_list_of_set {j. (i, j) \<in> (depends steps)\<^sup>+} else [])"
proof -
  let ?v = "bfs (dependents_map steps) [] [i]"
  have "distinct ?v \<and> set ?v = {j. (i, j) \<in> (depends steps)\<^sup>+}" by (rule bfs_reaches) simp_all
  then have "sort ?v = sorted_list_of_set {j. (i, j) \<in> (depends steps)\<^sup>+}"
    by (metis distinct_remdups_id sorted_list_of_set_sort_remdups)
  then show ?thesis by (simp add: get_dependents_def)
qed

section \<open>Concrete instances\<close>

definition demo_step :: "string \<Rightarrow> string list \<Rightarrow> step_node" where
  "demo_step i ds = \<lparr>sn_id = i, sn_dependsOn = ds\<rparr>"

lemma execution_groups_are_the_layers_witness:
  "layered [demo_step ''b'' [''a''], demo_step ''a'' []] [[''a''], [''b'']]"
proof -
  have "build_execution_groups [demo_step ''b'' [''a''], demo_step ''a'' []] =
      Inr [\<lparr>eg_groupIndex = 0, eg_steps = [''a'']\<rparr>, \<lparr>eg_groupIndex = 1, eg_steps = [''b'']\<rparr>]"
    by code_simp
  from execution_groups_are_the_layers [OF this] show ?thesis by simp
qed

lemma refused_steps_are_cyclic_or_unknown_witness:
  "dependency_cycle [demo_step ''b'' [''a''], demo_step ''a'' [''b'']] [''b'', ''a'', ''b'']"
proof -
  have "build_execution_groups [demo_step ''b'' [''a''], demo_step ''a'' [''b'']] =
      Inl (CyclicDependency [''b'', ''a'', ''b''])"
    by code_simp
  with refused_steps_are_cyclic_or_unknown [of "[demo_step ''b'' [''a''], demo_step ''a'' [''b'']]"]
  show ?thesis by (simp add: demo_step_def)
qed

end
