(* ===== verification/WorkflowLimits.thy ===== *)
theory WorkflowLimits
  imports StepGraph
begin

text \<open>
  Admission of a workflow's steps: the limits of \<open>workflow-recipes/src/workflow/workflowLimits.ts\<close> and the
  dependency check that \<open>validateExecutableSteps\<close> of \<open>workflowReconciler.ts\<close> makes after them. A recipe
  is the record of the fields these checks read; what the schema leaves open is JSON.
\<close>

section \<open>Recipes and limits\<close>

record recipe_workload =
  wl_type :: string
  wl_replicas :: "int option"
  wl_volumeClaimTemplates :: "json list option"
  wl_egressBindings :: "json list option"

record recipe_step =
  ls_id :: string
  ls_dependsOn :: "string list option"
  ls_mcpServers :: "string list option"
  ls_allowedTools :: "json option"
  ls_run :: "json option"

record recipe_spec =
  li_workloads :: "recipe_workload list option"
  li_uiEgressInternal :: "json list option"
  li_steps :: "recipe_step list option"
  li_maxRunDurationSeconds :: "json option"
  li_runtimeAllowedHosts :: "string list option"

record workflow_limits =
  wm_maxWorkloadsPerRecipe :: int
  wm_uiEgressInternalMaxItems :: int
  wm_maxSteps :: int
  wm_stepDependsOnMaxItems :: int
  wm_stepAllowedToolsMaxItems :: int
  wm_stepMcpServersMaxItems :: int
  wm_maxRunDurationSeconds :: int
  wm_statefulSetMaxReplicas :: int
  wm_statefulSetMaxVolumeClaimTemplates :: int
  wm_statefulSetMaxPvcPreflightChecks :: int

definition MAX_EGRESS_BINDINGS :: int where
  "MAX_EGRESS_BINDINGS = 20"

definition items :: "'a list option \<Rightarrow> 'a list" where
  "items v = (case v of None \<Rightarrow> [] | Some xs \<Rightarrow> xs)"

definition at_most_items :: "string \<Rightarrow> int \<Rightarrow> string" where
  "at_most_items what n = what @ '' must contain at most '' @ string_of_int n @ '' items''"

definition indexed :: "string \<Rightarrow> nat \<Rightarrow> string" where
  "indexed what n = what @ ''['' @ string_of_nat n @ '']''"

fun find_duplicate_step_id :: "string set \<Rightarrow> recipe_step list \<Rightarrow> string option" where
  "find_duplicate_step_id seen [] = None"
| "find_duplicate_step_id seen (s # ss) =
     (if ls_id s \<in> seen then Some (ls_id s) else find_duplicate_step_id (insert (ls_id s) seen) ss)"

text \<open>A repeated empty id is not reported: the code tests the id it found for truth.\<close>

definition duplicate_problem :: "recipe_step list \<Rightarrow> string option" where
  "duplicate_problem steps =
     (case find_duplicate_step_id {} steps of
        None \<Rightarrow> None
      | Some i \<Rightarrow> (if i = [] then None else Some (''duplicate step id \"'' @ i @ ''\" is not allowed'')))"

definition duration_problem :: "workflow_limits \<Rightarrow> json option \<Rightarrow> string option" where
  "duration_problem cfg v =
     (case v of
        None \<Rightarrow> None
      | Some (JInt n) \<Rightarrow>
          (if n < 1 then Some ''spec.runRetention.maxRunDurationSeconds must be a positive integer''
           else if n > wm_maxRunDurationSeconds cfg
           then Some (''spec.runRetention.maxRunDurationSeconds must be at most '' @ string_of_int (wm_maxRunDurationSeconds cfg))
           else None)
      | Some _ \<Rightarrow> Some ''spec.runRetention.maxRunDurationSeconds must be a positive integer'')"

definition workload_problem :: "workflow_limits \<Rightarrow> nat \<times> recipe_workload \<Rightarrow> string option" where
  "workload_problem cfg iw =
     (let w = snd iw; at_w = indexed ''spec.workloads'' (fst iw);
          replicas = (case wl_replicas w of None \<Rightarrow> 1 | Some n \<Rightarrow> n);
          templates = int (length (items (wl_volumeClaimTemplates w)))
      in if int (length (items (wl_egressBindings w))) > MAX_EGRESS_BINDINGS
         then Some (at_most_items (at_w @ ''.egressBindings'') MAX_EGRESS_BINDINGS)
         else if wl_type w \<noteq> ''statefulset'' then None
         else if replicas > wm_statefulSetMaxReplicas cfg
         then Some (at_w @ ''.replicas must be at most '' @ string_of_int (wm_statefulSetMaxReplicas cfg))
         else if templates > wm_statefulSetMaxVolumeClaimTemplates cfg
         then Some (at_most_items (at_w @ ''.volumeClaimTemplates'') (wm_statefulSetMaxVolumeClaimTemplates cfg))
         else if replicas * templates > wm_statefulSetMaxPvcPreflightChecks cfg
         then Some (at_w @ '' StatefulSet PVC ownership checks must be at most '' @
                    string_of_int (wm_statefulSetMaxPvcPreflightChecks cfg))
         else None)"

definition record_field :: "json option \<Rightarrow> string \<Rightarrow> json option" where
  "record_field v k = (case v of Some (JObj fs) \<Rightarrow> map_of fs k | _ \<Rightarrow> None)"

definition array_exceeds :: "json option \<Rightarrow> int \<Rightarrow> bool" where
  "array_exceeds v n = (case v of Some (JArr xs) \<Rightarrow> int (length xs) > n | _ \<Rightarrow> False)"

definition step_problem :: "workflow_limits \<Rightarrow> nat \<times> recipe_step \<Rightarrow> string option" where
  "step_problem cfg is =
     (let s = snd is; prefix = indexed ''spec.steps'' (fst is)
      in if int (length (items (ls_dependsOn s))) > wm_stepDependsOnMaxItems cfg
         then Some (at_most_items (prefix @ ''.dependsOn'') (wm_stepDependsOnMaxItems cfg))
         else if int (length (items (ls_mcpServers s))) > wm_stepMcpServersMaxItems cfg
         then Some (at_most_items (prefix @ ''.mcpServers'') (wm_stepMcpServersMaxItems cfg))
         else if array_exceeds (record_field (ls_allowedTools s) ''include'') (wm_stepAllowedToolsMaxItems cfg)
         then Some (at_most_items (prefix @ ''.allowedTools.include'') (wm_stepAllowedToolsMaxItems cfg))
         else if array_exceeds (record_field (record_field (record_field (ls_run s) ''capabilities'') ''http'') ''allowedHosts'')
                   MAX_EGRESS_BINDINGS
         then Some (at_most_items (prefix @ ''.run.capabilities.http.allowedHosts'') MAX_EGRESS_BINDINGS)
         else None)"

definition validate_workflow_recipe_limits :: "recipe_spec \<Rightarrow> workflow_limits \<Rightarrow> string option" where
  "validate_workflow_recipe_limits spec cfg =
     (let workloads = items (li_workloads spec); steps = items (li_steps spec)
      in if int (length workloads) > wm_maxWorkloadsPerRecipe cfg
         then Some (at_most_items ''spec.workloads'' (wm_maxWorkloadsPerRecipe cfg))
         else if int (length (items (li_uiEgressInternal spec))) > wm_uiEgressInternalMaxItems cfg
         then Some (at_most_items ''spec.ui.egress.internal'' (wm_uiEgressInternalMaxItems cfg))
         else if int (length steps) > wm_maxSteps cfg then Some (at_most_items ''spec.steps'' (wm_maxSteps cfg))
         else
           (case duplicate_problem steps of Some e \<Rightarrow> Some e | None \<Rightarrow>
           (case duration_problem cfg (li_maxRunDurationSeconds spec) of Some e \<Rightarrow> Some e | None \<Rightarrow>
           (case first_error (workload_problem cfg) (enumerate 0 workloads) of Some e \<Rightarrow> Some e | None \<Rightarrow>
              (if int (length (items (li_runtimeAllowedHosts spec))) > MAX_EGRESS_BINDINGS
               then Some (at_most_items ''spec.runtimeEgress.http.allowedHosts'' MAX_EGRESS_BINDINGS)
               else first_error (step_problem cfg) (enumerate 0 steps))))))"

section \<open>The dependency check\<close>

definition step_nodes :: "recipe_step list \<Rightarrow> step_node list" where
  "step_nodes steps = map (\<lambda>s. \<lparr>sn_id = ls_id s, sn_dependsOn = items (ls_dependsOn s)\<rparr>) steps"

fun arrow_joined :: "string list \<Rightarrow> string" where
  "arrow_joined [] = []"
| "arrow_joined [i] = i"
| "arrow_joined (i # j # is) = i @ '' -> '' @ arrow_joined (j # is)"

definition validate_step_dependencies :: "recipe_spec \<Rightarrow> workflow_limits \<Rightarrow> string option" where
  "validate_step_dependencies spec cfg =
     (case validate_workflow_recipe_limits spec cfg of
        Some e \<Rightarrow> Some e
      | None \<Rightarrow>
          (case build_execution_groups (step_nodes (items (li_steps spec))) of
             Inr _ \<Rightarrow> None
           | Inl (CyclicDependency c) \<Rightarrow> Some (''dependency cycle detected: '' @ arrow_joined c)
           | Inl (UnknownDependency i d) \<Rightarrow>
               Some (''step \"'' @ i @ ''\" depends on unknown step \"'' @ d @ ''\"'')))"

section \<open>Lemmas\<close>

lemma find_duplicate_None:
  "find_duplicate_step_id seen ss = None \<longleftrightarrow> distinct (map ls_id ss) \<and> ls_id ` set ss \<inter> seen = {}"
  by (induction ss arbitrary: seen) auto

lemma find_duplicate_Some:
  "find_duplicate_step_id seen ss = Some i \<Longrightarrow> i \<in> ls_id ` set ss"
  by (induction ss arbitrary: seen) (auto split: if_splits)

lemma duplicate_problem_None:
  "duplicate_problem ss = None \<Longrightarrow> [] \<notin> ls_id ` set ss \<Longrightarrow> distinct (map ls_id ss)"
  using find_duplicate_None [of "{}" ss] find_duplicate_Some [of "{}" ss]
  by (auto simp: duplicate_problem_def split: option.splits if_splits)

lemma step_problem_None: "step_problem cfg is = None \<Longrightarrow> int (length (items (ls_dependsOn (snd is)))) \<le> wm_stepDependsOnMaxItems cfg"
  by (auto simp: step_problem_def Let_def split: if_splits)

lemma limits_passed:
  assumes "validate_workflow_recipe_limits spec cfg = None"
  shows "int (length (items (li_steps spec))) \<le> wm_maxSteps cfg \<and> duplicate_problem (items (li_steps spec)) = None \<and>
    (\<forall>s\<in>set (items (li_steps spec)). int (length (items (ls_dependsOn s))) \<le> wm_stepDependsOnMaxItems cfg)"
proof -
  have steps: "first_error (step_problem cfg) (enumerate 0 (items (li_steps spec))) = None"
    and rest: "int (length (items (li_steps spec))) \<le> wm_maxSteps cfg" "duplicate_problem (items (li_steps spec)) = None"
    using assms by (auto simp: validate_workflow_recipe_limits_def Let_def split: if_splits option.splits)
  have "int (length (items (ls_dependsOn s))) \<le> wm_stepDependsOnMaxItems cfg" if "s \<in> set (items (li_steps spec))" for s
  proof -
    have "s \<in> set (map snd (enumerate 0 (items (li_steps spec))))" using that by simp
    then obtain n where "(n, s) \<in> set (enumerate 0 (items (li_steps spec)))" unfolding set_map by auto
    then have "step_problem cfg (n, s) = None" using steps unfolding first_error_None by blast
    then show ?thesis using step_problem_None [of cfg "(n, s)"] by simp
  qed
  then show ?thesis using rest by blast
qed

lemma step_nodes_ids [simp]: "map sn_id (step_nodes ss) = map ls_id ss" "sn_id ` set (step_nodes ss) = ls_id ` set ss"
  by (simp_all add: step_nodes_def comp_def image_image)

section \<open>Properties\<close>

text \<open>An admitted workflow can run: when the limits and the dependency check pass, the steps have distinct
  ids, split into layers in which every dependency comes earlier, and number at most the configured
  maximum, with at most the configured number of dependencies each.\<close>

theorem admitted_steps_run_in_layers:
  assumes "validate_step_dependencies spec cfg = None"
  shows "\<exists>groups. build_execution_groups (step_nodes (items (li_steps spec))) = Inr groups \<and>
    layered (step_nodes (items (li_steps spec))) (map eg_steps groups) \<and>
    distinct (map ls_id (items (li_steps spec))) \<and>
    int (length (concat (map eg_steps groups))) \<le> wm_maxSteps cfg \<and>
    (\<forall>s\<in>set (items (li_steps spec)). int (length (items (ls_dependsOn s))) \<le> wm_stepDependsOnMaxItems cfg)"
proof -
  let ?nodes = "step_nodes (items (li_steps spec))"
  have limits: "validate_workflow_recipe_limits spec cfg = None"
    using assms by (auto simp: validate_step_dependencies_def split: option.splits)
  then obtain groups where g: "build_execution_groups ?nodes = Inr groups"
    using assms by (cases "build_execution_groups ?nodes") (auto simp: validate_step_dependencies_def split: graph_error.splits)
  have l: "layered ?nodes (map eg_steps groups)" using built_groups [OF g] by simp
  have d: "distinct (map ls_id (items (li_steps spec)))"
  proof (cases "?nodes = []")
    case False
    then have "\<not> sum_list (map length (step_layers ?nodes)) < length ?nodes"
      using g by (auto simp: build_execution_groups_def Let_def split: option.splits if_splits)
    from full_layers [OF this] show ?thesis by simp
  qed (simp add: step_nodes_def)
  have "length (concat (map eg_steps groups)) = card (ls_id ` set (items (li_steps spec)))"
    using l distinct_card [of "concat (map eg_steps groups)"] by (simp add: layered_def)
  then have "length (concat (map eg_steps groups)) \<le> length (items (li_steps spec))"
    using card_image_le [of "set (items (li_steps spec))" ls_id] card_length [of "items (li_steps spec)"] by simp
  then show ?thesis using g l d limits_passed [OF limits] by force
qed

section \<open>Concrete instances\<close>

definition demo_limits :: workflow_limits where
  "demo_limits = \<lparr>wm_maxWorkloadsPerRecipe = 5, wm_uiEgressInternalMaxItems = 5, wm_maxSteps = 5,
     wm_stepDependsOnMaxItems = 5, wm_stepAllowedToolsMaxItems = 5, wm_stepMcpServersMaxItems = 5,
     wm_maxRunDurationSeconds = 60, wm_statefulSetMaxReplicas = 2, wm_statefulSetMaxVolumeClaimTemplates = 2,
     wm_statefulSetMaxPvcPreflightChecks = 4\<rparr>"

definition demo_recipe :: recipe_spec where
  "demo_recipe = \<lparr>li_workloads = None, li_uiEgressInternal = None,
     li_steps = Some [\<lparr>ls_id = ''b'', ls_dependsOn = Some [''a''], ls_mcpServers = None, ls_allowedTools = None, ls_run = None\<rparr>,
                      \<lparr>ls_id = ''a'', ls_dependsOn = None, ls_mcpServers = None, ls_allowedTools = None, ls_run = None\<rparr>],
     li_maxRunDurationSeconds = Some (JInt 30), li_runtimeAllowedHosts = None\<rparr>"

lemma admitted_steps_run_in_layers_witness:
  "\<exists>groups. build_execution_groups (step_nodes (items (li_steps demo_recipe))) = Inr groups \<and>
     int (length (concat (map eg_steps groups))) \<le> 5"
proof -
  have "validate_step_dependencies demo_recipe demo_limits = None" by code_simp
  from admitted_steps_run_in_layers [OF this] show ?thesis by (auto simp: demo_limits_def)
qed

end
