(* ===== verification/WorkflowRecovery.thy ===== *)
theory WorkflowRecovery
  imports Prelude
begin

text \<open>
  Crash recovery of workflow pods, \<open>workflow-recipes/src/workflow/crashRecovery.ts\<close>, and the recovery block
  of a reconcile pass in \<open>workflowReconciler.ts\<close> that acts on it. The cluster API is a parameter: each
  read gives a pod, or an error with its code. Fields of the execution status that the recovery
  only copies are left out.
\<close>

section \<open>Recovery decisions\<close>

datatype workflow_phase = WfPending | WfInitializing | WfRunning | WfRecovering | WfCompleted | WfFailed | WfCancelled

record workflow_execution =
  we_phase :: "workflow_phase option"
  we_attempt :: "int option"

datatype recovery_action = RecoverNone | RecoverReplace | RecoverFail

text \<open>The texts of the results, with what they quote.\<close>

datatype recovery_message =
    PodHealthy
  | PodCompleted
  | PodFailedForGood
  | PodReplaced string int
  | WaitingForGood string string
  | WaitingReplaced string string int
  | ComponentDoneForGood string
  | ComponentDoneReplaced string int

record recovery_result =
  cr_action :: recovery_action
  cr_message :: recovery_message
  cr_newPhase :: "workflow_phase option"
  cr_newAttempt :: "int option"

definition MAX_ATTEMPTS :: int where
  "MAX_ATTEMPTS = 3"

definition RECOVERABLE_WAITING_REASONS :: "string set" where
  "RECOVERABLE_WAITING_REASONS = {''CreateContainerConfigError'', ''CreateContainerError'', ''ImagePullBackOff'',
     ''ErrImagePull'', ''InvalidImageName'', ''CrashLoopBackOff''}"

definition attempts_so_far :: "workflow_execution option \<Rightarrow> int" where
  "attempts_so_far e = (case Option.bind e we_attempt of None \<Rightarrow> 0 | Some n \<Rightarrow> n)"

definition recovery_fails :: "recovery_message \<Rightarrow> recovery_result" where
  "recovery_fails m = \<lparr>cr_action = RecoverFail, cr_message = m, cr_newPhase = Some WfFailed, cr_newAttempt = None\<rparr>"

definition recovery_replaces :: "recovery_message \<Rightarrow> int \<Rightarrow> recovery_result" where
  "recovery_replaces m n = \<lparr>cr_action = RecoverReplace, cr_message = m, cr_newPhase = Some WfRecovering, cr_newAttempt = Some n\<rparr>"

definition recovery_none :: "recovery_message \<Rightarrow> recovery_result" where
  "recovery_none m = \<lparr>cr_action = RecoverNone, cr_message = m, cr_newPhase = None, cr_newAttempt = None\<rparr>"

definition evaluate_completed_runtime_pod_recovery :: "workflow_execution option \<Rightarrow> string \<Rightarrow> recovery_result" where
  "evaluate_completed_runtime_pod_recovery e componentName =
     (let attempt = attempts_so_far e
      in if attempt \<ge> MAX_ATTEMPTS then recovery_fails (ComponentDoneForGood componentName)
         else recovery_replaces (ComponentDoneReplaced componentName (attempt + 1)) (attempt + 1))"

definition is_recoverable_container_waiting_reason :: "string option \<Rightarrow> string option \<Rightarrow> bool" where
  "is_recoverable_container_waiting_reason podPhase reason \<longleftrightarrow>
     (case reason of
        None \<Rightarrow> False
      | Some r \<Rightarrow> r \<noteq> [] \<and> r \<in> RECOVERABLE_WAITING_REASONS \<and>
          (podPhase = Some ''Pending'' \<or> podPhase = Some ''Running'' \<and> r = ''CrashLoopBackOff''))"

definition quoted :: "string option \<Rightarrow> string" where
  "quoted v = (case v of None \<Rightarrow> ''undefined'' | Some s \<Rightarrow> s)"

definition evaluate_crash_recovery ::
  "string option \<Rightarrow> workflow_execution option \<Rightarrow> string option \<Rightarrow> recovery_result" where
  "evaluate_crash_recovery podPhase e reason =
     (let attempt = attempts_so_far e
      in if is_recoverable_container_waiting_reason podPhase reason then
           (if attempt \<ge> MAX_ATTEMPTS then recovery_fails (WaitingForGood (quoted podPhase) (quoted reason))
            else recovery_replaces (WaitingReplaced (quoted podPhase) (quoted reason) (attempt + 1)) (attempt + 1))
         else if podPhase = None \<or> podPhase = Some [] \<or> podPhase = Some ''Running'' \<or> podPhase = Some ''Pending''
         then recovery_none PodHealthy
         else if podPhase = Some ''Succeeded'' then recovery_none PodCompleted
         else if attempt \<ge> MAX_ATTEMPTS then recovery_fails PodFailedForGood
         else recovery_replaces (PodReplaced (quoted podPhase) (attempt + 1)) (attempt + 1))"

section \<open>Pods\<close>

record pod_condition =
  pc_type :: string
  pc_status :: string
  pc_reason :: "string option"

record pod =
  pod_phase :: "string option"
  pod_conditions :: "pod_condition list"
  pod_waitingReasons :: "string option list"
  pod_uid :: "string option"

record pod_readiness =
  pr_phase :: "string option"
  pr_ready :: bool
  pr_waitingReason :: "string option"
  pr_schedulingReason :: "string option"
  pr_uid :: "string option"

datatype pod_read = PodFound pod | ReadFailed "int option"

datatype pod_presence = PodAbsent | PodPresent "string option"

definition nonempty :: "string option \<Rightarrow> string option" where
  "nonempty v = (if v = Some [] then None else v)"

fun first_container_waiting_reason :: "string option list \<Rightarrow> string option" where
  "first_container_waiting_reason [] = None"
| "first_container_waiting_reason (r # rs) =
     (case nonempty r of Some s \<Rightarrow> Some s | None \<Rightarrow> first_container_waiting_reason rs)"

definition inspect_pod_readiness :: "pod \<Rightarrow> pod_readiness" where
  "inspect_pod_readiness p =
     (let ready = find (\<lambda>c. pc_type c = ''Ready'') (pod_conditions p);
          scheduled = find (\<lambda>c. pc_type c = ''PodScheduled'' \<and> pc_status c \<noteq> ''True'') (pod_conditions p)
      in \<lparr>pr_phase = pod_phase p,
          pr_ready = (pod_phase p = Some ''Running'' \<and> map_option pc_status ready = Some ''True''),
          pr_waitingReason = first_container_waiting_reason (pod_waitingReasons p),
          pr_schedulingReason = nonempty (Option.bind scheduled pc_reason),
          pr_uid = nonempty (pod_uid p)\<rparr>)"

text \<open>A missing pod (404) is a value; any other error of the API is thrown, here the code it carries.\<close>

definition get_pod_presence :: "pod_read \<Rightarrow> int option + pod_presence" where
  "get_pod_presence r =
     (case r of
        PodFound p \<Rightarrow> Inr (PodPresent (pod_phase p))
      | ReadFailed code \<Rightarrow> (if code = Some 404 then Inr PodAbsent else Inl code))"

definition get_pod_phase :: "pod_read \<Rightarrow> int option + string option" where
  "get_pod_phase r =
     (case get_pod_presence r of
        Inl e \<Rightarrow> Inl e
      | Inr PodAbsent \<Rightarrow> Inr None
      | Inr (PodPresent phase) \<Rightarrow> Inr phase)"

definition get_pod_readiness :: "pod_read \<Rightarrow> int option + pod_readiness" where
  "get_pod_readiness r =
     (case r of
        PodFound p \<Rightarrow> Inr (inspect_pod_readiness p)
      | ReadFailed code \<Rightarrow>
          (if code = Some 404
           then Inr \<lparr>pr_phase = None, pr_ready = False, pr_waitingReason = None, pr_schedulingReason = None, pr_uid = None\<rparr>
           else Inl code))"

definition get_container_waiting_reason :: "pod_read \<Rightarrow> int option + string option" where
  "get_container_waiting_reason r =
     (case r of
        PodFound p \<Rightarrow>
          (let reason = first_container_waiting_reason (pod_waitingReasons p)
           in Inr (if pod_phase p = Some ''Pending'' then reason
                   else if pod_phase p = Some ''Running'' \<and> reason = Some ''CrashLoopBackOff'' then reason
                   else None))
      | ReadFailed code \<Rightarrow> (if code = Some 404 then Inr None else Inl code))"

text \<open>The outcome of a delete call: done, or the code of its error.\<close>

definition delete_pod_if_exists :: "int option + unit \<Rightarrow> int option + unit" where
  "delete_pod_if_exists r =
     (case r of Inr u \<Rightarrow> Inr u | Inl code \<Rightarrow> (if code = Some 404 then Inr () else Inl code))"

text \<open>
  The wait for a deletion: \<open>clock n\<close> is the clock at the \<open>n\<close>th test of the deadline and \<open>read n\<close> what the
  read after it gives. The loop is a partial function: its end is a theorem.
\<close>

definition DEFAULT_POD_DELETE_WAIT_MS :: millis where
  "DEFAULT_POD_DELETE_WAIT_MS = 30000"

definition POD_DELETE_POLL_MS :: millis where
  "POD_DELETE_POLL_MS = 250"

partial_function (option) poll_deletion ::
  "(nat \<Rightarrow> instant) \<Rightarrow> (nat \<Rightarrow> pod_read) \<Rightarrow> instant \<Rightarrow> nat \<Rightarrow> (int option + bool) option" where
  "poll_deletion clock read deadline n =
     (if clock n < deadline then
        (case get_pod_presence (read n) of
           Inl e \<Rightarrow> Some (Inl e)
         | Inr PodAbsent \<Rightarrow> Some (Inr True)
         | Inr (PodPresent _) \<Rightarrow> poll_deletion clock read deadline (Suc n))
      else
        (case get_pod_presence (read n) of
           Inl e \<Rightarrow> Some (Inl e)
         | Inr presence \<Rightarrow> Some (Inr (presence = PodAbsent))))"

definition wait_for_pod_deletion ::
  "(nat \<Rightarrow> instant) \<Rightarrow> (nat \<Rightarrow> pod_read) \<Rightarrow> instant \<Rightarrow> millis option \<Rightarrow> (int option + bool) option" where
  "wait_for_pod_deletion clock read startedAt timeoutMs =
     poll_deletion clock read
       (startedAt + (case timeoutMs of None \<Rightarrow> DEFAULT_POD_DELETE_WAIT_MS | Some t \<Rightarrow> t)) 0"

declare poll_deletion.simps [code]

section \<open>The recovery of a reconcile pass\<close>

datatype runtime_component = Coordinator | McpHost | ArtifactReader | SnippetRunner

text \<open>What a pass has read when it comes to the recovery block.\<close>

record runtime_view =
  rv_awaitsTriggeredRun :: bool
  rv_needsMcpHost :: bool
  rv_deleteAfterReplacement :: "runtime_component list"
  rv_coordPhase :: "string option"
  rv_coordReason :: "string option"
  rv_mcpPhase :: "string option"
  rv_mcpReason :: "string option"
  rv_execution :: "workflow_execution option"

datatype pass_call = PatchExecution workflow_execution | DeletePod runtime_component

datatype pass_outcome = PassThrew | PassFailed recovery_message | PassContinues "string option" "string option"

text \<open>Calls are made in turn; one that the API refuses throws and ends the pass.\<close>

fun perform :: "(pass_call \<Rightarrow> bool) \<Rightarrow> pass_call list \<Rightarrow> pass_call list \<times> bool" where
  "perform accepts [] = ([], True)"
| "perform accepts (c # cs) =
     (if accepts c then (let (made, ok) = perform accepts cs in (c # made, ok)) else ([], False))"

definition recovery_patch :: "recovery_result \<Rightarrow> pass_call" where
  "recovery_patch r = PatchExecution \<lparr>we_phase = cr_newPhase r, we_attempt = cr_newAttempt r\<rparr>"

definition is_pre_coordinator_workflow_phase :: "workflow_execution option \<Rightarrow> bool" where
  "is_pre_coordinator_workflow_phase e \<longleftrightarrow>
     Option.bind e we_phase \<in> {None, Some WfPending, Some WfInitializing, Some WfRecovering}"

definition recover_coordinator :: "(pass_call \<Rightarrow> bool) \<Rightarrow> runtime_view \<Rightarrow> pass_call list \<times> pass_outcome" where
  "recover_coordinator accepts v =
     (if \<not> rv_awaitsTriggeredRun v \<and>
         (rv_coordPhase v = Some ''Failed'' \<or> rv_coordPhase v = Some ''Unknown'' \<or>
          is_recoverable_container_waiting_reason (rv_coordPhase v) (rv_coordReason v))
      then
        (let r = evaluate_crash_recovery (rv_coordPhase v) (rv_execution v) (rv_coordReason v)
         in case cr_action r of
              RecoverFail \<Rightarrow> ([], PassFailed (cr_message r))
            | RecoverReplace \<Rightarrow>
                (case perform accepts
                        (recovery_patch r # map DeletePod (rv_deleteAfterReplacement v) @ [DeletePod Coordinator]) of
                   (made, ok) \<Rightarrow>
                     (made, if ok then PassContinues None
                                         (if McpHost \<in> set (rv_deleteAfterReplacement v) then None else rv_mcpPhase v)
                            else PassThrew))
            | RecoverNone \<Rightarrow> ([], PassContinues (rv_coordPhase v) (rv_mcpPhase v)))
      else ([], PassContinues (rv_coordPhase v) (rv_mcpPhase v)))"

definition recover_mcp_host ::
  "(pass_call \<Rightarrow> bool) \<Rightarrow> runtime_view \<Rightarrow> string option \<Rightarrow> string option \<Rightarrow> pass_call list \<times> pass_outcome" where
  "recover_mcp_host accepts v coordPhase mcpPhase =
     (if rv_needsMcpHost v \<and> \<not> rv_awaitsTriggeredRun v \<and>
         (mcpPhase = Some ''Failed'' \<or> mcpPhase = Some ''Unknown'' \<or>
          is_pre_coordinator_workflow_phase (rv_execution v) \<and>
            (mcpPhase = Some ''Succeeded'' \<or> is_recoverable_container_waiting_reason mcpPhase (rv_mcpReason v)))
      then
        (let r = (if mcpPhase = Some ''Succeeded''
                  then evaluate_completed_runtime_pod_recovery (rv_execution v) ''mcp_host''
                  else evaluate_crash_recovery mcpPhase (rv_execution v) (rv_mcpReason v))
         in case cr_action r of
              RecoverFail \<Rightarrow> ([], PassFailed (cr_message r))
            | RecoverReplace \<Rightarrow>
                (case perform accepts [recovery_patch r, DeletePod McpHost] of
                   (made, ok) \<Rightarrow> (made, if ok then PassContinues coordPhase None else PassThrew))
            | RecoverNone \<Rightarrow> ([], PassContinues coordPhase mcpPhase))
      else ([], PassContinues coordPhase mcpPhase))"

text \<open>Both pods are judged by the execution status read at the start of the pass.\<close>

definition recover_pods :: "(pass_call \<Rightarrow> bool) \<Rightarrow> runtime_view \<Rightarrow> pass_call list \<times> pass_outcome" where
  "recover_pods accepts v =
     (case recover_coordinator accepts v of
        (made, PassContinues coordPhase mcpPhase) \<Rightarrow>
          (case recover_mcp_host accepts v coordPhase mcpPhase of (made', out) \<Rightarrow> (made @ made', out))
      | (made, out) \<Rightarrow> (made, out))"

text \<open>What a pass's calls leave of the stored status, whatever the pass itself had read.\<close>

definition stored_execution :: "workflow_execution option \<Rightarrow> pass_call list \<Rightarrow> workflow_execution option" where
  "stored_execution e calls = foldl (\<lambda>e c. case c of PatchExecution e' \<Rightarrow> Some e' | DeletePod _ \<Rightarrow> e) e calls"

definition deletes :: "pass_call list \<Rightarrow> bool" where
  "deletes calls \<longleftrightarrow> list_ex (\<lambda>c. case c of DeletePod _ \<Rightarrow> True | PatchExecution _ \<Rightarrow> False) calls"

text \<open>
  What happens to the status of a recipe: recovery blocks, each judging by the status its pass has read, which
  may be older than the stored one, and any other write of the execution status: the status is cleared for a
  new generation, and a pass ends with a patch of the status it started from.
\<close>

datatype recovery_event = RecoveryBlock "pass_call \<Rightarrow> bool" runtime_view | StatusWritten "workflow_execution option"

fun event_calls :: "recovery_event \<Rightarrow> pass_call list" where
  "event_calls (RecoveryBlock accepts v) = fst (recover_pods accepts v)"
| "event_calls (StatusWritten e) = []"

fun status_after :: "recovery_event \<Rightarrow> workflow_execution option \<Rightarrow> workflow_execution option" where
  "status_after (RecoveryBlock accepts v) s = stored_execution s (event_calls (RecoveryBlock accepts v))"
| "status_after (StatusWritten e) s = e"

text \<open>The stored attempts an event does not carry over: those a block that acts had not read, those a write takes away.\<close>

fun forgets :: "recovery_event \<Rightarrow> workflow_execution option \<Rightarrow> int" where
  "forgets (RecoveryBlock accepts v) s =
     (if event_calls (RecoveryBlock accepts v) = [] then 0 else max 0 (attempts_so_far s - attempts_so_far (rv_execution v)))"
| "forgets (StatusWritten e) s = max 0 (attempts_so_far s - attempts_so_far e)"

fun deleting_blocks :: "recovery_event list \<Rightarrow> nat" where
  "deleting_blocks [] = 0"
| "deleting_blocks (ev # evs) = (if deletes (event_calls ev) then 1 else 0) + deleting_blocks evs"

fun attempts_forgotten :: "recovery_event list \<Rightarrow> workflow_execution option \<Rightarrow> int" where
  "attempts_forgotten [] s = 0"
| "attempts_forgotten (ev # evs) s = forgets ev s + attempts_forgotten evs (status_after ev s)"

section \<open>Lemmas\<close>

text \<open>The calls of one recovery: none, or a record of the next attempt and the deletions after it.\<close>

definition records_then_deletes :: "workflow_execution option \<Rightarrow> pass_call list \<Rightarrow> bool" where
  "records_then_deletes e calls \<longleftrightarrow>
     calls = [] \<or>
     attempts_so_far e < MAX_ATTEMPTS \<and>
     (\<exists>e' rest. calls = PatchExecution e' # rest \<and> we_attempt e' = Some (attempts_so_far e + 1) \<and>
        (\<forall>c\<in>set rest. case c of DeletePod _ \<Rightarrow> True | PatchExecution e'' \<Rightarrow> we_attempt e'' = Some (attempts_so_far e + 1)))"

lemma performed_prefix: "\<exists>rest. cs = fst (perform accepts cs) @ rest"
  by (induction cs) (auto simp: case_prod_beta Let_def)

lemma evaluate_replace:
  assumes "cr_action (evaluate_crash_recovery p e r) = RecoverReplace"
  shows "attempts_so_far e < MAX_ATTEMPTS \<and> cr_newAttempt (evaluate_crash_recovery p e r) = Some (attempts_so_far e + 1)"
  using assms
  by (auto simp: evaluate_crash_recovery_def recovery_fails_def recovery_replaces_def recovery_none_def Let_def split: if_splits)

lemma completed_replace:
  assumes "cr_action (evaluate_completed_runtime_pod_recovery e n) = RecoverReplace"
  shows "attempts_so_far e < MAX_ATTEMPTS \<and>
    cr_newAttempt (evaluate_completed_runtime_pod_recovery e n) = Some (attempts_so_far e + 1)"
  using assms
  by (auto simp: evaluate_completed_runtime_pod_recovery_def recovery_fails_def recovery_replaces_def Let_def split: if_splits)

lemma performed_recovery:
  assumes "attempts_so_far e < MAX_ATTEMPTS" and "cr_newAttempt r = Some (attempts_so_far e + 1)"
  shows "records_then_deletes e (fst (perform accepts (recovery_patch r # map DeletePod ds)))"
proof -
  obtain rest where cs: "map DeletePod ds = fst (perform accepts (map DeletePod ds)) @ rest"
    using performed_prefix by blast
  have "\<forall>c\<in>set (fst (perform accepts (map DeletePod ds))). \<exists>d. c = DeletePod d"
    using arg_cong [OF cs, of set] by auto
  then show ?thesis
    using assms by (auto simp: records_then_deletes_def recovery_patch_def case_prod_beta Let_def)
qed

lemma recover_coordinator_calls: "records_then_deletes (rv_execution v) (fst (recover_coordinator accepts v))"
proof -
  let ?r = "evaluate_crash_recovery (rv_coordPhase v) (rv_execution v) (rv_coordReason v)"
  have "records_then_deletes (rv_execution v)
      (fst (perform accepts (recovery_patch ?r # map DeletePod (rv_deleteAfterReplacement v @ [Coordinator]))))"
    if "cr_action ?r = RecoverReplace"
    using performed_recovery evaluate_replace [OF that] by blast
  then show ?thesis
    by (auto simp: recover_coordinator_def Let_def records_then_deletes_def [of _ "[]"] split: recovery_action.splits prod.splits)
qed

lemma recover_mcp_host_calls: "records_then_deletes (rv_execution v) (fst (recover_mcp_host accepts v c m))"
proof -
  let ?r = "if m = Some ''Succeeded'' then evaluate_completed_runtime_pod_recovery (rv_execution v) ''mcp_host''
            else evaluate_crash_recovery m (rv_execution v) (rv_mcpReason v)"
  have "records_then_deletes (rv_execution v) (fst (perform accepts (recovery_patch ?r # map DeletePod [McpHost])))"
    if r: "cr_action ?r = RecoverReplace"
  proof -
    have "attempts_so_far (rv_execution v) < MAX_ATTEMPTS \<and> cr_newAttempt ?r = Some (attempts_so_far (rv_execution v) + 1)"
      using r evaluate_replace [of m "rv_execution v" "rv_mcpReason v"] completed_replace [of "rv_execution v" "''mcp_host''"]
      by (cases "m = Some ''Succeeded''") simp_all
    then show ?thesis using performed_recovery by blast
  qed
  then show ?thesis
    by (auto simp: recover_mcp_host_def Let_def records_then_deletes_def [of _ "[]"] split: recovery_action.splits prod.splits)
qed

lemma records_append:
  "records_then_deletes e xs \<Longrightarrow> records_then_deletes e ys \<Longrightarrow> records_then_deletes e (xs @ ys)"
  unfolding records_then_deletes_def by (elim disjE; fastforce)

lemma recover_pods_calls: "records_then_deletes (rv_execution v) (fst (recover_pods accepts v))"
proof -
  obtain made out where first: "recover_coordinator accepts v = (made, out)" by fastforce
  then have made: "records_then_deletes (rv_execution v) made" using recover_coordinator_calls [of v accepts] by simp
  show ?thesis
  proof (cases out)
    case (PassContinues c m)
    obtain made' out' where "recover_mcp_host accepts v c m = (made', out')" by fastforce
    then show ?thesis
      using recover_mcp_host_calls [of v accepts c m] records_append [OF made] first PassContinues
      by (simp add: recover_pods_def)
  qed (use first made in \<open>simp_all add: recover_pods_def\<close>)
qed

lemma stored_after:
  assumes "records_then_deletes e calls" and "calls \<noteq> []"
  shows "attempts_so_far (stored_execution s calls) = attempts_so_far e + 1 \<and> attempts_so_far e < MAX_ATTEMPTS"
proof -
  obtain e' rest where c: "calls = PatchExecution e' # rest" "we_attempt e' = Some (attempts_so_far e + 1)"
    "attempts_so_far e < MAX_ATTEMPTS"
    "\<forall>c\<in>set rest. case c of DeletePod _ \<Rightarrow> True | PatchExecution e'' \<Rightarrow> we_attempt e'' = Some (attempts_so_far e + 1)"
    using assms by (auto simp: records_then_deletes_def)
  have "attempts_so_far (stored_execution (Some x) cs) = n"
    if "we_attempt x = Some n" "\<forall>c\<in>set cs. case c of DeletePod _ \<Rightarrow> True | PatchExecution e'' \<Rightarrow> we_attempt e'' = Some n" for x cs n
    using that by (induction cs arbitrary: x) (auto simp: stored_execution_def attempts_so_far_def split: pass_call.splits)
  then show ?thesis using c by (simp add: stored_execution_def)
qed

text \<open>An event that deletes uses up one of the attempts that are left, or of those it forgets.\<close>

lemma event_bound:
  "(if deletes (event_calls ev) then 1 else 0) + max 0 (MAX_ATTEMPTS - attempts_so_far (status_after ev s)) \<le>
     max 0 (MAX_ATTEMPTS - attempts_so_far s) + forgets ev s"
proof (cases ev)
  case (RecoveryBlock accepts v)
  let ?calls = "fst (recover_pods accepts v)"
  show ?thesis
  proof (cases "?calls = []")
    case True
    then show ?thesis by (simp add: RecoveryBlock deletes_def stored_execution_def)
  next
    case False
    from stored_after [OF recover_pods_calls this, of s] show ?thesis
      by (auto simp: RecoveryBlock False max_def)
  qed
qed (simp add: deletes_def)

lemma deleting_bound:
  "int (deleting_blocks evs) \<le> max 0 (MAX_ATTEMPTS - attempts_so_far s) + attempts_forgotten evs s"
proof (induction evs arbitrary: s)
  case (Cons ev evs)
  have "int (deleting_blocks (ev # evs)) = (if deletes (event_calls ev) then 1 else 0) + int (deleting_blocks evs)"
    by simp
  then show ?case using event_bound [of ev s] Cons [of "status_after ev s"]
    unfolding attempts_forgotten.simps by linarith
qed simp

section \<open>The wait ends\<close>

lemma poll_deletion_stops:
  assumes tick: "\<And>k. clock k + step \<le> clock (Suc k)" and "0 < step"
  shows "\<exists>r. poll_deletion clock read deadline n = Some r"
proof (induction "nat (deadline - clock n)" arbitrary: n rule: less_induct)
  case less
  show ?case
  proof (cases "clock n < deadline")
    case True
    have "clock n + step \<le> clock (Suc n)" by (rule tick)
    then have "nat (deadline - clock (Suc n)) < nat (deadline - clock n)" using True \<open>0 < step\<close> by simp
    from less [OF this] show ?thesis using True
      by (subst poll_deletion.simps) (auto split: sum.splits pod_presence.splits)
  qed (subst poll_deletion.simps, auto split: sum.splits)
qed

lemma poll_deletion_sound:
  assumes "poll_deletion clock read deadline n = Some r"
  shows "r = Inr True \<longrightarrow> (\<exists>k\<ge>n. get_pod_presence (read k) = Inr PodAbsent)"
proof (rule poll_deletion.raw_induct
    [where P = "\<lambda>clock read deadline n r. r = Inr True \<longrightarrow> (\<exists>k\<ge>n. get_pod_presence (read k) = Inr PodAbsent)",
     OF _ assms])
  fix poll clock read deadline n r
  assume IH: "\<And>clock read deadline n r. poll clock read deadline n = Some r \<Longrightarrow>
      r = Inr True \<longrightarrow> (\<exists>k\<ge>n. get_pod_presence (read k) = Inr PodAbsent)"
    and r: "(if clock n < deadline then
        (case get_pod_presence (read n) of
           Inl e \<Rightarrow> Some (Inl e)
         | Inr PodAbsent \<Rightarrow> Some (Inr True)
         | Inr (PodPresent _) \<Rightarrow> poll clock read deadline (Suc n))
      else
        (case get_pod_presence (read n) of
           Inl e \<Rightarrow> Some (Inl e)
         | Inr presence \<Rightarrow> Some (Inr (presence = PodAbsent)))) = Some r"
  show "r = Inr True \<longrightarrow> (\<exists>k\<ge>n. get_pod_presence (read k) = Inr PodAbsent)"
    using r IH [of clock read deadline "Suc n" r]
    by (auto split: if_splits sum.splits pod_presence.splits dest: Suc_leD)
qed

section \<open>Properties\<close>

text \<open>A pod is deleted for recovery only after the next attempt was recorded: the calls a pass gets
  through are none, or start with the patch that stores one more attempt than the status held, and
  only happen while fewer than three attempts are stored.\<close>

theorem pods_are_deleted_after_recording_the_attempt:
  assumes "recover_pods accepts v = (calls, out)" and "DeletePod c \<in> set calls"
  shows "attempts_so_far (rv_execution v) < MAX_ATTEMPTS \<and>
    (\<exists>e rest. calls = PatchExecution e # rest \<and> we_attempt e = Some (attempts_so_far (rv_execution v) + 1))"
  using recover_pods_calls [of v accepts] assms by (auto simp: records_then_deletes_def)

text \<open>C24: the recovery of coordinator and mcp-host pods is bounded: over any sequence of recovery blocks and other
  writes of the execution status, whatever status and pods a block has read and whichever calls the API
  refuses, pods are deleted by at most as many blocks as attempts were left at the start (three less those
  stored), plus the stored attempts that other writes took away or that a block acting on an older status had
  not read. So while no attempt is forgotten, at most three blocks delete.\<close>

theorem recovery_is_bounded:
  "int (deleting_blocks events) \<le> max 0 (MAX_ATTEMPTS - attempts_so_far stored) + attempts_forgotten events stored"
  by (rule deleting_bound)

text \<open>C36: the wait for a deletion ends when the clock advances by the poll interval between tests, and it
  answers yes only when a read found no pod.\<close>

theorem wait_for_deletion_ends:
  assumes "\<And>k. clock k + POD_DELETE_POLL_MS \<le> clock (Suc k)"
  shows "\<exists>r. wait_for_pod_deletion clock read startedAt timeoutMs = Some r \<and>
    (r = Inr True \<longrightarrow> (\<exists>k. get_pod_presence (read k) = Inr PodAbsent))"
proof -
  let ?deadline = "startedAt + (case timeoutMs of None \<Rightarrow> DEFAULT_POD_DELETE_WAIT_MS | Some t \<Rightarrow> t)"
  obtain r where r: "poll_deletion clock read ?deadline 0 = Some r"
    using poll_deletion_stops [of clock POD_DELETE_POLL_MS read ?deadline 0] assms by (auto simp: POD_DELETE_POLL_MS_def)
  then show ?thesis using poll_deletion_sound [OF r] by (auto simp: wait_for_pod_deletion_def)
qed

section \<open>Concrete instances\<close>

definition demo_view :: runtime_view where
  "demo_view = \<lparr>rv_awaitsTriggeredRun = False, rv_needsMcpHost = True, rv_deleteAfterReplacement = [McpHost],
     rv_coordPhase = Some ''Failed'', rv_coordReason = None, rv_mcpPhase = Some ''Running'', rv_mcpReason = None,
     rv_execution = None\<rparr>"

lemma pods_are_deleted_after_recording_the_attempt_witness:
  "attempts_so_far (rv_execution demo_view) < MAX_ATTEMPTS"
proof -
  have "recover_pods (\<lambda>_. True) demo_view =
      ([PatchExecution \<lparr>we_phase = Some WfRecovering, we_attempt = Some 1\<rparr>, DeletePod McpHost, DeletePod Coordinator],
       PassContinues None None)"
    by code_simp
  from pods_are_deleted_after_recording_the_attempt [OF this, of Coordinator] show ?thesis by simp
qed

lemma wait_for_deletion_ends_witness:
  "\<exists>r. wait_for_pod_deletion (\<lambda>n. 250 * int n) (\<lambda>n. if n = 2 then ReadFailed (Some 404) else ReadFailed None) 0 None = Some r"
proof -
  have "\<And>k. 250 * int k + POD_DELETE_POLL_MS \<le> 250 * int (Suc k)" by (simp add: POD_DELETE_POLL_MS_def)
  from wait_for_deletion_ends [of "\<lambda>n. 250 * int n", OF this] show ?thesis by blast
qed

end
