(* ===== verification/WorkflowSchedule.thy ===== *)
theory WorkflowSchedule
  imports Prelude "HOL-Library.Char_ord" "HOL-Library.List_Lexorder"
begin

text \<open>
  Schedules of workflows, \<open>workflow-recipes/src/workflow/schedulingHandler.ts\<close>: the reconciliation of a
  recipe with its row of the table \<open>workflow_schedules\<close>, a map from namespace and name. The cron library is
  the parameter \<open>next_fire\<close>; the table renders a team id, a uuid column, in lower case, and refuses a team
  that does not exist and a duration beyond 32 bits.
\<close>

section \<open>Recipes and rows\<close>

record scheduling_spec =
  sd_cron :: string
  sd_timezone :: "string option"
  sd_concurrencyPolicy :: "json option"
  sd_suspend :: "bool option"

record schedule_recipe =
  sr_namespace :: string
  sr_name :: string
  sr_labels :: "(string \<times> string) list"
  sr_scheduling :: "scheduling_spec option"
  sr_allowedActors :: "string list option"
  sr_maxRunDurationSeconds :: "json option"
  sr_ttlSecondsAfterFinished :: "json option"

record schedule_row =
  sw_team :: "string option"
  sw_cron :: string
  sw_timezone :: string
  sw_nextFireAt :: instant
  sw_enabled :: bool
  sw_allowedActors :: "string list option"
  sw_maxDurationSeconds :: "int option"
  sw_ttlSecondsAfterFinished :: int
  sw_concurrencyPolicy :: "string option"
  sw_updatedAt :: instant

type_synonym schedule_table = "string \<times> string \<Rightarrow> schedule_row option"

datatype scheduling_action =
  ScheduleCreated | ScheduleUpdated | ScheduleSuspended | ScheduleResumed | ScheduleSkipped | ScheduleDeleted

datatype scheduling_error = TeamMissing | TeamInvalid | CronError string | QueryError

definition WORKFLOW_TEAM_ID_LABEL :: string where
  "WORKFLOW_TEAM_ID_LABEL = ''clerum.io/workflow-team-id''"

definition MAX_TTL_SECONDS_AFTER_FINISHED :: int where
  "MAX_TTL_SECONDS_AFTER_FINISHED = 30 * 24 * 60 * 60"

definition resolve_schedule_concurrency_policy :: "json option \<Rightarrow> string" where
  "resolve_schedule_concurrency_policy v =
     (case v of
        Some (JStr s) \<Rightarrow> (if s \<in> {''Forbid'', ''Replace'', ''Allow''} then s else ''Forbid'')
      | _ \<Rightarrow> ''Forbid'')"

definition resolve_ttl_seconds_after_finished :: "json option \<Rightarrow> int" where
  "resolve_ttl_seconds_after_finished v =
     (case v of
        Some (JInt n) \<Rightarrow> (if 0 \<le> n \<and> n \<le> MAX_TTL_SECONDS_AFTER_FINISHED then n else MAX_TTL_SECONDS_AFTER_FINISHED)
      | _ \<Rightarrow> MAX_TTL_SECONDS_AFTER_FINISHED)"

definition max_duration_of :: "json option \<Rightarrow> int option" where
  "max_duration_of v = (case v of Some (JInt n) \<Rightarrow> (if n > 0 then Some n else None) | _ \<Rightarrow> None)"

definition required_schedule_team_id :: "(string \<times> string) list \<Rightarrow> scheduling_error + string" where
  "required_schedule_team_id labels =
     (let teamId = js_trim (case map_of labels WORKFLOW_TEAM_ID_LABEL of None \<Rightarrow> [] | Some s \<Rightarrow> s)
      in if teamId = [] then Inl TeamMissing
         else if \<not> is_uuid teamId then Inl TeamInvalid
         else Inr teamId)"

definition stored_actors :: "string list option \<Rightarrow> string list option" where
  "stored_actors v = (if v = Some [] then None else v)"

definition same_actor_list :: "string list option \<Rightarrow> string list option \<Rightarrow> bool" where
  "same_actor_list a b =
     (case (map_option sort (stored_actors a), map_option sort (stored_actors b)) of
        (None, None) \<Rightarrow> True
      | (Some x, Some y) \<Rightarrow> length x = length y \<and> list_all2 (=) x y
      | _ \<Rightarrow> False)"

section \<open>Reconciliation\<close>

text \<open>The table's checks on a write.\<close>

definition row_accepted :: "string set \<Rightarrow> string \<Rightarrow> int option \<Rightarrow> bool" where
  "row_accepted teams teamId maxDuration \<longleftrightarrow>
     js_lower teamId \<in> teams \<and> (case maxDuration of None \<Rightarrow> True | Some n \<Rightarrow> n < 2 ^ 31)"

definition reconcile_scheduling ::
  "(string \<Rightarrow> string \<Rightarrow> instant \<Rightarrow> string + instant) \<Rightarrow> string set \<Rightarrow> instant \<Rightarrow> schedule_recipe \<Rightarrow> schedule_table \<Rightarrow>
   schedule_table \<times> (scheduling_error + scheduling_action)" where
  "reconcile_scheduling next_fire teams now recipe db =
     (let key = (sr_namespace recipe, sr_name recipe)
      in case sr_scheduling recipe of
        None \<Rightarrow> (db(key := None), Inr (if db key = None then ScheduleSkipped else ScheduleDeleted))
      | Some sched \<Rightarrow>
          (let timezone = (case sd_timezone sched of None \<Rightarrow> ''UTC'' | Some z \<Rightarrow> z);
               enabled = (\<not> (case sd_suspend sched of None \<Rightarrow> False | Some b \<Rightarrow> b));
               allowedActors = stored_actors (sr_allowedActors recipe);
               maxDuration = max_duration_of (sr_maxRunDurationSeconds recipe);
               ttl = resolve_ttl_seconds_after_finished (sr_ttlSecondsAfterFinished recipe);
               policy = resolve_schedule_concurrency_policy (sd_concurrencyPolicy sched)
           in case required_schedule_team_id (sr_labels recipe) of
                Inl e \<Rightarrow> (db, Inl e)
              | Inr teamId \<Rightarrow>
                  (case next_fire (sd_cron sched) (if timezone = [] then ''UTC'' else timezone) now of
                     Inl msg \<Rightarrow> (db, Inl (CronError msg))
                   | Inr initialNextFire \<Rightarrow>
                       (case db key of
                          None \<Rightarrow>
                            (if \<not> row_accepted teams teamId maxDuration then (db, Inl QueryError)
                             else (db(key \<mapsto> \<lparr>sw_team = Some (js_lower teamId), sw_cron = sd_cron sched,
                                       sw_timezone = timezone, sw_nextFireAt = initialNextFire, sw_enabled = enabled,
                                       sw_allowedActors = allowedActors, sw_maxDurationSeconds = maxDuration,
                                       sw_ttlSecondsAfterFinished = ttl, sw_concurrencyPolicy = Some policy,
                                       sw_updatedAt = now\<rparr>),
                                   Inr ScheduleCreated))
                        | Some prev \<Rightarrow>
                            (let cronChanged = (sw_cron prev \<noteq> sd_cron sched \<or> sw_timezone prev \<noteq> timezone);
                                 resuming = (\<not> sw_enabled prev \<and> enabled);
                                 suspending = (sw_enabled prev \<and> \<not> enabled);
                                 teamChanged = (sw_team prev \<noteq> Some teamId);
                                 actorsChanged = (\<not> same_actor_list (sw_allowedActors prev) (sr_allowedActors recipe));
                                 durationChanged = (sw_maxDurationSeconds prev \<noteq> maxDuration);
                                 ttlChanged = (sw_ttlSecondsAfterFinished prev \<noteq> ttl);
                                 policyChanged = (sw_concurrencyPolicy prev \<noteq> Some policy);
                                 row = prev\<lparr>sw_team := Some (js_lower teamId), sw_enabled := enabled,
                                         sw_allowedActors := allowedActors, sw_maxDurationSeconds := maxDuration,
                                         sw_ttlSecondsAfterFinished := ttl, sw_concurrencyPolicy := Some policy,
                                         sw_updatedAt := now\<rparr>;
                                 action = (if suspending then ScheduleSuspended
                                           else if resuming then ScheduleResumed else ScheduleUpdated)
                             in if cronChanged \<or> resuming then
                                  (if \<not> row_accepted teams teamId maxDuration then (db, Inl QueryError)
                                   else (db(key \<mapsto> row\<lparr>sw_cron := sd_cron sched, sw_timezone := timezone,
                                                     sw_nextFireAt := initialNextFire\<rparr>), Inr action))
                                else if suspending \<or> sw_enabled prev \<noteq> enabled \<or> teamChanged \<or> actorsChanged \<or>
                                        durationChanged \<or> ttlChanged \<or> policyChanged then
                                  (if \<not> row_accepted teams teamId maxDuration then (db, Inl QueryError)
                                   else (db(key \<mapsto> row), Inr action))
                                else (db, Inr ScheduleSkipped))))))"

definition delete_scheduling :: "string \<Rightarrow> string \<Rightarrow> schedule_table \<Rightarrow> schedule_table" where
  "delete_scheduling recipeNamespace recipeName db = db((recipeNamespace, recipeName) := None)"

section \<open>What a reconciled row is\<close>

definition spec_timezone :: "scheduling_spec \<Rightarrow> string" where
  "spec_timezone sched = (case sd_timezone sched of None \<Rightarrow> ''UTC'' | Some z \<Rightarrow> z)"

definition suspended :: "scheduling_spec \<Rightarrow> bool" where
  "suspended sched = (case sd_suspend sched of None \<Rightarrow> False | Some b \<Rightarrow> b)"

definition mirrors :: "schedule_recipe \<Rightarrow> scheduling_spec \<Rightarrow> string \<Rightarrow> schedule_row \<Rightarrow> bool" where
  "mirrors recipe sched teamId row \<longleftrightarrow>
     sw_team row = Some (js_lower teamId) \<and> sw_cron row = sd_cron sched \<and> sw_timezone row = spec_timezone sched \<and>
     sw_enabled row = (\<not> suspended sched) \<and> same_actor_list (sw_allowedActors row) (sr_allowedActors recipe) \<and>
     sw_maxDurationSeconds row = max_duration_of (sr_maxRunDurationSeconds recipe) \<and>
     sw_ttlSecondsAfterFinished row = resolve_ttl_seconds_after_finished (sr_ttlSecondsAfterFinished recipe) \<and>
     sw_concurrencyPolicy row = Some (resolve_schedule_concurrency_policy (sd_concurrencyPolicy sched))"

text \<open>A team id read from the table is in lower case.\<close>

definition rendered_teams :: "schedule_table \<Rightarrow> bool" where
  "rendered_teams db \<longleftrightarrow> (\<forall>k row t. db k = Some row \<longrightarrow> sw_team row = Some t \<longrightarrow> js_lower t = t)"

lemma same_actor_list_eq: "same_actor_list a b \<longleftrightarrow> map_option sort (stored_actors a) = map_option sort (stored_actors b)"
proof -
  have "length (sort x) = length (sort y) \<and> list_all2 (=) (sort x) (sort y) \<longleftrightarrow> sort x = sort y" for x y :: "string list"
    by (auto simp: list.rel_eq simp del: length_sort)
  then show ?thesis by (simp add: same_actor_list_def split: option.splits)
qed

lemma stored_actors_idem [simp]: "stored_actors (stored_actors v) = stored_actors v"
  by (simp add: stored_actors_def)

lemma same_actor_list_stored [simp]: "same_actor_list (stored_actors v) v"
  by (simp add: same_actor_list_eq)

text \<open>A successful reconciliation of a recipe with a schedule creates, rewrites or keeps its row.\<close>

lemma reconcile_outcome:
  assumes "sr_scheduling recipe = Some sched"
    and "reconcile_scheduling next_fire teams now recipe db = (db', Inr a)"
  shows "\<exists>teamId t. required_schedule_team_id (sr_labels recipe) = Inr teamId \<and>
    next_fire (sd_cron sched) (if spec_timezone sched = [] then ''UTC'' else spec_timezone sched) now = Inr t \<and>
    (db' = db \<and> (\<exists>prev. db (sr_namespace recipe, sr_name recipe) = Some prev \<and> sw_team prev = Some teamId \<and>
        (js_lower teamId = teamId \<longrightarrow> mirrors recipe sched teamId prev)) \<or>
     (\<exists>row. db' = db((sr_namespace recipe, sr_name recipe) \<mapsto> row) \<and> mirrors recipe sched teamId row \<and>
        row_accepted teams teamId (max_duration_of (sr_maxRunDurationSeconds recipe)) \<and>
        (\<forall>prev. db (sr_namespace recipe, sr_name recipe) = Some prev \<and> sw_cron prev = sd_cron sched \<and>
           sw_timezone prev = spec_timezone sched \<and> (sw_enabled prev \<or> suspended sched) \<longrightarrow>
           sw_nextFireAt row = sw_nextFireAt prev)))"
proof -
  let ?key = "(sr_namespace recipe, sr_name recipe)"
  note r = assms(2) [unfolded reconcile_scheduling_def Let_def assms(1) option.case spec_timezone_def [symmetric]
      suspended_def [symmetric]]
  obtain teamId where team: "required_schedule_team_id (sr_labels recipe) = Inr teamId"
    using r by (auto split: sum.splits)
  obtain t where t: "next_fire (sd_cron sched) (if spec_timezone sched = [] then ''UTC'' else spec_timezone sched) now = Inr t"
    using r team by (auto split: sum.splits)
  show ?thesis
  proof (cases "db ?key")
    case None
    then show ?thesis using r team t by (auto simp: mirrors_def split: if_splits)
  next
    case (Some prev)
    let ?moved = "sw_cron prev \<noteq> sd_cron sched \<or> sw_timezone prev \<noteq> spec_timezone sched \<or>
      \<not> sw_enabled prev \<and> \<not> suspended sched"
    let ?changed = "sw_enabled prev = suspended sched \<or> sw_team prev \<noteq> Some teamId \<or>
      \<not> same_actor_list (sw_allowedActors prev) (sr_allowedActors recipe) \<or>
      sw_maxDurationSeconds prev \<noteq> max_duration_of (sr_maxRunDurationSeconds recipe) \<or>
      sw_ttlSecondsAfterFinished prev \<noteq> resolve_ttl_seconds_after_finished (sr_ttlSecondsAfterFinished recipe) \<or>
      sw_concurrencyPolicy prev \<noteq> Some (resolve_schedule_concurrency_policy (sd_concurrencyPolicy sched))"
    let ?row = "prev\<lparr>sw_team := Some (js_lower teamId), sw_enabled := \<not> suspended sched,
      sw_allowedActors := stored_actors (sr_allowedActors recipe),
      sw_maxDurationSeconds := max_duration_of (sr_maxRunDurationSeconds recipe),
      sw_ttlSecondsAfterFinished := resolve_ttl_seconds_after_finished (sr_ttlSecondsAfterFinished recipe),
      sw_concurrencyPolicy := Some (resolve_schedule_concurrency_policy (sd_concurrencyPolicy sched)), sw_updatedAt := now\<rparr>"
    let ?moved_row = "?row\<lparr>sw_cron := sd_cron sched, sw_timezone := spec_timezone sched, sw_nextFireAt := t\<rparr>"
    note r' = r [unfolded team t Some sum.case option.case]
    have acc: "row_accepted teams teamId (max_duration_of (sr_maxRunDurationSeconds recipe))" if "?moved \<or> ?changed"
      using r' that by (simp split: if_splits)
    consider (moved) ?moved "db' = db(?key \<mapsto> ?moved_row)" | (changed) "\<not> ?moved" ?changed "db' = db(?key \<mapsto> ?row)"
      | (same) "\<not> ?moved" "\<not> ?changed" "db' = db"
    proof (cases ?moved)
      case True
      moreover have "db' = db(?key \<mapsto> ?moved_row)" using r' True acc by (simp split: if_splits)
      ultimately show ?thesis by (rule that(1))
    next
      case False
      show ?thesis
      proof (cases ?changed)
        case True
        have "db' = db(?key \<mapsto> ?row)" using r' False True acc by (simp split: if_splits)
        with False True show ?thesis by (rule that(2))
      next
        case same: False
        have "db' = db" using r' False same by (simp split: if_splits)
        with False same show ?thesis by (rule that(3))
      qed
    qed
    then show ?thesis
    proof cases
      case moved
      have "mirrors recipe sched teamId ?moved_row" by (simp add: mirrors_def)
      then have "\<exists>row. db' = db(?key \<mapsto> row) \<and> mirrors recipe sched teamId row \<and>
          row_accepted teams teamId (max_duration_of (sr_maxRunDurationSeconds recipe)) \<and>
          (\<forall>prev. db ?key = Some prev \<and> sw_cron prev = sd_cron sched \<and> sw_timezone prev = spec_timezone sched \<and>
             (sw_enabled prev \<or> suspended sched) \<longrightarrow> sw_nextFireAt row = sw_nextFireAt prev)"
        using moved acc Some by (intro exI [of _ ?moved_row]) auto
      then show ?thesis using team t by simp
    next
      case changed
      have "mirrors recipe sched teamId ?row" using changed(1) by (simp add: mirrors_def)
      then have "\<exists>row. db' = db(?key \<mapsto> row) \<and> mirrors recipe sched teamId row \<and>
          row_accepted teams teamId (max_duration_of (sr_maxRunDurationSeconds recipe)) \<and>
          (\<forall>prev. db ?key = Some prev \<and> sw_cron prev = sd_cron sched \<and> sw_timezone prev = spec_timezone sched \<and>
             (sw_enabled prev \<or> suspended sched) \<longrightarrow> sw_nextFireAt row = sw_nextFireAt prev)"
        using changed acc Some by (intro exI [of _ ?row]) simp
      then show ?thesis using team t by simp
    next
      case same
      have "js_lower teamId = teamId \<Longrightarrow> mirrors recipe sched teamId prev" using same(1,2) by (simp add: mirrors_def)
      then show ?thesis using team t Some same(2,3) by simp
    qed
  qed
qed

lemma reconcile_mirrored:
  assumes "sr_scheduling recipe = Some sched" and "required_schedule_team_id (sr_labels recipe) = Inr teamId"
    and "next_fire (sd_cron sched) (if spec_timezone sched = [] then ''UTC'' else spec_timezone sched) now = Inr t"
    and "db (sr_namespace recipe, sr_name recipe) = Some row" and "mirrors recipe sched teamId row"
    and "row_accepted teams teamId (max_duration_of (sr_maxRunDurationSeconds recipe)) \<or> js_lower teamId = teamId"
  shows "if js_lower teamId = teamId then reconcile_scheduling next_fire teams now recipe db = (db, Inr ScheduleSkipped)
    else snd (reconcile_scheduling next_fire teams now recipe db) = Inr ScheduleUpdated"
  unfolding reconcile_scheduling_def Let_def assms(1) option.case spec_timezone_def [symmetric] suspended_def [symmetric]
    assms(2) sum.case assms(3) assms(4)
  using assms(5,6) by (auto simp: mirrors_def)

section \<open>Properties\<close>

text \<open>C25: a reconciled schedule mirrors the recipe: after a successful reconciliation of a recipe with a
  schedule its row has the recipe's team, cron, time zone, switch, actors, limits and policy, no other
  row has changed, and the time of the next run is kept unless the row is new, the cron or time zone
  changed or the schedule is resumed.\<close>

theorem reconciled_row_mirrors_the_recipe:
  assumes "sr_scheduling recipe = Some sched" and "rendered_teams db"
    and "reconcile_scheduling next_fire teams now recipe db = (db', Inr a)"
  shows "\<exists>teamId row. required_schedule_team_id (sr_labels recipe) = Inr teamId \<and>
    db' (sr_namespace recipe, sr_name recipe) = Some row \<and> mirrors recipe sched teamId row \<and>
    (\<forall>k. k \<noteq> (sr_namespace recipe, sr_name recipe) \<longrightarrow> db' k = db k) \<and>
    (\<forall>prev. db (sr_namespace recipe, sr_name recipe) = Some prev \<and> sw_cron prev = sd_cron sched \<and>
       sw_timezone prev = spec_timezone sched \<and> (sw_enabled prev \<or> suspended sched) \<longrightarrow>
       sw_nextFireAt row = sw_nextFireAt prev)"
proof -
  from reconcile_outcome [OF assms(1,3)] obtain teamId where team: "required_schedule_team_id (sr_labels recipe) = Inr teamId"
    and "db' = db \<and> (\<exists>prev. db (sr_namespace recipe, sr_name recipe) = Some prev \<and> sw_team prev = Some teamId \<and>
        (js_lower teamId = teamId \<longrightarrow> mirrors recipe sched teamId prev)) \<or>
      (\<exists>row. db' = db((sr_namespace recipe, sr_name recipe) \<mapsto> row) \<and> mirrors recipe sched teamId row \<and>
        (\<forall>prev. db (sr_namespace recipe, sr_name recipe) = Some prev \<and> sw_cron prev = sd_cron sched \<and>
           sw_timezone prev = spec_timezone sched \<and> (sw_enabled prev \<or> suspended sched) \<longrightarrow>
           sw_nextFireAt row = sw_nextFireAt prev))" by blast
  from this(2) show ?thesis
  proof (elim disjE conjE exE)
    fix prev assume p: "db' = db" "db (sr_namespace recipe, sr_name recipe) = Some prev" "sw_team prev = Some teamId"
      "js_lower teamId = teamId \<longrightarrow> mirrors recipe sched teamId prev"
    then have "mirrors recipe sched teamId prev" using assms(2) unfolding rendered_teams_def by blast
    then show ?thesis using p team by auto
  next
    fix row assume "db' = db((sr_namespace recipe, sr_name recipe) \<mapsto> row)" "mirrors recipe sched teamId row"
      "\<forall>prev. db (sr_namespace recipe, sr_name recipe) = Some prev \<and> sw_cron prev = sd_cron sched \<and>
         sw_timezone prev = spec_timezone sched \<and> (sw_enabled prev \<or> suspended sched) \<longrightarrow>
         sw_nextFireAt row = sw_nextFireAt prev"
    then show ?thesis using team by simp
  qed
qed

text \<open>Reconciliation settles exactly for a team label in lower case: after a successful reconciliation
  another one of the same recipe changes nothing and says so when the team id of the label is in lower
  case, and otherwise writes the row once more, although nothing in the recipe has changed.\<close>

theorem reconciliation_settles_for_lower_case_teams:
  assumes "sr_scheduling recipe = Some sched" and "rendered_teams db"
    and "reconcile_scheduling next_fire teams now recipe db = (db', Inr a)"
    and "required_schedule_team_id (sr_labels recipe) = Inr teamId"
    and "next_fire (sd_cron sched) (if spec_timezone sched = [] then ''UTC'' else spec_timezone sched) later = Inr t"
  shows "if js_lower teamId = teamId then reconcile_scheduling next_fire teams later recipe db' = (db', Inr ScheduleSkipped)
    else snd (reconcile_scheduling next_fire teams later recipe db') = Inr ScheduleUpdated"
proof -
  from reconcile_outcome [OF assms(1,3)] assms(4) have
    "db' = db \<and> (\<exists>prev. db (sr_namespace recipe, sr_name recipe) = Some prev \<and> sw_team prev = Some teamId \<and>
        (js_lower teamId = teamId \<longrightarrow> mirrors recipe sched teamId prev)) \<or>
      (\<exists>row. db' = db((sr_namespace recipe, sr_name recipe) \<mapsto> row) \<and> mirrors recipe sched teamId row \<and>
        row_accepted teams teamId (max_duration_of (sr_maxRunDurationSeconds recipe)))" by auto
  then show ?thesis
  proof (elim disjE conjE exE)
    fix prev assume p: "db' = db" "db (sr_namespace recipe, sr_name recipe) = Some prev" "sw_team prev = Some teamId"
      "js_lower teamId = teamId \<longrightarrow> mirrors recipe sched teamId prev"
    then have "js_lower teamId = teamId" using assms(2) unfolding rendered_teams_def by blast
    then show ?thesis using reconcile_mirrored [of recipe sched teamId next_fire later t db' prev teams] assms(1,4,5) p by simp
  next
    fix row assume "db' = db((sr_namespace recipe, sr_name recipe) \<mapsto> row)" "mirrors recipe sched teamId row"
      "row_accepted teams teamId (max_duration_of (sr_maxRunDurationSeconds recipe))"
    then show ?thesis using reconcile_mirrored [of recipe sched teamId next_fire later t db' row teams] assms(1,4,5) by simp
  qed
qed

section \<open>Concrete instances\<close>

definition demo_schedule :: scheduling_spec where
  "demo_schedule = \<lparr>sd_cron = ''0 * * * *'', sd_timezone = None, sd_concurrencyPolicy = None, sd_suspend = None\<rparr>"

definition demo_team :: string where
  "demo_team = ''0000000A-0000-4000-8000-000000000001''"

definition demo_scheduled :: schedule_recipe where
  "demo_scheduled = \<lparr>sr_namespace = ''ns'', sr_name = ''r'', sr_labels = [(WORKFLOW_TEAM_ID_LABEL, demo_team)],
     sr_scheduling = Some demo_schedule, sr_allowedActors = Some [''user''], sr_maxRunDurationSeconds = Some (JInt 60),
     sr_ttlSecondsAfterFinished = None\<rparr>"

definition demo_next_fire :: "string \<Rightarrow> string \<Rightarrow> instant \<Rightarrow> string + instant" where
  "demo_next_fire cron zone now = Inr (now + 3600)"

lemma demo_reconciled:
  "snd (reconcile_scheduling demo_next_fire {js_lower demo_team} 5 demo_scheduled (\<lambda>_. None)) = Inr ScheduleCreated"
  "required_schedule_team_id (sr_labels demo_scheduled) = Inr demo_team" "js_lower demo_team \<noteq> demo_team"
  "sr_scheduling demo_scheduled = Some demo_schedule"
  by code_simp+

lemma reconciled_row_mirrors_the_recipe_witness:
  "\<exists>db' row. reconcile_scheduling demo_next_fire {js_lower demo_team} 5 demo_scheduled (\<lambda>_. None) =
       (db', Inr ScheduleCreated) \<and> db' (''ns'', ''r'') = Some row \<and> mirrors demo_scheduled demo_schedule demo_team row"
proof -
  obtain db' where r: "reconcile_scheduling demo_next_fire {js_lower demo_team} 5 demo_scheduled (\<lambda>_. None) =
      (db', Inr ScheduleCreated)"
    using demo_reconciled(1) by (metis prod.collapse)
  from reconciled_row_mirrors_the_recipe [OF demo_reconciled(4) _ r] demo_reconciled(2) r show ?thesis
    by (auto simp: rendered_teams_def demo_scheduled_def)
qed

lemma reconciliation_settles_for_lower_case_teams_witness:
  "\<exists>db'. snd (reconcile_scheduling demo_next_fire {js_lower demo_team} 9 demo_scheduled db') = Inr ScheduleUpdated"
proof -
  obtain db' where r: "reconcile_scheduling demo_next_fire {js_lower demo_team} 5 demo_scheduled (\<lambda>_. None) =
      (db', Inr ScheduleCreated)"
    using demo_reconciled(1) by (metis prod.collapse)
  have "demo_next_fire (sd_cron demo_schedule)
      (if spec_timezone demo_schedule = [] then ''UTC'' else spec_timezone demo_schedule) 9 = Inr 3609"
    by (simp add: demo_next_fire_def)
  from reconciliation_settles_for_lower_case_teams [OF demo_reconciled(4) _ r demo_reconciled(2) this] demo_reconciled(3)
  show ?thesis by (auto simp: rendered_teams_def)
qed

end
