(* ===== verification/ScheduleWorker.thy ===== *)
theory ScheduleWorker
  imports WorkflowSchedule
begin

text \<open>
  The schedule worker of the control API, \<open>control-api/src/services/workflowScheduleWorkerService.ts\<close>, with
  \<open>createRun\<close> of \<open>workflowRunService.ts\<close>: a sweep drains the matured rows of \<open>workflow_schedules\<close> in one
  transaction and inserts a run for each. The transaction is explicit: a refused statement aborts it,
  every later statement then fails, and its commit restores the tables. What a sweep meets (the
  clock, the lock, rows other sessions hold, inserts the database refuses, new ids) is a record of
  arguments. Log output and metrics are left out, but for the warning of a sustained streak.
\<close>

section \<open>Tables and transactions\<close>

datatype run_phase = RunPending | RunRunning | RunSucceeded | RunFailed | RunCanceled

record create_run_input =
  ci_recipeNamespace :: string
  ci_recipeName :: string
  ci_actorType :: string
  ci_teamId :: "string option"
  ci_usageTeamId :: "string option"
  ci_actorId :: "string option"
  ci_idempotencyKey :: "string option"
  ci_triggerSource :: string
  ci_inputs :: "json option"
  ci_intermediateParameters :: "json option"
  ci_outputOverrides :: "json option"
  ci_maxDurationSeconds :: "int option"
  ci_ttlSecondsAfterFinished :: "int option"

record run_row = create_run_input +
  wr_runId :: string
  wr_phase :: run_phase
  wr_createdAt :: instant
  wr_startedAt :: "instant option"

record worker_row = schedule_row +
  wk_scheduleId :: string
  wk_recipeNamespace :: string
  wk_recipeName :: string
  wk_inputTemplate :: "json option"
  wk_lastFireAt :: "instant option"

record worker_db =
  wd_schedules :: "worker_row list"
  wd_runs :: "run_row list"

record worker_tx =
  tx_db :: worker_db
  tx_aborted :: bool

record sweep_world =
  sv_acquired :: bool
  sv_now :: instant
  sv_clock :: "string \<Rightarrow> instant"
  sv_nextFire :: "string \<Rightarrow> string \<Rightarrow> instant \<Rightarrow> string + instant"
  sv_locked :: "string set"
  sv_refuses :: "worker_db \<Rightarrow> run_row \<Rightarrow> bool"
  sv_newId :: "nat \<Rightarrow> string"

datatype worker_error = TransactionAborted | InsertRefused | UnexpectedConflict | ConflictRowVanished | CronFailure string

definition transaction_begin :: "worker_db \<Rightarrow> worker_tx" where
  "transaction_begin db = \<lparr>tx_db = db, tx_aborted = False\<rparr>"

definition transaction_commit :: "worker_db \<Rightarrow> worker_tx \<Rightarrow> worker_db" where
  "transaction_commit before tx = (if tx_aborted tx then before else tx_db tx)"

definition update_schedule :: "string \<Rightarrow> (worker_row \<Rightarrow> worker_row) \<Rightarrow> worker_tx \<Rightarrow> worker_error + worker_tx" where
  "update_schedule scheduleId f tx =
     (if tx_aborted tx then Inl TransactionAborted
      else Inr (tx\<lparr>tx_db := (tx_db tx)\<lparr>wd_schedules :=
             map (\<lambda>r. if wk_scheduleId r = scheduleId then f r else r) (wd_schedules (tx_db tx))\<rparr>\<rparr>))"

section \<open>Creating a run\<close>

definition inserted_run :: "sweep_world \<Rightarrow> create_run_input \<Rightarrow> nat \<Rightarrow> run_row" where
  "inserted_run w inp n = \<lparr>
     ci_recipeNamespace = ci_recipeNamespace inp, ci_recipeName = ci_recipeName inp,
     ci_actorType = ci_actorType inp, ci_teamId = ci_teamId inp,
     ci_usageTeamId = (case ci_usageTeamId inp of None \<Rightarrow> ci_teamId inp | Some t \<Rightarrow> Some t),
     ci_actorId = ci_actorId inp, ci_idempotencyKey = ci_idempotencyKey inp,
     ci_triggerSource = ci_triggerSource inp, ci_inputs = ci_inputs inp,
     ci_intermediateParameters = ci_intermediateParameters inp, ci_outputOverrides = ci_outputOverrides inp,
     ci_maxDurationSeconds = ci_maxDurationSeconds inp,
     ci_ttlSecondsAfterFinished = ci_ttlSecondsAfterFinished inp,
     wr_runId = sv_newId w n, wr_phase = RunPending, wr_createdAt = sv_now w, wr_startedAt = None\<rparr>"

definition same_window :: "string \<Rightarrow> string \<Rightarrow> string \<Rightarrow> run_row \<Rightarrow> bool" where
  "same_window namespace name key r \<longleftrightarrow>
     ci_recipeNamespace r = namespace \<and> ci_recipeName r = name \<and> ci_idempotencyKey r = Some key"

definition conflicting :: "create_run_input \<Rightarrow> run_row list \<Rightarrow> bool" where
  "conflicting inp runs \<longleftrightarrow>
     (case ci_idempotencyKey inp of
        None \<Rightarrow> False
      | Some key \<Rightarrow> list_ex (same_window (ci_recipeNamespace inp) (ci_recipeName inp) key) runs)"

definition create_run ::
  "sweep_world \<Rightarrow> create_run_input \<Rightarrow> worker_tx \<Rightarrow> worker_tx \<times> (worker_error + run_row \<times> bool)" where
  "create_run w inp tx =
     (let db = tx_db tx; runs = wd_runs db; r = inserted_run w inp (length runs)
      in if tx_aborted tx then (tx, Inl TransactionAborted)
         else if sv_refuses w db r then (tx\<lparr>tx_aborted := True\<rparr>, Inl InsertRefused)
         else if \<not> conflicting inp runs then (tx\<lparr>tx_db := db\<lparr>wd_runs := runs @ [r]\<rparr>\<rparr>, Inr (r, True))
         else (case ci_idempotencyKey inp of
                 None \<Rightarrow> (tx, Inl UnexpectedConflict)
               | Some key \<Rightarrow>
                   (if key = [] then (tx, Inl UnexpectedConflict)
                    else (case find (same_window (ci_recipeNamespace inp) (ci_recipeName inp) key) runs of
                            None \<Rightarrow> (tx, Inl ConflictRowVanished)
                          | Some existing \<Rightarrow> (tx, Inr (existing, False))))))"

section \<open>Policies\<close>

definition FORBID_PENDING_ACTIVE_BOUND_SECONDS :: int where
  "FORBID_PENDING_ACTIVE_BOUND_SECONDS = 15 * 60"

definition FORBID_RUNNING_MAX_DURATION_CAP_SECONDS :: int where
  "FORBID_RUNNING_MAX_DURATION_CAP_SECONDS = 24 * 60 * 60"

definition FORBID_RUNNING_GRACE_SECONDS :: int where
  "FORBID_RUNNING_GRACE_SECONDS = 5 * 60"

definition FORBID_SUSTAINED_SKIP_THRESHOLD :: nat where
  "FORBID_SUSTAINED_SKIP_THRESHOLD = 6"

definition FORBID_SKIP_STREAK_CAPACITY :: nat where
  "FORBID_SKIP_STREAK_CAPACITY = 1000"

definition DEFAULT_BATCH_SIZE :: nat where
  "DEFAULT_BATCH_SIZE = 50"

definition resolve_concurrency_policy :: "string option \<Rightarrow> string" where
  "resolve_concurrency_policy v = (case v of Some p \<Rightarrow> (if p = ''Allow'' \<or> p = ''Replace'' then p else ''Forbid'') | None \<Rightarrow> ''Forbid'')"

definition run_is_live :: "instant \<Rightarrow> run_row \<Rightarrow> bool" where
  "run_is_live now r =
     (case wr_phase r of
        RunPending \<Rightarrow> wr_createdAt r > now - FORBID_PENDING_ACTIVE_BOUND_SECONDS * 1000
      | RunRunning \<Rightarrow>
          (let cap = FORBID_RUNNING_MAX_DURATION_CAP_SECONDS;
               limit = min (case ci_maxDurationSeconds r of None \<Rightarrow> cap | Some s \<Rightarrow> s) cap
           in (case wr_startedAt r of None \<Rightarrow> wr_createdAt r | Some s \<Rightarrow> s) > now - (limit + FORBID_RUNNING_GRACE_SECONDS) * 1000)
      | _ \<Rightarrow> False)"

definition live_runs :: "instant \<Rightarrow> string \<Rightarrow> string \<Rightarrow> run_row list \<Rightarrow> run_row list" where
  "live_runs now namespace name runs =
     filter (\<lambda>r. ci_recipeNamespace r = namespace \<and> ci_recipeName r = name \<and> run_is_live now r) runs"

definition find_active_run_for_recipe ::
  "sweep_world \<Rightarrow> string \<Rightarrow> string \<Rightarrow> worker_tx \<Rightarrow> worker_error + run_row option" where
  "find_active_run_for_recipe w namespace name tx =
     (if tx_aborted tx then Inl TransactionAborted
      else (case sort_key wr_createdAt (live_runs (sv_now w) namespace name (wd_runs (tx_db tx))) of
              [] \<Rightarrow> Inr None
            | r # _ \<Rightarrow> Inr (Some r)))"

definition compute_next_fire :: "sweep_world \<Rightarrow> string \<Rightarrow> string \<Rightarrow> instant \<Rightarrow> string + instant" where
  "compute_next_fire w cron timezone from = sv_nextFire w cron (if timezone = [] then ''UTC'' else timezone) from"

definition actor_forbidden :: "string list option \<Rightarrow> bool" where
  "actor_forbidden actors = (case actors of None \<Rightarrow> False | Some as \<Rightarrow> as \<noteq> [] \<and> ''scheduled'' \<notin> set as)"

section \<open>Date.prototype.toISOString\<close>

text \<open>Year, month and day of a day counted from 1970-01-01, in the proleptic Gregorian calendar.\<close>

definition civil_of_days :: "int \<Rightarrow> int \<times> int \<times> int" where
  "civil_of_days days =
     (let z = days + 719468;
          era = z div 146097;
          doe = z mod 146097;
          yoe = (doe - doe div 1460 + doe div 36524 - doe div 146096) div 365;
          doy = doe - (365 * yoe + yoe div 4 - yoe div 100);
          mp = (5 * doy + 2) div 153;
          d = doy - (153 * mp + 2) div 5 + 1;
          m = (if mp < 10 then mp + 3 else mp - 9)
      in (yoe + era * 400 + (if m \<le> 2 then 1 else 0), m, d))"

definition padded :: "nat \<Rightarrow> int \<Rightarrow> string" where
  "padded n i = (let s = string_of_nat (nat i) in replicate (n - length s) (CHR ''0'') @ s)"

definition iso_year :: "int \<Rightarrow> string" where
  "iso_year y = (if 0 \<le> y \<and> y \<le> 9999 then padded 4 y
                 else if y < 0 then ''-'' @ padded 6 (- y) else ''+'' @ padded 6 y)"

definition to_iso_string :: "instant \<Rightarrow> string" where
  "to_iso_string t =
     (let (y, m, d) = civil_of_days (t div 86400000); ms = t mod 86400000
      in iso_year y @ ''-'' @ padded 2 m @ ''-'' @ padded 2 d @ ''T'' @
         padded 2 (ms div 3600000) @ '':'' @ padded 2 (ms div 60000 mod 60) @ '':'' @
         padded 2 (ms div 1000 mod 60) @ ''.'' @ padded 3 (ms mod 1000) @ ''Z'')"

section \<open>Skips\<close>

record skip_streak =
  sk_count :: nat
  sk_expectedFireAt :: string

record worker_memory =
  wm_skipStreaks :: "(string, skip_streak) js_map"
  wm_sustained :: "string list"

datatype fire_reason = FireOk | FireError | InvalidCron | ActorNotAllowed | ConcurrencyForbidden

record fire_result =
  fr_scheduleId :: string
  fr_runId :: "string option"
  fr_fired :: bool
  fr_reason :: fire_reason
  fr_activeRunId :: "string option"
  fr_error :: "worker_error option"

definition not_fired :: "string \<Rightarrow> fire_reason \<Rightarrow> fire_result" where
  "not_fired scheduleId reason = \<lparr>fr_scheduleId = scheduleId, fr_runId = None, fr_fired = False, fr_reason = reason,
     fr_activeRunId = None, fr_error = None\<rparr>"

fun evict_streaks :: "string list \<Rightarrow> (string, skip_streak) js_map \<Rightarrow> (string, skip_streak) js_map" where
  "evict_streaks [] m = m"
| "evict_streaks (k # ks) m =
     (if length m \<le> FORBID_SKIP_STREAK_CAPACITY then m else evict_streaks ks (js_delete k m))"

definition record_skip :: "string \<Rightarrow> instant \<Rightarrow> instant \<Rightarrow> worker_memory \<Rightarrow> worker_memory" where
  "record_skip scheduleId currentFire skipNextFire mem =
     (let streaks = wm_skipStreaks mem;
          consecutive = (case js_get streaks scheduleId of
                           Some p \<Rightarrow> (if sk_expectedFireAt p = to_iso_string currentFire then sk_count p + 1 else 1)
                         | None \<Rightarrow> 1);
          streaks' = js_set scheduleId \<lparr>sk_count = consecutive, sk_expectedFireAt = to_iso_string skipNextFire\<rparr>
                       (js_delete scheduleId streaks)
      in mem\<lparr>wm_skipStreaks := evict_streaks (js_keys streaks') streaks',
             wm_sustained := (if consecutive = FORBID_SUSTAINED_SKIP_THRESHOLD
                              then wm_sustained mem @ [scheduleId] else wm_sustained mem)\<rparr>)"

definition skip_forbidden_tick ::
  "sweep_world \<Rightarrow> worker_row \<Rightarrow> run_row \<Rightarrow> worker_tx \<Rightarrow> worker_memory \<Rightarrow>
   worker_memory \<times> (worker_error + worker_tx \<times> fire_result)" where
  "skip_forbidden_tick w row active tx mem =
     (let currentFire = sw_nextFireAt row; now = sv_clock w (wk_scheduleId row)
      in case compute_next_fire w (sw_cron row) (sw_timezone row) (max currentFire now) of
           Inl msg \<Rightarrow> (mem, Inl (CronFailure msg))
         | Inr skipNextFire \<Rightarrow>
             (case update_schedule (wk_scheduleId row) (\<lambda>r. r\<lparr>sw_nextFireAt := skipNextFire, sw_updatedAt := sv_now w\<rparr>) tx of
                Inl e \<Rightarrow> (mem, Inl e)
              | Inr tx' \<Rightarrow>
                  (record_skip (wk_scheduleId row) currentFire skipNextFire mem,
                   Inr (tx', (not_fired (wk_scheduleId row) ConcurrencyForbidden)\<lparr>fr_activeRunId := Some (wr_runId active)\<rparr>))))"

section \<open>Firing\<close>

definition schedule_key :: "worker_row \<Rightarrow> string" where
  "schedule_key row = ''schedule/'' @ wk_scheduleId row @ ''/'' @ to_iso_string (sw_nextFireAt row)"

definition scheduled_run :: "worker_row \<Rightarrow> create_run_input" where
  "scheduled_run row = \<lparr>
     ci_recipeNamespace = wk_recipeNamespace row, ci_recipeName = wk_recipeName row,
     ci_actorType = ''scheduled'', ci_teamId = sw_team row, ci_usageTeamId = sw_team row, ci_actorId = None,
     ci_idempotencyKey = Some (schedule_key row), ci_triggerSource = ''schedule'',
     ci_inputs = wk_inputTemplate row, ci_intermediateParameters = None, ci_outputOverrides = None,
     ci_maxDurationSeconds = sw_maxDurationSeconds row,
     ci_ttlSecondsAfterFinished = Some (sw_ttlSecondsAfterFinished row)\<rparr>"

definition fire_run ::
  "sweep_world \<Rightarrow> worker_row \<Rightarrow> instant \<Rightarrow> worker_tx \<Rightarrow> worker_memory \<Rightarrow>
   worker_memory \<times> (worker_error + worker_tx \<times> fire_result)" where
  "fire_run w row nextFire tx mem =
     (case create_run w (scheduled_run row) tx of
        (tx', Inl e) \<Rightarrow> (mem, Inr (tx', (not_fired (wk_scheduleId row) FireError)\<lparr>fr_error := Some e\<rparr>))
      | (tx', Inr (run, created)) \<Rightarrow>
          (case update_schedule (wk_scheduleId row)
                  (\<lambda>r. r\<lparr>sw_nextFireAt := nextFire, wk_lastFireAt := Some (sv_now w), sw_updatedAt := sv_now w\<rparr>) tx' of
             Inl e \<Rightarrow> (mem, Inr (tx', (not_fired (wk_scheduleId row) FireError)\<lparr>fr_error := Some e\<rparr>))
           | Inr tx'' \<Rightarrow>
               (mem\<lparr>wm_skipStreaks := js_delete (wk_scheduleId row) (wm_skipStreaks mem)\<rparr>,
                Inr (tx'', \<lparr>fr_scheduleId = wk_scheduleId row, fr_runId = Some (wr_runId run), fr_fired = True,
                            fr_reason = FireOk, fr_activeRunId = None, fr_error = None\<rparr>))))"

definition fire_one_schedule ::
  "sweep_world \<Rightarrow> worker_row \<Rightarrow> worker_tx \<Rightarrow> worker_memory \<Rightarrow>
   worker_memory \<times> (worker_error + worker_tx \<times> fire_result)" where
  "fire_one_schedule w row tx mem =
     (case compute_next_fire w (sw_cron row) (sw_timezone row) (sw_nextFireAt row) of
        Inl msg \<Rightarrow>
          (case update_schedule (wk_scheduleId row) (\<lambda>r. r\<lparr>sw_enabled := False, sw_updatedAt := sv_now w\<rparr>) tx of
             Inl e \<Rightarrow> (mem, Inl e)
           | Inr tx' \<Rightarrow> (mem, Inr (tx', (not_fired (wk_scheduleId row) InvalidCron)\<lparr>fr_error := Some (CronFailure msg)\<rparr>)))
      | Inr nextFire \<Rightarrow>
          (if actor_forbidden (sw_allowedActors row) then
             (case update_schedule (wk_scheduleId row) (\<lambda>r. r\<lparr>sw_nextFireAt := nextFire, sw_updatedAt := sv_now w\<rparr>) tx of
                Inl e \<Rightarrow> (mem, Inl e)
              | Inr tx' \<Rightarrow> (mem, Inr (tx', not_fired (wk_scheduleId row) ActorNotAllowed)))
           else if resolve_concurrency_policy (sw_concurrencyPolicy row) = ''Forbid'' then
             (case find_active_run_for_recipe w (wk_recipeNamespace row) (wk_recipeName row) tx of
                Inl e \<Rightarrow> (mem, Inl e)
              | Inr (Some active) \<Rightarrow> skip_forbidden_tick w row active tx mem
              | Inr None \<Rightarrow> fire_run w row nextFire tx mem)
           else fire_run w row nextFire tx mem))"

fun fire_rows ::
  "sweep_world \<Rightarrow> worker_row list \<Rightarrow> worker_tx \<Rightarrow> worker_memory \<Rightarrow>
   worker_memory \<times> (worker_error + worker_tx \<times> fire_result list)" where
  "fire_rows w [] tx mem = (mem, Inr (tx, []))"
| "fire_rows w (row # rows) tx mem =
     (case fire_one_schedule w row tx mem of
        (mem', Inl e) \<Rightarrow> (mem', Inl e)
      | (mem', Inr (tx', res)) \<Rightarrow>
          (case fire_rows w rows tx' mem' of
             (mem'', Inl e) \<Rightarrow> (mem'', Inl e)
           | (mem'', Inr (tx'', rs)) \<Rightarrow> (mem'', Inr (tx'', res # rs))))"

text \<open>The order of rows due at the same time is the order of the table.\<close>

definition matured_rows :: "sweep_world \<Rightarrow> nat \<Rightarrow> worker_db \<Rightarrow> worker_row list" where
  "matured_rows w batchSize db =
     take batchSize (sort_key sw_nextFireAt
       (filter (\<lambda>r. sw_enabled r \<and> sw_nextFireAt r \<le> sv_now w \<and> wk_scheduleId r \<notin> sv_locked w) (wd_schedules db)))"

definition fire_one_batch ::
  "sweep_world \<Rightarrow> nat \<Rightarrow> worker_db \<Rightarrow> worker_memory \<Rightarrow> worker_db \<times> worker_memory \<times> (worker_error + fire_result list)" where
  "fire_one_batch w batchSize db mem =
     (let rows = matured_rows w batchSize db
      in if rows = [] then (db, mem, Inr [])
         else (case fire_rows w rows (transaction_begin db) mem of
                 (mem', Inl e) \<Rightarrow> (db, mem', Inl e)
               | (mem', Inr (tx, results)) \<Rightarrow> (transaction_commit db tx, mem', Inr results)))"

record sweep_summary =
  ss_fired :: nat
  ss_actorNotAllowed :: nat
  ss_concurrencyForbidden :: nat
  ss_skippedLock :: bool
  ss_errors :: nat

definition empty_summary :: sweep_summary where
  "empty_summary = \<lparr>ss_fired = 0, ss_actorNotAllowed = 0, ss_concurrencyForbidden = 0, ss_skippedLock = False, ss_errors = 0\<rparr>"

definition count_result :: "fire_result \<Rightarrow> sweep_summary \<Rightarrow> sweep_summary" where
  "count_result r s =
     (if fr_fired r then s\<lparr>ss_fired := ss_fired s + 1\<rparr>
      else if fr_reason r = ActorNotAllowed then s\<lparr>ss_actorNotAllowed := ss_actorNotAllowed s + 1\<rparr>
      else if fr_reason r = ConcurrencyForbidden then s\<lparr>ss_concurrencyForbidden := ss_concurrencyForbidden s + 1\<rparr>
      else s\<lparr>ss_errors := ss_errors s + 1\<rparr>)"

definition process_matured_schedules ::
  "sweep_world \<Rightarrow> nat option \<Rightarrow> worker_db \<Rightarrow> worker_memory \<Rightarrow> worker_db \<times> worker_memory \<times> (worker_error + sweep_summary)" where
  "process_matured_schedules w batch db mem =
     (if \<not> sv_acquired w then (db, mem, Inr (empty_summary\<lparr>ss_skippedLock := True\<rparr>))
      else (case fire_one_batch w (case batch of None \<Rightarrow> DEFAULT_BATCH_SIZE | Some n \<Rightarrow> n) db mem of
              (db', mem', Inl e) \<Rightarrow> (db', mem', Inl e)
            | (db', mem', Inr results) \<Rightarrow> (db', mem', Inr (fold count_result results empty_summary))))"

section \<open>One tick, as a relation on the tables\<close>

definition new_run :: "sweep_world \<Rightarrow> worker_row \<Rightarrow> worker_db \<Rightarrow> run_row" where
  "new_run w row db = inserted_run w (scheduled_run row) (length (wd_runs db))"

definition window_taken :: "worker_row \<Rightarrow> worker_db \<Rightarrow> bool" where
  "window_taken row db \<longleftrightarrow> conflicting (scheduled_run row) (wd_runs db)"

definition with_schedule :: "string \<Rightarrow> (worker_row \<Rightarrow> worker_row) \<Rightarrow> worker_db \<Rightarrow> worker_db" where
  "with_schedule scheduleId f db =
     db\<lparr>wd_schedules := map (\<lambda>r. if wk_scheduleId r = scheduleId then f r else r) (wd_schedules db)\<rparr>"

definition moved_to :: "sweep_world \<Rightarrow> instant \<Rightarrow> worker_row \<Rightarrow> worker_row" where
  "moved_to w t r = r\<lparr>sw_nextFireAt := t, sw_updatedAt := sv_now w\<rparr>"

definition fired_at :: "sweep_world \<Rightarrow> instant \<Rightarrow> worker_row \<Rightarrow> worker_row" where
  "fired_at w t r = r\<lparr>sw_nextFireAt := t, wk_lastFireAt := Some (sv_now w), sw_updatedAt := sv_now w\<rparr>"

definition disabled_at :: "sweep_world \<Rightarrow> worker_row \<Rightarrow> worker_row" where
  "disabled_at w r = r\<lparr>sw_enabled := False, sw_updatedAt := sv_now w\<rparr>"

definition forbids_overlap :: "worker_row \<Rightarrow> bool" where
  "forbids_overlap row \<longleftrightarrow> resolve_concurrency_policy (sw_concurrencyPolicy row) = ''Forbid''"

abbreviation recipe_live_runs :: "sweep_world \<Rightarrow> worker_row \<Rightarrow> worker_db \<Rightarrow> run_row list" where
  "recipe_live_runs w row db \<equiv> live_runs (sv_now w) (wk_recipeNamespace row) (wk_recipeName row) (wd_runs db)"

abbreviation next_slot :: "sweep_world \<Rightarrow> worker_row \<Rightarrow> instant \<Rightarrow> string + instant" where
  "next_slot w row from \<equiv> compute_next_fire w (sw_cron row) (sw_timezone row) from"

inductive tick :: "sweep_world \<Rightarrow> worker_row \<Rightarrow> worker_db \<Rightarrow> fire_reason \<Rightarrow> worker_db \<Rightarrow> bool"
  for w :: sweep_world and row :: worker_row and db :: worker_db where
  tick_fires: "\<lbrakk>next_slot w row (sw_nextFireAt row) = Inr t; \<not> actor_forbidden (sw_allowedActors row);
      forbids_overlap row \<longrightarrow> recipe_live_runs w row db = []; \<not> sv_refuses w db (new_run w row db)\<rbrakk> \<Longrightarrow>
    tick w row db FireOk (with_schedule (wk_scheduleId row) (fired_at w t)
      (if window_taken row db then db else db\<lparr>wd_runs := wd_runs db @ [new_run w row db]\<rparr>))"
| tick_skips_overlap: "\<lbrakk>next_slot w row (sw_nextFireAt row) = Inr t; \<not> actor_forbidden (sw_allowedActors row);
      forbids_overlap row; recipe_live_runs w row db \<noteq> [];
      next_slot w row (max (sw_nextFireAt row) (sv_clock w (wk_scheduleId row))) = Inr t'\<rbrakk> \<Longrightarrow>
    tick w row db ConcurrencyForbidden (with_schedule (wk_scheduleId row) (moved_to w t') db)"
| tick_skips_actor: "\<lbrakk>next_slot w row (sw_nextFireAt row) = Inr t; actor_forbidden (sw_allowedActors row)\<rbrakk> \<Longrightarrow>
    tick w row db ActorNotAllowed (with_schedule (wk_scheduleId row) (moved_to w t) db)"
| tick_disables: "next_slot w row (sw_nextFireAt row) = Inl msg \<Longrightarrow>
    tick w row db InvalidCron (with_schedule (wk_scheduleId row) (disabled_at w) db)"

inductive ticks :: "sweep_world \<Rightarrow> worker_row list \<Rightarrow> worker_db \<Rightarrow> fire_reason list \<Rightarrow> worker_db \<Rightarrow> bool"
  for w :: sweep_world where
  no_ticks: "ticks w [] db [] db"
| more_ticks: "tick w row db r db' \<Longrightarrow> ticks w rows db' rs db'' \<Longrightarrow> ticks w (row # rows) db (r # rs) db''"

inductive_cases tick_reasons: "tick w row db FireOk db'" "tick w row db ConcurrencyForbidden db'"
  "tick w row db ActorNotAllowed db'" "tick w row db InvalidCron db'" "tick w row db FireError db'"

lemma not_fired_simps [simp]:
  "fr_reason (not_fired i r) = r" "fr_fired (not_fired i r) = False" "fr_scheduleId (not_fired i r) = i"
  by (simp_all add: not_fired_def)

lemma update_schedule_open: "update_schedule i f tx =
    (if tx_aborted tx then Inl TransactionAborted else Inr (tx\<lparr>tx_db := with_schedule i f (tx_db tx)\<rparr>))"
  by (simp add: update_schedule_def with_schedule_def)

lemma schedule_key_nonempty: "schedule_key row \<noteq> []"
  by (simp add: schedule_key_def)

lemma scheduled_run_simps [simp]:
  "ci_recipeNamespace (scheduled_run row) = wk_recipeNamespace row" "ci_recipeName (scheduled_run row) = wk_recipeName row"
  "ci_idempotencyKey (scheduled_run row) = Some (schedule_key row)"
  by (simp_all add: scheduled_run_def)

text \<open>In an open transaction the insert is refused, finds its window taken, or adds the run.\<close>

lemma create_run_open:
  assumes "\<not> tx_aborted tx"
  shows "create_run w (scheduled_run row) tx =
    (if sv_refuses w (tx_db tx) (new_run w row (tx_db tx)) then (tx\<lparr>tx_aborted := True\<rparr>, Inl InsertRefused)
     else if window_taken row (tx_db tx) then
       (tx, Inr (the (find (same_window (wk_recipeNamespace row) (wk_recipeName row) (schedule_key row)) (wd_runs (tx_db tx))), False))
     else (tx\<lparr>tx_db := (tx_db tx)\<lparr>wd_runs := wd_runs (tx_db tx) @ [new_run w row (tx_db tx)]\<rparr>\<rparr>,
           Inr (new_run w row (tx_db tx), True)))"
proof -
  have "window_taken row (tx_db tx) \<Longrightarrow>
      \<exists>r. find (same_window (wk_recipeNamespace row) (wk_recipeName row) (schedule_key row)) (wd_runs (tx_db tx)) = Some r"
    by (auto simp: window_taken_def conflicting_def find_None_iff list_ex_iff
        simp flip: not_None_eq)
  then show ?thesis
    using assms by (auto simp: create_run_def Let_def new_run_def window_taken_def schedule_key_nonempty)
qed

lemma fire_run_open:
  assumes "\<not> tx_aborted tx" and "fire_run w row t tx mem = (mem', out)"
  shows "(sv_refuses w (tx_db tx) (new_run w row (tx_db tx)) \<and>
      (\<exists>res. out = Inr (tx\<lparr>tx_aborted := True\<rparr>, res) \<and> fr_reason res = FireError \<and> \<not> fr_fired res)) \<or>
    (\<not> sv_refuses w (tx_db tx) (new_run w row (tx_db tx)) \<and>
      (\<exists>res. out = Inr (tx\<lparr>tx_db := with_schedule (wk_scheduleId row) (fired_at w t)
          (if window_taken row (tx_db tx) then tx_db tx
           else (tx_db tx)\<lparr>wd_runs := wd_runs (tx_db tx) @ [new_run w row (tx_db tx)]\<rparr>)\<rparr>, res) \<and>
        fr_reason res = FireOk \<and> fr_fired res))"
  using assms unfolding fire_run_def fired_at_def
  by (auto simp: create_run_open update_schedule_open split: if_splits)

lemma find_active_open:
  "\<not> tx_aborted tx \<Longrightarrow> find_active_run_for_recipe w ns n tx =
     (if live_runs (sv_now w) ns n (wd_runs (tx_db tx)) = [] then Inr None
      else Inr (Some (hd (sort_key wr_createdAt (live_runs (sv_now w) ns n (wd_runs (tx_db tx)))))))"
  by (simp add: find_active_run_for_recipe_def split: list.split)
     (metis set_empty set_sort list.sel(1))

text \<open>In an aborted transaction a row is an error or stops the batch.\<close>

lemma fire_one_aborted:
  assumes "tx_aborted tx" and "fire_one_schedule w row tx mem = (mem', Inr (tx', res))"
  shows "tx_aborted tx' \<and> fr_reason res = FireError"
  using assms
  by (auto simp: fire_one_schedule_def fire_run_def create_run_def update_schedule_open find_active_run_for_recipe_def
      Let_def split: sum.splits if_splits)

text \<open>In an open one it is a tick, or a refused insert that aborts the transaction.\<close>

lemma fire_one_open:
  assumes "\<not> tx_aborted tx" and "fire_one_schedule w row tx mem = (mem', Inr (tx', res))"
  shows "(\<not> tx_aborted tx' \<and> tick w row (tx_db tx) (fr_reason res) (tx_db tx') \<and> fr_reason res \<noteq> FireError \<and>
      (fr_fired res \<longleftrightarrow> fr_reason res = FireOk)) \<or>
    (tx_aborted tx' \<and> fr_reason res = FireError)"
proof (cases "next_slot w row (sw_nextFireAt row)")
  case (Inl msg)
  show ?thesis
    using assms tick_disables [OF Inl]
    by (auto simp: fire_one_schedule_def Inl update_schedule_open disabled_at_def [abs_def])
next
  case (Inr t)
  have fires: "?thesis" if run: "fire_run w row t tx mem = (mem', Inr (tx', res))"
    and free: "\<not> actor_forbidden (sw_allowedActors row)" "forbids_overlap row \<longrightarrow> recipe_live_runs w row (tx_db tx) = []"
    using fire_run_open [OF assms(1) run] tick_fires [OF Inr free] assms(1) by (elim disjE conjE exE) auto
  consider (actor) "actor_forbidden (sw_allowedActors row)"
    | (busy) "\<not> actor_forbidden (sw_allowedActors row)" "forbids_overlap row" "recipe_live_runs w row (tx_db tx) \<noteq> []"
    | (free) "\<not> actor_forbidden (sw_allowedActors row)" "forbids_overlap row \<longrightarrow> recipe_live_runs w row (tx_db tx) = []"
    by blast
  then show ?thesis
  proof cases
    case actor
    then show ?thesis
      using assms tick_skips_actor [OF Inr actor]
      by (auto simp: fire_one_schedule_def Inr update_schedule_open moved_to_def [abs_def])
  next
    case busy
    have "\<exists>t'. next_slot w row (max (sw_nextFireAt row) (sv_clock w (wk_scheduleId row))) = Inr t' \<and>
        tx' = tx\<lparr>tx_db := with_schedule (wk_scheduleId row) (moved_to w t') (tx_db tx)\<rparr> \<and>
        fr_reason res = ConcurrencyForbidden \<and> \<not> fr_fired res"
      using assms busy
      by (auto simp: fire_one_schedule_def Inr forbids_overlap_def find_active_open skip_forbidden_tick_def Let_def
          update_schedule_open moved_to_def [abs_def] split: sum.splits)
    then show ?thesis using tick_skips_overlap [OF Inr busy] assms(1) by auto
  next
    case free
    have "fire_run w row t tx mem = (mem', Inr (tx', res))"
      using assms free by (auto simp: fire_one_schedule_def Inr forbids_overlap_def find_active_open split: if_splits)
    then show ?thesis using free by (rule fires)
  qed
qed

lemma fire_rows_Cons:
  assumes "fire_rows w (row # rows) tx mem = (mem', Inr (tx', rs))"
  obtains mem1 tx1 res rs' where "fire_one_schedule w row tx mem = (mem1, Inr (tx1, res))"
    and "fire_rows w rows tx1 mem1 = (mem', Inr (tx', rs'))" and "rs = res # rs'"
  using assms by (auto split: prod.splits sum.splits)

lemma fire_rows_aborted:
  assumes "tx_aborted tx" and "fire_rows w rows tx mem = (mem', Inr (tx', rs))"
  shows "tx_aborted tx' \<and> (\<forall>r \<in> set rs. fr_reason r = FireError)"
  using assms
proof (induction rows arbitrary: tx mem mem' rs)
  case (Cons row rows)
  from fire_rows_Cons [OF Cons.prems(2)] obtain mem1 tx1 res rs' where
    one: "fire_one_schedule w row tx mem = (mem1, Inr (tx1, res))"
    and rest: "fire_rows w rows tx1 mem1 = (mem', Inr (tx', rs'))" and rs: "rs = res # rs'" .
  from fire_one_aborted [OF Cons.prems(1) one] have "tx_aborted tx1" "fr_reason res = FireError" by simp_all
  with Cons.IH [OF this(1) rest] rs show ?case by simp
qed simp

lemma fire_rows_open:
  assumes "\<not> tx_aborted tx" and "fire_rows w rows tx mem = (mem', Inr (tx', rs))"
  shows "(\<not> tx_aborted tx' \<and> ticks w rows (tx_db tx) (map fr_reason rs) (tx_db tx') \<and>
      (\<forall>r \<in> set rs. fr_reason r \<noteq> FireError \<and> (fr_fired r \<longleftrightarrow> fr_reason r = FireOk))) \<or>
    (tx_aborted tx' \<and> (\<exists>r \<in> set rs. fr_reason r = FireError))"
  using assms
proof (induction rows arbitrary: tx mem mem' rs)
  case Nil
  then show ?case by (auto intro: no_ticks)
next
  case (Cons row rows)
  from fire_rows_Cons [OF Cons.prems(2)] obtain mem1 tx1 res rs' where
    one: "fire_one_schedule w row tx mem = (mem1, Inr (tx1, res))"
    and rest: "fire_rows w rows tx1 mem1 = (mem', Inr (tx', rs'))" and rs: "rs = res # rs'" .
  from fire_one_open [OF Cons.prems(1) one] show ?case
  proof (elim disjE conjE)
    assume t: "\<not> tx_aborted tx1" "tick w row (tx_db tx) (fr_reason res) (tx_db tx1)" "fr_reason res \<noteq> FireError"
      "fr_fired res \<longleftrightarrow> fr_reason res = FireOk"
    from Cons.IH [OF t(1) rest] show ?thesis
      using t(3,4) rs more_ticks [OF t(2)] by (elim disjE conjE) auto
  next
    assume a: "tx_aborted tx1" "fr_reason res = FireError"
    from fire_rows_aborted [OF a(1) rest] a(2) rs show ?thesis by auto
  qed
qed

lemma fire_one_flag:
  "fire_one_schedule w row tx mem = (mem', Inr (tx', res)) \<Longrightarrow> fr_fired res \<longleftrightarrow> fr_reason res = FireOk"
  by (auto simp: fire_one_schedule_def fire_run_def skip_forbidden_tick_def Let_def
      split: sum.splits if_splits option.splits prod.splits)

lemma fire_rows_flags:
  "fire_rows w rows tx mem = (mem', Inr (tx', rs)) \<Longrightarrow> \<forall>r \<in> set rs. fr_fired r \<longleftrightarrow> fr_reason r = FireOk"
proof (induction rows arbitrary: tx mem mem' rs)
  case (Cons row rows)
  from fire_rows_Cons [OF Cons.prems] obtain mem1 tx1 res rs' where
    one: "fire_one_schedule w row tx mem = (mem1, Inr (tx1, res))"
    and rest: "fire_rows w rows tx1 mem1 = (mem', Inr (tx', rs'))" and rs: "rs = res # rs'" .
  from Cons.IH [OF rest] fire_one_flag [OF one] rs show ?case by simp
qed simp

lemma batch_flags:
  "fire_one_batch w n db mem = (db', mem', Inr rs) \<Longrightarrow> \<forall>r \<in> set rs. fr_fired r \<longleftrightarrow> fr_reason r = FireOk"
  by (auto simp: fire_one_batch_def Let_def split: if_splits prod.splits sum.splits dest!: fire_rows_flags)

lemma matured_rows_mem: "row \<in> set (matured_rows w n db) \<Longrightarrow>
    row \<in> set (wd_schedules db) \<and> sw_enabled row \<and> sw_nextFireAt row \<le> sv_now w \<and> wk_scheduleId row \<notin> sv_locked w"
  unfolding matured_rows_def by (drule in_set_takeD) simp

lemma batch_outcome:
  assumes "fire_one_batch w n db mem = (db', mem', out)"
  shows "(\<exists>rs. out = Inr rs \<and> ticks w (matured_rows w n db) db (map fr_reason rs) db' \<and>
      (\<forall>r \<in> set rs. fr_reason r \<noteq> FireError \<and> (fr_fired r \<longleftrightarrow> fr_reason r = FireOk))) \<or>
    (db' = db \<and> (\<forall>rs. out = Inr rs \<longrightarrow> (\<exists>r \<in> set rs. fr_reason r = FireError)))"
proof (cases "matured_rows w n db = []")
  case True
  then show ?thesis using assms by (auto simp: fire_one_batch_def intro: no_ticks)
next
  case False
  show ?thesis
  proof (cases "fire_rows w (matured_rows w n db) (transaction_begin db) mem")
    case (Pair m res)
    show ?thesis
    proof (cases res)
      case (Inl e)
      then show ?thesis using assms False Pair by (auto simp: fire_one_batch_def)
    next
      case (Inr q)
      obtain tx rs where q: "q = (tx, rs)" by (cases q)
      have o: "\<not> tx_aborted (transaction_begin db)" "tx_db (transaction_begin db) = db" by (simp_all add: transaction_begin_def)
      have out: "out = Inr rs" "db' = transaction_commit db tx"
        using assms False Pair Inr q by (auto simp: fire_one_batch_def)
      from fire_rows_open [OF o(1) Pair [unfolded Inr q]] show ?thesis
        unfolding o(2) using out by (elim disjE conjE) (auto simp: transaction_commit_def)
    qed
  qed
qed

section \<open>What a sequence of ticks does\<close>

lemma with_schedule_simps [simp]:
  "wd_runs (with_schedule i f db) = wd_runs db"
  "wd_schedules (with_schedule i f db) = map (\<lambda>r. if wk_scheduleId r = i then f r else r) (wd_schedules db)"
  by (simp_all add: with_schedule_def)

lemma row_update_ids [simp]:
  "wk_scheduleId (moved_to w t r) = wk_scheduleId r" "wk_scheduleId (fired_at w t r) = wk_scheduleId r"
  "wk_scheduleId (disabled_at w r) = wk_scheduleId r"
  by (simp_all add: moved_to_def fired_at_def disabled_at_def)

lemma new_run_simps [simp]:
  "ci_recipeNamespace (new_run w row db) = wk_recipeNamespace row" "ci_recipeName (new_run w row db) = wk_recipeName row"
  "wr_phase (new_run w row db) = RunPending" "wr_createdAt (new_run w row db) = sv_now w"
  "ci_idempotencyKey (new_run w row db) = Some (schedule_key row)"
  by (simp_all add: new_run_def inserted_run_def)

lemma new_run_live: "run_is_live (sv_now w) (new_run w row db)"
  by (simp add: run_is_live_def FORBID_PENDING_ACTIVE_BOUND_SECONDS_def)

definition recipe_runs :: "string \<Rightarrow> string \<Rightarrow> worker_db \<Rightarrow> run_row list" where
  "recipe_runs namespace name db = filter (\<lambda>r. ci_recipeNamespace r = namespace \<and> ci_recipeName r = name) (wd_runs db)"

lemma live_recipe_runs: "live_runs now ns n (wd_runs db) = filter (run_is_live now) (recipe_runs ns n db)"
  by (simp add: live_runs_def recipe_runs_def conj_commute conj_left_commute)

lemma recipe_runs_with_schedule [simp]: "recipe_runs ns n (with_schedule i f db) = recipe_runs ns n db"
  by (simp add: recipe_runs_def)

text \<open>A tick keeps the runs of a recipe or adds one pending run, and only for a schedule of that recipe.\<close>

lemma tick_runs:
  assumes "tick w row db res db'"
  shows "recipe_runs ns n db' = recipe_runs ns n db \<or>
    (wk_recipeNamespace row = ns \<and> wk_recipeName row = n \<and> \<not> actor_forbidden (sw_allowedActors row) \<and>
     (forbids_overlap row \<longrightarrow> live_runs (sv_now w) ns n (wd_runs db) = []) \<and>
     recipe_runs ns n db' = recipe_runs ns n db @ [new_run w row db])"
  using assms by cases (auto simp: recipe_runs_def)

lemma ticks_forbid:
  assumes "ticks w rows db res db'"
    and "\<forall>row \<in> set rows. wk_recipeNamespace row = ns \<and> wk_recipeName row = n \<longrightarrow> forbids_overlap row"
  shows "recipe_runs ns n db' = recipe_runs ns n db \<or>
    (live_runs (sv_now w) ns n (wd_runs db) = [] \<and>
     (\<exists>r. recipe_runs ns n db' = recipe_runs ns n db @ [r] \<and> wr_phase r = RunPending \<and> wr_createdAt r = sv_now w))"
  using assms
proof induction
  case (no_ticks db)
  show ?case by simp
next
  case (more_ticks row db r db' rows rs db'')
  have IH: "recipe_runs ns n db'' = recipe_runs ns n db' \<or>
    (live_runs (sv_now w) ns n (wd_runs db') = [] \<and>
     (\<exists>r. recipe_runs ns n db'' = recipe_runs ns n db' @ [r] \<and> wr_phase r = RunPending \<and> wr_createdAt r = sv_now w))"
    using more_ticks.IH more_ticks.prems by simp
  from tick_runs [OF more_ticks.hyps(1), of ns n] show ?case
  proof (elim disjE conjE)
    assume same: "recipe_runs ns n db' = recipe_runs ns n db"
    then show ?thesis using IH by (simp add: live_recipe_runs)
  next
    assume new: "wk_recipeNamespace row = ns" "wk_recipeName row = n"
      "forbids_overlap row \<longrightarrow> live_runs (sv_now w) ns n (wd_runs db) = []"
      "recipe_runs ns n db' = recipe_runs ns n db @ [new_run w row db]"
    have "live_runs (sv_now w) ns n (wd_runs db') \<noteq> []" using new(4) by (simp add: live_recipe_runs new_run_live)
    with IH new(4) have "recipe_runs ns n db'' = recipe_runs ns n db @ [new_run w row db]" by simp
    moreover have "live_runs (sv_now w) ns n (wd_runs db) = []" using new(1-3) more_ticks.prems by simp
    ultimately show ?thesis by simp
  qed
qed

lemma ticks_no_runs:
  assumes "ticks w rows db res db'"
    and "\<forall>row \<in> set rows. wk_recipeNamespace row = ns \<and> wk_recipeName row = n \<longrightarrow> actor_forbidden (sw_allowedActors row)"
  shows "recipe_runs ns n db' = recipe_runs ns n db"
  using assms
proof induction
  case (more_ticks row db r db' rows rs db'')
  then show ?case using tick_runs [OF more_ticks.hyps(1), of ns n] by auto
qed simp

section \<open>Where a due schedule ends up\<close>

text \<open>The turn of one schedule: its row before and at the end of the sweep, the runs before and after its turn.\<close>

definition settles :: "sweep_world \<Rightarrow> worker_row \<Rightarrow> worker_row \<Rightarrow> run_row list \<Rightarrow> run_row list \<Rightarrow> bool" where
  "settles w row row' runs runs' \<longleftrightarrow>
     (case next_slot w row (sw_nextFireAt row) of
        Inl msg \<Rightarrow> row' = disabled_at w row \<and> runs' = runs
      | Inr t \<Rightarrow>
          (if actor_forbidden (sw_allowedActors row) then row' = moved_to w t row \<and> runs' = runs
           else if forbids_overlap row \<and> live_runs (sv_now w) (wk_recipeNamespace row) (wk_recipeName row) runs \<noteq> [] then
             (\<exists>t'. next_slot w row (max (sw_nextFireAt row) (sv_clock w (wk_scheduleId row))) = Inr t' \<and>
                sw_nextFireAt row < t' \<and> sv_clock w (wk_scheduleId row) < t' \<and> row' = moved_to w t' row \<and> runs' = runs)
           else row' = fired_at w t row \<and>
             (if list_ex (same_window (wk_recipeNamespace row) (wk_recipeName row) (schedule_key row)) runs then runs' = runs
              else runs' = runs @ [inserted_run w (scheduled_run row) (length runs)])))"

text \<open>The next fire of a cron expression lies after the time it is asked from, as its parser documents.\<close>

definition cron_moves_on :: "sweep_world \<Rightarrow> bool" where
  "cron_moves_on w \<longleftrightarrow> (\<forall>cron zone t t'. sv_nextFire w cron zone t = Inr t' \<longrightarrow> t < t')"

lemma next_slot_later: "cron_moves_on w \<Longrightarrow> next_slot w row t = Inr t' \<Longrightarrow> t < t'"
  unfolding cron_moves_on_def compute_next_fire_def by blast

lemma window_taken_runs: "window_taken row db \<longleftrightarrow>
    list_ex (same_window (wk_recipeNamespace row) (wk_recipeName row) (schedule_key row)) (wd_runs db)"
  by (simp add: window_taken_def conflicting_def same_window_def)

text \<open>A tick settles its row and touches no other.\<close>

lemma tick_settles:
  assumes "cron_moves_on w" and "tick w row db res db'"
  shows "\<exists>f. wd_schedules db' = map (\<lambda>r. if wk_scheduleId r = wk_scheduleId row then f r else r) (wd_schedules db) \<and>
    (\<forall>r. wk_scheduleId (f r) = wk_scheduleId r) \<and> settles w row (f row) (wd_runs db) (wd_runs db')"
  using assms(2)
proof cases
  case (tick_fires t)
  then show ?thesis
    by (intro exI [of _ "fired_at w t"]) (auto simp: settles_def window_taken_runs new_run_def)
next
  case (tick_skips_overlap t t')
  then show ?thesis using next_slot_later [OF assms(1)]
    by (intro exI [of _ "moved_to w t'"]) (fastforce simp: settles_def)
next
  case (tick_skips_actor t)
  then show ?thesis by (intro exI [of _ "moved_to w t"]) (auto simp: settles_def)
next
  case (tick_disables msg)
  then show ?thesis by (intro exI [of _ "disabled_at w"]) (auto simp: settles_def)
qed

lemma settles_adds: "settles w row row' runs runs' \<Longrightarrow> \<exists>added. runs' = runs @ added"
  by (auto simp: settles_def split: sum.splits if_splits)

lemma ticks_settle:
  assumes "ticks w rows db res db'" and "cron_moves_on w"
    and "distinct (map wk_scheduleId rows)" and "distinct (map wk_scheduleId (wd_schedules db))"
    and "set rows \<subseteq> set (wd_schedules db)"
  shows "map wk_scheduleId (wd_schedules db') = map wk_scheduleId (wd_schedules db) \<and>
    set (wd_schedules db) - set rows \<subseteq> set (wd_schedules db') \<and> (\<exists>added. wd_runs db' = wd_runs db @ added) \<and>
    (\<exists>hist. length hist = Suc (length rows) \<and> hist ! 0 = wd_runs db \<and> hist ! length rows = wd_runs db' \<and>
      (\<forall>k < length rows. \<exists>row' \<in> set (wd_schedules db'). wk_scheduleId row' = wk_scheduleId (rows ! k) \<and>
        settles w (rows ! k) row' (hist ! k) (hist ! Suc k)))"
  using assms
proof induction
  case (no_ticks db)
  then show ?case by (auto intro: exI [of _ "[wd_runs db]"])
next
  case (more_ticks row db r db' rows rs db'')
  from tick_settles [OF more_ticks.prems(1) more_ticks.hyps(1)] obtain f where
    sch: "wd_schedules db' = map (\<lambda>r. if wk_scheduleId r = wk_scheduleId row then f r else r) (wd_schedules db)"
    and f: "\<forall>r. wk_scheduleId (f r) = wk_scheduleId r"
    and st: "settles w row (f row) (wd_runs db) (wd_runs db')" by blast
  have ids: "map wk_scheduleId (wd_schedules db') = map wk_scheduleId (wd_schedules db)"
    using f by (simp add: sch)
  have row: "row \<in> set (wd_schedules db)" and others: "wk_scheduleId row \<notin> wk_scheduleId ` set rows"
    and inj: "inj_on wk_scheduleId (set (wd_schedules db))"
    using more_ticks.prems by (auto simp: distinct_map)
  have keep: "s \<in> set (wd_schedules db')" if "s \<in> set (wd_schedules db)" "s \<noteq> row" for s
  proof -
    have "wk_scheduleId s \<noteq> wk_scheduleId row" using that row inj by (auto dest: inj_onD)
    then show ?thesis using that(1) by (auto simp: sch)
  qed
  have moved: "f row \<in> set (wd_schedules db')" "f row \<notin> set rows"
    using row others f by (force simp: sch, metis image_eqI)
  have sub: "set rows \<subseteq> set (wd_schedules db')" using more_ticks.prems(4) others keep by auto
  from more_ticks.IH [OF more_ticks.prems(1) _ _ sub] more_ticks.prems(2,3) ids obtain hist added where
    ids': "map wk_scheduleId (wd_schedules db'') = map wk_scheduleId (wd_schedules db)"
    and rest: "set (wd_schedules db') - set rows \<subseteq> set (wd_schedules db'')" and added: "wd_runs db'' = wd_runs db' @ added"
    and hist: "length hist = Suc (length rows)" "hist ! 0 = wd_runs db'" "hist ! length rows = wd_runs db''"
      "\<And>k. k < length rows \<Longrightarrow> \<exists>row' \<in> set (wd_schedules db''). wk_scheduleId row' = wk_scheduleId (rows ! k) \<and>
        settles w (rows ! k) row' (hist ! k) (hist ! Suc k)"
    by auto
  have own: "\<exists>row' \<in> set (wd_schedules db''). wk_scheduleId row' = wk_scheduleId row \<and>
      settles w row row' (wd_runs db) (hist ! 0)"
    using st moved rest f hist(2) by (intro bexI [of _ "f row"]) auto
  have turns: "\<exists>row' \<in> set (wd_schedules db''). wk_scheduleId row' = wk_scheduleId ((row # rows) ! k) \<and>
      settles w ((row # rows) ! k) row' ((wd_runs db # hist) ! k) ((wd_runs db # hist) ! Suc k)"
    if "k < length (row # rows)" for k
  proof (cases k)
    case 0
    then show ?thesis using own by simp
  next
    case (Suc j)
    then show ?thesis using hist(4) [of j] that by simp
  qed
  have "set (wd_schedules db) - set (row # rows) \<subseteq> set (wd_schedules db'')" using keep rest by auto
  moreover have "\<exists>added. wd_runs db'' = wd_runs db @ added" using settles_adds [OF st] added by auto
  ultimately show ?case using ids' hist(1,3) turns by (auto intro!: exI [of _ "wd_runs db # hist"])
qed

lemma matured_rows_distinct:
  assumes "distinct (map key (wd_schedules db))"
  shows "distinct (map key (matured_rows w n db))"
proof -
  let ?due = "filter (\<lambda>r. sw_enabled r \<and> sw_nextFireAt r \<le> sv_now w \<and> wk_scheduleId r \<notin> sv_locked w) (wd_schedules db)"
  have "distinct (map key ?due)" using assms by (rule distinct_map_filter)
  then have "distinct (map key (sort_key sw_nextFireAt ?due))" by (simp add: distinct_map)
  then show ?thesis by (simp add: matured_rows_def take_map flip: take_map)
qed

section \<open>The summary\<close>

lemma fold_count_result:
  "fold count_result rs s = \<lparr>ss_fired = ss_fired s + length (filter fr_fired rs),
     ss_actorNotAllowed = ss_actorNotAllowed s + length (filter (\<lambda>r. \<not> fr_fired r \<and> fr_reason r = ActorNotAllowed) rs),
     ss_concurrencyForbidden =
       ss_concurrencyForbidden s + length (filter (\<lambda>r. \<not> fr_fired r \<and> fr_reason r = ConcurrencyForbidden) rs),
     ss_skippedLock = ss_skippedLock s,
     ss_errors = ss_errors s + length (filter (\<lambda>r. \<not> fr_fired r \<and> fr_reason r \<notin> {ActorNotAllowed, ConcurrencyForbidden}) rs)\<rparr>"
  by (induction rs arbitrary: s) (auto simp: count_result_def)

definition tally :: "fire_reason \<Rightarrow> fire_reason list \<Rightarrow> nat" where
  "tally r rs = length (filter (\<lambda>x. x = r) rs)"

definition summary_of :: "fire_reason list \<Rightarrow> sweep_summary" where
  "summary_of rs = \<lparr>ss_fired = tally FireOk rs, ss_actorNotAllowed = tally ActorNotAllowed rs,
     ss_concurrencyForbidden = tally ConcurrencyForbidden rs, ss_skippedLock = False, ss_errors = tally InvalidCron rs\<rparr>"

lemma summary_of_results:
  assumes "\<forall>r \<in> set rs. fr_reason r \<noteq> FireError \<and> (fr_fired r \<longleftrightarrow> fr_reason r = FireOk)"
  shows "fold count_result rs empty_summary = summary_of (map fr_reason rs)"
proof -
  have eqs: "(fr_fired r \<longleftrightarrow> fr_reason r = FireOk) \<and>
      (\<not> fr_fired r \<and> fr_reason r = ActorNotAllowed \<longleftrightarrow> fr_reason r = ActorNotAllowed) \<and>
      (\<not> fr_fired r \<and> fr_reason r = ConcurrencyForbidden \<longleftrightarrow> fr_reason r = ConcurrencyForbidden) \<and>
      (\<not> fr_fired r \<and> fr_reason r \<notin> {ActorNotAllowed, ConcurrencyForbidden} \<longleftrightarrow> fr_reason r = InvalidCron)"
    if "r \<in> set rs" for r
    using bspec [OF assms that] by (cases "fr_reason r") simp_all
  have "filter fr_fired rs = filter (\<lambda>r. fr_reason r = FireOk) rs"
    "filter (\<lambda>r. \<not> fr_fired r \<and> fr_reason r = ActorNotAllowed) rs = filter (\<lambda>r. fr_reason r = ActorNotAllowed) rs"
    "filter (\<lambda>r. \<not> fr_fired r \<and> fr_reason r = ConcurrencyForbidden) rs = filter (\<lambda>r. fr_reason r = ConcurrencyForbidden) rs"
    "filter (\<lambda>r. \<not> fr_fired r \<and> fr_reason r \<notin> {ActorNotAllowed, ConcurrencyForbidden}) rs =
       filter (\<lambda>r. fr_reason r = InvalidCron) rs"
    by (rule filter_cong [OF refl], use eqs in blast)+
  then show ?thesis
    unfolding fold_count_result by (simp add: summary_of_def tally_def empty_summary_def filter_map comp_def)
qed

definition batch_size :: "nat option \<Rightarrow> nat" where
  "batch_size b = (case b of None \<Rightarrow> DEFAULT_BATCH_SIZE | Some n \<Rightarrow> n)"

lemma sweep_outcome:
  assumes "process_matured_schedules w b db mem = (db', mem', out)"
  shows "(sv_acquired w \<and> (\<exists>reasons. ticks w (matured_rows w (batch_size b) db) db reasons db' \<and>
      FireError \<notin> set reasons \<and> out = Inr (summary_of reasons))) \<or>
    (db' = db \<and> (\<forall>s. out = Inr s \<longrightarrow> (if sv_acquired w then 0 < ss_errors s else s = empty_summary\<lparr>ss_skippedLock := True\<rparr>)))"
proof (cases "sv_acquired w")
  case False
  then show ?thesis using assms by (auto simp: process_matured_schedules_def)
next
  case True
  obtain d m o' where bt: "fire_one_batch w (batch_size b) db mem = (d, m, o')" by (metis prod_cases3)
  have res: "db' = d" "out = map_sum id (\<lambda>rs. fold count_result rs empty_summary) o'"
    using assms True bt by (auto simp: process_matured_schedules_def batch_size_def split: sum.splits option.splits)
  from batch_outcome [OF bt] show ?thesis
  proof (elim disjE exE conjE)
    fix rs assume rs: "o' = Inr rs" "ticks w (matured_rows w (batch_size b) db) db (map fr_reason rs) d"
      "\<forall>r \<in> set rs. fr_reason r \<noteq> FireError \<and> (fr_fired r \<longleftrightarrow> fr_reason r = FireOk)"
    then have "FireError \<notin> set (map fr_reason rs)" by auto
    then show ?thesis using True res rs summary_of_results [OF rs(3)] by auto
  next
    assume u: "d = db" "\<forall>rs. o' = Inr rs \<longrightarrow> (\<exists>r \<in> set rs. fr_reason r = FireError)"
    have "0 < ss_errors s" if "out = Inr s" for s
    proof -
      from that res(2) obtain rs where rs: "o' = Inr rs" "s = fold count_result rs empty_summary" by (cases o') auto
      with u(2) obtain r where r: "r \<in> set rs" "fr_reason r = FireError" by auto
      moreover have "\<not> fr_fired r" using batch_flags [OF bt [unfolded rs(1)]] r by auto
      ultimately show ?thesis unfolding rs(2) fold_count_result
        by (simp add: filter_empty_conv) force
    qed
    then show ?thesis using True res(1) u(1) by auto
  qed
qed

lemma ticks_member:
  assumes "ticks w rows db res db'" and "row \<in> set rows"
  shows "\<exists>d r d'. tick w row d r d' \<and> r \<in> set res"
  using assms by induction auto

text \<open>With one schedule per recipe, a schedule has its turn on the runs its recipe had when the batch began.\<close>

lemma ticks_member_fresh:
  assumes "ticks w rows db res db'" and "row \<in> set rows"
    and "distinct (map (\<lambda>r. (wk_recipeNamespace r, wk_recipeName r)) rows)"
  shows "\<exists>d r d'. tick w row d r d' \<and>
    recipe_runs (wk_recipeNamespace row) (wk_recipeName row) d = recipe_runs (wk_recipeNamespace row) (wk_recipeName row) db"
  using assms
proof induction
  case (more_ticks row1 db r db' rows rs db'')
  show ?case
  proof (cases "row = row1")
    case True
    then show ?thesis using more_ticks.hyps(1) by blast
  next
    case False
    then have mem: "row \<in> set rows" using more_ticks.prems(1) by simp
    then have "(wk_recipeNamespace row1, wk_recipeName row1) \<noteq> (wk_recipeNamespace row, wk_recipeName row)"
      using more_ticks.prems(2) by force
    then have "recipe_runs (wk_recipeNamespace row) (wk_recipeName row) db' =
        recipe_runs (wk_recipeNamespace row) (wk_recipeName row) db"
      using tick_runs [OF more_ticks.hyps(1), of "wk_recipeNamespace row" "wk_recipeName row"] by auto
    then show ?thesis using more_ticks.IH [OF mem] more_ticks.prems(2) by auto
  qed
qed simp

text \<open>The table the reconciler of the recipes sees.\<close>

definition table_of :: "worker_row list \<Rightarrow> schedule_table" where
  "table_of rows = (\<lambda>(namespace, name).
     map_option schedule_row.truncate (find (\<lambda>r. wk_recipeNamespace r = namespace \<and> wk_recipeName r = name) rows))"

lemma table_of_row:
  assumes "distinct (map (\<lambda>r. (wk_recipeNamespace r, wk_recipeName r)) rows)" and "row \<in> set rows"
  shows "table_of rows (wk_recipeNamespace row, wk_recipeName row) = Some (schedule_row.truncate row)"
  using assms
proof (induction rows)
  case (Cons r rows)
  show ?case
  proof (cases "row = r")
    case True
    then show ?thesis by (simp add: table_of_def)
  next
    case False
    then have "row \<in> set rows" using Cons.prems(2) by simp
    moreover have "(wk_recipeNamespace r, wk_recipeName r) \<noteq> (wk_recipeNamespace row, wk_recipeName row)"
      using Cons.prems(1) calculation by force
    ultimately show ?thesis using Cons.IH Cons.prems(1) by (auto simp: table_of_def)
  qed
qed simp

lemma truncate_simps [simp]:
  "sw_enabled (schedule_row.truncate r) = sw_enabled r"
  "sw_allowedActors (schedule_row.truncate r) = sw_allowedActors r"
  "sw_concurrencyPolicy (schedule_row.truncate r) = sw_concurrencyPolicy r"
  by (simp_all add: schedule_row.truncate_def)

lemma same_actor_list_forbidden:
  assumes "same_actor_list a b"
  shows "actor_forbidden a \<longleftrightarrow> actor_forbidden b"
proof -
  have "map_option (set \<circ> sort) (stored_actors a) = map_option (set \<circ> sort) (stored_actors b)"
    using assms by (simp add: same_actor_list_eq flip: option.map_comp)
  then show ?thesis
    by (auto simp: stored_actors_def actor_forbidden_def comp_def split: option.splits if_splits)
qed

section \<open>The memory of skips\<close>

lemma length_evict_streaks:
  assumes "js_distinct m" and "distinct ks" and "set ks \<subseteq> set (js_keys m)"
  shows "js_distinct (evict_streaks ks m) \<and>
    length (evict_streaks ks m) \<le> max FORBID_SKIP_STREAK_CAPACITY (length m - length ks)"
  using assms
proof (induction ks m rule: evict_streaks.induct)
  case (2 k ks m)
  have "js_get m k \<noteq> None" using 2(4) by (simp add: js_get_None_iff)
  with 2(2) have "Suc (length (js_delete k m)) = length m" by (rule length_js_delete_mem)
  moreover have "set ks \<subseteq> set (js_keys (js_delete k m))" using 2(3,4) by auto
  ultimately show ?case using 2 by auto
qed simp

definition streaks_bounded :: "worker_memory \<Rightarrow> bool" where
  "streaks_bounded mem \<longleftrightarrow> js_distinct (wm_skipStreaks mem) \<and> length (wm_skipStreaks mem) \<le> FORBID_SKIP_STREAK_CAPACITY"

lemma record_skip_bounded: "streaks_bounded mem \<Longrightarrow> streaks_bounded (record_skip i t t' mem)"
proof -
  assume b: "streaks_bounded mem"
  let ?m = "\<lambda>s. js_set i s (js_delete i (wm_skipStreaks mem))"
  have "js_distinct (?m s)" for s using b by (simp add: streaks_bounded_def)
  then have "js_distinct (evict_streaks (js_keys (?m s)) (?m s)) \<and>
      length (evict_streaks (js_keys (?m s)) (?m s)) \<le> max FORBID_SKIP_STREAK_CAPACITY 0" for s
    using length_evict_streaks [of "?m s" "js_keys (?m s)"] by simp
  then show ?thesis by (simp add: record_skip_def Let_def streaks_bounded_def)
qed

lemma fire_one_bounded:
  assumes "streaks_bounded mem"
  shows "streaks_bounded (fst (fire_one_schedule w row tx mem))"
proof -
  have run: "streaks_bounded (fst (fire_run w row t tx mem))" for t
    using assms length_js_delete [of "wk_scheduleId row" "wm_skipStreaks mem"]
    by (auto simp: fire_run_def streaks_bounded_def split: prod.splits sum.splits)
  have skip: "streaks_bounded (fst (skip_forbidden_tick w row a tx mem))" for a
    using assms record_skip_bounded [OF assms] by (auto simp: skip_forbidden_tick_def Let_def split: sum.splits)
  show ?thesis
    using assms run skip by (auto simp: fire_one_schedule_def split: sum.splits option.splits)
qed

lemma fire_rows_bounded:
  "streaks_bounded mem \<Longrightarrow> streaks_bounded (fst (fire_rows w rows tx mem))"
proof (induction rows arbitrary: tx mem)
  case (Cons row rows)
  then show ?case
    using fire_one_bounded [OF Cons.prems, of w row tx] by (auto split: prod.splits sum.splits) (metis fst_conv)+
qed simp

lemma sweep_bounded:
  "streaks_bounded mem \<Longrightarrow> streaks_bounded (fst (snd (process_matured_schedules w b db mem)))"
  using fire_rows_bounded [of mem w "matured_rows w (batch_size b) db" "transaction_begin db"]
  by (auto simp: process_matured_schedules_def fire_one_batch_def Let_def batch_size_def [symmetric]
      split: prod.splits sum.splits)

section \<open>Properties\<close>

text \<open>C8: a sweep is all ticks or nothing: either every schedule it selects (due, enabled, not held by another
  session, up to the batch size) makes its tick on the tables, in order, and the summary counts what the ticks did, or the tables are as before and the sweep either failed, did not
  hold the lock, or reports an error.\<close>

theorem sweep_refines_ticks:
  assumes "process_matured_schedules w b db mem = (db', mem', out)"
  shows "(sv_acquired w \<and> (\<exists>reasons. ticks w (matured_rows w (batch_size b) db) db reasons db' \<and>
      FireError \<notin> set reasons \<and> out = Inr (summary_of reasons))) \<or>
    (db' = db \<and> (\<forall>s. out = Inr s \<longrightarrow> (if sv_acquired w then 0 < ss_errors s else s = empty_summary\<lparr>ss_skippedLock := True\<rparr>)))"
  using assms by (rule sweep_outcome)

text \<open>C10: the policy Forbid keeps the runs of a recipe apart: when all schedules of a recipe forbid overlap, a
  sweep adds at most one run of the recipe, adds none while one is live, and never leaves more than one
  live run where there was at most one.\<close>

theorem forbid_keeps_runs_apart:
  assumes "process_matured_schedules w b db mem = (db', mem', out)"
    and "\<forall>row \<in> set (wd_schedules db). wk_recipeNamespace row = ns \<and> wk_recipeName row = n \<longrightarrow> forbids_overlap row"
  shows "(live_runs (sv_now w) ns n (wd_runs db) \<noteq> [] \<longrightarrow> recipe_runs ns n db' = recipe_runs ns n db) \<and>
    length (recipe_runs ns n db') \<le> Suc (length (recipe_runs ns n db)) \<and>
    length (live_runs (sv_now w) ns n (wd_runs db')) \<le> max 1 (length (live_runs (sv_now w) ns n (wd_runs db)))"
proof -
  have "recipe_runs ns n db' = recipe_runs ns n db \<or> (live_runs (sv_now w) ns n (wd_runs db) = [] \<and>
      (\<exists>r. recipe_runs ns n db' = recipe_runs ns n db @ [r] \<and> wr_phase r = RunPending \<and> wr_createdAt r = sv_now w))"
    using sweep_outcome [OF assms(1)] ticks_forbid [of w "matured_rows w (batch_size b) db" db _ db' ns n]
      matured_rows_mem [of _ w "batch_size b" db] assms(2) by blast
  then show ?thesis by (auto simp: live_recipe_runs)
qed

text \<open>C22: every schedule a sweep selects (due, enabled, not held by another session, up to the batch size) is
  settled in its turn. Unless the sweep leaves the tables as they were: a schedule with an invalid cron is
  disabled and gets no run; one whose actors exclude the scheduler is moved to its next slot and gets no run;
  one that forbids overlap is, exactly while a run of its recipe is live at its turn, moved past its window and
  the present and gets no run; any other is moved to its next slot and gets the one new run of its window,
  unless the window has a run already. No other schedule changes, and no run is removed.\<close>

theorem due_schedules_are_settled:
  assumes "distinct (map wk_scheduleId (wd_schedules db))" and "cron_moves_on w"
    and "process_matured_schedules w b db mem = (db', mem', out)" and "db' \<noteq> db"
  shows "let rows = matured_rows w (batch_size b) db in
    map wk_scheduleId (wd_schedules db') = map wk_scheduleId (wd_schedules db) \<and>
    set (wd_schedules db) - set rows \<subseteq> set (wd_schedules db') \<and> (\<exists>added. wd_runs db' = wd_runs db @ added) \<and>
    (\<exists>hist. length hist = Suc (length rows) \<and> hist ! 0 = wd_runs db \<and> hist ! length rows = wd_runs db' \<and>
      (\<forall>k < length rows. \<exists>row' \<in> set (wd_schedules db'). wk_scheduleId row' = wk_scheduleId (rows ! k) \<and>
        settles w (rows ! k) row' (hist ! k) (hist ! Suc k)))"
proof -
  from sweep_outcome [OF assms(3)] assms(4) obtain reasons where
    t: "ticks w (matured_rows w (batch_size b) db) db reasons db'" by blast
  have "set (matured_rows w (batch_size b) db) \<subseteq> set (wd_schedules db)"
    using matured_rows_mem [of _ w "batch_size b" db] by blast
  from ticks_settle [OF t assms(2) matured_rows_distinct [OF assms(1)] assms(1) this] show ?thesis
    unfolding Let_def .
qed

text \<open>C30: one schedule whose run the database refuses stops all schedules of its batch: where each recipe has one
  schedule, a sweep that meets a schedule with a valid cron, whose actors admit the scheduler and which no
  live run of its recipe blocks, but whose run the database refuses, changes no table, whatever the other
  schedules of the batch are and whatever the summary reports of them; so the window stays due.\<close>

theorem refused_run_stops_the_batch:
  assumes "distinct (map (\<lambda>r. (wk_recipeNamespace r, wk_recipeName r)) (wd_schedules db))"
    and "row \<in> set (matured_rows w (batch_size b) db)" and "next_slot w row (sw_nextFireAt row) = Inr t"
    and "\<not> actor_forbidden (sw_allowedActors row)" and "forbids_overlap row \<longrightarrow> recipe_live_runs w row db = []"
    and "\<forall>d. sv_refuses w d (new_run w row d)"
  shows "fst (process_matured_schedules w b db mem) = db"
proof (rule ccontr)
  assume neq: "fst (process_matured_schedules w b db mem) \<noteq> db"
  obtain db' mem' out where eq: "process_matured_schedules w b db mem = (db', mem', out)" by (metis prod_cases3)
  with neq have "db' \<noteq> db" by simp
  with sweep_outcome [OF eq] obtain reasons where
    "ticks w (matured_rows w (batch_size b) db) db reasons db'" by blast
  from ticks_member_fresh [OF this assms(2) matured_rows_distinct [OF assms(1)]] obtain d r d' where
    tick: "tick w row d r d'"
    and same: "recipe_runs (wk_recipeNamespace row) (wk_recipeName row) d =
      recipe_runs (wk_recipeNamespace row) (wk_recipeName row) db" by blast
  have "forbids_overlap row \<longrightarrow> recipe_live_runs w row d = []" using assms(5) same by (simp add: live_recipe_runs)
  with tick show False using assms(3,4,6) by cases auto
qed

text \<open>C26: the settings of a recipe bind the worker: once the reconciler has written a recipe's schedule, a
  sweep creates no run of a suspended recipe or of one whose actors exclude the scheduler, and no run
  of a recipe without a policy, or with Forbid, while a run of it is live.\<close>

theorem recipe_settings_bind_the_worker:
  assumes "sr_scheduling recipe = Some sched" and "rendered_teams before"
    and "reconcile_scheduling next_fire teams now recipe before = (table_of (wd_schedules db), Inr a)"
    and "distinct (map (\<lambda>r. (wk_recipeNamespace r, wk_recipeName r)) (wd_schedules db))"
    and "process_matured_schedules w b db mem = (db', mem', out)"
    and "suspended sched \<or> actor_forbidden (sr_allowedActors recipe) \<or>
      resolve_schedule_concurrency_policy (sd_concurrencyPolicy sched) = ''Forbid'' \<and>
      live_runs (sv_now w) (sr_namespace recipe) (sr_name recipe) (wd_runs db) \<noteq> []"
  shows "recipe_runs (sr_namespace recipe) (sr_name recipe) db' = recipe_runs (sr_namespace recipe) (sr_name recipe) db"
proof -
  let ?ns = "sr_namespace recipe" and ?n = "sr_name recipe"
  from reconcile_outcome [OF assms(1,3)] obtain teamId row0 where
    row0: "table_of (wd_schedules db) (?ns, ?n) = Some row0" and mir: "mirrors recipe sched teamId row0"
    using assms(2) unfolding rendered_teams_def by (elim exE conjE disjE) (metis, metis fun_upd_same)
  have mine: "sw_enabled row \<longleftrightarrow> \<not> suspended sched" "actor_forbidden (sw_allowedActors row) \<longleftrightarrow> actor_forbidden (sr_allowedActors recipe)"
    "sw_concurrencyPolicy row = Some (resolve_schedule_concurrency_policy (sd_concurrencyPolicy sched))"
    if "row \<in> set (wd_schedules db)" "wk_recipeNamespace row = ?ns" "wk_recipeName row = ?n" for row
  proof -
    have "row0 = schedule_row.truncate row" using table_of_row [OF assms(4) that(1)] that(2,3) row0 by simp
    with mir show "sw_enabled row \<longleftrightarrow> \<not> suspended sched"
      "actor_forbidden (sw_allowedActors row) \<longleftrightarrow> actor_forbidden (sr_allowedActors recipe)"
      "sw_concurrencyPolicy row = Some (resolve_schedule_concurrency_policy (sd_concurrencyPolicy sched))"
      using same_actor_list_forbidden by (auto simp: mirrors_def)
  qed
  show ?thesis
  proof (cases "suspended sched \<or> actor_forbidden (sr_allowedActors recipe)")
    case True
    then have "\<forall>row \<in> set (matured_rows w (batch_size b) db). wk_recipeNamespace row = ?ns \<and> wk_recipeName row = ?n \<longrightarrow>
        actor_forbidden (sw_allowedActors row)"
      using matured_rows_mem [of _ w "batch_size b" db] mine by blast
    then show ?thesis using sweep_outcome [OF assms(5)] ticks_no_runs by blast
  next
    case False
    have "\<forall>row \<in> set (matured_rows w (batch_size b) db). wk_recipeNamespace row = ?ns \<and> wk_recipeName row = ?n \<longrightarrow>
        forbids_overlap row"
    proof (intro ballI impI, elim conjE)
      fix row assume "row \<in> set (matured_rows w (batch_size b) db)" "wk_recipeNamespace row = ?ns" "wk_recipeName row = ?n"
      then have "sw_concurrencyPolicy row = Some ''Forbid''"
        using matured_rows_mem [of row w "batch_size b" db] mine(3) [of row] assms(6) False by auto
      then show "forbids_overlap row" by (simp add: forbids_overlap_def resolve_concurrency_policy_def)
    qed
    then show ?thesis
      using sweep_outcome [OF assms(5)] ticks_forbid [of w "matured_rows w (batch_size b) db" db _ db' ?ns ?n] assms(6) False
      by blast
  qed
qed

section \<open>Concrete instances\<close>

definition demo_worker_row :: "string \<Rightarrow> string \<Rightarrow> instant \<Rightarrow> worker_row" where
  "demo_worker_row i policy at = \<lparr>sw_team = None, sw_cron = ''0 * * * *'', sw_timezone = ''UTC'', sw_nextFireAt = at,
     sw_enabled = True, sw_allowedActors = None, sw_maxDurationSeconds = None, sw_ttlSecondsAfterFinished = 60,
     sw_concurrencyPolicy = Some policy, sw_updatedAt = 0, wk_scheduleId = i, wk_recipeNamespace = ''ns'',
     wk_recipeName = i, wk_inputTemplate = None, wk_lastFireAt = None\<rparr>"

definition demo_world :: "(worker_db \<Rightarrow> run_row \<Rightarrow> bool) \<Rightarrow> sweep_world" where
  "demo_world refuses = \<lparr>sv_acquired = True, sv_now = 10000, sv_clock = (\<lambda>_. 10001),
     sv_nextFire = (\<lambda>c z t. Inr (t + 3600000)), sv_locked = {}, sv_refuses = refuses, sv_newId = (\<lambda>n. string_of_nat n)\<rparr>"

definition demo_memory :: worker_memory where
  "demo_memory = \<lparr>wm_skipStreaks = [], wm_sustained = []\<rparr>"

definition demo_tables :: "string \<Rightarrow> worker_db" where
  "demo_tables policy = \<lparr>wd_schedules = [demo_worker_row ''a'' policy 9000, demo_worker_row ''b'' policy 9500], wd_runs = []\<rparr>"

definition accepts_all :: "worker_db \<Rightarrow> run_row \<Rightarrow> bool" where
  "accepts_all d r = False"

definition refuses_b :: "worker_db \<Rightarrow> run_row \<Rightarrow> bool" where
  "refuses_b d r \<longleftrightarrow> ci_recipeName r = ''b''"

definition demo_sweep :: "worker_db \<times> worker_memory \<times> (worker_error + sweep_summary)" where
  "demo_sweep = process_matured_schedules (demo_world accepts_all) None (demo_tables ''Forbid'') demo_memory"

lemma demo_sweep_is:
  "process_matured_schedules (demo_world accepts_all) None (demo_tables ''Forbid'') demo_memory =
     (fst demo_sweep, fst (snd demo_sweep), snd (snd demo_sweep))"
  by (simp add: demo_sweep_def)

lemma demo_sweep_values:
  "snd (snd demo_sweep) = Inr (summary_of [FireOk, FireOk])" "length (wd_runs (fst demo_sweep)) = 2"
  "map sw_nextFireAt (wd_schedules (fst demo_sweep)) = [3609000, 3609500]"
  "map wk_scheduleId (wd_schedules (demo_tables ''Forbid'')) = [''a'', ''b'']"
  "wd_runs (demo_tables ''Forbid'') = []"
  "list_all forbids_overlap (wd_schedules (demo_tables ''Forbid''))"
  by code_simp+

lemma demo_sweep_changes: "fst demo_sweep \<noteq> demo_tables ''Forbid''"
  using demo_sweep_values(2,5) by auto

lemma sweep_refines_ticks_witness:
  "\<exists>reasons. ticks (demo_world accepts_all) (matured_rows (demo_world accepts_all) DEFAULT_BATCH_SIZE (demo_tables ''Forbid''))
     (demo_tables ''Forbid'') reasons (fst demo_sweep) \<and> FireError \<notin> set reasons \<and>
     summary_of reasons = summary_of [FireOk, FireOk]"
  using sweep_refines_ticks [OF demo_sweep_is] demo_sweep_changes demo_sweep_values(1) by (auto simp: batch_size_def)

lemma forbid_keeps_runs_apart_witness:
  "length (live_runs 10000 ''ns'' ''a'' (wd_runs (fst demo_sweep))) \<le> 1"
proof -
  have now: "sv_now (demo_world accepts_all) = 10000" by (simp add: demo_world_def)
  have all: "\<forall>row \<in> set (wd_schedules (demo_tables ''Forbid'')).
      wk_recipeNamespace row = ''ns'' \<and> wk_recipeName row = ''a'' \<longrightarrow> forbids_overlap row"
    using demo_sweep_values(6) by (simp add: list_all_iff)
  show ?thesis
    using forbid_keeps_runs_apart [OF demo_sweep_is all] demo_sweep_values(5) by (simp add: now live_runs_def)
qed

lemma due_schedules_are_settled_witness:
  "\<exists>row' \<in> set (wd_schedules (fst demo_sweep)). \<exists>runs runs'. wk_scheduleId row' = ''b'' \<and>
     settles (demo_world accepts_all) (demo_worker_row ''b'' ''Forbid'' 9500) row' runs runs' \<and> length (wd_runs (fst demo_sweep)) = 2"
proof -
  have d: "distinct (map wk_scheduleId (wd_schedules (demo_tables ''Forbid'')))" by (simp add: demo_sweep_values(4))
  have c: "cron_moves_on (demo_world accepts_all)" by (simp add: cron_moves_on_def demo_world_def)
  have m: "matured_rows (demo_world accepts_all) (batch_size None) (demo_tables ''Forbid'') =
      [demo_worker_row ''a'' ''Forbid'' 9000, demo_worker_row ''b'' ''Forbid'' 9500]"
    by code_simp
  have i: "wk_scheduleId (demo_worker_row ''b'' ''Forbid'' 9500) = ''b''" by (simp add: demo_worker_row_def)
  from due_schedules_are_settled [OF d c demo_sweep_is demo_sweep_changes] obtain hist where
    "\<forall>k < 2. \<exists>row' \<in> set (wd_schedules (fst demo_sweep)).
      wk_scheduleId row' = wk_scheduleId ([demo_worker_row ''a'' ''Forbid'' 9000, demo_worker_row ''b'' ''Forbid'' 9500] ! k) \<and>
      settles (demo_world accepts_all) ([demo_worker_row ''a'' ''Forbid'' 9000, demo_worker_row ''b'' ''Forbid'' 9500] ! k) row'
        (hist ! k) (hist ! Suc k)"
    unfolding m Let_def by (auto simp: numeral_2_eq_2)
  from this [rule_format, of 1] show ?thesis using i demo_sweep_values(2) by auto
qed

text \<open>A good schedule and a refused one: the sweep says one fired, and nothing is stored.\<close>

lemma refused_run_stops_the_batch_witness:
  "fst (process_matured_schedules (demo_world refuses_b) None (demo_tables ''Forbid'') demo_memory) = demo_tables ''Forbid'' \<and>
   map_sum id ss_fired (snd (snd (process_matured_schedules (demo_world refuses_b) None (demo_tables ''Forbid'') demo_memory))) = Inr 1"
proof -
  let ?w = "demo_world refuses_b" and ?row = "demo_worker_row ''b'' ''Forbid'' 9500"
  have "distinct (map (\<lambda>r. (wk_recipeNamespace r, wk_recipeName r)) (wd_schedules (demo_tables ''Forbid'')))"
    "?row \<in> set (matured_rows ?w (batch_size None) (demo_tables ''Forbid''))"
    "next_slot ?w ?row (sw_nextFireAt ?row) = Inr 3609500" "\<not> actor_forbidden (sw_allowedActors ?row)"
    "forbids_overlap ?row \<longrightarrow> recipe_live_runs ?w ?row (demo_tables ''Forbid'') = []"
    by code_simp+
  moreover have "\<forall>d. sv_refuses ?w d (new_run ?w ?row d)"
    by (simp add: demo_world_def refuses_b_def demo_worker_row_def)
  ultimately have "fst (process_matured_schedules ?w None (demo_tables ''Forbid'') demo_memory) = demo_tables ''Forbid''"
    by (rule refused_run_stops_the_batch)
  moreover have "map_sum id ss_fired (snd (snd (process_matured_schedules ?w None (demo_tables ''Forbid'') demo_memory))) = Inr 1"
    by code_simp
  ultimately show ?thesis ..
qed

definition demo_mirrored :: worker_row where
  "demo_mirrored = \<lparr>sw_team = Some (js_lower demo_team), sw_cron = ''0 * * * *'', sw_timezone = ''UTC'', sw_nextFireAt = 3605,
     sw_enabled = True, sw_allowedActors = Some [''user''], sw_maxDurationSeconds = Some 60,
     sw_ttlSecondsAfterFinished = MAX_TTL_SECONDS_AFTER_FINISHED, sw_concurrencyPolicy = Some ''Forbid'', sw_updatedAt = 5,
     wk_scheduleId = ''i'', wk_recipeNamespace = ''ns'', wk_recipeName = ''r'', wk_inputTemplate = None, wk_lastFireAt = None\<rparr>"

lemma recipe_settings_bind_the_worker_witness:
  "recipe_runs ''ns'' ''r'' (fst (process_matured_schedules (demo_world accepts_all) None
     \<lparr>wd_schedules = [demo_mirrored], wd_runs = []\<rparr> demo_memory)) = []"
proof -
  let ?db = "\<lparr>wd_schedules = [demo_mirrored], wd_runs = []\<rparr>"
  obtain db' mem' out where p: "process_matured_schedules (demo_world accepts_all) None ?db demo_memory = (db', mem', out)"
    by (metis prod_cases3)
  have k: "fst (reconcile_scheduling demo_next_fire {js_lower demo_team} 5 demo_scheduled (\<lambda>_. None)) (''ns'', ''r'') =
      Some (schedule_row.truncate demo_mirrored)" by code_simp
  obtain d where d: "reconcile_scheduling demo_next_fire {js_lower demo_team} 5 demo_scheduled (\<lambda>_. None) = (d, Inr ScheduleCreated)"
    using demo_reconciled(1) by (metis prod.collapse)
  from reconcile_outcome [OF demo_reconciled(4) d] obtain row where "d = (\<lambda>_. None)((''ns'', ''r'') \<mapsto> row)"
    by (auto simp: demo_scheduled_def)
  moreover have "d (''ns'', ''r'') = Some (schedule_row.truncate demo_mirrored)" using k d by simp
  ultimately have "d = table_of [demo_mirrored]"
    by (auto simp: table_of_def demo_mirrored_def)
  with d have r: "reconcile_scheduling demo_next_fire {js_lower demo_team} 5 demo_scheduled (\<lambda>_. None) =
      (table_of (wd_schedules ?db), Inr ScheduleCreated)" by simp
  have "actor_forbidden (sr_allowedActors demo_scheduled)" by code_simp
  with recipe_settings_bind_the_worker [OF demo_reconciled(4) _ r _ p] show ?thesis
    using p by (simp add: rendered_teams_def demo_scheduled_def recipe_runs_def)
qed

end
