(* ===== verification/Spec2Isabelle.thy ===== *)
theory Spec2Isabelle
  imports TaskLifecycle MessageQueue SessionProcessor Failover ToolLane GfsTokens GfsLimits GfsAudit
    Uploads GfsCopy SsrfGuard WorkflowLimits WorkflowRecovery ScheduleWorker
begin

text \<open>
  A verification library for the decision-making core of the platform: the task pipeline and the
  guardrails of the agent runtime (\<open>mcp-host\<close>), authorization, quotas and audit of the file service
  (\<open>gfs-controller\<close>), and the step graph, recovery and schedules of workflows (\<open>workflow-recipes\<close>).
  Paths below are relative to the \<open>src\<close> directory of the service.

  \<^bold>\<open>How the parts interact.\<close> A message becomes a task. The \<^emph>\<open>message queue\<close> admits it, refusing
  duplicates and overflow, and registers it with the \<^emph>\<open>lifecycle\<close>, the only writer of task states.
  The \<^emph>\<open>session processor\<close> keeps one queue per session, starts at most one task per session, and moves
  it through the lifecycle while the agent works. The agent calls a model through the \<^emph>\<open>failover\<close>
  engine, and tools through the \<^emph>\<open>tool lane\<close>: permission rules, remote hooks behind circuit breakers
  and the doom-loop guard contribute decisions to the \<^emph>\<open>boundary engine\<close>, whose verdict the
  \<^emph>\<open>approval gate\<close> turns into execution, a refusal or a question to a human. Files are reached through the
  file service, which verifies a token, resolves its principal to subjects, and decides each
  operation from its cache or its tables with one audit row per decision; large files reach it part by
  part through \<^emph>\<open>resumable uploads\<close>. Workflows are recipes of
  dependent steps, run in layers by pods that the reconciler recovers, on schedules it mirrors to a table.

  \<^bold>\<open>Agent runtime\<close> (\<open>mcp-host/src\<close>):
  \<^item> \<open>TaskTypes\<close>, \<open>TaskLifecycle\<close>: \<open>queue/types.ts\<close>, \<open>lifecycle/\<close>. \<open>lifecycle\<close> is the map of records with
    the time of the last clean-up; \<open>register\<close>, \<open>transition_task\<close>, \<open>drain_non_terminal\<close> and
    \<open>cleanup_stale_records\<close> are its methods, each returning the events it emits. Lemmas: records are
    well formed on all reachable states; the operations refine an abstract machine of phases; a
    terminal state is never left.
  \<^item> \<open>MessageQueue\<close>: \<open>queue/messageQueue.ts\<close>. Tasks live in a heap keyed by id, because the code shares
    the objects. Lemmas: the invariant \<open>mq_ok\<close>, duplicate suppression, bounds and order of the queue.
  \<^item> \<open>SessionProcessor\<close>: \<open>session/\<close>. Dispatcher, budget gate, settlement of awaited promises, timer.
    Lemmas: no session runs two tasks, no ready task is left waiting, first-in first-out order,
    round trip of session keys.
  \<^item> \<open>Failover\<close>: \<open>llm/failover/\<close>. Policy, classification, plan and the loop over targets. Lemmas: the
    attempts follow the plan without repetition, terminal errors are passed on unchanged.
  \<^item> \<open>Guardrails\<close>, \<open>ToolRules\<close>, \<open>Breakers\<close>, \<open>Approval\<close>, \<open>ToolLane\<close>: \<open>core/guardrails/\<close>, \<open>core/extensions/\<close>,
    \<open>core/orchestration/toolCallPolicy.ts\<close> and \<open>pluginWorkloadSdk/domain/circuitBreaker.ts\<close>. Decisions
    form a linear order and a boundary takes the strictest. Lemmas: a guarded call does what the last round
    it evaluates says, and executes only the input of that round, a matching deny rule blocks, breakers count consecutive
    failures, stateless schedules always ask.
  \<^item> \<open>SsrfGuard\<close>: \<open>core/net/ssrf.ts\<close>, the guard of requests that tools and remote hooks send out. Addresses are
    words, an exchange is a fold over the events of its socket. Lemmas: the prefixes are exactly the
    documented ranges in every spelling of an address, a host is pinned to a public address or refused,
    an accepted body keeps its bound.

  \<^bold>\<open>File service\<close> (\<open>gfs-controller/src\<close>):
  \<^item> \<open>GfsDecision\<close>: \<open>authz/resolve.ts\<close>, \<open>tokenCeiling.ts\<close>, \<open>cache.ts\<close>, \<open>invalidation.ts\<close> and the queries of
    \<open>permissionClient.ts\<close> as functions over a \<open>gfs_store\<close>, the tables as lists of rows.
  \<^item> \<open>GfsClient\<close>: \<open>permissionClient.ts\<close> and \<open>audit.ts\<close>. A batch awaits the store, so a call takes a world
    that says what the others do to the cache meanwhile. Lemmas: a batch answers like the store
    promises, what an undisturbed call stores is coherent with the store, every decision served
    is audited, a failing store allows nothing.
  \<^item> \<open>GfsReader\<close>: the same calls cut at their awaits, any number of them beside the listener of
    \<open>invalidation.ts\<close> and the writers of the tables, as the step relation \<open>reader_step\<close>. The cache key does
    not hold the drive, so \<open>drive_of\<close> names for each key the drive its callers use, and the step relation
    admits only calls that keep to it. Lemmas: once every revocation is heard and no call that read before
    one has stored after it, the cache answers what the store says; a call in flight across a revocation, or a
    second drive, can break this, and how.
  \<^item> \<open>GfsTokens\<close>: \<open>auth/verify.ts\<close>, \<open>authz/subjectResolver.ts\<close>. Lemmas: verified claims are well formed,
    operator authority needs the token's own Desktop user, active, and a current, active link to it, a verified
    caller gets what the tables say.
  \<^item> \<open>GfsLimits\<close>: \<open>quota/\<close>. Lemma: the rate limiter equals a reference that forgets nothing.
  \<^item> \<open>GfsAudit\<close>: \<open>audit/chain.ts\<close>. Lemmas: what tampering is detected and what is not.
  \<^item> \<open>UploadGeometry\<close>, \<open>UploadSession\<close>: \<open>upload/protocol.ts\<close>, \<open>upload/uploadSession.ts\<close>,
    \<open>upload/uploadFinalizer.ts\<close>. \<open>upload_system\<close> holds the session rows with their part rows, the staged
    files by path, what was published, and the fences the process keeps in memory. A request is cut at
    its awaits: \<open>put_part_begin\<close>, \<open>put_part_reserve\<close>, \<open>receive_part\<close>, \<open>rename_part\<close>, \<open>commit_part\<close> and
    \<open>fail_part\<close> are the stations of one part, \<open>complete_begin\<close>, \<open>finalize_publish\<close>, \<open>complete_receipt\<close> and
    \<open>complete_cleanup\<close> those of a completion.
  \<^item> \<open>UploadProtocol\<close>: the step relation \<open>upload_step\<close> that interleaves the stations of any number of requests
    with maintenance and crashes. \<open>UploadCounters\<close>, \<open>UploadPaths\<close>, \<open>UploadRows\<close>: the sums, the paths and the
    changes of one row its proofs need. \<open>UploadIntegrity\<close>, \<open>UploadPublication\<close>: the invariant of the staging
    directory, and what a finalizer finds there. \<open>Uploads\<close>: the properties, and a run they are applied to.
    Lemmas: the books of a session are those of its rows, committed parts are on disk with their
    checksum, phases follow an automaton, a finalized upload publishes its parts when nothing refuses, and does so once; an id in
    upper case loses its parts.
  \<^item> \<open>GfsCopy\<close>: \<open>api/copy.ts\<close> and, of \<open>db/copyPublication.ts\<close>, \<open>reserve\<close> and \<open>revalidate\<close>. A snapshot of a tree is
    checked, new rows are reserved for it, and the publishing transaction compares it with the tables
    again. Lemmas: an accepted snapshot is one tree within its limits, what is reserved is that tree below
    the destination, and what passes the second check is what was checked first.

  \<^bold>\<open>Workflows\<close> (\<open>workflow-recipes/src/workflow\<close>):
  \<^item> \<open>StepGraph\<close>, \<open>WorkflowLimits\<close>: \<open>stepDependencyGraph.ts\<close>, \<open>workflowLimits.ts\<close>. Lemmas: groups are the layers
    of the dependency relation, a refusal names a real cycle or an unknown step, dependents are
    the transitive closure, admitted recipes run in layers.
  \<^item> \<open>WorkflowRecovery\<close>: \<open>crashRecovery.ts\<close> and the recovery block of \<open>workflowReconciler.ts\<close>. Other
    writes of the execution status are events between the blocks. Lemmas: pods are deleted by no more blocks
    than attempts are left or were forgotten, attempts are recorded before pods are deleted, waiting ends.
  \<^item> \<open>WorkflowSchedule\<close>: \<open>schedulingHandler.ts\<close>. Lemma: a reconciled row mirrors its recipe.
  \<^item> \<open>ScheduleWorker\<close>: \<open>workflowScheduleWorkerService.ts\<close> and \<open>createRun\<close> of \<open>workflowRunService.ts\<close>, both in
    \<open>control-api/src/services\<close>: the sweep over the rows \<open>WorkflowSchedule\<close> writes, in its transaction.
    Lemmas: a sweep refines a sequence of ticks on the tables or changes nothing, each selected schedule is
    settled in its turn, Forbid keeps runs apart, a recipe's settings bind the worker, and one refused run stops a
    batch.

  \<^bold>\<open>Shared means.\<close> \<open>Prelude\<close> holds JavaScript maps (association lists in insertion order, behind the locale
  \<open>keyed_store\<close>), text functions, and the locale \<open>inductive_invariant\<close>, interpreted by the
  step relations of the session processor, of a reader of the file service and (twice) of its uploads.
  \<open>task_registry\<close> is
  what the queue and the processor may assume of the lifecycle, \<open>circuit_breaker\<close> the contract both
  breakers meet. Optional fields are options; an error is a value of a sum or option type; a
  clock reading, a random id and a settled promise are arguments; numbers are integers except where the
  code's own range checks are written out.

  \<^bold>\<open>Loops and bounds.\<close> Loops are recursive functions with termination proofs: the dispatch loop by the
  number of waiting tasks, the rewrite loop by the code's own bound of 64 rounds, Kahn's algorithm by the
  steps not yet placed, the depth-first search by the unvisited steps, the ancestor query by the
  resources not yet seen, matching of patterns by their lengths. No fuel stands in for a loop. The one loop
  that may run for ever, the polling of a pod's deletion, is a partial function, and that it returns within
  its timeout is proved.

  \<^bold>\<open>Not modelled.\<close> Input and output as such (HTTP, PostgreSQL drivers, Kubernetes, file systems,
  log output, metrics); the platform's \<open>URL\<close> parser, \<open>localeCompare\<close>, JWT verification, cron
  library, SHA-256 and the database's uuid conversion are parameters; the deadline variant of the
  permission client, the sink that inserts audit rows, and \<open>emitInvalidation\<close>, which only sends, are
  left out. Of uploads: a maintenance pass is taken row by row, and one that rolls back after it removed
  files is not modelled; a look at a path and the rename or removal after it are one step, and so is
  publication with its commit (\<open>publication_world\<close> holds what it meets outside the tables of uploads); symbolic links, directories in the way of a file and the routes'
  parsing are left out. Of copies, the staging of blobs, the insert and the inspection of a commit whose
  outcome is unknown are left out. Of recovery, the deletions of anchor and output-prepare pods are left out. So are provider adapters, MCP sessions, the control API's SQL, the other reconcilers
  and the user interfaces.
\<close>

section \<open>Across components\<close>

lemma lone_task_skipped:
  assumes "phases l t = None" and "0 < sc_maxConcurrent cfg" and "0 \<le> now" and "key \<noteq> []"
  shows "snd (snd (sp_enqueue cfg key t now idle_processor l)) = [SpEnqueued key t, SpSkipped key t NotFound]"
proof -
  have tr: "transition_task t Processing Dispatched no_payload now l = (l, NotFound, [])"
    using assms(1) by (simp add: transition_task_def phases_def)
  show ?thesis
    using assms(2-4)
    by (simp add: sp_enqueue_def idle_processor_def try_process_next.simps [of cfg] pick_next_ready_session_def
        session_ready_def shift_task_def tr applied_outcome_def Let_def)
qed

lemma serialized_key_nonempty: "serialize_session_key k \<noteq> []"
  by (simp add: serialize_session_key_def)

text \<open>C27: a cron task refused by a full queue is lost without a trace of failure: the scheduler
  ignores the refusal and hands the task to the session processor, whose idle dispatch loop then
  skips it as unknown: the task is neither executed nor failed.\<close>

theorem refused_cron_task_is_skipped:
  assumes "mq_ok s" and "mq_lifecycle s \<noteq> None" and "mq_phases s (tk_id t) = None"
    and "mq_maxQueueSize s \<le> length (mq_pendingQueue s)" and "0 < sc_maxConcurrent cfg" and "0 \<le> now"
  shows "snd (snd (sp_enqueue cfg (serialize_session_key (resolve_cron_task_session_key t)) (tk_id t) now
             idle_processor (the (mq_lifecycle (fst (enqueue t now s)))))) =
         [SpEnqueued (serialize_session_key (resolve_cron_task_session_key t)) (tk_id t),
          SpSkipped (serialize_session_key (resolve_cron_task_session_key t)) (tk_id t) NotFound]"
proof (rule lone_task_skipped [OF _ assms(5,6) serialized_key_nonempty])
  have "fst (enqueue t now s) = fst (admit t now s)"
    by (simp add: enqueue_def case_prod_beta Let_def)
  moreover have "mq_phases (fst (admit t now s)) (tk_id t) = None"
    by (rule rejected_full_absent [OF assms(1,3,4)])
  moreover obtain l where "mq_lifecycle (fst (admit t now s)) = Some l"
    using assms(2) admit_lifecycle [of t now s] by (cases "mq_lifecycle (fst (admit t now s))") auto
  ultimately show "phases (the (mq_lifecycle (fst (enqueue t now s)))) (tk_id t) = None"
    by (simp add: mq_phases_def)
qed

lemma refused_cron_task_is_skipped_witness:
  "SpSkipped ''system:cron:b:default'' ''b'' NotFound \<in> set (snd (snd (sp_enqueue demo_cfg
     (serialize_session_key (resolve_cron_task_session_key (blank_task ''b'' FromCron Normal 9))) ''b'' 9
     idle_processor (the (mq_lifecycle (fst (enqueue (blank_task ''b'' FromCron Normal 9) 9
       (fst (admit (sample_task ''a'' ''m1'') 7 (sample_queue 1)))))))))) "
proof -
  let ?s = "fst (admit (sample_task ''a'' ''m1'') 7 (sample_queue 1))"
  have ok: "mq_ok ?s" by (rule admit_ok) (rule sample_queue_ok)
  have h: "mq_lifecycle ?s \<noteq> None" "mq_phases ?s (tk_id (blank_task ''b'' FromCron Normal 9)) = None"
    "mq_maxQueueSize ?s \<le> length (mq_pendingQueue ?s)" "0 < sc_maxConcurrent demo_cfg"
    "tk_id (blank_task ''b'' FromCron Normal 9) = ''b''"
    "serialize_session_key (resolve_cron_task_session_key (blank_task ''b'' FromCron Normal 9)) =
       ''system:cron:b:default''"
    by code_simp+
  show ?thesis using refused_cron_task_is_skipped [OF ok h(1-4), of 9] h(5,6) by simp
qed

end
